(* ===== verification/Prelude.thy ===== *)
theory Prelude
  imports Main "HOL-Library.List_Lexorder" "HOL-Library.Sublist"
begin

text \<open>
  Shared vocabulary of the development: Unicode text, results (\<open>Result<T, E>\<close>), state-passing
  operations that may fail, and the fixed-width counters that saturate.

  A Rust \<open>str\<close> is a sequence of Unicode scalar values. It is modelled as the list of its code
  points (\<open>ustr\<close>), and \<open>lit\<close> turns an ASCII literal into one. The order of \<open>String\<close> is the
  lexicographic order of its UTF-8 bytes, which is the lexicographic order of the code points, so
  the order of \<open>List_Lexorder\<close> on \<open>nat list\<close> is the order of \<open>String\<close>.

  A \<open>Result<T, E>\<close> is a value of \<open>'e + 'a\<close>, \<open>Inl\<close> the error; \<open>and_then\<close> is the \<open>?\<close> operator.
\<close>

named_theorems result_simps \<open>equations and case rules of results and failing operations\<close>
named_theorems text_simps \<open>evaluation of text literals\<close>

type_synonym uchar = nat
type_synonym ustr = "uchar list"

definition lit :: "string \<Rightarrow> ustr" where
  "lit s = map of_char s"

text \<open>\<open>str::len\<close> counts UTF-8 bytes, not characters.\<close>

definition utf8_width :: "uchar \<Rightarrow> nat" where
  "utf8_width c = (if c < 128 then 1 else if c < 2048 then 2 else if c < 65536 then 3 else 4)"

definition utf8_len :: "ustr \<Rightarrow> nat" where
  "utf8_len s = sum_list (map utf8_width s)"

text \<open>
  \<open>char::is_control\<close> is the Unicode category Cc; \<open>char::is_whitespace\<close> is the Unicode property
  White_Space; \<open>is_ascii_alphabetic\<close> and \<open>is_ascii_alphanumeric\<close> are ASCII ranges.
\<close>

definition is_control :: "uchar \<Rightarrow> bool" where
  "is_control c \<longleftrightarrow> c < 32 \<or> (127 \<le> c \<and> c < 160)"

definition is_whitespace :: "uchar \<Rightarrow> bool" where
  "is_whitespace c \<longleftrightarrow> (9 \<le> c \<and> c \<le> 13) \<or> c = 32 \<or> c = 133 \<or> c = 160 \<or> c = 5760 \<or>
     (8192 \<le> c \<and> c \<le> 8202) \<or> c = 8232 \<or> c = 8233 \<or> c = 8239 \<or> c = 8287 \<or> c = 12288"

definition is_ascii_alphabetic :: "uchar \<Rightarrow> bool" where
  "is_ascii_alphabetic c \<longleftrightarrow> (65 \<le> c \<and> c \<le> 90) \<or> (97 \<le> c \<and> c \<le> 122)"

definition is_ascii_alphanumeric :: "uchar \<Rightarrow> bool" where
  "is_ascii_alphanumeric c \<longleftrightarrow> is_ascii_alphabetic c \<or> (48 \<le> c \<and> c \<le> 57)"

text \<open>\<open>str::trim\<close> drops leading and trailing white space.\<close>

definition str_trim :: "ustr \<Rightarrow> ustr" where
  "str_trim s = rev (dropWhile is_whitespace (rev (dropWhile is_whitespace s)))"

text \<open>\<open>str::split(c)\<close>: the pieces between separators, at least one piece.\<close>

fun str_split :: "uchar \<Rightarrow> ustr \<Rightarrow> ustr list" where
  "str_split c [] = [[]]"
| "str_split c (x # xs) =
     (if x = c then [] # str_split c xs
      else case str_split c xs of
             [] \<Rightarrow> [[x]]
           | piece # pieces \<Rightarrow> (x # piece) # pieces)"

text \<open>\<open>str::split_once(sep)\<close>: what is before and after the first occurrence.\<close>

fun str_split_once :: "ustr \<Rightarrow> ustr \<Rightarrow> (ustr \<times> ustr) option" where
  "str_split_once sep [] = (if sep = [] then Some ([], []) else None)"
| "str_split_once sep (c # s) =
     (if prefix sep (c # s) then Some ([], drop (length sep) (c # s))
      else map_option (\<lambda>(a, b). (c # a, b)) (str_split_once sep s))"

text \<open>\<open>[&str]::join(sep)\<close>.\<close>

fun str_join :: "ustr \<Rightarrow> ustr list \<Rightarrow> ustr" where
  "str_join sep [] = []"
| "str_join sep [x] = x"
| "str_join sep (x # y # ys) = x @ sep @ str_join sep (y # ys)"

text \<open>Decimal and hexadecimal rendering of unsigned numbers, as \<open>Display\<close> and \<open>{:x}\<close> do.\<close>

definition digit_char :: "nat \<Rightarrow> uchar" where
  "digit_char d = (if d < 10 then 48 + d else 87 + d)"

function render_base :: "nat \<Rightarrow> nat \<Rightarrow> ustr" where
  "render_base b n = (if n < b \<or> b < 2 then [digit_char n] else render_base b (n div b) @ [digit_char (n mod b)])"
  by pat_completeness auto
termination
  by (relation "measure snd") auto

declare render_base.simps [simp del]

definition show_nat :: "nat \<Rightarrow> ustr" where
  "show_nat n = render_base 10 n"

definition show_hex :: "nat \<Rightarrow> ustr" where
  "show_hex n = render_base 16 n"

text \<open>Results.\<close>

definition and_then :: "'e + 'a \<Rightarrow> ('a \<Rightarrow> 'e + 'b) \<Rightarrow> 'e + 'b" where
  "and_then r f = (case r of Inl e \<Rightarrow> Inl e | Inr x \<Rightarrow> f x)"

definition map_err :: "('e \<Rightarrow> 'f) \<Rightarrow> 'e + 'a \<Rightarrow> 'f + 'a" where
  "map_err f r = (case r of Inl e \<Rightarrow> Inl (f e) | Inr x \<Rightarrow> Inr x)"

definition is_ok :: "'e + 'a \<Rightarrow> bool" where
  "is_ok r = (case r of Inl _ \<Rightarrow> False | Inr _ \<Rightarrow> True)"

definition ok_or :: "'e \<Rightarrow> 'a option \<Rightarrow> 'e + 'a" where
  "ok_or e x = (case x of None \<Rightarrow> Inl e | Some v \<Rightarrow> Inr v)"

definition result_ok :: "'e + 'a \<Rightarrow> 'a option" where
  "result_ok r = (case r of Inl _ \<Rightarrow> None | Inr x \<Rightarrow> Some x)"

definition result_err :: "'e + 'a \<Rightarrow> 'e option" where
  "result_err r = (case r of Inl e \<Rightarrow> Some e | Inr _ \<Rightarrow> None)"

text \<open>A loop \<open>for x in xs { f(x)?; }\<close>: the first error stops it.\<close>

fun for_each :: "('a \<Rightarrow> 'e + unit) \<Rightarrow> 'a list \<Rightarrow> 'e + unit" where
  "for_each f [] = Inr ()"
| "for_each f (x # xs) = (case f x of Inl e \<Rightarrow> Inl e | Inr _ \<Rightarrow> for_each f xs)"

text \<open>Operations on a state that may fail; the state is threaded through failures too.\<close>

type_synonym ('s, 'e, 'a) op = "'s \<Rightarrow> ('e + 'a) \<times> 's"

definition op_return :: "'a \<Rightarrow> ('s, 'e, 'a) op" where
  "op_return x s = (Inr x, s)"

definition op_fail :: "'e \<Rightarrow> ('s, 'e, 'a) op" where
  "op_fail e s = (Inl e, s)"

definition op_bind :: "('s, 'e, 'a) op \<Rightarrow> ('a \<Rightarrow> ('s, 'e, 'b) op) \<Rightarrow> ('s, 'e, 'b) op" where
  "op_bind m f s = (case m s of (Inl e, s') \<Rightarrow> (Inl e, s') | (Inr x, s') \<Rightarrow> f x s')"

definition op_map_err :: "('e \<Rightarrow> 'f) \<Rightarrow> ('s, 'e, 'a) op \<Rightarrow> ('s, 'f, 'a) op" where
  "op_map_err f m s = (case m s of (r, s') \<Rightarrow> (map_err f r, s'))"

definition op_result :: "'e + 'a \<Rightarrow> ('s, 'e, 'a) op" where
  "op_result r s = (r, s)"

text \<open>A \<open>match\<close> on the outcome of an operation.\<close>

definition op_match :: "('s, 'e, 'a) op \<Rightarrow> ('e + 'a \<Rightarrow> ('s, 'f, 'b) op) \<Rightarrow> ('s, 'f, 'b) op" where
  "op_match m f s = (case m s of (r, s') \<Rightarrow> f r s')"

text \<open>\<open>u64::saturating_add\<close> and \<open>saturating_sub\<close>.\<close>

definition u64_max :: nat where
  "u64_max = 2 ^ 64 - 1"

definition saturating_add :: "nat \<Rightarrow> nat \<Rightarrow> nat" where
  "saturating_add a b = min (a + b) u64_max"

definition saturating_sub :: "nat \<Rightarrow> nat \<Rightarrow> nat" where
  "saturating_sub a b = a - b"

subsection \<open>Text\<close>

lemma lit_inject [simp]: "lit s = lit t \<longleftrightarrow> s = t"
  by (simp add: lit_def inj_map_eq_map inj_on_def)

lemma lit_append [simp]: "lit (s @ t) = lit s @ lit t"
  by (simp add: lit_def)

lemma lit_Nil [simp]: "lit [] = []"
  by (simp add: lit_def)

lemma lit_eq_Nil [simp]: "lit s = [] \<longleftrightarrow> s = []" "[] = lit s \<longleftrightarrow> s = []"
  by (simp_all add: lit_def)

declare lit_def [text_simps]

lemma str_split_not_Nil [simp]: "str_split c s \<noteq> []"
  by (induction s) (auto split: list.splits)

lemma str_split_no_sep: "c \<notin> set s \<Longrightarrow> str_split c s = [s]"
  by (induction s) auto

lemma str_split_pieces: "piece \<in> set (str_split c s) \<Longrightarrow> c \<notin> set piece"
  by (induction s arbitrary: piece) (auto split: if_splits list.splits)

lemma str_split_append_sep: "c \<notin> set s \<Longrightarrow> str_split c (s @ c # t) = s # str_split c t"
  by (induction s) auto

lemma str_split_join:
  "xs \<noteq> [] \<Longrightarrow> (\<forall>x \<in> set xs. c \<notin> set x) \<Longrightarrow> str_split c (str_join [c] xs) = xs"
proof (induction "[c]" xs rule: str_join.induct)
  case (3 x y ys)
  then show ?case by (simp add: str_split_append_sep)
qed (auto simp: str_split_no_sep)

lemma str_join_Cons: "ys \<noteq> [] \<Longrightarrow> str_join sep (x # ys) = x @ sep @ str_join sep ys"
  by (cases ys) auto

lemma str_join_split: "str_join [c] (str_split c s) = s"
proof (induction s)
  case Nil
  then show ?case by simp
next
  case (Cons x xs)
  show ?case
  proof (cases "x = c")
    case True
    with Cons show ?thesis by (simp add: str_join_Cons)
  next
    case False
    obtain p ps where "str_split c xs = p # ps"
      by (cases "str_split c xs") auto
    with Cons False show ?thesis by (cases ps) auto
  qed
qed

text \<open>Reading digits back, the inverse of \<open>render_base\<close> for bases up to sixteen.\<close>

definition digit_value :: "uchar \<Rightarrow> nat" where
  "digit_value c = (if c < 58 then c - 48 else c - 87)"

definition value_base :: "nat \<Rightarrow> ustr \<Rightarrow> nat" where
  "value_base b s = foldl (\<lambda>acc c. acc * b + digit_value c) 0 s"

lemma digit_value_char [simp]: "d < 16 \<Longrightarrow> digit_value (digit_char d) = d"
  by (auto simp: digit_value_def digit_char_def)

lemma value_render_base: "2 \<le> b \<Longrightarrow> b \<le> 16 \<Longrightarrow> value_base b (render_base b n) = n"
proof (induction b n rule: render_base.induct)
  case (1 b n)
  show ?case
  proof (cases "n < b \<or> b < 2")
    case True
    with 1 have "n < 16" by linarith
    with True show ?thesis
      by (simp add: render_base.simps [of b n] value_base_def)
  next
    case False
    with 1 have IH: "value_base b (render_base b (n div b)) = n div b" by simp
    have "n mod b < b"
      using False by simp
    with 1 have "n mod b < 16"
      by linarith
    then show ?thesis
      using False IH by (simp add: render_base.simps [of b n] value_base_def)
  qed
qed

lemma render_base_inject:
  assumes "2 \<le> b" "b \<le> 16"
  shows "render_base b m = render_base b n \<longleftrightarrow> m = n"
proof
  assume "render_base b m = render_base b n"
  then have "value_base b (render_base b m) = value_base b (render_base b n)"
    by (rule arg_cong)
  then show "m = n"
    by (simp only: value_render_base [OF assms])
qed simp

lemma show_hex_inject [simp]: "show_hex m = show_hex n \<longleftrightarrow> m = n"
  by (simp add: show_hex_def render_base_inject)

lemma show_nat_inject [simp]: "show_nat m = show_nat n \<longleftrightarrow> m = n"
  by (simp add: show_nat_def render_base_inject)

lemma render_base_not_Nil [simp]: "render_base b n \<noteq> []"
  by (subst render_base.simps) simp

subsection \<open>Results\<close>

lemma and_then_Inl [simp, result_simps]: "and_then (Inl e) f = Inl e"
  by (simp add: and_then_def)

lemma and_then_Inr [simp, result_simps]: "and_then (Inr x) f = f x"
  by (simp add: and_then_def)

lemma and_then_eq_Inr: "and_then r f = Inr y \<longleftrightarrow> (\<exists>x. r = Inr x \<and> f x = Inr y)"
  by (cases r) auto

lemma and_then_eq_Inl: "and_then r f = Inl e \<longleftrightarrow> r = Inl e \<or> (\<exists>x. r = Inr x \<and> f x = Inl e)"
  by (cases r) auto

lemma map_err_Inl [simp, result_simps]: "map_err f (Inl e) = Inl (f e)"
  by (simp add: map_err_def)

lemma map_err_Inr [simp, result_simps]: "map_err f (Inr x) = Inr x"
  by (simp add: map_err_def)

lemma map_err_eq_Inr [simp]: "map_err f r = Inr x \<longleftrightarrow> r = Inr x"
  by (cases r) auto

lemma map_err_eq_Inl: "map_err f r = Inl e \<longleftrightarrow> (\<exists>e'. r = Inl e' \<and> e = f e')"
  by (cases r) auto

lemma is_ok_simps [simp, result_simps]: "is_ok (Inr x)" "\<not> is_ok (Inl e)"
  by (simp_all add: is_ok_def)

lemma ok_or_simps [simp, result_simps]: "ok_or e None = Inl e" "ok_or e (Some x) = Inr x"
  by (simp_all add: ok_or_def)

lemma ok_or_eq_Inr [simp]: "ok_or e x = Inr y \<longleftrightarrow> x = Some y"
  by (cases x) auto

lemma result_ok_simps [simp, result_simps]: "result_ok (Inl e) = None" "result_ok (Inr x) = Some x"
  by (simp_all add: result_ok_def)

lemma result_ok_eq_Some [simp]: "result_ok r = Some x \<longleftrightarrow> r = Inr x"
  by (cases r) auto

lemma result_err_simps [simp, result_simps]:
  "result_err (Inl e) = Some e" "result_err (Inr x) = None"
  by (simp_all add: result_err_def)

lemma result_err_eq_None [simp]: "result_err r = None \<longleftrightarrow> (\<exists>x. r = Inr x)"
  by (cases r) auto

lemma unit_result_cases: "(\<And>e. r \<noteq> Inl e) \<Longrightarrow> r = Inr ()"
  by (cases r) auto

lemma for_each_ok: "for_each f xs = Inr () \<longleftrightarrow> (\<forall>x \<in> set xs. f x = Inr ())"
  by (induction xs) (auto split: sum.splits)

lemma for_each_err: "for_each f xs = Inl e \<Longrightarrow> \<exists>x \<in> set xs. f x = Inl e"
  by (induction xs) (auto split: sum.splits)

subsection \<open>Failing operations\<close>

lemma op_simps [simp, result_simps]:
  "op_return x s = (Inr x, s)"
  "op_fail e s = (Inl e, s)"
  "op_result r s = (r, s)"
  by (simp_all add: op_return_def op_fail_def op_result_def)

lemma op_bind_eq:
  "op_bind m f s = (case fst (m s) of Inl e \<Rightarrow> (Inl e, snd (m s)) | Inr x \<Rightarrow> f x (snd (m s)))"
  by (simp add: op_bind_def split: prod.split sum.split)

lemma op_bind_Inr: "m s = (Inr x, s') \<Longrightarrow> op_bind m f s = f x s'"
  by (simp add: op_bind_def)

lemma op_bind_Inl: "m s = (Inl e, s') \<Longrightarrow> op_bind m f s = (Inl e, s')"
  by (simp add: op_bind_def)

lemma op_bind_return [simp, result_simps]: "op_bind (op_return x) f s = f x s"
  by (simp add: op_bind_def)

lemma op_bind_fail [simp, result_simps]: "op_bind (op_fail e) f s = (Inl e, s)"
  by (simp add: op_bind_def)

lemma op_bind_result [simp, result_simps]:
  "op_bind (op_result r) f s = (case r of Inl e \<Rightarrow> (Inl e, s) | Inr x \<Rightarrow> f x s)"
  by (simp add: op_bind_def split: sum.split)

lemma op_match_eq: "op_match m f s = f (fst (m s)) (snd (m s))"
  by (simp add: op_match_def split: prod.split)

lemma op_map_err_snd [simp]: "snd (op_map_err f m s) = snd (m s)"
  by (simp add: op_map_err_def split: prod.split)

lemma op_map_err_fst [simp]: "fst (op_map_err f m s) = map_err f (fst (m s))"
  by (simp add: op_map_err_def split: prod.split)

subsection \<open>Saturating counters\<close>

lemma saturating_add_le [simp]: "saturating_add a b \<le> u64_max"
  by (simp add: saturating_add_def)

lemma saturating_add_exact: "a + b \<le> u64_max \<Longrightarrow> saturating_add a b = a + b"
  by (simp add: saturating_add_def)

lemma saturating_add_below: "saturating_add a b \<le> l \<Longrightarrow> l < u64_max \<Longrightarrow> saturating_add a b = a + b"
  by (simp add: saturating_add_def)

subsection \<open>Contracts of state operations\<close>

text \<open>
  From every state with \<open>P\<close> the operation returns a value and a state with \<open>Q\<close>, or an error and a
  state with \<open>E\<close>. An operation is a total function, so it always returns one of the two.
\<close>

definition triple ::
    "('s \<Rightarrow> bool) \<Rightarrow> ('s, 'e, 'a) op \<Rightarrow> ('a \<Rightarrow> 's \<Rightarrow> bool) \<Rightarrow> ('e \<Rightarrow> 's \<Rightarrow> bool) \<Rightarrow> bool" where
  "triple P m Q E \<longleftrightarrow>
     (\<forall>s. P s \<longrightarrow> (case m s of (Inl e, s') \<Rightarrow> E e s' | (Inr x, s') \<Rightarrow> Q x s'))"

named_theorems triple_intros \<open>contracts of the combinators\<close>

lemma tripleI:
  "(\<And>s x s'. P s \<Longrightarrow> m s = (Inr x, s') \<Longrightarrow> Q x s') \<Longrightarrow>
   (\<And>s e s'. P s \<Longrightarrow> m s = (Inl e, s') \<Longrightarrow> E e s') \<Longrightarrow> triple P m Q E"
  by (auto simp: triple_def split: prod.split sum.split)

lemma tripleD:
  assumes "triple P m Q E" "P s"
  shows "m s = (Inr x, s') \<Longrightarrow> Q x s'" and "m s = (Inl e, s') \<Longrightarrow> E e s'"
  using assms by (auto simp: triple_def dest!: spec [of _ s])

lemma triple_conseq:
  assumes "triple P m Q E" "\<And>s. P' s \<Longrightarrow> P s" "\<And>x s. Q x s \<Longrightarrow> Q' x s" "\<And>e s. E e s \<Longrightarrow> E' e s"
  shows "triple P' m Q' E'"
  using assms unfolding triple_def by (fastforce split: prod.splits sum.splits)

lemma triple_pre: "triple P m Q E \<Longrightarrow> (\<And>s. P' s \<Longrightarrow> P s) \<Longrightarrow> triple P' m Q E"
  by (rule triple_conseq)

lemma triple_bind [triple_intros]:
  assumes "triple P m Q E" "\<And>x. triple (Q x) (f x) R E"
  shows "triple P (op_bind m f) R E"
  using assms unfolding triple_def op_bind_def by (fastforce split: prod.splits sum.splits)

lemma triple_return [triple_intros]: "(\<And>s. P s \<Longrightarrow> Q x s) \<Longrightarrow> triple P (op_return x) Q E"
  by (simp add: triple_def)

lemma triple_fail [triple_intros]: "(\<And>s. P s \<Longrightarrow> E e s) \<Longrightarrow> triple P (op_fail e) Q E"
  by (simp add: triple_def)

lemma triple_result [triple_intros]:
  "(\<And>s e. P s \<Longrightarrow> r = Inl e \<Longrightarrow> E e s) \<Longrightarrow> (\<And>s x. P s \<Longrightarrow> r = Inr x \<Longrightarrow> Q x s) \<Longrightarrow>
   triple P (op_result r) Q E"
  by (auto simp: triple_def split: sum.split)

lemma triple_map_err [triple_intros]: "triple P m Q (\<lambda>e. E (g e)) \<Longrightarrow> triple P (op_map_err g m) Q E"
  unfolding triple_def op_map_err_def by (fastforce split: prod.splits sum.splits)

lemma triple_match [triple_intros]:
  assumes "triple P m (\<lambda>x. Q (Inr x)) (\<lambda>e. Q (Inl e))" "\<And>r. triple (Q r) (f r) R E"
  shows "triple P (op_match m f) R E"
  using assms unfolding triple_def op_match_def by (fastforce split: prod.splits sum.splits)

lemma triple_if [triple_intros]:
  "(b \<Longrightarrow> triple P m Q E) \<Longrightarrow> (\<not> b \<Longrightarrow> triple P m' Q E) \<Longrightarrow> triple P (if b then m else m') Q E"
  by simp

lemma triple_ex:
  "(\<And>x. triple (P x) m (\<lambda>y. Q x y) (\<lambda>e. E x e)) \<Longrightarrow>
   triple (\<lambda>s. \<exists>x. P x s) m (\<lambda>y s. \<exists>x. Q x y s) (\<lambda>e s. \<exists>x. E x e s)"
  unfolding triple_def by (fastforce split: prod.splits sum.splits)

lemma triple_conj:
  "triple P m Q E \<Longrightarrow> triple (\<lambda>s. P s \<and> R) m (\<lambda>x s. Q x s \<and> R) (\<lambda>e s. E e s \<and> R)"
  unfolding triple_def by (fastforce split: prod.splits sum.splits)

end
