(* ===== verification/BTree_Map.thy ===== *)
theory BTree_Map
  imports Prelude
begin

text \<open>
  The ordered maps of the code (\<open>std::collections::BTreeMap\<close>): an association list kept strictly
  ascending in its keys, so that iterating over the map is reading the list. The interface the
  other components rely on is the locale \<open>ordered_map\<close>: what a lookup returns after an insertion,
  an update in place or a removal, and that every operation keeps the order.
\<close>

type_synonym ('k, 'v) btree = "('k \<times> 'v) list"

definition bt_wf :: "('k::linorder, 'v) btree \<Rightarrow> bool" where
  "bt_wf m = sorted_wrt (<) (map fst m)"

definition bt_empty :: "('k, 'v) btree" where
  "bt_empty = []"

definition bt_get :: "('k, 'v) btree \<Rightarrow> 'k \<Rightarrow> 'v option" where
  "bt_get m k = map_of m k"

fun bt_insert :: "'k::linorder \<Rightarrow> 'v \<Rightarrow> ('k, 'v) btree \<Rightarrow> ('k, 'v) btree" where
  "bt_insert k v [] = [(k, v)]"
| "bt_insert k v ((a, b) # m) =
     (if k < a then (k, v) # (a, b) # m
      else if k = a then (k, v) # m
      else (a, b) # bt_insert k v m)"

definition bt_modify :: "'k \<Rightarrow> ('v \<Rightarrow> 'v) \<Rightarrow> ('k, 'v) btree \<Rightarrow> ('k, 'v) btree" where
  "bt_modify k f m = map (\<lambda>(a, b). (a, if a = k then f b else b)) m"

definition bt_remove :: "'k \<Rightarrow> ('k, 'v) btree \<Rightarrow> ('k, 'v) btree" where
  "bt_remove k m = filter (\<lambda>(a, b). a \<noteq> k) m"

text \<open>\<open>iter().collect()\<close>: insert every pair in turn.\<close>

definition bt_collect :: "('k::linorder \<times> 'v) list \<Rightarrow> ('k, 'v) btree" where
  "bt_collect xs = fold (\<lambda>(k, v). bt_insert k v) xs bt_empty"

locale ordered_map =
  fixes empty :: "('k::linorder, 'v) btree"
    and get :: "('k, 'v) btree \<Rightarrow> 'k \<Rightarrow> 'v option"
    and insert :: "'k \<Rightarrow> 'v \<Rightarrow> ('k, 'v) btree \<Rightarrow> ('k, 'v) btree"
    and modify :: "'k \<Rightarrow> ('v \<Rightarrow> 'v) \<Rightarrow> ('k, 'v) btree \<Rightarrow> ('k, 'v) btree"
    and remove :: "'k \<Rightarrow> ('k, 'v) btree \<Rightarrow> ('k, 'v) btree"
    and wf :: "('k, 'v) btree \<Rightarrow> bool"
  assumes get_empty: "get empty k = None"
    and get_insert: "get (insert k v m) j = (if j = k then Some v else get m j)"
    and get_modify: "get (modify k f m) j = (if j = k then map_option f (get m j) else get m j)"
    and get_remove: "get (remove k m) j = (if j = k then None else get m j)"
    and wf_empty: "wf empty"
    and wf_insert: "wf m \<Longrightarrow> wf (insert k v m)"
    and wf_modify: "wf m \<Longrightarrow> wf (modify k f m)"
    and wf_remove: "wf m \<Longrightarrow> wf (remove k m)"
    and get_mem: "wf m \<Longrightarrow> get m k = Some v \<longleftrightarrow> (k, v) \<in> set m"
    and wf_ext: "wf m \<Longrightarrow> wf n \<Longrightarrow> (\<And>k. get m k = get n k) \<Longrightarrow> m = n"
begin

lemmas wf_intros = wf_empty wf_insert wf_modify wf_remove

lemmas get_simps = get_empty get_insert get_modify get_remove

lemma mem_insert:
  assumes "wf m"
  shows "(j, w) \<in> set (insert k v m) \<longleftrightarrow> (j = k \<and> w = v) \<or> (j \<noteq> k \<and> (j, w) \<in> set m)"
proof -
  have "(j, w) \<in> set (insert k v m) \<longleftrightarrow> get (insert k v m) j = Some w"
    by (simp add: get_mem wf_insert assms)
  also have "\<dots> \<longleftrightarrow> (j = k \<and> w = v) \<or> (j \<noteq> k \<and> get m j = Some w)"
    by (auto simp: get_insert)
  finally show ?thesis
    by (simp add: get_mem assms)
qed

lemma mem_modify:
  assumes "wf m"
  shows "(j, w) \<in> set (modify k f m) \<longleftrightarrow>
    (j = k \<and> (\<exists>u. (k, u) \<in> set m \<and> w = f u)) \<or> (j \<noteq> k \<and> (j, w) \<in> set m)"
proof -
  have "(j, w) \<in> set (modify k f m) \<longleftrightarrow> get (modify k f m) j = Some w"
    by (simp add: get_mem wf_modify assms)
  also have "\<dots> \<longleftrightarrow> (j = k \<and> (\<exists>u. get m k = Some u \<and> w = f u)) \<or> (j \<noteq> k \<and> get m j = Some w)"
    by (auto simp: get_modify)
  finally show ?thesis
    by (simp add: get_mem assms)
qed

lemma mem_remove:
  assumes "wf m"
  shows "(j, w) \<in> set (remove k m) \<longleftrightarrow> j \<noteq> k \<and> (j, w) \<in> set m"
proof -
  have "(j, w) \<in> set (remove k m) \<longleftrightarrow> get (remove k m) j = Some w"
    by (simp add: get_mem wf_remove assms)
  also have "\<dots> \<longleftrightarrow> j \<noteq> k \<and> get m j = Some w"
    by (auto simp: get_remove)
  finally show ?thesis
    by (simp add: get_mem assms)
qed

lemma insert_same: "wf m \<Longrightarrow> get m k = Some v \<Longrightarrow> insert k v m = m"
  by (rule wf_ext) (auto simp: get_insert wf_insert)

lemma insert_remove: "wf m \<Longrightarrow> get m k = None \<Longrightarrow> remove k (insert k v m) = m"
  by (rule wf_ext) (auto simp: get_simps wf_intros)

lemma modify_insert: "wf m \<Longrightarrow> get m k = Some v \<Longrightarrow> modify k f m = insert k (f v) m"
  by (rule wf_ext) (auto simp: get_simps wf_intros)

end

lemma bt_insert_keys: "set (map fst (bt_insert k v m)) = Set.insert k (set (map fst m))"
  by (induction k v m rule: bt_insert.induct) auto

lemma bt_wf_insert: "bt_wf m \<Longrightarrow> bt_wf (bt_insert k v m)"
proof (induction m)
  case Nil
  then show ?case by (simp add: bt_wf_def)
next
  case (Cons p m)
  obtain a b where p: "p = (a, b)" by (cases p)
  have "\<forall>x \<in> set (map fst (bt_insert k v m)). x = k \<or> x \<in> set (map fst m)"
    by (simp only: bt_insert_keys) simp
  with Cons p show ?case
    by (fastforce simp: bt_wf_def)
qed

lemma bt_wf_distinct: "bt_wf m \<Longrightarrow> distinct (map fst m)"
  by (simp add: bt_wf_def strict_sorted_iff)

lemma bt_get_insert: "map_of (bt_insert k v m) j = (if j = k then Some v else map_of m j)"
  by (induction m) auto

lemma bt_get_modify:
  "map_of (bt_modify k f m) j = (if j = k then map_option f (map_of m j) else map_of m j)"
  by (induction m) (auto simp: bt_modify_def)

lemma bt_get_remove: "map_of (bt_remove k m) j = (if j = k then None else map_of m j)"
  by (induction m) (auto simp: bt_remove_def)

lemma map_fst_bt_modify [simp]: "map fst (bt_modify k f m) = map fst m"
  by (induction m) (auto simp: bt_modify_def)

lemma map_of_rebuild: "distinct (map fst m) \<Longrightarrow> map (\<lambda>k. (k, the (map_of m k))) (map fst m) = m"
  by (simp, rule map_idI) auto

lemma bt_wf_ext:
  fixes m n :: "('k::linorder, 'v) btree"
  assumes "bt_wf m" "bt_wf n" "\<And>k. map_of m k = map_of n k"
  shows "m = n"
proof -
  have eq: "map_of m = map_of n"
    using assms(3) by (rule ext)
  have fst: "fst ` set m = fst ` set n"
    using eq dom_map_of_conv_image_fst by metis
  have "sorted (map fst m)" "distinct (map fst m)" "sorted (map fst n)" "distinct (map fst n)"
    using assms(1,2) by (auto simp: bt_wf_def strict_sorted_iff)
  then have "map fst m = map fst n"
    using fst by (metis sorted_distinct_set_unique list.set_map)
  then show ?thesis
    using eq map_of_rebuild [of m] map_of_rebuild [of n]
      \<open>distinct (map fst m)\<close> \<open>distinct (map fst n)\<close> by simp
qed

interpretation bt: ordered_map bt_empty bt_get bt_insert bt_modify bt_remove bt_wf
proof unfold_locales
  fix m :: "('k::linorder, 'v) btree" and k j :: 'k and v :: 'v and f
  show "bt_get bt_empty k = None"
    by (simp add: bt_get_def bt_empty_def)
  show "bt_get (bt_insert k v m) j = (if j = k then Some v else bt_get m j)"
    by (simp add: bt_get_def bt_get_insert)
  show "bt_get (bt_modify k f m) j = (if j = k then map_option f (bt_get m j) else bt_get m j)"
    by (simp add: bt_get_def bt_get_modify)
  show "bt_get (bt_remove k m) j = (if j = k then None else bt_get m j)"
    by (simp add: bt_get_def bt_get_remove)
  show "bt_wf (bt_empty :: ('k, 'v) btree)"
    by (simp add: bt_wf_def bt_empty_def)
  show "bt_wf m \<Longrightarrow> bt_wf (bt_insert k v m)"
    by (rule bt_wf_insert)
  show "bt_wf m \<Longrightarrow> bt_wf (bt_modify k f m)"
    by (simp add: bt_wf_def)
  show "bt_wf m \<Longrightarrow> bt_wf (bt_remove k m)"
    by (simp add: bt_wf_def bt_remove_def sorted_wrt_map sorted_wrt_filter)
  show "bt_wf m \<Longrightarrow> bt_get m k = Some v \<longleftrightarrow> (k, v) \<in> set m"
    by (simp add: bt_get_def bt_wf_distinct)
next
  fix m n :: "('k::linorder, 'v) btree"
  assume "bt_wf m" "bt_wf n" "\<And>k. bt_get m k = bt_get n k"
  then show "m = n"
    by (simp add: bt_get_def bt_wf_ext)
qed

lemma bt_wf_snoc: "bt_wf (m @ [(k, v)]) \<Longrightarrow> bt_insert k v m = m @ [(k, v)]"
  by (induction m) (auto simp: bt_wf_def)

lemma bt_wf_append1: "bt_wf (m @ n) \<Longrightarrow> bt_wf m"
  by (simp add: bt_wf_def sorted_wrt_append)

lemma bt_collect_wf: "bt_wf m \<Longrightarrow> bt_collect m = m"
proof (induction m rule: rev_induct)
  case Nil
  then show ?case by (simp add: bt_collect_def bt_empty_def)
next
  case (snoc p m)
  then show ?case
    by (cases p) (simp add: bt_collect_def bt_wf_append1 bt_wf_snoc)
qed

lemma bt_collect_is_wf: "bt_wf (bt_collect xs)"
proof -
  have "bt_wf m \<Longrightarrow> bt_wf (fold (\<lambda>(k, v). bt_insert k v) xs m)" for m
    by (induction xs arbitrary: m) (auto intro: bt_wf_insert)
  then show ?thesis
    by (simp add: bt_collect_def bt.wf_empty)
qed

end
