(* ===== verification/Family_Names.thy ===== *)
theory Family_Names
  imports Prelude
begin

text \<open>
  Clone names and owner tokens (\<open>crates/family-model/src/name.rs\<close>, \<open>owner.rs\<close>) and the two id
  newtypes of \<open>crates/family-model/src/lib.rs\<close>. Every value is decided from its text alone; the
  parsers return the first rule that refuses, in the order of the code.
\<close>

definition ROOT_NAME :: ustr where
  "ROOT_NAME = lit ''root''"

definition ROOT_PATH :: ustr where
  "ROOT_PATH = lit ''.''"

subsection \<open>Clone names\<close>

definition RESERVED_NAMES :: "ustr list" where
  "RESERVED_NAMES = [lit ''root'', lit ''origin'', lit ''HEAD'', lit ''FETCH_HEAD'']"

definition RESERVED_DIRECTORY_NAMES :: "ustr list" where
  "RESERVED_DIRECTORY_NAMES = [lit ''.'', lit ''..'']"

datatype MemberName = MemberName (name_str: ustr)

text \<open>The derived order of \<open>MemberName\<close> is the order of the text it holds.\<close>

instantiation MemberName :: linorder
begin

definition less_eq_MemberName :: "MemberName \<Rightarrow> MemberName \<Rightarrow> bool" where
  "less_eq_MemberName a b \<longleftrightarrow> name_str a \<le> name_str b"

definition less_MemberName :: "MemberName \<Rightarrow> MemberName \<Rightarrow> bool" where
  "less_MemberName a b \<longleftrightarrow> name_str a < name_str b"

instance
  by standard (auto simp: less_eq_MemberName_def less_MemberName_def less_le_not_le
      intro: MemberName.expand)

end

datatype NameError =
    NameEmpty
  | NameBlank
  | NameSurroundingWhitespace
  | NameControl uchar
  | NameSeparator uchar
  | NameReserved ustr

text \<open>\<open>char::escape_debug\<close> of a control character.\<close>

definition escape_control :: "uchar \<Rightarrow> ustr" where
  "escape_control c =
     (if c = 0 then [92, 48]
      else if c = 9 then [92, 116]
      else if c = 13 then [92, 114]
      else if c = 10 then [92, 110]
      else [92] @ lit ''u{'' @ show_hex c @ lit ''}'')"

fun show_name_error :: "NameError \<Rightarrow> ustr" where
  "show_name_error NameEmpty = lit ''a clone name must not be empty''"
| "show_name_error NameBlank = lit ''a clone name must not be only whitespace''"
| "show_name_error NameSurroundingWhitespace =
     lit ''a clone name must not start or end with whitespace''"
| "show_name_error (NameControl c) = lit ''a clone name must not contain '' @ escape_control c"
| "show_name_error (NameSeparator c) = lit ''a clone name must not contain `'' @ [c] @ lit ''`''"
| "show_name_error (NameReserved name) = lit ''`'' @ name @ lit ''` is a reserved name''"

definition is_name_separator :: "uchar \<Rightarrow> bool" where
  "is_name_separator c \<longleftrightarrow> c = 47 \<or> c = 58"

definition parse_member_name :: "ustr \<Rightarrow> NameError + MemberName" where
  "parse_member_name name =
     (if name = [] then Inl NameEmpty
      else if list_all is_whitespace name then Inl NameBlank
      else if is_whitespace (hd name) \<or> is_whitespace (last name)
        then Inl NameSurroundingWhitespace
      else case List.find is_control name of
        Some control \<Rightarrow> Inl (NameControl control)
      | None \<Rightarrow> (case List.find is_name_separator name of
          Some separator \<Rightarrow> Inl (NameSeparator separator)
        | None \<Rightarrow>
            if name \<in> set RESERVED_NAMES \<or> name \<in> set RESERVED_DIRECTORY_NAMES
            then Inl (NameReserved name)
            else Inr (MemberName name)))"

definition validate_member_name :: "ustr \<Rightarrow> NameError + MemberName" where
  "validate_member_name name = parse_member_name name"

record RemoteNameCollision =
  collision_name :: ustr
  collision_member :: ustr

fun check_name_free_of_remotes ::
  "MemberName \<Rightarrow> (ustr \<times> ustr) list \<Rightarrow> RemoteNameCollision + unit" where
  "check_name_free_of_remotes name [] = Inr ()"
| "check_name_free_of_remotes name ((member, remote) # rest) =
     (if remote = name_str name
      then Inl \<lparr>collision_name = name_str name, collision_member = member\<rparr>
      else check_name_free_of_remotes name rest)"

datatype DisposeTarget =
    DisposeRoot
  | DisposeMember MemberName
  | DisposeInvalid NameError

definition classify_dispose_target :: "ustr \<Rightarrow> DisposeTarget" where
  "classify_dispose_target token =
     (if token = ROOT_NAME then DisposeRoot
      else case parse_member_name token of
        Inr name \<Rightarrow> DisposeMember name
      | Inl error \<Rightarrow> DisposeInvalid error)"

subsection \<open>Owner tokens\<close>

definition MAX_OWNER_TOKEN_BYTES :: nat where
  "MAX_OWNER_TOKEN_BYTES = 128"

datatype OwnerToken = OwnerToken (owner_str: ustr)

datatype OwnerError =
    OwnerEmpty
  | OwnerTooLong nat
  | OwnerCharacter uchar

definition is_admitted :: "uchar \<Rightarrow> bool" where
  "is_admitted c \<longleftrightarrow> is_ascii_alphanumeric c \<or> c = 46 \<or> c = 95 \<or> c = 58 \<or> c = 45"

definition parse_owner_token :: "ustr \<Rightarrow> OwnerError + OwnerToken" where
  "parse_owner_token value =
     (if value = [] then Inl OwnerEmpty
      else if utf8_len value > MAX_OWNER_TOKEN_BYTES then Inl (OwnerTooLong (utf8_len value))
      else case List.find (\<lambda>c. \<not> is_admitted c) value of
        Some character \<Rightarrow> Inl (OwnerCharacter character)
      | None \<Rightarrow> Inr (OwnerToken value))"

fun show_owner_error :: "OwnerError \<Rightarrow> ustr" where
  "show_owner_error OwnerEmpty = lit ''an owner token must not be empty''"
| "show_owner_error (OwnerTooLong bytes) =
     lit ''an owner token is at most '' @ show_nat MAX_OWNER_TOKEN_BYTES @
     lit '' bytes; this one is '' @ show_nat bytes"
| "show_owner_error (OwnerCharacter character) =
     lit ''an owner token accepts only `[A-Za-z0-9._:-]`; `'' @ [character] @
     lit ''` is not one of them''"

subsection \<open>Ids\<close>

datatype FamilyId = FamilyId (family_str: ustr)

datatype AllocationId = AllocationId (allocation_str: ustr)

datatype IdError = IdEmpty

definition family_id_new :: "ustr \<Rightarrow> IdError + FamilyId" where
  "family_id_new s = (if str_trim s = [] then Inl IdEmpty else Inr (FamilyId s))"

definition allocation_id_new :: "ustr \<Rightarrow> IdError + AllocationId" where
  "allocation_id_new s = (if str_trim s = [] then Inl IdEmpty else Inr (AllocationId s))"

definition show_id_error :: "IdError \<Rightarrow> ustr" where
  "show_id_error e = lit ''an id must not be empty''"

subsection \<open>What the parsers admit\<close>

definition name_ok :: "ustr \<Rightarrow> bool" where
  "name_ok s \<longleftrightarrow> s \<noteq> [] \<and> \<not> is_whitespace (hd s) \<and> \<not> is_whitespace (last s) \<and>
     (\<forall>c \<in> set s. \<not> is_control c \<and> c \<noteq> 47 \<and> c \<noteq> 58) \<and>
     s \<notin> {lit ''root'', lit ''origin'', lit ''HEAD'', lit ''FETCH_HEAD'', lit ''.'', lit ''..''}"

lemma not_all_whitespace: "s \<noteq> [] \<Longrightarrow> \<not> is_whitespace (hd s) \<Longrightarrow> \<not> list_all is_whitespace s"
  by (cases s) auto

lemma parse_member_name_ok: "parse_member_name s = Inr n \<longleftrightarrow> n = MemberName s \<and> name_ok s"
proof -
  have "parse_member_name s = Inr n \<longleftrightarrow>
    s \<noteq> [] \<and> \<not> list_all is_whitespace s \<and> \<not> is_whitespace (hd s) \<and> \<not> is_whitespace (last s) \<and>
    List.find is_control s = None \<and> List.find is_name_separator s = None \<and>
    s \<notin> set RESERVED_NAMES \<and> s \<notin> set RESERVED_DIRECTORY_NAMES \<and> n = MemberName s"
    by (auto simp: parse_member_name_def split: option.split)
  also have "\<dots> \<longleftrightarrow> n = MemberName s \<and> name_ok s"
    by (auto simp: name_ok_def find_None_iff is_name_separator_def RESERVED_NAMES_def
        RESERVED_DIRECTORY_NAMES_def dest: not_all_whitespace)
  finally show ?thesis .
qed

lemma parse_member_name_err: "parse_member_name s = Inl e \<Longrightarrow> \<not> name_ok s"
  using parse_member_name_ok [of s "MemberName s"] by auto

lemma name_ok_not_root: "name_ok s \<Longrightarrow> s \<noteq> ROOT_NAME"
  by (auto simp: name_ok_def ROOT_NAME_def)

lemma utf8_len_ascii: "(\<And>c. c \<in> set s \<Longrightarrow> c < 128) \<Longrightarrow> utf8_len s = length s"
  by (induction s) (auto simp: utf8_len_def utf8_width_def)

lemma is_admitted_ascii: "is_admitted c \<Longrightarrow> c < 128"
  by (auto simp: is_admitted_def is_ascii_alphanumeric_def is_ascii_alphabetic_def)

definition owner_ok :: "ustr \<Rightarrow> bool" where
  "owner_ok s \<longleftrightarrow> s \<noteq> [] \<and> length s \<le> 128 \<and> list_all is_admitted s"

lemma parse_owner_token_ok: "parse_owner_token s = Inr t \<longleftrightarrow> t = OwnerToken s \<and> owner_ok s"
proof -
  have "list_all is_admitted s \<Longrightarrow> utf8_len s = length s"
    by (rule utf8_len_ascii) (auto simp: list_all_iff is_admitted_ascii)
  then show ?thesis
    by (auto simp: parse_owner_token_def owner_ok_def find_None_iff list_all_iff
        find_Some_iff MAX_OWNER_TOKEN_BYTES_def split: option.split if_splits)
qed

lemma str_trim_Nil: "str_trim s = [] \<longleftrightarrow> list_all is_whitespace s"
proof -
  have "dropWhile is_whitespace (rev t) = [] \<longleftrightarrow> list_all is_whitespace t" for t
    by (simp add: dropWhile_eq_Nil_conv list_all_iff)
  then show ?thesis
    by (auto simp: str_trim_def list_all_iff dropWhile_eq_Nil_conv dest: set_dropWhileD)
       (metis dropWhile_eq_Nil_conv hd_dropWhile list.set_sel(1))
qed

definition id_ok :: "ustr \<Rightarrow> bool" where
  "id_ok s \<longleftrightarrow> \<not> list_all is_whitespace s"

lemma family_id_new_ok: "family_id_new s = Inr i \<longleftrightarrow> i = FamilyId s \<and> id_ok s"
  by (auto simp: family_id_new_def id_ok_def str_trim_Nil)

lemma allocation_id_new_ok: "allocation_id_new s = Inr i \<longleftrightarrow> i = AllocationId s \<and> id_ok s"
  by (auto simp: allocation_id_new_def id_ok_def str_trim_Nil)

lemma check_name_free_ok:
  "check_name_free_of_remotes name rs = Inr () \<longleftrightarrow> name_str name \<notin> snd ` set rs"
  by (induction name rs rule: check_name_free_of_remotes.induct) auto

text \<open>
  C34. A clone name is admitted exactly when it is non-empty, unpadded, free of control characters
  and of the separators, and not reserved; it keeps its spelling. So no admitted name is the root's
  name or a directory shorthand, a dispose token classifies as exactly one of the root, a name or an
  error, and a name passes the remote check exactly when no observed remote has it.
\<close>

theorem member_name_policy:
  "(parse_member_name s = Inr n \<longleftrightarrow> n = MemberName s \<and> name_ok s) \<and>
   (classify_dispose_target s = DisposeRoot \<longleftrightarrow> s = ROOT_NAME) \<and>
   (classify_dispose_target s = DisposeMember n \<longleftrightarrow> n = MemberName s \<and> name_ok s) \<and>
   (check_name_free_of_remotes n remotes = Inr () \<longleftrightarrow> name_str n \<notin> snd ` set remotes)"
  by (auto simp: parse_member_name_ok classify_dispose_target_def check_name_free_ok
      name_ok_not_root split: sum.split dest: parse_member_name_err)

text \<open>
  An owner token is admitted exactly when it is one to 128 characters of the alphabet
  \<open>[A-Za-z0-9._:-]\<close>; then its characters and its bytes agree in number.
\<close>

theorem owner_token_policy:
  "(parse_owner_token s = Inr t \<longleftrightarrow>
      t = OwnerToken s \<and> 1 \<le> length s \<and> length s \<le> 128 \<and> list_all is_admitted s) \<and>
   (case parse_owner_token s of
      Inr u \<Rightarrow> utf8_len (owner_str u) = length (owner_str u)
    | Inl e \<Rightarrow> True)"
proof -
  have "list_all is_admitted s \<Longrightarrow> utf8_len s = length s"
    by (rule utf8_len_ascii) (auto simp: list_all_iff is_admitted_ascii)
  then show ?thesis
    using parse_owner_token_ok [of s] by (auto simp: owner_ok_def Suc_le_eq split: sum.split)
qed

end
