(* ===== verification/Family_Paths.thy ===== *)
theory Family_Paths
  imports Prelude
begin

text \<open>
  Root-relative member paths (\<open>crates/family-model/src/path.rs\<close>): the normaliser, the check a
  recorded path must pass, and the relation of two member paths. The characters are
  \<open>/\<close> (47), \<open>\\<close> (92) and \<open>:\<close> (58).

  The meaning of a path is where it leads: \<open>walk\<close> follows its components from a directory, given as
  the list of names from the top of the file system, ascending on \<open>..\<close>. The lemmas show that
  normalising keeps the meaning, and that the relation of two paths is containment of the
  directories they lead to.
\<close>

subsection \<open>Operations\<close>

datatype MemberPath = MemberPath (path_str: ustr)

definition path_components :: "MemberPath \<Rightarrow> ustr list" where
  "path_components p = str_split 47 (path_str p)"

datatype PathError =
    PathEmpty
  | PathAbsolute ustr
  | PathControlCharacter ustr
  | PathRootItself ustr
  | PathInsideRoot ustr ustr
  | PathContainsRoot ustr ustr
  | PathNotNormalised ustr ustr

fun path_error_normalised :: "PathError \<Rightarrow> ustr option" where
  "path_error_normalised (PathInsideRoot path normalised) = Some normalised"
| "path_error_normalised (PathContainsRoot path normalised) = Some normalised"
| "path_error_normalised (PathNotNormalised path normalised) = Some normalised"
| "path_error_normalised PathEmpty = None"
| "path_error_normalised (PathAbsolute path) = None"
| "path_error_normalised (PathControlCharacter path) = None"
| "path_error_normalised (PathRootItself path) = None"

fun show_path_error :: "PathError \<Rightarrow> ustr" where
  "show_path_error PathEmpty = lit ''a member path must not be empty''"
| "show_path_error (PathAbsolute path) =
     lit ''member path `'' @ path @ lit ''` must be root-relative, not absolute''"
| "show_path_error (PathControlCharacter path) =
     lit ''member path `'' @ path @ lit ''` contains a control character''"
| "show_path_error (PathRootItself path) =
     lit ''member path `'' @ path @ lit ''` is the root itself''"
| "show_path_error (PathInsideRoot path normalised) =
     lit ''member path `'' @ path @ lit ''` (`'' @ normalised @ lit ''`) is inside the root''"
| "show_path_error (PathContainsRoot path normalised) =
     lit ''member path `'' @ path @ lit ''` (`'' @ normalised @ lit ''`) contains the root''"
| "show_path_error (PathNotNormalised path normalised) =
     lit ''member path `'' @ path @ lit ''` is not normalised (`'' @ normalised @ lit ''`)''"

datatype PathRelation = Same | Inside | Contains | Disjoint

definition overlaps :: "PathRelation \<Rightarrow> bool" where
  "overlaps r \<longleftrightarrow> r \<noteq> Disjoint"

fun relate_components :: "ustr list \<Rightarrow> ustr list \<Rightarrow> PathRelation" where
  "relate_components [] [] = Same"
| "relate_components (_ # _) [] = Inside"
| "relate_components [] (_ # _) = Contains"
| "relate_components (one # left) (other # right) =
     (if one = other then relate_components left right else Disjoint)"

definition relate :: "MemberPath \<Rightarrow> MemberPath \<Rightarrow> PathRelation" where
  "relate a b = relate_components (path_components a) (path_components b)"

definition has_drive_prefix :: "ustr \<Rightarrow> bool" where
  "has_drive_prefix path = (case path of
     first # second # _ \<Rightarrow> is_ascii_alphabetic first \<and> second = 58
   | _ \<Rightarrow> False)"

definition unify_separators :: "ustr \<Rightarrow> ustr" where
  "unify_separators path = map (\<lambda>c. if c = 92 then 47 else c) path"

text \<open>One turn of the loop: the components kept so far and how many of them lead up.\<close>

definition normalize_step :: "ustr list \<times> nat \<Rightarrow> ustr \<Rightarrow> ustr list \<times> nat" where
  "normalize_step st component = (case st of (components, leading_up) \<Rightarrow>
     if component = [] \<or> component = lit ''.'' then (components, leading_up)
     else if component = lit ''..'' then
       (if length components > leading_up then (butlast components, leading_up)
        else (components @ [lit ''..''], leading_up + 1))
     else (components @ [component], leading_up))"

definition normalize :: "ustr \<Rightarrow> PathError + MemberPath" where
  "normalize path =
     (if path = [] then Inl PathEmpty
      else if list_ex is_control path then Inl (PathControlCharacter path)
      else let unified = unify_separators path in
        if (case unified of c # _ \<Rightarrow> c = 47 | [] \<Rightarrow> False) \<or> has_drive_prefix unified
        then Inl (PathAbsolute path)
        else case foldl normalize_step ([], 0) (str_split 47 unified) of
          (components, leading_up) \<Rightarrow>
            if components = [] then Inl (PathRootItself path)
            else let normalised = str_join [47] components in
              if leading_up = 0 then Inl (PathInsideRoot path normalised)
              else if length components = leading_up
                then Inl (PathContainsRoot path normalised)
              else Inr (MemberPath normalised))"

definition validate_path :: "ustr \<Rightarrow> PathError + MemberPath" where
  "validate_path path = and_then (normalize path) (\<lambda>member.
     if path_str member \<noteq> path then Inl (PathNotNormalised path (path_str member))
     else Inr member)"

subsection \<open>The meaning of a path\<close>

definition up :: ustr where
  "up = lit ''..''"

definition cd :: "ustr list \<Rightarrow> ustr \<Rightarrow> ustr list" where
  "cd dir c = (if c = [] \<or> c = lit ''.'' then dir
     else if c = up then butlast dir else dir @ [c])"

definition walk :: "ustr list \<Rightarrow> ustr list \<Rightarrow> ustr list" where
  "walk dir cs = foldl cd dir cs"

definition ordinary :: "ustr \<Rightarrow> bool" where
  "ordinary c \<longleftrightarrow> c \<noteq> [] \<and> c \<noteq> lit ''.'' \<and> c \<noteq> up"

definition plain_component :: "ustr \<Rightarrow> bool" where
  "plain_component c \<longleftrightarrow> ordinary c \<and> (\<forall>x \<in> set c. x \<noteq> 47 \<and> x \<noteq> 92 \<and> \<not> is_control x)"

text \<open>The recorded form: at least one \<open>..\<close>, then at least one ordinary name.\<close>

definition path_ok :: "ustr \<Rightarrow> bool" where
  "path_ok s \<longleftrightarrow> (\<exists>k names. 0 < k \<and> names \<noteq> [] \<and> list_all plain_component names \<and>
     s = str_join [47] (replicate k up @ names))"

definition leading_ups :: "MemberPath \<Rightarrow> nat" where
  "leading_ups p = length (takeWhile (\<lambda>c. c = up) (path_components p))"

lemma up_distinct [simp]: "up \<noteq> []" "up \<noteq> lit ''.''"
  by (simp_all add: up_def)

lemma cd_simps [simp]:
  "cd dir [] = dir" "cd dir (lit ''.'') = dir" "cd dir up = butlast dir"
  "ordinary c \<Longrightarrow> cd dir c = dir @ [c]"
  by (auto simp: cd_def ordinary_def up_def)

lemma walk_simps [simp]:
  "walk dir [] = dir" "walk dir (c # cs) = walk (cd dir c) cs"
  "walk dir (cs @ ds) = walk (walk dir cs) ds"
  by (simp_all add: walk_def)

lemma walk_ordinary: "list_all ordinary names \<Longrightarrow> walk dir names = dir @ names"
  by (induction names arbitrary: dir) auto

lemma walk_ups: "walk dir (replicate k up) = take (length dir - k) dir"
proof (induction k arbitrary: dir)
  case (Suc k)
  then show ?case by (simp add: butlast_conv_take min_def)
qed simp

text \<open>The loop keeps the leading run of \<open>..\<close> apart from the ordinary names.\<close>

definition norm_form :: "ustr list \<times> nat \<Rightarrow> bool" where
  "norm_form st \<longleftrightarrow> (\<exists>names. fst st = replicate (snd st) up @ names \<and> list_all ordinary names)"

lemma normalize_step_form: "norm_form st \<Longrightarrow> norm_form (normalize_step st c)"
proof -
  assume "norm_form st"
  then obtain names where st: "st = (replicate (snd st) up @ names, snd st)"
    and names: "list_all ordinary names"
    by (cases st) (auto simp: norm_form_def)
  consider "c = [] \<or> c = lit ''.''" | "c = up" "names = []" | "c = up" "names \<noteq> []" | "ordinary c"
    by (auto simp: ordinary_def)
  then show ?thesis
  proof cases
    case 1
    with \<open>norm_form st\<close> show ?thesis by (cases st) (auto simp: normalize_step_def)
  next
    case 2
    then show ?thesis
      by (subst st) (simp add: normalize_step_def norm_form_def up_def replicate_append_same
          flip: replicate_append_same)
  next
    case 3
    have "list_all ordinary (butlast names)"
      using names by (auto simp: list_all_iff dest: in_set_butlastD)
    with 3 show ?thesis
      by (subst st) (simp add: normalize_step_def norm_form_def up_def butlast_append)
  next
    case 4
    with names show ?thesis
      by (subst st) (auto simp: normalize_step_def norm_form_def ordinary_def up_def)
  qed
qed

lemma normalize_step_walk:
  assumes "norm_form st"
  shows "walk dir (fst (normalize_step st c)) = cd (walk dir (fst st)) c"
proof -
  obtain names where st: "st = (replicate (snd st) up @ names, snd st)"
    and names: "list_all ordinary names"
    using assms by (cases st) (auto simp: norm_form_def)
  consider "c = [] \<or> c = lit ''.''" | "c = up" "names = []" | "c = up" "names \<noteq> []" | "ordinary c"
    by (auto simp: ordinary_def)
  then show ?thesis
  proof cases
    case 1
    then show ?thesis by (cases st) (auto simp: normalize_step_def)
  next
    case 2
    then show ?thesis
      by (subst (1 2) st) (simp add: normalize_step_def up_def [symmetric])
  next
    case 3
    have "list_all ordinary (butlast names)"
      using names by (auto simp: list_all_iff dest: in_set_butlastD)
    with 3 names show ?thesis
      by (subst (1 2) st) (simp add: normalize_step_def up_def [symmetric] butlast_append walk_ordinary)
  next
    case 4
    then show ?thesis
      by (subst (1 2) st) (auto simp: normalize_step_def ordinary_def up_def)
  qed
qed

lemma normalize_loop_form: "norm_form st \<Longrightarrow> norm_form (foldl normalize_step st cs)"
  by (induction cs arbitrary: st) (auto simp: normalize_step_form)

lemma normalize_loop_walk:
  "norm_form st \<Longrightarrow> walk dir (fst (foldl normalize_step st cs)) = walk (walk dir (fst st)) cs"
  by (induction cs arbitrary: st) (simp_all add: normalize_step_form normalize_step_walk)

lemma norm_form_start [simp]: "norm_form ([], 0)"
  by (simp add: norm_form_def)

lemma normalize_loop_components:
  "c \<in> set (fst (foldl normalize_step st cs)) \<Longrightarrow> c \<in> set (fst st) \<union> set cs"
proof (induction cs arbitrary: st)
  case (Cons d cs)
  from Cons.IH [of "normalize_step st d"] Cons.prems show ?case
    by (cases st) (auto simp: normalize_step_def split: if_splits dest: in_set_butlastD)
qed simp

lemma normalize_loop_ups:
  "foldl normalize_step (replicate j up, j) (replicate k up) = (replicate (j + k) up, j + k)"
proof (induction k arbitrary: j)
  case (Suc k)
  have "normalize_step (replicate j up, j) up = (replicate (Suc j) up, Suc j)"
    by (simp add: normalize_step_def up_def replicate_append_same)
  with Suc [of "Suc j"] show ?case by simp
qed simp

lemma normalize_loop_names:
  "list_all ordinary names \<Longrightarrow> foldl normalize_step (cs, k) names = (cs @ names, k)"
  by (induction names arbitrary: cs) (auto simp: normalize_step_def ordinary_def up_def)

lemma normalize_loop_fixed:
  assumes "list_all ordinary names"
  shows "foldl normalize_step ([], 0) (replicate k up @ names) = (replicate k up @ names, k)"
  using normalize_loop_ups [of 0 k] by (simp add: normalize_loop_names [OF assms])

lemma plain_component_ordinary: "list_all plain_component names \<Longrightarrow> list_all ordinary names"
  by (auto simp: list_all_iff plain_component_def)

lemma split_recorded:
  assumes "0 < k" "list_all plain_component names"
  shows "str_split 47 (str_join [47] (replicate k up @ names)) = replicate k up @ names"
proof (rule str_split_join)
  show "replicate k up @ names \<noteq> []"
    using assms by simp
  show "\<forall>x \<in> set (replicate k up @ names). 47 \<notin> set x"
    using assms by (auto simp: up_def lit_def list_all_iff plain_component_def)
qed

lemma join_chars: "x \<in> set (str_join [sep] cs) \<Longrightarrow> x = sep \<or> (\<exists>c \<in> set cs. x \<in> set c)"
  by (induction "[sep]" cs rule: str_join.induct) auto

lemma unify_fixed: "92 \<notin> set s \<Longrightarrow> unify_separators s = s"
  unfolding unify_separators_def by (rule map_idI) auto

lemma recorded_chars:
  assumes "list_all plain_component names" "x \<in> set (str_join [47] (replicate k up @ names))"
  shows "x \<noteq> 92 \<and> \<not> is_control x"
  using join_chars [OF assms(2)] assms(1)
  by (auto simp: up_def lit_def is_control_def list_all_iff plain_component_def)

lemma recorded_start:
  "0 < k \<Longrightarrow> \<exists>rest. str_join [47] (replicate k up @ names) = 46 # 46 # rest"
  by (cases k; cases "replicate (k - 1) up @ names") (auto simp: up_def lit_def)

lemma normalize_path_ok:
  assumes "path_ok s"
  shows "normalize s = Inr (MemberPath s)"
proof -
  obtain k names where k: "0 < k" "names \<noteq> []" "list_all plain_component names"
    and s: "s = str_join [47] (replicate k up @ names)"
    using assms by (auto simp: path_ok_def)
  obtain rest where start: "s = 46 # 46 # rest"
    using recorded_start [OF k(1)] s by blast
  have chars: "92 \<notin> set s" "\<not> list_ex is_control s"
    using recorded_chars [OF k(3)] unfolding s list_ex_iff by blast+
  have "foldl normalize_step ([], 0) (str_split 47 s) = (replicate k up @ names, k)"
    unfolding s split_recorded [OF k(1,3)]
    by (rule normalize_loop_fixed [OF plain_component_ordinary [OF k(3)]])
  moreover have "has_drive_prefix s = False" "(case s of c # _ \<Rightarrow> c = 47 | [] \<Rightarrow> False) = False" "s \<noteq> []"
    by (simp_all add: start has_drive_prefix_def is_ascii_alphabetic_def)
  ultimately show ?thesis
    using k chars s by (simp add: normalize_def unify_fixed Let_def)
qed

lemma unify_chars: "x \<in> set (unify_separators s) \<Longrightarrow> x \<noteq> 92 \<and> (x = 47 \<or> x \<in> set s)"
  by (auto simp: unify_separators_def split: if_splits)

lemma split_chars: "piece \<in> set (str_split c s) \<Longrightarrow> x \<in> set piece \<Longrightarrow> x \<in> set s"
  by (induction s arbitrary: piece) (fastforce split: if_splits list.splits)+

text \<open>What a successful normalisation produced.\<close>

lemma normalize_Inr:
  assumes "normalize s = Inr m"
  obtains k names where "0 < k" "names \<noteq> []" "list_all plain_component names"
    "foldl normalize_step ([], 0) (str_split 47 (unify_separators s)) = (replicate k up @ names, k)"
    "m = MemberPath (str_join [47] (replicate k up @ names))"
proof -
  obtain cs k where loop: "foldl normalize_step ([], 0) (str_split 47 (unify_separators s)) = (cs, k)"
    by (cases "foldl normalize_step ([], 0) (str_split 47 (unify_separators s))")
  with assms have m: "0 < k" "length cs \<noteq> k" "m = MemberPath (str_join [47] cs)"
    and ctl: "\<not> list_ex is_control s"
    by (auto simp: normalize_def Let_def split: if_splits)
  obtain names where names: "cs = replicate k up @ names" "list_all ordinary names"
    using normalize_loop_form [of "([], 0)" "str_split 47 (unify_separators s)"] loop
    by (auto simp: norm_form_def)
  have "plain_component c" if "c \<in> set names" for c
  proof -
    have piece: "c \<in> set (str_split 47 (unify_separators s))"
      using normalize_loop_components [of c "([], 0)" "str_split 47 (unify_separators s)"]
        loop names that by simp
    have "x \<noteq> 47 \<and> x \<noteq> 92 \<and> \<not> is_control x" if "x \<in> set c" for x
      using that str_split_pieces [OF piece] unify_chars [OF split_chars [OF piece that]] ctl
      by (auto simp: list_ex_iff)
    moreover have "ordinary c"
      using that names(2) by (simp add: list_all_iff)
    ultimately show ?thesis
      by (simp add: plain_component_def)
  qed
  with m names loop that show ?thesis
    by (auto simp: list_all_iff)
qed

lemma normalize_gives_ok: "normalize s = Inr m \<Longrightarrow> path_ok (path_str m)"
  by (erule normalize_Inr) (auto simp: path_ok_def)

lemma validate_path_ok: "validate_path s = Inr m \<longleftrightarrow> m = MemberPath s \<and> path_ok s"
  using normalize_gives_ok normalize_path_ok
  by (fastforce simp: validate_path_def and_then_eq_Inr split: if_splits)

lemma validate_path_idem: "validate_path s = Inr m \<Longrightarrow> validate_path (path_str m) = Inr m"
  by (simp add: validate_path_ok)

subsection \<open>The relation of two paths\<close>

lemma relate_components_iff:
  "relate_components xs ys = Same \<longleftrightarrow> xs = ys"
  "relate_components xs ys = Inside \<longleftrightarrow> strict_prefix ys xs"
  "relate_components xs ys = Contains \<longleftrightarrow> strict_prefix xs ys"
  "relate_components xs ys = Disjoint \<longleftrightarrow> xs \<parallel> ys"
  by (induction xs ys rule: relate_components.induct) (auto simp: parallel_def)

lemma path_components_inject: "path_components a = path_components b \<longleftrightarrow> a = b"
  by (metis MemberPath.expand path_components_def str_join_split)

lemma relate_Same [simp]: "relate a b = Same \<longleftrightarrow> a = b"
  by (simp add: relate_def relate_components_iff path_components_inject)

lemma relate_Disjoint_sym: "relate a b = Disjoint \<longleftrightarrow> relate b a = Disjoint"
  by (auto simp: relate_def relate_components_iff parallel_def)

lemma count_ups:
  assumes "list_all ordinary names"
  shows "length (takeWhile (\<lambda>c. c = up) (replicate k up @ names)) = k"
proof -
  have "takeWhile (\<lambda>c. c = up) names = []"
    using assms by (cases names) (auto simp: ordinary_def)
  moreover have "takeWhile (\<lambda>c. c = up) (replicate k up @ names) =
      replicate k up @ takeWhile (\<lambda>c. c = up) names"
    by (rule takeWhile_append2) auto
  ultimately show ?thesis
    by simp
qed

lemma recorded_components:
  assumes "path_ok (path_str p)"
  obtains k names where "0 < k" "names \<noteq> []" "list_all ordinary names"
    "path_components p = replicate k up @ names" "leading_ups p = k"
proof -
  obtain k names where k: "0 < k" "names \<noteq> []" "list_all plain_component names"
    "path_str p = str_join [47] (replicate k up @ names)"
    using assms by (auto simp: path_ok_def)
  have c: "path_components p = replicate k up @ names"
    using k by (simp add: path_components_def split_recorded)
  have o: "list_all ordinary names"
    using k(3) by (rule plain_component_ordinary)
  then have "leading_ups p = k"
    by (simp only: leading_ups_def c count_ups)
  with k c o that show ?thesis by blast
qed

lemma walk_recorded:
  "list_all ordinary names \<Longrightarrow> walk dir (replicate k up @ names) = take (length dir - k) dir @ names"
  by (simp add: walk_ups walk_ordinary)

lemma inside_leads_inside:
  assumes a: "path_ok (path_str a)" and b: "path_ok (path_str b)" and rel: "relate a b = Inside"
  shows "strict_prefix (walk dir (path_components b)) (walk dir (path_components a))"
proof -
  obtain k ns where b': "0 < k" "ns \<noteq> []" "list_all ordinary ns" "path_components b = replicate k up @ ns"
    using b by (rule recorded_components)
  obtain j ms where a': "list_all ordinary ms" "path_components a = replicate j up @ ms"
    using a by (rule recorded_components)
  obtain zs where zs: "path_components a = replicate k up @ ns @ zs" "zs \<noteq> []"
    using rel b' by (auto simp: relate_def relate_components_iff strict_prefix_def prefix_def)
  have "takeWhile (\<lambda>c. c = up) (replicate k up @ ns @ zs) =
      replicate k up @ takeWhile (\<lambda>c. c = up) (ns @ zs)"
    by (rule takeWhile_append2) auto
  moreover have "takeWhile (\<lambda>c. c = up) (ns @ zs) = []"
    using b' by (cases ns) (auto simp: ordinary_def)
  ultimately have j: "j = k"
    using count_ups [OF a'(1), of j] zs a'(2) by simp
  then have "ms = ns @ zs"
    using a' zs by simp
  with a' b' zs j show ?thesis
    by (simp add: walk_ups walk_ordinary strict_prefix_def)
qed

lemma Contains_Inside: "relate a b = Contains \<longleftrightarrow> relate b a = Inside"
  by (simp add: relate_def relate_components_iff)

lemma disjoint_leads_apart:
  assumes a: "path_ok (path_str a)" and b: "path_ok (path_str b)" and rel: "relate a b = Disjoint"
    and ups: "leading_ups a = leading_ups b"
  shows "walk dir (path_components a) \<parallel> walk dir (path_components b)"
proof -
  obtain ms where a': "list_all ordinary ms" "path_components a = replicate (leading_ups a) up @ ms"
    using a by (rule recorded_components) auto
  obtain ns where b': "list_all ordinary ns" "path_components b = replicate (leading_ups a) up @ ns"
    using b ups by (metis recorded_components)
  have "ms \<parallel> ns"
    using rel a' b' by (simp add: relate_def relate_components_iff parallel_def)
  with a' b' show ?thesis
    by (simp add: walk_ups walk_ordinary parallel_def)
qed

text \<open>
  C33. Normalising keeps where a path leads: whatever it admits is the one recorded spelling (a run of
  \<open>..\<close>, then plain names, which the check of a recorded row accepts unchanged) and leads from
  every directory to the place the input leads to; and a recorded spelling is admitted as it is.
\<close>

theorem normalize_keeps_meaning:
  "(case normalize s of
      Inr m \<Rightarrow> path_ok (path_str m) \<and> validate_path (path_str m) = Inr m \<and>
        (\<forall>dir. walk dir (path_components m) = walk dir (str_split 47 (unify_separators s)))
    | Inl e \<Rightarrow> True) \<and>
   (validate_path t = Inr m' \<longleftrightarrow> m' = MemberPath t \<and> path_ok t)"
proof (cases "normalize s")
  case (Inr m)
  obtain k names where k: "0 < k" "names \<noteq> []" "list_all plain_component names"
    and loop: "foldl normalize_step ([], 0) (str_split 47 (unify_separators s)) =
      (replicate k up @ names, k)"
    and m: "m = MemberPath (str_join [47] (replicate k up @ names))"
    using Inr by (rule normalize_Inr)
  have "walk dir (path_components m) = walk dir (str_split 47 (unify_separators s))" for dir
    using normalize_loop_walk [of "([], 0)" dir "str_split 47 (unify_separators s)"]
    by (simp add: loop m path_components_def split_recorded [OF k(1,3)])
  moreover have "path_ok (path_str m)"
    using Inr by (rule normalize_gives_ok)
  ultimately show ?thesis
    using Inr by (simp add: validate_path_ok)
qed (simp add: validate_path_ok)

text \<open>
  A refusal says where the path leads. A path refused as the root itself leads from every
  directory back to it; one refused as inside the root leads strictly below; one refused as
  containing the root leads to an ancestor; and an admitted path climbs at least one level and then
  descends.
\<close>

theorem normalize_refuses_by_meaning:
  "case normalize s of
     Inl (PathRootItself p) \<Rightarrow> \<forall>dir. walk dir (str_split 47 (unify_separators s)) = dir
   | Inl (PathInsideRoot p n) \<Rightarrow>
       \<forall>dir. strict_prefix dir (walk dir (str_split 47 (unify_separators s)))
   | Inl (PathContainsRoot p n) \<Rightarrow> \<exists>k > 0. \<forall>dir.
       walk dir (str_split 47 (unify_separators s)) = take (length dir - k) dir
   | Inl _ \<Rightarrow> True
   | Inr m \<Rightarrow> \<exists>names. names \<noteq> [] \<and> leading_ups m > 0 \<and> (\<forall>dir.
       walk dir (str_split 47 (unify_separators s)) = take (length dir - leading_ups m) dir @ names)"
proof -
  let ?cs = "str_split 47 (unify_separators s)"
  obtain k names where loop: "foldl normalize_step ([], 0) ?cs = (replicate k up @ names, k)"
    and names: "list_all ordinary names"
    using normalize_loop_form [of "([], 0)" ?cs] by (metis norm_form_def norm_form_start prod.collapse)
  have w: "walk dir ?cs = take (length dir - k) dir @ names" for dir
    using normalize_loop_walk [of "([], 0)" dir ?cs] names by (simp add: loop walk_ups walk_ordinary)
  show ?thesis
  proof (cases "normalize s")
    case (Inl e)
    have "e = PathRootItself p \<Longrightarrow> k = 0 \<and> names = []"
      "e = PathInsideRoot p n \<Longrightarrow> k = 0 \<and> names \<noteq> []"
      "e = PathContainsRoot p n \<Longrightarrow> 0 < k \<and> names = []" for p n
      using Inl loop by (auto simp: normalize_def Let_def split: if_splits)
    with Inl show ?thesis
      by (cases e) (auto simp: w strict_prefix_def)
  next
    case (Inr m)
    then obtain j ns where m: "0 < j" "ns \<noteq> []" "replicate j up @ ns = replicate k up @ names" "j = k"
      "m = MemberPath (str_join [47] (replicate j up @ ns))" "list_all plain_component ns"
      using loop by (elim normalize_Inr) simp
    have "path_components m = replicate j up @ ns"
      unfolding m(5) path_components_def MemberPath.sel by (rule split_recorded [OF m(1,6)])
    then have "leading_ups m = k"
      using count_ups [OF plain_component_ordinary [OF m(6)], of j] m(4) by (simp add: leading_ups_def)
    moreover have "names \<noteq> []"
      using m by auto
    ultimately show ?thesis
      using Inr m(1,4) w by auto
  qed
qed

text \<open>
  The relation of two recorded paths is about the directories they lead to: the same path only
  with itself, an inside path leads strictly below the other from every directory, containing is the
  converse, and disjoint paths that climb equally far lead to places neither of which contains the
  other.
\<close>

theorem relate_is_containment:
  assumes "validate_path s = Inr a" and "validate_path t = Inr b"
  shows "(relate a b = Same \<longleftrightarrow> s = t) \<and>
    (relate a b = Contains \<longleftrightarrow> relate b a = Inside) \<and>
    (relate a b = Inside \<longrightarrow>
       strict_prefix (walk dir (path_components b)) (walk dir (path_components a))) \<and>
    (relate a b = Disjoint \<and> leading_ups a = leading_ups b \<longrightarrow>
       walk dir (path_components a) \<parallel> walk dir (path_components b))"
  using assms inside_leads_inside [of a b dir] disjoint_leads_apart [of a b dir]
  by (auto simp: validate_path_ok Contains_Inside)

theorem relate_is_containment_witness:
  "relate (MemberPath (lit ''../a/b'')) (MemberPath (lit ''../a'')) = Inside \<and>
   strict_prefix (walk [lit ''w'', lit ''root''] (path_components (MemberPath (lit ''../a''))))
     (walk [lit ''w'', lit ''root''] (path_components (MemberPath (lit ''../a/b''))))"
proof -
  have "validate_path (lit ''../a/b'') = Inr (MemberPath (lit ''../a/b''))"
    "validate_path (lit ''../a'') = Inr (MemberPath (lit ''../a''))"
    by code_simp+
  moreover have "relate (MemberPath (lit ''../a/b'')) (MemberPath (lit ''../a'')) = Inside"
    by code_simp
  ultimately show ?thesis
    using relate_is_containment [of "lit ''../a/b''" "MemberPath (lit ''../a/b'')"
        "lit ''../a''" "MemberPath (lit ''../a'')" "[lit ''w'', lit ''root'']"] by blast
qed

end
