(* ===== verification/Family_Index.thy ===== *)
theory Family_Index
  imports BTree_Map Family_Names Family_Paths
begin

text \<open>
  The decoded family index of \<open>crates/family-model/src/lib.rs\<close>: rows, the view, the constants of
  the frozen file formats, and the listing that classifies every row against what was observed at
  its path. The resolver of \<open>crates/family-model/src/resolve.rs\<close> follows.
\<close>

subsection \<open>Formats\<close>

definition INDEX_SCHEMA :: ustr where
  "INDEX_SCHEMA = lit ''gwz.local-family/v2''"

definition INDEX_SCHEMA_V1 :: ustr where
  "INDEX_SCHEMA_V1 = lit ''gwz.local-family/v1''"

definition INDEX_SCHEMAS_READ :: "ustr list" where
  "INDEX_SCHEMAS_READ = [INDEX_SCHEMA_V1, INDEX_SCHEMA]"

definition INDEX_MIN_GWZ_VERSION :: ustr where
  "INDEX_MIN_GWZ_VERSION = lit ''1.0.14''"

definition INDEX_V1_MIN_GWZ_VERSION :: ustr where
  "INDEX_V1_MIN_GWZ_VERSION = lit ''1.0.0''"

definition index_schema_min_gwz_version :: "ustr \<Rightarrow> ustr option" where
  "index_schema_min_gwz_version schema =
     (if schema = INDEX_SCHEMA_V1 then Some INDEX_V1_MIN_GWZ_VERSION
      else if schema = INDEX_SCHEMA then Some INDEX_MIN_GWZ_VERSION
      else None)"

definition POINTER_SCHEMA :: ustr where
  "POINTER_SCHEMA = lit ''gwz.family-root/v1''"

definition INDEX_RELATIVE_PATH :: ustr where
  "INDEX_RELATIVE_PATH = lit ''.gwz/local-family.yml''"

definition LOCK_RELATIVE_PATH :: ustr where
  "LOCK_RELATIVE_PATH = lit ''.gwz/local-family.lock''"

definition POINTER_RELATIVE_PATH :: ustr where
  "POINTER_RELATIVE_PATH = lit ''.gwz/family-root''"

definition ALLOCATION_MARKER_RELATIVE_PATH :: ustr where
  "ALLOCATION_MARKER_RELATIVE_PATH = lit ''.gwz/local-clone-allocation''"

definition MAX_ENCODED_INDEX_BYTES :: nat where
  "MAX_ENCODED_INDEX_BYTES = 1024 * 1024"

record IndexOversize =
  oversize_bytes :: nat
  oversize_limit :: nat

definition check_encoded_size :: "nat \<Rightarrow> IndexOversize + unit" where
  "check_encoded_size bytes =
     (if bytes > MAX_ENCODED_INDEX_BYTES
      then Inl \<lparr>oversize_bytes = bytes, oversize_limit = MAX_ENCODED_INDEX_BYTES\<rparr>
      else Inr ())"

definition show_index_oversize :: "IndexOversize \<Rightarrow> ustr" where
  "show_index_oversize e = lit ''encoded family index is '' @ show_nat (oversize_bytes e) @
     lit '' bytes, over the '' @ show_nat (oversize_limit e) @ lit '' byte limit''"

subsection \<open>Rows and views\<close>

datatype MemberKind = Checkout | Bare

fun kind_str :: "MemberKind \<Rightarrow> ustr" where
  "kind_str Checkout = lit ''checkout''"
| "kind_str Bare = lit ''bare''"

definition parse_kind :: "ustr \<Rightarrow> MemberKind option" where
  "parse_kind value =
     (if value = lit ''checkout'' then Some Checkout
      else if value = lit ''bare'' then Some Bare
      else None)"

datatype MemberState = Creating | Ready | Disposing

fun state_str :: "MemberState \<Rightarrow> ustr" where
  "state_str Creating = lit ''creating''"
| "state_str Ready = lit ''ready''"
| "state_str Disposing = lit ''disposing''"

definition parse_state :: "ustr \<Rightarrow> MemberState option" where
  "parse_state value =
     (if value = lit ''creating'' then Some Creating
      else if value = lit ''ready'' then Some Ready
      else if value = lit ''disposing'' then Some Disposing
      else None)"

datatype CloneMode = Verbatim | Clean | ModeBare

fun mode_str :: "CloneMode \<Rightarrow> ustr" where
  "mode_str Verbatim = lit ''verbatim''"
| "mode_str Clean = lit ''clean''"
| "mode_str ModeBare = lit ''bare''"

definition parse_mode :: "ustr \<Rightarrow> CloneMode option" where
  "parse_mode value =
     (if value = lit ''verbatim'' then Some Verbatim
      else if value = lit ''clean'' then Some Clean
      else if value = lit ''bare'' then Some ModeBare
      else None)"

record MemberRow =
  row_path :: ustr
  row_kind :: MemberKind
  row_state :: MemberState
  row_allocation_id :: AllocationId
  row_source_path :: ustr
  row_mode :: CloneMode
  row_last_error :: "ustr option"
  row_owner :: "OwnerToken option"

record RootEntry =
  root_allocation_id :: AllocationId

record FamilyView =
  view_family_id :: FamilyId
  view_root :: RootEntry
  view_members :: "(MemberName, MemberRow) btree"

definition founded :: "FamilyId \<Rightarrow> AllocationId \<Rightarrow> FamilyView" where
  "founded family_id root_allocation =
     \<lparr>view_family_id = family_id, view_root = \<lparr>root_allocation_id = root_allocation\<rparr>,
      view_members = bt_empty\<rparr>"

definition view_member :: "FamilyView \<Rightarrow> ustr \<Rightarrow> (MemberName \<times> MemberRow) option" where
  "view_member view name = List.find (\<lambda>(key, _). name_str key = name) (view_members view)"

subsection \<open>The listing\<close>

datatype PointerObservation =
    PointerMatches
  | PointerAbsent
  | PointerOtherFamily
  | PointerIsIndex
  | PointerMalformed

fun debug_pointer :: "PointerObservation \<Rightarrow> ustr" where
  "debug_pointer PointerMatches = lit ''Matches''"
| "debug_pointer PointerAbsent = lit ''Absent''"
| "debug_pointer PointerOtherFamily = lit ''OtherFamily''"
| "debug_pointer PointerIsIndex = lit ''IsIndex''"
| "debug_pointer PointerMalformed = lit ''Malformed''"

datatype MarkerObservation =
    MarkerMatches
  | MarkerAbsent
  | MarkerMismatch
  | MarkerMalformed

datatype TargetObservation =
    TargetPresent PointerObservation MarkerObservation
  | TargetMissing
  | TargetMalformed ustr

datatype ListState =
    LsReady
  | LsIncomplete
  | LsInterruptedDisposal
  | LsMissing
  | LsPointerRemoved
  | LsMismatched
  | LsMalformed
  | LsUnobserved

definition is_family_endpoint :: "ListState \<Rightarrow> bool" where
  "is_family_endpoint s \<longleftrightarrow> s = LsReady"

fun classify_ready :: "PointerObservation \<Rightarrow> MarkerObservation \<Rightarrow> ListState" where
  "classify_ready PointerMatches MarkerMatches = LsReady"
| "classify_ready PointerAbsent MarkerMatches = LsPointerRemoved"
| "classify_ready PointerAbsent MarkerAbsent = LsPointerRemoved"
| "classify_ready _ _ = LsMismatched"

definition classify_target :: "MemberRow \<Rightarrow> TargetObservation option \<Rightarrow> ListState" where
  "classify_target row target = (case target of
     None \<Rightarrow> LsUnobserved
   | Some TargetMissing \<Rightarrow> LsMissing
   | Some (TargetMalformed _) \<Rightarrow> LsMalformed
   | Some (TargetPresent pointer marker) \<Rightarrow> (case row_state row of
       Creating \<Rightarrow> LsIncomplete
     | Disposing \<Rightarrow> LsInterruptedDisposal
     | Ready \<Rightarrow> classify_ready pointer marker))"

record ListRow =
  list_name :: ustr
  list_kind :: MemberKind
  list_recorded :: MemberState
  list_observed :: ListState
  list_path :: ustr
  list_last_error :: "ustr option"
  list_owner :: "OwnerToken option"

definition project_list ::
  "FamilyView \<Rightarrow> (MemberName, TargetObservation) btree \<Rightarrow> ListRow list" where
  "project_list view observations =
     \<lparr>list_name = ROOT_NAME, list_kind = Checkout, list_recorded = Ready, list_observed = LsReady,
      list_path = ROOT_PATH, list_last_error = None, list_owner = None\<rparr> #
     map (\<lambda>(name, row).
       \<lparr>list_name = name_str name, list_kind = row_kind row, list_recorded = row_state row,
        list_observed = classify_target row (bt_get observations name),
        list_path = row_path row, list_last_error = row_last_error row,
        list_owner = row_owner row\<rparr>) (view_members view)"

subsection \<open>The resolver\<close>

datatype Verb = Merge | Pull | Push

datatype RemoteToken = RemoteToken (token_str: ustr)

record BoundMember =
  bound_name :: ustr
  bound_path :: ustr
  bound_kind :: MemberKind
  bound_is_root :: bool

datatype Resolution =
    Bound BoundMember
  | UnknownLocal ustr "MemberState option"
  | LifecycleRefusal ustr MemberState
  | GitRemoteCandidate ustr
  | NoToken

definition not_a_member :: "ustr \<Rightarrow> MemberState option \<Rightarrow> Verb \<Rightarrow> Resolution" where
  "not_a_member token state verb = (case verb of
     Merge \<Rightarrow> UnknownLocal token state
   | _ \<Rightarrow> (case state of
       Some st \<Rightarrow> LifecycleRefusal token st
     | None \<Rightarrow> GitRemoteCandidate token))"

definition resolve_remote_token ::
  "FamilyView option \<Rightarrow> RemoteToken option \<Rightarrow> Verb \<Rightarrow> Resolution" where
  "resolve_remote_token view token verb = (case token of
     None \<Rightarrow> NoToken
   | Some (RemoteToken token) \<Rightarrow> (case view of
       None \<Rightarrow> not_a_member token None verb
     | Some view \<Rightarrow>
         if token = ROOT_NAME
         then Bound \<lparr>bound_name = ROOT_NAME, bound_path = ROOT_PATH, bound_kind = Checkout,
                bound_is_root = True\<rparr>
         else case view_member view token of
           Some (name, row) \<Rightarrow>
             if row_state row = Ready
             then Bound \<lparr>bound_name = name_str name, bound_path = row_path row,
                    bound_kind = row_kind row, bound_is_root = False\<rparr>
             else not_a_member token (Some (row_state row)) verb
         | None \<Rightarrow> not_a_member token None verb))"

subsection \<open>Lemmas\<close>

lemma enum_round_trips [simp]:
  "parse_kind (kind_str k) = Some k"
  "parse_state (state_str s) = Some s"
  "parse_mode (mode_str m) = Some m"
  by (cases k; cases s; cases m; simp add: parse_kind_def parse_state_def parse_mode_def)+

lemma parse_enum_spelling:
  "parse_kind t = Some k \<Longrightarrow> t = kind_str k"
  "parse_state t = Some s \<Longrightarrow> t = state_str s"
  "parse_mode t = Some m \<Longrightarrow> t = mode_str m"
  by (auto simp: parse_kind_def parse_state_def parse_mode_def split: if_splits)

lemma find_key:
  "distinct (map fst ms) \<Longrightarrow> List.find (\<lambda>(key, _). name_str key = n) ms =
     map_option (\<lambda>row. (MemberName n, row)) (map_of ms (MemberName n))"
  by (induction ms) (auto simp: MemberName.expand split: prod.splits)

lemma view_member_get:
  "bt_wf (view_members view) \<Longrightarrow> view_member view n =
     map_option (\<lambda>row. (MemberName n, row)) (bt_get (view_members view) (MemberName n))"
  unfolding view_member_def bt_get_def by (rule find_key [OF bt_wf_distinct])

lemma classify_endpoint:
  "is_family_endpoint (classify_target row target) \<longleftrightarrow>
     row_state row = Ready \<and> target = Some (TargetPresent PointerMatches MarkerMatches)"
proof -
  have "classify_ready p m = LsReady \<longleftrightarrow> p = PointerMatches \<and> m = MarkerMatches" for p m
    by (cases p; cases m) auto
  then show ?thesis
    by (auto simp: is_family_endpoint_def classify_target_def
        split: option.split TargetObservation.split MemberState.split)
qed

subsection \<open>Properties\<close>

text \<open>
  C32. The listing has the root first and then one line per row, in the strict order of the names.
  A line is a family endpoint exactly when its row is recorded ready and its path was observed with
  a matching pointer and a matching marker; every other combination is only a report.
\<close>

theorem project_list_reports:
  assumes "bt_wf (view_members view)"
  shows "map list_name (project_list view obs) =
      ROOT_NAME # map (name_str \<circ> fst) (view_members view) \<and>
    sorted_wrt (<) (map (name_str \<circ> fst) (view_members view)) \<and>
    list_all2 (\<lambda>(name, row) line.
        is_family_endpoint (list_observed line) =
          (row_state row = Ready \<and>
           bt_get obs name = Some (TargetPresent PointerMatches MarkerMatches)) \<and>
        list_path line = row_path row \<and> list_recorded line = row_state row \<and>
        list_owner line = row_owner row)
      (view_members view) (tl (project_list view obs))"
proof (intro conjI)
  show "map list_name (project_list view obs) =
      ROOT_NAME # map (name_str \<circ> fst) (view_members view)"
    by (auto simp: project_list_def)
  show "sorted_wrt (<) (map (name_str \<circ> fst) (view_members view))"
    using assms by (simp add: bt_wf_def sorted_wrt_map less_MemberName_def)
qed (auto simp: project_list_def classify_endpoint list_all2_map2 list_all2_same split: prod.split)

definition sample_row :: MemberRow where
  "sample_row = \<lparr>row_path = lit ''../a'', row_kind = Checkout, row_state = Ready,
     row_allocation_id = AllocationId (lit ''al-1''), row_source_path = lit ''.'',
     row_mode = Verbatim, row_last_error = None, row_owner = None\<rparr>"

definition sample_view :: FamilyView where
  "sample_view = \<lparr>view_family_id = FamilyId (lit ''fam''),
     view_root = \<lparr>root_allocation_id = AllocationId (lit ''al-0'')\<rparr>,
     view_members = [(MemberName (lit ''a''), sample_row)]\<rparr>"

theorem project_list_reports_witness:
  "map list_name (project_list sample_view bt_empty) = [lit ''root'', lit ''a'']"
proof -
  have "bt_wf (view_members sample_view)"
    by (simp add: bt_wf_def sample_view_def)
  from project_list_reports [OF this, of bt_empty] show ?thesis
    by (simp add: sample_view_def ROOT_NAME_def)
qed

text \<open>
  C31. The resolver never falls through to a Git remote while the family holds a row of that name, and
  it never binds a row that is not ready. A token becomes a Git-remote candidate exactly when the
  verb is not merge and no family row (nor the root) has the name; it binds exactly the root or a
  ready row, with that row's own path and kind; merge never yields a Git candidate.
\<close>

theorem resolver_never_shadows_a_row:
  assumes "bt_wf (view_members view)"
  shows "(resolve_remote_token (Some view) (Some (RemoteToken t)) verb = GitRemoteCandidate n \<longleftrightarrow>
      n = t \<and> verb \<noteq> Merge \<and> t \<noteq> ROOT_NAME \<and> bt_get (view_members view) (MemberName t) = None) \<and>
    (resolve_remote_token (Some view) (Some (RemoteToken t)) verb = Bound b \<longleftrightarrow>
      (if t = ROOT_NAME
       then b = \<lparr>bound_name = ROOT_NAME, bound_path = ROOT_PATH, bound_kind = Checkout,
              bound_is_root = True\<rparr>
       else \<exists>row. bt_get (view_members view) (MemberName t) = Some row \<and> row_state row = Ready \<and>
         b = \<lparr>bound_name = t, bound_path = row_path row, bound_kind = row_kind row,
              bound_is_root = False\<rparr>)) \<and>
    (resolve_remote_token (Some view) (Some (RemoteToken t)) verb = LifecycleRefusal n st \<longleftrightarrow>
      n = t \<and> verb \<noteq> Merge \<and> t \<noteq> ROOT_NAME \<and> st \<noteq> Ready \<and>
      (\<exists>row. bt_get (view_members view) (MemberName t) = Some row \<and> row_state row = st))"
  by (auto simp: resolve_remote_token_def view_member_get [OF assms] not_a_member_def
      split: option.split Verb.split)

theorem resolver_never_shadows_a_row_witness:
  "resolve_remote_token (Some sample_view) (Some (RemoteToken (lit ''up''))) Push =
     GitRemoteCandidate (lit ''up'') \<and>
   resolve_remote_token (Some sample_view) (Some (RemoteToken (lit ''a''))) Push \<noteq>
     GitRemoteCandidate (lit ''a'')"
proof -
  have wf: "bt_wf (view_members sample_view)"
    by (simp add: bt_wf_def sample_view_def)
  show ?thesis
    using resolver_never_shadows_a_row [OF wf, of "lit ''up''" Push "lit ''up''"]
      resolver_never_shadows_a_row [OF wf, of "lit ''a''" Push "lit ''a''"]
    by (simp add: sample_view_def bt_get_def ROOT_NAME_def)
qed

end
