(* ===== verification/Family_Transition.thy ===== *)
theory Family_Transition
  imports Family_Index
begin

text \<open>
  The index transitions of \<open>crates/family-model/src/transition.rs\<close>: the six changes, their guards in
  the order of the code with the refusal each guard returns, and the whole-index check the store
  runs on decoded bytes.

  The invariant is \<open>family_ok\<close>: every recorded path is a recorded spelling outside the root, every
  source is the root or another path, allocations identify one destination each, and no two rows
  overlap. The lemmas show that the index check decides it and that every accepted change keeps it;
  a step relation then gives the life of a row.
\<close>

datatype RemovalReason = Disposed | Keep | Stale

datatype FamilyChange =
    Allocate MemberName MemberRow
  | RecordError MemberName ustr
  | MarkReady MemberName AllocationId
  | MarkDisposing MemberName AllocationId
  | RemoveRow MemberName RemovalReason
  | Disband

datatype Refusal =
    NameCollision MemberName ustr "OwnerToken option"
  | PathNotNormalisedRow MemberName ustr ustr
  | AllocationCollision MemberName ustr
  | PathCollision ustr ustr
  | NestedPath ustr ustr
  | InvalidRow MemberName ustr
  | NotFound MemberName
  | WrongState MemberName MemberState MemberState
  | AllocationMismatch MemberName AllocationId AllocationId
  | NotDisposing MemberName MemberState

fun show_refusal :: "Refusal \<Rightarrow> ustr" where
  "show_refusal (NameCollision name holder_path holder_owner) =
     (case holder_owner of
        Some owner \<Rightarrow> lit ''name `'' @ name_str name @ lit ''` already holds '' @ holder_path @
          lit '' (owner `'' @ owner_str owner @ lit ''`)''
      | None \<Rightarrow> lit ''name `'' @ name_str name @ lit ''` already holds '' @ holder_path)"
| "show_refusal (PathNotNormalisedRow name path normalised) =
     lit ''row `'' @ name_str name @ lit ''`: member path `'' @ path @
     lit ''` is not normalised (`'' @ normalised @ lit ''`)''"
| "show_refusal (AllocationCollision name holder) =
     (if holder = ROOT_NAME
      then lit ''row `'' @ name_str name @ lit ''`: allocation is already held by the root''
      else lit ''row `'' @ name_str name @ lit ''`: allocation is already held by member `'' @
        holder @ lit ''`'')"
| "show_refusal (PathCollision path holder) =
     lit ''path `'' @ path @ lit ''` is already a family member ('' @ holder @ lit '')''"
| "show_refusal (NestedPath path other) =
     lit ''path `'' @ path @ lit ''` is nested with family member path `'' @ other @ lit ''`''"
| "show_refusal (InvalidRow name detail) =
     lit ''row `'' @ name_str name @ lit ''`: '' @ detail"
| "show_refusal (NotFound name) =
     lit ''no family member named `'' @ name_str name @ lit ''`''"
| "show_refusal (WrongState name expected actual) =
     lit ''member `'' @ name_str name @ lit ''` is '' @ state_str actual @
     lit '' (expected '' @ state_str expected @ lit '')''"
| "show_refusal (AllocationMismatch name expected actual) =
     lit ''member `'' @ name_str name @ lit ''` allocation '' @ allocation_str actual @
     lit '' does not match '' @ allocation_str expected"
| "show_refusal (NotDisposing name actual) =
     lit ''member `'' @ name_str name @ lit ''` is '' @ state_str actual @
     lit '' and was not being disposed''"

record ValidatedChange =
  validated_change :: FamilyChange
  validated_next :: FamilyView

definition require :: "FamilyView \<Rightarrow> MemberName \<Rightarrow> Refusal + MemberRow" where
  "require view name = ok_or (NotFound name) (bt_get (view_members view) name)"

definition expect_state :: "MemberName \<Rightarrow> MemberRow \<Rightarrow> MemberState \<Rightarrow> Refusal + unit" where
  "expect_state name row expected =
     (if row_state row \<noteq> expected then Inl (WrongState name expected (row_state row)) else Inr ())"

definition expect_allocation :: "MemberName \<Rightarrow> MemberRow \<Rightarrow> AllocationId \<Rightarrow> Refusal + unit" where
  "expect_allocation name row expected =
     (if row_allocation_id row \<noteq> expected
      then Inl (AllocationMismatch name expected (row_allocation_id row))
      else Inr ())"

definition path_refusal :: "MemberName \<Rightarrow> ustr \<Rightarrow> PathError \<Rightarrow> Refusal" where
  "path_refusal name path error = (case error of
     PathRootItself _ \<Rightarrow> NestedPath path ROOT_PATH
   | PathInsideRoot _ _ \<Rightarrow> NestedPath path ROOT_PATH
   | PathContainsRoot _ _ \<Rightarrow> NestedPath path ROOT_PATH
   | PathNotNormalised _ normalised \<Rightarrow> PathNotNormalisedRow name path normalised
   | other \<Rightarrow> InvalidRow name (show_path_error other))"

definition validate_row_path :: "MemberName \<Rightarrow> ustr \<Rightarrow> Refusal + MemberPath" where
  "validate_row_path name path = map_err (path_refusal name path) (validate_path path)"

definition validate_source_path :: "MemberName \<Rightarrow> MemberRow \<Rightarrow> MemberPath \<Rightarrow> Refusal + unit" where
  "validate_source_path name row path =
     (if row_source_path row = ROOT_PATH then Inr ()
      else and_then
        (map_err (\<lambda>error. InvalidRow name (lit ''source '' @ show_path_error error))
          (validate_path (row_source_path row)))
        (\<lambda>source.
          if relate source path = Same
          then Inl (InvalidRow name
            (lit ''member path `'' @ path_str path @ lit ''` is also its own source path''))
          else Inr ()))"

definition check_name_available :: "FamilyView \<Rightarrow> MemberName \<Rightarrow> Refusal + unit" where
  "check_name_available view name = (case bt_get (view_members view) name of
     Some holder \<Rightarrow> Inl (NameCollision name (row_path holder) (row_owner holder))
   | None \<Rightarrow> Inr ())"

definition check_path_available :: "FamilyView \<Rightarrow> MemberPath \<Rightarrow> Refusal + unit" where
  "check_path_available view path = for_each (\<lambda>(other_name, other).
     and_then (validate_row_path other_name (row_path other)) (\<lambda>recorded.
       case relate path recorded of
         Same \<Rightarrow> Inl (PathCollision (path_str path) (name_str other_name))
       | Inside \<Rightarrow> Inl (NestedPath (path_str path) (path_str recorded))
       | Contains \<Rightarrow> Inl (NestedPath (path_str path) (path_str recorded))
       | Disjoint \<Rightarrow> Inr ())) (view_members view)"

definition check_allocation_available ::
  "FamilyView \<Rightarrow> MemberName \<Rightarrow> AllocationId \<Rightarrow> Refusal + unit" where
  "check_allocation_available view name allocation =
     (if root_allocation_id (view_root view) = allocation
      then Inl (AllocationCollision name ROOT_NAME)
      else for_each (\<lambda>(other_name, other).
        if other_name \<noteq> name \<and> row_allocation_id other = allocation
        then Inl (AllocationCollision name (name_str other_name))
        else Inr ()) (view_members view))"

text \<open>The loop of the index check; \<open>admitted\<close> holds the rows already passed, oldest first.\<close>

fun validate_rows ::
  "FamilyView \<Rightarrow> (MemberName \<times> MemberPath) list \<Rightarrow> (MemberName \<times> MemberRow) list \<Rightarrow>
   Refusal + unit" where
  "validate_rows view admitted [] = Inr ()"
| "validate_rows view admitted ((name, row) # rows) =
     and_then (validate_row_path name (row_path row)) (\<lambda>path.
     and_then (validate_source_path name row path) (\<lambda>_.
     and_then (check_allocation_available view name (row_allocation_id row)) (\<lambda>_.
     and_then (for_each (\<lambda>(other_name, other).
         case relate path other of
           Same \<Rightarrow> Inl (PathCollision (path_str path) (name_str other_name))
         | Inside \<Rightarrow> Inl (NestedPath (path_str path) (path_str other))
         | Contains \<Rightarrow> Inl (NestedPath (path_str path) (path_str other))
         | Disjoint \<Rightarrow> Inr ()) admitted)
       (\<lambda>_. validate_rows view (admitted @ [(name, path)]) rows))))"

definition validate_view :: "FamilyView \<Rightarrow> Refusal + unit" where
  "validate_view view = validate_rows view [] (view_members view)"

definition next_members :: "FamilyView \<Rightarrow> FamilyChange \<Rightarrow> Refusal + (MemberName, MemberRow) btree" where
  "next_members view change = (case change of
     Allocate name row \<Rightarrow>
       if row_state row \<noteq> Creating
       then Inl (InvalidRow name (lit ''an allocation must be creating, not '' @ state_str (row_state row)))
       else and_then (validate_row_path name (row_path row)) (\<lambda>path.
         and_then (validate_source_path name row path) (\<lambda>_.
         and_then (check_name_available view name) (\<lambda>_.
         and_then (check_path_available view path) (\<lambda>_.
         and_then (check_allocation_available view name (row_allocation_id row)) (\<lambda>_.
           Inr (bt_insert name row (view_members view)))))))
   | RecordError name last_error \<Rightarrow>
       and_then (require view name) (\<lambda>row.
       and_then (expect_state name row Creating) (\<lambda>_.
         Inr (bt_modify name (\<lambda>row. row\<lparr>row_last_error := Some last_error\<rparr>) (view_members view))))
   | MarkReady name expected \<Rightarrow>
       and_then (require view name) (\<lambda>row.
       and_then (expect_state name row Creating) (\<lambda>_.
       and_then (expect_allocation name row expected) (\<lambda>_.
         Inr (bt_modify name (\<lambda>row. row\<lparr>row_state := Ready, row_last_error := None\<rparr>)
           (view_members view)))))
   | MarkDisposing name expected \<Rightarrow>
       and_then (require view name) (\<lambda>row.
       and_then (expect_state name row Ready) (\<lambda>_.
       and_then (expect_allocation name row expected) (\<lambda>_.
         Inr (bt_modify name (\<lambda>row. row\<lparr>row_state := Disposing\<rparr>) (view_members view)))))
   | RemoveRow name reason \<Rightarrow>
       and_then (require view name) (\<lambda>row.
         if reason = Disposed \<and> row_state row \<noteq> Disposing
         then Inl (NotDisposing name (row_state row))
         else Inr (bt_remove name (view_members view)))
   | Disband \<Rightarrow> Inr bt_empty)"

definition validate_transition :: "FamilyView \<Rightarrow> FamilyChange \<Rightarrow> Refusal + ValidatedChange" where
  "validate_transition view change = and_then (next_members view change) (\<lambda>members.
     Inr \<lparr>validated_change = change, validated_next = view\<lparr>view_members := members\<rparr>\<rparr>)"

subsection \<open>The invariant\<close>

definition row_ok :: "FamilyView \<Rightarrow> MemberRow \<Rightarrow> bool" where
  "row_ok view row \<longleftrightarrow> path_ok (row_path row) \<and>
     (row_source_path row = ROOT_PATH \<or>
      path_ok (row_source_path row) \<and> row_source_path row \<noteq> row_path row) \<and>
     row_allocation_id row \<noteq> root_allocation_id (view_root view)"

definition rows_apart :: "MemberRow \<Rightarrow> MemberRow \<Rightarrow> bool" where
  "rows_apart row other \<longleftrightarrow> row_allocation_id row \<noteq> row_allocation_id other \<and>
     relate (MemberPath (row_path row)) (MemberPath (row_path other)) = Disjoint"

definition family_ok :: "FamilyView \<Rightarrow> bool" where
  "family_ok view \<longleftrightarrow>
     (\<forall>x \<in> set (view_members view). row_ok view (snd x)) \<and>
     (\<forall>x \<in> set (view_members view). \<forall>y \<in> set (view_members view).
        fst x \<noteq> fst y \<longrightarrow> rows_apart (snd x) (snd y))"

lemma validate_row_path_Inr: "validate_row_path n s = Inr p \<longleftrightarrow> p = MemberPath s \<and> path_ok s"
  by (simp add: validate_row_path_def validate_path_ok)

lemma validate_source_path_Inr:
  "validate_source_path n row (MemberPath s) = Inr () \<longleftrightarrow>
     row_source_path row = ROOT_PATH \<or>
     path_ok (row_source_path row) \<and> row_source_path row \<noteq> s"
  by (auto simp: validate_source_path_def and_then_eq_Inr validate_path_ok)

lemma check_allocation_Inr:
  "check_allocation_available view n a = Inr () \<longleftrightarrow>
     root_allocation_id (view_root view) \<noteq> a \<and>
     (\<forall>y \<in> set (view_members view). fst y \<noteq> n \<longrightarrow> row_allocation_id (snd y) \<noteq> a)"
  by (auto simp: check_allocation_available_def for_each_ok case_prod_beta)

lemma relation_case_Inr:
  "(case r of Same \<Rightarrow> Inl a | Inside \<Rightarrow> Inl b | Contains \<Rightarrow> Inl c | Disjoint \<Rightarrow> Inr ()) = Inr () \<longleftrightarrow>
     r = Disjoint"
  by (cases r) auto

lemma check_path_Inr:
  "check_path_available view p = Inr () \<longleftrightarrow>
     (\<forall>y \<in> set (view_members view). path_ok (row_path (snd y)) \<and>
        relate p (MemberPath (row_path (snd y))) = Disjoint)"
  by (simp add: check_path_available_def for_each_ok case_prod_beta and_then_eq_Inr
      validate_row_path_Inr relation_case_Inr)

lemma validate_rows_Inr:
  "validate_rows view admitted rows = Inr () \<longleftrightarrow>
     (\<forall>x \<in> set rows. path_ok (row_path (snd x)) \<and>
        validate_source_path (fst x) (snd x) (MemberPath (row_path (snd x))) = Inr () \<and>
        check_allocation_available view (fst x) (row_allocation_id (snd x)) = Inr () \<and>
        (\<forall>y \<in> set admitted. relate (MemberPath (row_path (snd x))) (snd y) = Disjoint)) \<and>
     sorted_wrt (\<lambda>x y.
        relate (MemberPath (row_path (snd y))) (MemberPath (row_path (snd x))) = Disjoint) rows"
  by (induction view admitted rows rule: validate_rows.induct)
     (auto simp: and_then_eq_Inr validate_row_path_Inr for_each_ok relation_case_Inr case_prod_beta)

lemma sorted_wrt_distinct_pairs:
  assumes "\<And>x y. P x y \<Longrightarrow> P y x" and "distinct (map fst xs)"
  shows "sorted_wrt (\<lambda>a b. P b a) xs \<longleftrightarrow>
    (\<forall>a \<in> set xs. \<forall>b \<in> set xs. fst a \<noteq> fst b \<longrightarrow> P a b)"
  using assms(2)
proof (induction xs)
  case (Cons x xs)
  have "\<forall>y \<in> set xs. fst x \<noteq> fst y"
    using Cons.prems by auto
  then show ?case
    using Cons assms(1) by simp blast
qed simp

lemma validate_view_family_ok:
  assumes wf: "bt_wf (view_members view)"
  shows "validate_view view = Inr () \<longleftrightarrow> family_ok view"
proof -
  let ?P = "\<lambda>a b. relate (MemberPath (row_path (snd a))) (MemberPath (row_path (snd b))) = Disjoint"
  have pairs: "sorted_wrt (\<lambda>a b. ?P b a) (view_members view) \<longleftrightarrow>
    (\<forall>a \<in> set (view_members view). \<forall>b \<in> set (view_members view). fst a \<noteq> fst b \<longrightarrow> ?P a b)"
  proof (rule sorted_wrt_distinct_pairs)
    show "?P a b \<Longrightarrow> ?P b a" for a b
      by (rule relate_Disjoint_sym [THEN iffD1])
    show "distinct (map fst (view_members view))"
      using wf by (rule bt_wf_distinct)
  qed
  show ?thesis
    unfolding validate_view_def validate_rows_Inr pairs validate_source_path_Inr check_allocation_Inr
      family_ok_def row_ok_def rows_apart_def
    by (simp add: eq_commute [of "root_allocation_id (view_root view)"]) blast
qed

lemma family_ok_founded: "family_ok (founded f a)"
  by (simp add: family_ok_def founded_def bt_empty_def)

subsection \<open>What an accepted change does\<close>

lemma require_Inr: "require view n = Inr row \<longleftrightarrow> bt_get (view_members view) n = Some row"
  by (simp add: require_def)

lemma expect_state_Inr: "expect_state n row st = Inr () \<longleftrightarrow> row_state row = st"
  by (simp add: expect_state_def)

lemma expect_allocation_Inr: "expect_allocation n row a = Inr () \<longleftrightarrow> row_allocation_id row = a"
  by (simp add: expect_allocation_def)

lemma check_name_Inr: "check_name_available view n = Inr () \<longleftrightarrow> bt_get (view_members view) n = None"
  by (simp add: check_name_available_def split: option.split)

lemmas guard_simps = and_then_eq_Inr require_Inr expect_state_Inr expect_allocation_Inr
  check_name_Inr validate_row_path_Inr validate_source_path_Inr check_path_Inr check_allocation_Inr

text \<open>The guards of each change, read off an accepted change.\<close>

fun change_guard :: "FamilyView \<Rightarrow> FamilyChange \<Rightarrow> bool" where
  "change_guard view (Allocate n row) \<longleftrightarrow> row_state row = Creating \<and> row_ok view row \<and>
     bt_get (view_members view) n = None \<and>
     (\<forall>y \<in> set (view_members view). path_ok (row_path (snd y)) \<and> rows_apart row (snd y))"
| "change_guard view (RecordError n e) \<longleftrightarrow>
     (\<exists>row. bt_get (view_members view) n = Some row \<and> row_state row = Creating)"
| "change_guard view (MarkReady n a) \<longleftrightarrow>
     (\<exists>row. bt_get (view_members view) n = Some row \<and> row_state row = Creating \<and>
       row_allocation_id row = a)"
| "change_guard view (MarkDisposing n a) \<longleftrightarrow>
     (\<exists>row. bt_get (view_members view) n = Some row \<and> row_state row = Ready \<and>
       row_allocation_id row = a)"
| "change_guard view (RemoveRow n reason) \<longleftrightarrow>
     (\<exists>row. bt_get (view_members view) n = Some row \<and>
       (reason = Disposed \<longrightarrow> row_state row = Disposing))"
| "change_guard view Disband \<longleftrightarrow> True"

text \<open>The members an accepted change leaves.\<close>

fun change_effect ::
  "FamilyChange \<Rightarrow> (MemberName, MemberRow) btree \<Rightarrow> (MemberName, MemberRow) btree" where
  "change_effect (Allocate n row) ms = bt_insert n row ms"
| "change_effect (RecordError n e) ms = bt_modify n (\<lambda>row. row\<lparr>row_last_error := Some e\<rparr>) ms"
| "change_effect (MarkReady n a) ms =
     bt_modify n (\<lambda>row. row\<lparr>row_state := Ready, row_last_error := None\<rparr>) ms"
| "change_effect (MarkDisposing n a) ms = bt_modify n (\<lambda>row. row\<lparr>row_state := Disposing\<rparr>) ms"
| "change_effect (RemoveRow n reason) ms = bt_remove n ms"
| "change_effect Disband ms = bt_empty"

lemma allocate_apart:
  assumes wf: "bt_wf ms" and free: "bt_get ms n = None"
  shows "(\<forall>y \<in> set ms. fst y \<noteq> n \<longrightarrow> P y) \<longleftrightarrow> (\<forall>y \<in> set ms. P y)"
proof -
  have "fst y \<noteq> n" if "y \<in> set ms" for y
    using bt.get_mem [OF wf, of n "snd y"] free that by (cases y) auto
  then show ?thesis by blast
qed

lemma next_members_Inr:
  assumes wf: "bt_wf (view_members view)"
  shows "next_members view change = Inr ms \<longleftrightarrow>
    change_guard view change \<and> ms = change_effect change (view_members view)"
proof (cases change)
  case (Allocate n row)
  show ?thesis
  proof (cases "bt_get (view_members view) n = None")
    case True
    have iff: "next_members view change = Inr ms \<longleftrightarrow> row_state row = Creating \<and>
      path_ok (row_path row) \<and>
      (row_source_path row = ROOT_PATH \<or>
        path_ok (row_source_path row) \<and> row_source_path row \<noteq> row_path row) \<and>
      (\<forall>y \<in> set (view_members view). path_ok (row_path (snd y)) \<and>
         relate (MemberPath (row_path row)) (MemberPath (row_path (snd y))) = Disjoint) \<and>
      root_allocation_id (view_root view) \<noteq> row_allocation_id row \<and>
      (\<forall>y \<in> set (view_members view). row_allocation_id (snd y) \<noteq> row_allocation_id row) \<and>
      ms = bt_insert n row (view_members view)"
      by (auto simp: Allocate next_members_def guard_simps True allocate_apart [OF wf True])
    show ?thesis
      unfolding iff by (auto simp: Allocate row_ok_def rows_apart_def True)
  qed (auto simp: Allocate next_members_def guard_simps)
qed (auto simp: next_members_def guard_simps split: if_splits)

lemma validate_transition_Inr:
  assumes "bt_wf (view_members view)"
  shows "validate_transition view change = Inr vc \<longleftrightarrow> change_guard view change \<and>
    vc = \<lparr>validated_change = change,
      validated_next = view\<lparr>view_members := change_effect change (view_members view)\<rparr>\<rparr>"
  by (auto simp: validate_transition_def and_then_eq_Inr next_members_Inr [OF assms])

lemma change_effect_wf: "bt_wf ms \<Longrightarrow> bt_wf (change_effect change ms)"
  by (cases change) (simp_all add: bt.wf_intros)

lemma row_ok_members [simp]: "row_ok (view\<lparr>view_members := ms\<rparr>) row = row_ok view row"
  by (simp add: row_ok_def)

lemma rows_apart_sym: "rows_apart row other \<Longrightarrow> rows_apart other row"
  using relate_Disjoint_sym [of "MemberPath (row_path row)"] by (auto simp: rows_apart_def)

text \<open>A change of a row that keeps what the invariant reads of it.\<close>

lemma family_ok_modify:
  assumes "bt_wf (view_members view)" and ok: "family_ok view"
    and same: "\<And>row. row_path (f row) = row_path row \<and> row_source_path (f row) = row_source_path row \<and>
      row_allocation_id (f row) = row_allocation_id row"
  shows "family_ok (view\<lparr>view_members := bt_modify n f (view_members view)\<rparr>)"
proof -
  have from_old: "\<exists>row. (k, row) \<in> set (view_members view) \<and> row_path r = row_path row \<and>
      row_source_path r = row_source_path row \<and> row_allocation_id r = row_allocation_id row"
    if "(k, r) \<in> set (bt_modify n f (view_members view))" for k r
    using that same by (auto simp: bt.mem_modify [OF assms(1)])
  show ?thesis
    unfolding family_ok_def
  proof (intro conjI ballI impI)
    fix x assume "x \<in> set (view_members (view\<lparr>view_members := bt_modify n f (view_members view)\<rparr>))"
    then obtain row where "(fst x, row) \<in> set (view_members view)" "row_path (snd x) = row_path row"
      "row_source_path (snd x) = row_source_path row" "row_allocation_id (snd x) = row_allocation_id row"
      using from_old [of "fst x" "snd x"] by auto
    with ok show "row_ok (view\<lparr>view_members := bt_modify n f (view_members view)\<rparr>) (snd x)"
      by (fastforce simp: family_ok_def row_ok_def)
  next
    fix x y
    assume xy: "x \<in> set (view_members (view\<lparr>view_members := bt_modify n f (view_members view)\<rparr>))"
      "y \<in> set (view_members (view\<lparr>view_members := bt_modify n f (view_members view)\<rparr>))"
      and "fst x \<noteq> fst y"
    obtain r q where "(fst x, r) \<in> set (view_members view)" "(fst y, q) \<in> set (view_members view)"
      "row_path (snd x) = row_path r" "row_allocation_id (snd x) = row_allocation_id r"
      "row_path (snd y) = row_path q" "row_allocation_id (snd y) = row_allocation_id q"
      using from_old [of "fst x" "snd x"] from_old [of "fst y" "snd y"] xy by auto
    moreover from this have "rows_apart r q"
      using ok \<open>fst x \<noteq> fst y\<close> unfolding family_ok_def by (metis fst_conv snd_conv)
    ultimately show "rows_apart (snd x) (snd y)"
      by (simp add: rows_apart_def)
  qed
qed

lemma family_ok_insert:
  assumes wf: "bt_wf (view_members view)" and ok: "family_ok view" and row: "row_ok view row"
    and apart: "\<forall>y \<in> set (view_members view). rows_apart row (snd y)"
  shows "family_ok (view\<lparr>view_members := bt_insert n row (view_members view)\<rparr>)"
proof -
  have mem: "x \<in> set (bt_insert n row (view_members view)) \<longleftrightarrow>
      x = (n, row) \<or> fst x \<noteq> n \<and> x \<in> set (view_members view)" for x
    using bt.mem_insert [OF wf, of "fst x" "snd x" n row] by (cases x) auto
  have rows: "\<forall>x \<in> set (view_members view). row_ok view (snd x)"
    and pairs: "\<And>x y. x \<in> set (view_members view) \<Longrightarrow> y \<in> set (view_members view) \<Longrightarrow>
      fst x \<noteq> fst y \<Longrightarrow> rows_apart (snd x) (snd y)"
    using ok unfolding family_ok_def by blast+
  have "rows_apart (snd x) (snd y)"
    if "x \<in> set (bt_insert n row (view_members view))"
      "y \<in> set (bt_insert n row (view_members view))" "fst x \<noteq> fst y" for x y
    using that apart rows_apart_sym pairs unfolding mem by (metis fst_conv snd_conv)
  with rows row show ?thesis
    unfolding family_ok_def by (auto simp: mem)
qed

lemma family_ok_subset:
  "family_ok view \<Longrightarrow> set ms \<subseteq> set (view_members view) \<Longrightarrow> family_ok (view\<lparr>view_members := ms\<rparr>)"
  unfolding family_ok_def by (simp, blast)

lemma change_keeps_family:
  assumes "bt_wf (view_members view)" "family_ok view" "change_guard view change"
  shows "family_ok (view\<lparr>view_members := change_effect change (view_members view)\<rparr>)"
proof (cases change)
  case (Allocate n row)
  with assms show ?thesis by (simp add: family_ok_insert)
next
  case (RemoveRow n reason)
  have "set (bt_remove n (view_members view)) \<subseteq> set (view_members view)"
    by (auto simp: bt_remove_def)
  with assms RemoveRow show ?thesis by (simp add: family_ok_subset)
qed (use assms in \<open>simp_all add: family_ok_modify family_ok_subset bt_empty_def\<close>)

subsection \<open>The life of an index and of a row\<close>

text \<open>Every index a run of accepted changes can produce from a founded family.\<close>

inductive index_reachable :: "FamilyId \<Rightarrow> AllocationId \<Rightarrow> FamilyView \<Rightarrow> bool"
  for f :: FamilyId and a :: AllocationId where
  start: "index_reachable f a (founded f a)"
| change: "index_reachable f a view \<Longrightarrow> validate_transition view change = Inr vc \<Longrightarrow>
    index_reachable f a (validated_next vc)"

text \<open>A stretch of accepted changes during which the row \<open>n\<close> is always there.\<close>

inductive row_lives :: "MemberName \<Rightarrow> FamilyView \<Rightarrow> FamilyView \<Rightarrow> bool"
  for n :: MemberName and first :: FamilyView where
  start: "bt_get (view_members first) n \<noteq> None \<Longrightarrow> row_lives n first first"
| change: "row_lives n first view \<Longrightarrow> validate_transition view change = Inr vc \<Longrightarrow>
    bt_get (view_members (validated_next vc)) n \<noteq> None \<Longrightarrow> row_lives n first (validated_next vc)"

definition same_identity :: "MemberRow \<Rightarrow> MemberRow \<Rightarrow> bool" where
  "same_identity r q \<longleftrightarrow> row_path r = row_path q \<and> row_kind r = row_kind q \<and>
     row_allocation_id r = row_allocation_id q \<and> row_source_path r = row_source_path q \<and>
     row_mode r = row_mode q \<and> row_owner r = row_owner q"

fun state_rank :: "MemberState \<Rightarrow> nat" where
  "state_rank Creating = 0"
| "state_rank Ready = 1"
| "state_rank Disposing = 2"

lemma same_identity_refl [simp]: "same_identity r r"
  by (simp add: same_identity_def)

lemma same_identity_trans: "same_identity p q \<Longrightarrow> same_identity q r \<Longrightarrow> same_identity p r"
  by (simp add: same_identity_def)

lemma change_row:
  assumes "change_guard view change" "bt_get (view_members view) n = Some r"
    "bt_get (change_effect change (view_members view)) n = Some q"
  shows "same_identity r q \<and> (state_rank (row_state q) = state_rank (row_state r) \<or>
    state_rank (row_state q) = Suc (state_rank (row_state r)))"
  using assms
  by (cases change) (auto simp: bt.get_simps same_identity_def split: if_splits)

lemma index_reachable_ok:
  "index_reachable f a view \<Longrightarrow> bt_wf (view_members view) \<and> family_ok view"
proof (induction rule: index_reachable.induct)
  case start
  then show ?case by (simp add: family_ok_founded) (simp add: founded_def bt.wf_empty)
next
  case (change view ch vc)
  then show ?case
    by (auto simp: validate_transition_Inr change_effect_wf change_keeps_family)
qed

lemma row_lives_wf: "row_lives n first view \<Longrightarrow> bt_wf (view_members first) \<Longrightarrow> bt_wf (view_members view)"
proof (induction rule: row_lives.induct)
  case (change view ch vc)
  then show ?case by (auto simp: validate_transition_Inr change_effect_wf)
qed

lemma row_lives_identity:
  assumes "row_lives n first view" "bt_wf (view_members first)"
  shows "\<exists>r q. bt_get (view_members first) n = Some r \<and> bt_get (view_members view) n = Some q \<and>
    same_identity r q \<and> state_rank (row_state r) \<le> state_rank (row_state q)"
  using assms
proof (induction rule: row_lives.induct)
  case (change view ch vc)
  then obtain r q where rq: "bt_get (view_members first) n = Some r"
    "bt_get (view_members view) n = Some q" "same_identity r q"
    "state_rank (row_state r) \<le> state_rank (row_state q)"
    by blast
  have acc: "change_guard view ch"
    "validated_next vc = view\<lparr>view_members := change_effect ch (view_members view)\<rparr>"
    using change row_lives_wf by (auto simp: validate_transition_Inr)
  obtain q' where q': "bt_get (change_effect ch (view_members view)) n = Some q'"
    using change.hyps(3) acc(2) by auto
  from change_row [OF acc(1) rq(2) q'] rq q' acc(2) show ?case
    by (auto intro: same_identity_trans)
qed auto

subsection \<open>Properties\<close>

text \<open>
  C15. The index check decides the invariant: it accepts a decoded index exactly when every recorded
  path is a recorded spelling outside the root, every source is the root or another path, every
  allocation identifies one destination (the root's included), and no two rows' paths overlap.
\<close>

theorem index_check_decides_invariant:
  assumes "bt_wf (view_members view)"
  shows "validate_view view = Inr () \<longleftrightarrow> family_ok view"
  by (rule validate_view_family_ok [OF assms])

theorem index_check_decides_invariant_witness:
  "validate_view sample_view = Inr () \<and> family_ok sample_view"
proof -
  have "bt_wf (view_members sample_view)"
    by (simp add: bt_wf_def sample_view_def)
  moreover have "validate_view sample_view = Inr ()"
    by code_simp
  ultimately show ?thesis
    using index_check_decides_invariant [of sample_view] by blast
qed

text \<open>
  C14. A change is accepted exactly when its guards hold, and then it does exactly its effect on the
  rows: the family id and the root entry stay, and no row but the named one is touched (disband
  empties the index). A removal as disposed needs a disposing row; ready and disposing are entered
  only from the state before, under the allocation the caller expects.
\<close>

theorem transition_accepts_exactly:
  assumes "bt_wf (view_members view)"
  shows "validate_transition view change = Inr vc \<longleftrightarrow> change_guard view change \<and>
    vc = \<lparr>validated_change = change,
      validated_next = view\<lparr>view_members := change_effect change (view_members view)\<rparr>\<rparr>"
  by (rule validate_transition_Inr [OF assms])

theorem transition_accepts_exactly_witness:
  "validate_transition sample_view (MarkDisposing (MemberName (lit ''a'')) (AllocationId (lit ''al-1''))) =
     Inr \<lparr>validated_change = MarkDisposing (MemberName (lit ''a'')) (AllocationId (lit ''al-1'')),
       validated_next = sample_view\<lparr>view_members :=
         [(MemberName (lit ''a''), sample_row\<lparr>row_state := Disposing\<rparr>)]\<rparr>\<rparr>"
proof -
  have wf: "bt_wf (view_members sample_view)"
    by (simp add: bt_wf_def sample_view_def)
  show ?thesis
    unfolding transition_accepts_exactly [OF wf]
    by (simp add: sample_view_def sample_row_def bt_get_def bt_modify_def)
qed

text \<open>
  C1. Every index that accepted changes can produce from a founded family is in name order, keeps
  the invariant, and passes the index check the store runs when it reads it back.
\<close>

theorem reachable_index_is_valid:
  assumes "index_reachable f a view"
  shows "bt_wf (view_members view) \<and> family_ok view \<and> validate_view view = Inr ()"
  using index_reachable_ok [OF assms] validate_view_family_ok by blast

theorem reachable_index_is_valid_witness:
  "validate_view (sample_view\<lparr>view_members :=
     [(MemberName (lit ''a''), sample_row\<lparr>row_state := Creating\<rparr>)]\<rparr>) = Inr ()"
proof -
  let ?f = "FamilyId (lit ''fam'')" and ?a = "AllocationId (lit ''al-0'')"
  let ?v = "sample_view\<lparr>view_members := [(MemberName (lit ''a''), sample_row\<lparr>row_state := Creating\<rparr>)]\<rparr>"
  let ?c = "Allocate (MemberName (lit ''a'')) (sample_row\<lparr>row_state := Creating\<rparr>)"
  have "validate_transition (founded ?f ?a) ?c = Inr \<lparr>validated_change = ?c, validated_next = ?v\<rparr>"
    by code_simp
  from index_reachable.change [OF index_reachable.start this]
  have "index_reachable ?f ?a ?v" by simp
  from reachable_index_is_valid [OF this] show ?thesis by blast
qed

text \<open>
  C30. While a row stays in the index its identity never changes: path, kind, allocation, source, mode
  and owner token are those it was reserved with, and its state only moves forward, from creating
  over ready to disposing. Nothing changes a row's owner after creation.
\<close>

theorem row_identity_is_fixed:
  assumes "row_lives n first view" and "bt_wf (view_members first)"
  shows "\<exists>r q. bt_get (view_members first) n = Some r \<and> bt_get (view_members view) n = Some q \<and>
    same_identity r q \<and> state_rank (row_state r) \<le> state_rank (row_state q)"
  by (rule row_lives_identity [OF assms])

theorem row_identity_is_fixed_witness:
  "\<exists>r q. bt_get (view_members sample_view) (MemberName (lit ''a'')) = Some r \<and>
    bt_get [(MemberName (lit ''a''), sample_row\<lparr>row_state := Disposing\<rparr>)] (MemberName (lit ''a'')) = Some q \<and>
    same_identity r q \<and> state_rank (row_state r) \<le> state_rank (row_state q)"
proof -
  let ?n = "MemberName (lit ''a'')"
  let ?c = "MarkDisposing ?n (AllocationId (lit ''al-1''))"
  let ?v = "sample_view\<lparr>view_members := [(?n, sample_row\<lparr>row_state := Disposing\<rparr>)]\<rparr>"
  have vt: "validate_transition sample_view ?c = Inr \<lparr>validated_change = ?c, validated_next = ?v\<rparr>"
    by code_simp
  have "row_lives ?n sample_view sample_view"
    by (rule row_lives.start) (simp add: sample_view_def bt_get_def)
  from row_lives.change [OF this vt]
  have "row_lives ?n sample_view ?v"
    by (simp add: bt_get_def)
  moreover have "bt_wf (view_members sample_view)"
    by (simp add: bt_wf_def sample_view_def)
  ultimately show ?thesis
    using row_identity_is_fixed by fastforce
qed

end
