(* ===== verification/Store_Format.thy ===== *)
theory Store_Format
  imports Family_Transition
begin

text \<open>
  The frozen metadata files of \<open>crates/family-store/src/format.rs\<close>: the index, the clone pointer and
  the allocation marker, with their strict decoding.

  The YAML text itself is produced and read by a library the crate only calls. It is a parameter of
  the model, a \<open>codec\<close>: one function per \<open>to_string\<close> or \<open>from_slice\<close> call, over an arbitrary
  type of contents. What the store relies on is \<open>codec_ok\<close>: what was serialised deserialises to the
  same value.
\<close>

subsection \<open>File shapes\<close>

definition MARKER_SCHEMA :: ustr where
  "MARKER_SCHEMA = lit ''gwz.local-clone-allocation/v1''"

datatype FormatError = FormatError (format_detail: ustr)

record RowFile =
  rf_path :: ustr
  rf_kind :: ustr
  rf_state :: ustr
  rf_allocation_id :: ustr
  rf_source_path :: ustr
  rf_mode :: ustr
  rf_last_error :: "ustr option"
  rf_owner :: "ustr option"

record RootFile =
  rootf_allocation_id :: ustr

record IndexFile =
  if_schema :: ustr
  if_family_id :: ustr
  if_root :: RootFile
  if_members :: "(ustr, RowFile) btree"

record PointerFile =
  pf_schema :: ustr
  pf_family_id :: ustr
  pf_root_path :: ustr

record MarkerFile =
  mf_schema :: ustr
  mf_family_id :: ustr
  mf_allocation_id :: ustr

record IndexSchemaProbe =
  probe_schema :: ustr

record 'b codec =
  index_to_yaml :: "IndexFile \<Rightarrow> ustr + 'b"
  index_of_yaml :: "'b \<Rightarrow> ustr + IndexFile"
  probe_of_yaml :: "'b \<Rightarrow> ustr + IndexSchemaProbe"
  pointer_to_yaml :: "PointerFile \<Rightarrow> ustr + 'b"
  pointer_of_yaml :: "'b \<Rightarrow> ustr + PointerFile"
  marker_to_yaml :: "MarkerFile \<Rightarrow> ustr + 'b"
  marker_of_yaml :: "'b \<Rightarrow> ustr + MarkerFile"
  yaml_len :: "'b \<Rightarrow> nat"
  yaml_blank :: 'b

subsection \<open>Encoding and decoding\<close>

definition wrong_schema_any :: "ustr \<Rightarrow> ustr list \<Rightarrow> FormatError" where
  "wrong_schema_any found accepted =
     (let expected = str_join (lit '' or '') (map (\<lambda>s. lit ''`'' @ s @ lit ''`'') accepted);
          detail = lit ''`schema: '' @ found @ lit ''` is not '' @ expected @
            lit ''; this file is not in a format this store reads''
      in FormatError (case index_schema_min_gwz_version found of
           Some minimum \<Rightarrow>
             if found \<notin> set accepted
             then detail @ lit ''; `'' @ found @ lit ''` is read by gwz '' @ minimum @
               lit '' and later, so upgrade gwz to at least '' @ minimum
             else detail
         | None \<Rightarrow> detail))"

definition wrong_schema :: "ustr \<Rightarrow> ustr \<Rightarrow> FormatError" where
  "wrong_schema found expected = wrong_schema_any found [expected]"

definition row_file :: "MemberRow \<Rightarrow> RowFile" where
  "row_file row = \<lparr>rf_path = row_path row, rf_kind = kind_str (row_kind row),
     rf_state = state_str (row_state row), rf_allocation_id = allocation_str (row_allocation_id row),
     rf_source_path = row_source_path row, rf_mode = mode_str (row_mode row),
     rf_last_error = row_last_error row, rf_owner = map_option owner_str (row_owner row)\<rparr>"

definition index_file :: "FamilyView \<Rightarrow> IndexFile" where
  "index_file view = \<lparr>if_schema = INDEX_SCHEMA, if_family_id = family_str (view_family_id view),
     if_root = \<lparr>rootf_allocation_id = allocation_str (root_allocation_id (view_root view))\<rparr>,
     if_members = bt_collect (map (\<lambda>(name, row). (name_str name, row_file row)) (view_members view))\<rparr>"

definition encode_index :: "'b codec \<Rightarrow> FamilyView \<Rightarrow> FormatError + 'b" where
  "encode_index c view = map_err FormatError (index_to_yaml c (index_file view))"

definition unknown_value :: "MemberName \<Rightarrow> ustr \<Rightarrow> ustr \<Rightarrow> FormatError" where
  "unknown_value name field value = FormatError (lit ''row `'' @ name_str name @ lit ''`: `'' @ field @
     lit '': '' @ value @ lit ''` is not a known value'')"

definition decode_row :: "MemberName \<Rightarrow> RowFile \<Rightarrow> FormatError + MemberRow" where
  "decode_row name row =
     and_then (ok_or (unknown_value name (lit ''kind'') (rf_kind row)) (parse_kind (rf_kind row))) (\<lambda>kind.
     and_then (ok_or (unknown_value name (lit ''state'') (rf_state row)) (parse_state (rf_state row))) (\<lambda>state.
     and_then (map_err (\<lambda>error. FormatError (lit ''row `'' @ name_str name @ lit ''`: `allocation_id`: '' @
         show_id_error error)) (allocation_id_new (rf_allocation_id row))) (\<lambda>allocation.
     and_then (ok_or (unknown_value name (lit ''mode'') (rf_mode row)) (parse_mode (rf_mode row))) (\<lambda>mode.
     and_then (case rf_owner row of
         None \<Rightarrow> Inr None
       | Some owner \<Rightarrow> and_then (map_err (\<lambda>error. FormatError (lit ''row `'' @ name_str name @
           lit ''`: `owner`: '' @ show_owner_error error)) (parse_owner_token owner)) (\<lambda>t. Inr (Some t)))
       (\<lambda>owner.
     Inr \<lparr>row_path = rf_path row, row_kind = kind, row_state = state, row_allocation_id = allocation,
       row_source_path = rf_source_path row, row_mode = mode, row_last_error = rf_last_error row,
       row_owner = owner\<rparr>)))))"

fun decode_members ::
  "(ustr \<times> RowFile) list \<Rightarrow> (MemberName, MemberRow) btree \<Rightarrow>
   FormatError + (MemberName, MemberRow) btree" where
  "decode_members [] members = Inr members"
| "decode_members ((name, row) # rest) members =
     and_then (map_err (\<lambda>error. FormatError (lit ''member key `'' @ name @ lit ''`: '' @
         show_name_error error)) (parse_member_name name)) (\<lambda>name.
     and_then (decode_row name row) (\<lambda>row.
       decode_members rest (bt_insert name row members)))"

definition decode_index_accepting :: "'b codec \<Rightarrow> 'b \<Rightarrow> ustr list \<Rightarrow> FormatError + FamilyView" where
  "decode_index_accepting c bytes accepted =
     and_then (map_err FormatError (probe_of_yaml c bytes)) (\<lambda>probe.
       if probe_schema probe \<notin> set accepted then Inl (wrong_schema_any (probe_schema probe) accepted)
       else
         and_then (map_err FormatError (index_of_yaml c bytes)) (\<lambda>file.
         and_then (map_err (\<lambda>error. FormatError (lit ''`family_id`: '' @ show_id_error error))
           (family_id_new (if_family_id file))) (\<lambda>family_id.
         and_then (map_err (\<lambda>error. FormatError (lit ''`root.allocation_id`: '' @ show_id_error error))
           (allocation_id_new (rootf_allocation_id (if_root file)))) (\<lambda>root_allocation.
         and_then (decode_members (if_members file) (view_members (founded family_id root_allocation)))
           (\<lambda>members. Inr ((founded family_id root_allocation)\<lparr>view_members := members\<rparr>))))))"

definition decode_index :: "'b codec \<Rightarrow> 'b \<Rightarrow> FormatError + FamilyView" where
  "decode_index c bytes = decode_index_accepting c bytes INDEX_SCHEMAS_READ"

definition encode_pointer :: "'b codec \<Rightarrow> FamilyId \<Rightarrow> ustr \<Rightarrow> FormatError + 'b" where
  "encode_pointer c family_id root_path = map_err FormatError (pointer_to_yaml c
     \<lparr>pf_schema = POINTER_SCHEMA, pf_family_id = family_str family_id, pf_root_path = root_path\<rparr>)"

definition decode_pointer :: "'b codec \<Rightarrow> 'b \<Rightarrow> FormatError + PointerFile" where
  "decode_pointer c bytes = and_then (map_err FormatError (pointer_of_yaml c bytes)) (\<lambda>file.
     if pf_schema file \<noteq> POINTER_SCHEMA then Inl (wrong_schema (pf_schema file) POINTER_SCHEMA)
     else Inr file)"

definition encode_marker :: "'b codec \<Rightarrow> FamilyId \<Rightarrow> AllocationId \<Rightarrow> FormatError + 'b" where
  "encode_marker c family_id allocation_id = map_err FormatError (marker_to_yaml c
     \<lparr>mf_schema = MARKER_SCHEMA, mf_family_id = family_str family_id,
      mf_allocation_id = allocation_str allocation_id\<rparr>)"

definition decode_marker :: "'b codec \<Rightarrow> 'b \<Rightarrow> FormatError + MarkerFile" where
  "decode_marker c bytes = and_then (map_err FormatError (marker_of_yaml c bytes)) (\<lambda>file.
     if mf_schema file \<noteq> MARKER_SCHEMA then Inl (wrong_schema (mf_schema file) MARKER_SCHEMA)
     else Inr file)"

subsection \<open>Round trips\<close>

definition codec_ok :: "'b codec \<Rightarrow> bool" where
  "codec_ok c \<longleftrightarrow>
     (\<forall>f b. index_to_yaml c f = Inr b \<longrightarrow> index_of_yaml c b = Inr f \<and>
        probe_of_yaml c b = Inr \<lparr>probe_schema = if_schema f\<rparr>) \<and>
     (\<forall>f b. pointer_to_yaml c f = Inr b \<longrightarrow> pointer_of_yaml c b = Inr f) \<and>
     (\<forall>f b. marker_to_yaml c f = Inr b \<longrightarrow> marker_of_yaml c b = Inr f)"

text \<open>What the constructors of the model's newtypes guarantee of a row and a view.\<close>

definition row_typed :: "MemberRow \<Rightarrow> bool" where
  "row_typed row \<longleftrightarrow> id_ok (allocation_str (row_allocation_id row)) \<and>
     (case row_owner row of None \<Rightarrow> True | Some t \<Rightarrow> owner_ok (owner_str t))"

definition view_typed :: "FamilyView \<Rightarrow> bool" where
  "view_typed view \<longleftrightarrow> bt_wf (view_members view) \<and> id_ok (family_str (view_family_id view)) \<and>
     id_ok (allocation_str (root_allocation_id (view_root view))) \<and>
     (\<forall>x \<in> set (view_members view). name_ok (name_str (fst x)) \<and> row_typed (snd x))"

lemma parse_owner_typed:
  "owner_ok s \<Longrightarrow> parse_owner_token s = Inr (OwnerToken s)"
  by (simp add: parse_owner_token_ok)

lemma decode_row_file: "row_typed row \<Longrightarrow> decode_row n (row_file row) = Inr row"
proof -
  assume t: "row_typed row"
  then have "allocation_id_new (allocation_str (row_allocation_id row)) = Inr (row_allocation_id row)"
    by (simp add: allocation_id_new_ok row_typed_def)
  moreover have "(case map_option owner_str (row_owner row) of None \<Rightarrow> Inr None
     | Some owner \<Rightarrow> and_then (map_err f (parse_owner_token owner)) (\<lambda>t. Inr (Some t))) = Inr (row_owner row)"
    for f :: "OwnerError \<Rightarrow> FormatError"
    using t by (cases "row_owner row") (auto simp: row_typed_def parse_owner_typed)
  ultimately show ?thesis
    by (simp add: decode_row_def row_file_def)
qed

lemma key_file_wf:
  "bt_wf ms \<Longrightarrow> bt_wf (map (\<lambda>(name, row). (name_str name, row_file row)) ms)"
  by (induction ms) (auto simp: bt_wf_def less_MemberName_def)

lemma decode_members_files:
  assumes "\<forall>x \<in> set ms. name_ok (name_str (fst x)) \<and> row_typed (snd x)"
  shows "decode_members (map (\<lambda>(name, row). (name_str name, row_file row)) ms) acc =
    Inr (fold (\<lambda>(k, v). bt_insert k v) ms acc)"
  using assms
proof (induction ms arbitrary: acc)
  case (Cons x ms)
  obtain n r where x: "x = (n, r)" by (cases x)
  have "parse_member_name (name_str n) = Inr n"
    using Cons.prems x by (simp add: parse_member_name_ok)
  then show ?case
    using Cons x by (simp add: decode_row_file)
qed simp

lemma decode_encode_index:
  assumes ok: "codec_ok c" and t: "view_typed view" and enc: "encode_index c view = Inr b"
  shows "decode_index c b = Inr view"
proof -
  have y: "index_to_yaml c (index_file view) = Inr b"
    using enc by (simp add: encode_index_def)
  have d: "index_of_yaml c b = Inr (index_file view)" "probe_of_yaml c b = Inr \<lparr>probe_schema = INDEX_SCHEMA\<rparr>"
    using ok y by (auto simp: codec_ok_def index_file_def)
  have wf: "bt_wf (view_members view)"
    using t by (simp add: view_typed_def)
  have m: "if_members (index_file view) =
      map (\<lambda>(name, row). (name_str name, row_file row)) (view_members view)"
    by (simp add: index_file_def bt_collect_wf key_file_wf wf)
  have "decode_members (if_members (index_file view)) bt_empty = Inr (view_members view)"
    using decode_members_files [of "view_members view" bt_empty] t bt_collect_wf [OF wf]
    by (simp add: m view_typed_def bt_collect_def)
  moreover have "family_id_new (if_family_id (index_file view)) = Inr (view_family_id view)"
    "allocation_id_new (rootf_allocation_id (if_root (index_file view))) =
       Inr (root_allocation_id (view_root view))"
    using t by (simp_all add: family_id_new_ok allocation_id_new_ok index_file_def view_typed_def)
  ultimately show ?thesis
    by (simp add: decode_index_def decode_index_accepting_def d INDEX_SCHEMAS_READ_def founded_def)
qed

lemma decode_encode_pointer:
  assumes "codec_ok c" "encode_pointer c f r = Inr b"
  shows "decode_pointer c b = Inr \<lparr>pf_schema = POINTER_SCHEMA, pf_family_id = family_str f, pf_root_path = r\<rparr>"
proof -
  have "pointer_of_yaml c b = Inr \<lparr>pf_schema = POINTER_SCHEMA, pf_family_id = family_str f, pf_root_path = r\<rparr>"
    using assms by (simp add: encode_pointer_def codec_ok_def)
  then show ?thesis by (simp add: decode_pointer_def)
qed

lemma decode_encode_marker:
  assumes "codec_ok c" "encode_marker c f a = Inr b"
  shows "decode_marker c b =
    Inr \<lparr>mf_schema = MARKER_SCHEMA, mf_family_id = family_str f, mf_allocation_id = allocation_str a\<rparr>"
proof -
  have "marker_of_yaml c b =
      Inr \<lparr>mf_schema = MARKER_SCHEMA, mf_family_id = family_str f, mf_allocation_id = allocation_str a\<rparr>"
    using assms by (simp add: encode_marker_def codec_ok_def)
  then show ?thesis by (simp add: decode_marker_def)
qed

text \<open>Every decoded view is typed: the decoder runs every constructor.\<close>

lemma decode_row_typed: "decode_row n f = Inr row \<Longrightarrow> row_typed row"
  by (auto simp: decode_row_def and_then_eq_Inr row_typed_def allocation_id_new_ok parse_owner_token_ok
      split: option.splits)

lemma decode_members_typed:
  assumes "decode_members fs ms = Inr out" "bt_wf ms"
    "\<forall>x \<in> set ms. name_ok (name_str (fst x)) \<and> row_typed (snd x)"
  shows "bt_wf out \<and> (\<forall>x \<in> set out. name_ok (name_str (fst x)) \<and> row_typed (snd x))"
  using assms
proof (induction fs arbitrary: ms)
  case (Cons f fs)
  obtain name row where f: "f = (name, row)" by (cases f)
  obtain n r where nr: "n = MemberName name" "name_ok name" "decode_row n row = Inr r"
    "decode_members fs (bt_insert n r ms) = Inr out"
    using Cons.prems(1) f by (auto simp: and_then_eq_Inr parse_member_name_ok)
  have "name_ok (name_str (fst x)) \<and> row_typed (snd x)" if "x \<in> set (bt_insert n r ms)" for x
    using that Cons.prems(3) nr bt.mem_insert [OF Cons.prems(2), of "fst x" "snd x" n r]
      decode_row_typed [OF nr(3)] by auto
  with Cons.IH [OF nr(4) bt_wf_insert [OF Cons.prems(2)]] show ?case by blast
qed simp

lemma decode_index_typed:
  assumes "decode_index c b = Inr view"
  shows "view_typed view"
proof -
  obtain xf :: IndexFile where "family_id_new (if_family_id xf) = Inr (view_family_id view)"
    "allocation_id_new (rootf_allocation_id (if_root xf)) = Inr (root_allocation_id (view_root view))"
    "decode_members (if_members xf) bt_empty = Inr (view_members view)"
    using assms
    by (auto simp: decode_index_def decode_index_accepting_def and_then_eq_Inr founded_def
        split: if_splits)
  moreover have "bt_wf (bt_empty :: (MemberName, MemberRow) btree)"
    by (rule bt.wf_empty)
  ultimately show ?thesis
    using decode_members_typed [of "if_members xf" bt_empty "view_members view"]
    by (auto simp: view_typed_def family_id_new_ok allocation_id_new_ok bt_empty_def)
qed

text \<open>Decoding keeps every spelling, so encoding what was decoded gives the file back.\<close>

lemma row_file_decode: "decode_row n f = Inr row \<Longrightarrow> row_file row = f"
  by (cases f) (auto simp: decode_row_def and_then_eq_Inr row_file_def allocation_id_new_ok parse_owner_token_ok
      dest: parse_enum_spelling split: option.splits)

lemma key_file_insert:
  "map (\<lambda>(name, row). (name_str name, row_file row)) (bt_insert n r ms) =
     bt_insert (name_str n) (row_file r) (map (\<lambda>(name, row). (name_str name, row_file row)) ms)"
  by (induction ms) (auto simp: less_MemberName_def MemberName.expand)

lemma decode_members_back:
  "decode_members fs ms = Inr out \<Longrightarrow>
     map (\<lambda>(name, row). (name_str name, row_file row)) out =
     fold (\<lambda>(k, v). bt_insert k v) fs (map (\<lambda>(name, row). (name_str name, row_file row)) ms)"
proof (induction fs arbitrary: ms)
  case (Cons f fs)
  obtain name row where f: "f = (name, row)" by (cases f)
  obtain r where nr: "decode_row (MemberName name) row = Inr r"
    "decode_members fs (bt_insert (MemberName name) r ms) = Inr out"
    using Cons.prems f by (auto simp: and_then_eq_Inr parse_member_name_ok)
  from Cons.IH [OF nr(2)] show ?case
    using f by (simp add: key_file_insert row_file_decode [OF nr(1)])
qed simp

lemma decode_index_back:
  assumes y: "index_of_yaml c b = Inr f" and wf: "bt_wf (if_members f)"
    and d: "decode_index c b = Inr view"
  shows "index_file view = f\<lparr>if_schema := INDEX_SCHEMA\<rparr>"
proof -
  have m: "decode_members (if_members f) [] = Inr (view_members view)"
    and i: "family_str (view_family_id view) = if_family_id f"
      "allocation_str (root_allocation_id (view_root view)) = rootf_allocation_id (if_root f)"
    using d y by (auto simp: decode_index_def decode_index_accepting_def and_then_eq_Inr founded_def
        family_id_new_ok allocation_id_new_ok bt_empty_def split: if_splits)
  have "map (\<lambda>(name, row). (name_str name, row_file row)) (view_members view) = if_members f"
    using decode_members_back [OF m] bt_collect_wf [OF wf] by (simp add: bt_collect_def bt_empty_def)
  then show ?thesis
    using i wf by (simp add: index_file_def bt_collect_wf)
qed

subsection \<open>Properties\<close>

text \<open>A codec that keeps the values themselves, for concrete inputs.\<close>

datatype yaml = YIndex IndexFile | YPointer PointerFile | YMarker MarkerFile | YBlank

definition value_codec :: "yaml codec" where
  "value_codec = \<lparr>
     index_to_yaml = (\<lambda>f. Inr (YIndex f)),
     index_of_yaml = (\<lambda>y. case y of YIndex f \<Rightarrow> Inr f | _ \<Rightarrow> Inl (lit ''not an index'')),
     probe_of_yaml = (\<lambda>y. case y of
        YIndex f \<Rightarrow> Inr \<lparr>probe_schema = if_schema f\<rparr>
      | YPointer f \<Rightarrow> Inr \<lparr>probe_schema = pf_schema f\<rparr>
      | YMarker f \<Rightarrow> Inr \<lparr>probe_schema = mf_schema f\<rparr>
      | YBlank \<Rightarrow> Inl (lit ''missing field `schema`'')),
     pointer_to_yaml = (\<lambda>f. Inr (YPointer f)),
     pointer_of_yaml = (\<lambda>y. case y of YPointer f \<Rightarrow> Inr f | _ \<Rightarrow> Inl (lit ''not a pointer'')),
     marker_to_yaml = (\<lambda>f. Inr (YMarker f)),
     marker_of_yaml = (\<lambda>y. case y of YMarker f \<Rightarrow> Inr f | _ \<Rightarrow> Inl (lit ''not a marker'')),
     yaml_len = (\<lambda>y. 100), yaml_blank = YBlank\<rparr>"

lemma value_codec_ok: "codec_ok value_codec"
  by (simp add: codec_ok_def value_codec_def)

lemma sample_view_typed: "view_typed sample_view"
  by (simp add: view_typed_def sample_view_def sample_row_def bt_wf_def id_ok_def row_typed_def
      name_ok_def lit_def is_whitespace_def is_control_def)

text \<open>
  C36. The index file is a faithful copy of the view. A view whose newtypes are well formed decodes
  from its own encoding to itself; every decoded view has well-formed names, ids and owner tokens in
  name order; and decoding then encoding gives the same file in the current format, so a format-1
  index is carried forward to format 2 with every other field unchanged.
\<close>

theorem index_round_trip:
  assumes "codec_ok c"
  shows "(view_typed view \<and> encode_index c view = Inr b \<longrightarrow> decode_index c b = Inr view) \<and>
    (decode_index c b' = Inr view' \<longrightarrow> view_typed view') \<and>
    (decode_index c b' = Inr view' \<and> index_of_yaml c b' = Inr f \<and> bt_wf (if_members f) \<longrightarrow>
       index_file view' = f\<lparr>if_schema := INDEX_SCHEMA\<rparr>)"
  using decode_encode_index [OF assms, of view b] decode_index_typed [of c b' view']
    decode_index_back [of c b' f view'] by simp

theorem index_round_trip_witness:
  "decode_index value_codec (YIndex (index_file sample_view)) = Inr sample_view"
proof -
  have "view_typed sample_view \<and>
      encode_index value_codec sample_view = Inr (YIndex (index_file sample_view))"
    by (simp add: encode_index_def value_codec_def sample_view_typed)
  with conjunct1 [OF index_round_trip [OF value_codec_ok]] show ?thesis
    by (rule mp)
qed

text \<open>
  A decoder that does not read a schema refuses it before it looks at any other field, and when
  the schema is one the program knows the refusal says which version reads it.
\<close>

theorem newer_index_refused_with_version:
  assumes "codec_ok c" and "encode_index c view = Inr b"
  shows "\<exists>pre. decode_index_accepting c b [INDEX_SCHEMA_V1] =
    Inl (FormatError (pre @ lit ''` is read by gwz '' @ lit ''1.0.14'' @
      lit '' and later, so upgrade gwz to at least '' @ lit ''1.0.14''))"
proof -
  have p: "probe_of_yaml c b = Inr \<lparr>probe_schema = INDEX_SCHEMA\<rparr>"
    using assms by (auto simp: encode_index_def codec_ok_def index_file_def)
  define pre where "pre = lit ''`schema: '' @ INDEX_SCHEMA @ lit ''` is not '' @ lit ''`'' @
    INDEX_SCHEMA_V1 @ lit ''`'' @ lit ''; this file is not in a format this store reads'' @
    lit ''; `'' @ INDEX_SCHEMA"
  have n: "INDEX_SCHEMA \<noteq> INDEX_SCHEMA_V1"
    by (simp add: INDEX_SCHEMA_def INDEX_SCHEMA_V1_def)
  have "wrong_schema_any INDEX_SCHEMA [INDEX_SCHEMA_V1] = FormatError (pre @ lit ''` is read by gwz '' @
      lit ''1.0.14'' @ lit '' and later, so upgrade gwz to at least '' @ lit ''1.0.14'')"
    by (simp add: wrong_schema_any_def Let_def index_schema_min_gwz_version_def
        INDEX_MIN_GWZ_VERSION_def n pre_def)
  moreover have "decode_index_accepting c b [INDEX_SCHEMA_V1] =
      Inl (wrong_schema_any INDEX_SCHEMA [INDEX_SCHEMA_V1])"
    by (simp add: decode_index_accepting_def p n)
  ultimately show ?thesis
    by (intro exI [of _ pre]) simp
qed

theorem newer_index_refused_with_version_witness:
  "\<exists>pre. decode_index_accepting value_codec (YIndex (index_file sample_view)) [INDEX_SCHEMA_V1] =
    Inl (FormatError (pre @ lit ''` is read by gwz '' @ lit ''1.0.14'' @
      lit '' and later, so upgrade gwz to at least '' @ lit ''1.0.14''))"
  by (rule newer_index_refused_with_version [OF value_codec_ok, of sample_view])
     (simp add: encode_index_def value_codec_def)

end
