(* ===== verification/Unique_Ids.thy ===== *)
theory Unique_Ids
  imports Prelude "HOL-Library.Word"
begin

text \<open>
  The unique-number source of \<open>crates/ids\<close>: a 64-bit prefix fixed when the source is made and a
  64-bit counter. The counter is kept at its width: \<open>checked_add\<close> refuses the last value, and a
  draw from an exhausted source panics (\<open>None\<close>) instead of repeating a number.
\<close>

type_synonym u64 = "64 word"

record IdSource =
  src_prefix :: u64
  src_next :: u64

record UniqueId =
  uid_prefix :: u64
  uid_sequence :: u64

definition id_source_new :: "u64 \<Rightarrow> IdSource" where
  "id_source_new p = \<lparr>src_prefix = p, src_next = 0\<rparr>"

definition checked_add_u64 :: "u64 \<Rightarrow> u64 \<Rightarrow> u64 option" where
  "checked_add_u64 a b = (if unat a + unat b < 2 ^ 64 then Some (a + b) else None)"

definition id_next :: "IdSource \<Rightarrow> (u64 \<times> IdSource) option" where
  "id_next s = (case checked_add_u64 (src_next s) 1 of
     None \<Rightarrow> None
   | Some n \<Rightarrow> Some (src_next s, s\<lparr>src_next := n\<rparr>))"

definition id_unique :: "IdSource \<Rightarrow> (UniqueId \<times> IdSource) option" where
  "id_unique s = (case id_next s of
     None \<Rightarrow> None
   | Some (n, s') \<Rightarrow> Some (\<lparr>uid_prefix = src_prefix s, uid_sequence = n\<rparr>, s'))"

text \<open>\<open>{:016x}\<close> pads with zeros to sixteen digits.\<close>

definition pad_zero :: "nat \<Rightarrow> ustr \<Rightarrow> ustr" where
  "pad_zero w s = replicate (w - length s) 48 @ s"

definition show_unique_id :: "UniqueId \<Rightarrow> ustr" where
  "show_unique_id u = pad_zero 16 (show_hex (unat (uid_prefix u))) @ lit ''-'' @
     show_hex (unat (uid_sequence u))"

text \<open>A run of draws from one source.\<close>

fun draw_many :: "nat \<Rightarrow> IdSource \<Rightarrow> (UniqueId list \<times> IdSource) option" where
  "draw_many 0 s = Some ([], s)"
| "draw_many (Suc n) s = (case draw_many n s of
     None \<Rightarrow> None
   | Some (us, s') \<Rightarrow> (case id_unique s' of
       None \<Rightarrow> None
     | Some (u, s'') \<Rightarrow> Some (us @ [u], s'')))"

lemma digits_of_hex: "c \<in> set (render_base 16 n) \<Longrightarrow> c \<noteq> 45"
proof (induction "16::nat" n rule: render_base.induct)
  case (1 n)
  show ?case
  proof (cases "n < 16")
    case True
    with 1 show ?thesis
      by (simp add: render_base.simps [of 16 n] digit_char_def split: if_splits)
  next
    case False
    have "digit_char (n mod 16) \<noteq> 45"
      by (simp add: digit_char_def)
    with False 1 show ?thesis
      by (auto simp: render_base.simps [of 16 n])
  qed
qed

lemma value_base_pad: "value_base 16 (replicate k 48 @ s) = value_base 16 s"
proof -
  have "foldl (\<lambda>acc c. acc * 16 + digit_value c) 0 (replicate k 48) = 0"
    by (induction k) (simp_all add: digit_value_def)
  then show ?thesis
    by (simp add: value_base_def)
qed

lemma value_pad_hex: "value_base 16 (pad_zero w (show_hex n)) = n"
  by (simp add: pad_zero_def value_base_pad show_hex_def value_render_base)

lemma pad_hex_inject [simp]: "pad_zero w (show_hex m) = pad_zero w (show_hex n) \<longleftrightarrow> m = n"
  by (metis value_pad_hex)

lemma append_sep_inject:
  "c \<notin> set xs \<Longrightarrow> c \<notin> set ys \<Longrightarrow> xs @ c # us = ys @ c # vs \<longleftrightarrow> xs = ys \<and> us = vs"
  by (auto simp: append_eq_append_conv2 append_eq_Cons_conv Cons_eq_append_conv)

lemma pad_hex_no_dash: "45 \<notin> set (pad_zero w (show_hex n))"
  using digits_of_hex by (auto simp: pad_zero_def show_hex_def)

lemma show_unique_id_inject [simp]: "show_unique_id u = show_unique_id v \<longleftrightarrow> u = v"
proof -
  have "show_unique_id u = show_unique_id v \<longleftrightarrow>
    pad_zero 16 (show_hex (unat (uid_prefix u))) = pad_zero 16 (show_hex (unat (uid_prefix v))) \<and>
    show_hex (unat (uid_sequence u)) = show_hex (unat (uid_sequence v))"
    by (simp add: show_unique_id_def lit_def append_sep_inject pad_hex_no_dash)
  then show ?thesis
    by (cases u, cases v) (simp add: word_unat_eq_iff)
qed

lemma unat_of_nat_u64: "k < 2 ^ 64 \<Longrightarrow> unat (of_nat k :: u64) = k"
  by (simp add: unsigned_of_nat take_bit_nat_eq_self)

lemma id_unique_below:
  assumes "Suc k < 2 ^ 64"
  shows "id_unique \<lparr>src_prefix = p, src_next = of_nat k\<rparr> =
    Some (\<lparr>uid_prefix = p, uid_sequence = of_nat k\<rparr>, \<lparr>src_prefix = p, src_next = of_nat (Suc k)\<rparr>)"
proof -
  have "unat (of_nat k :: u64) = k"
    using assms by (intro unat_of_nat_u64) simp
  then show ?thesis
    using assms by (simp add: id_unique_def id_next_def checked_add_u64_def add.commute)
qed

lemma id_unique_exhausted:
  assumes "Suc k = 2 ^ 64"
  shows "id_unique \<lparr>src_prefix = p, src_next = of_nat k\<rparr> = None"
proof -
  have "unat (of_nat k :: u64) = k"
    using assms by (intro unat_of_nat_u64) linarith
  then show ?thesis
    using assms by (simp add: id_unique_def id_next_def checked_add_u64_def)
qed

lemma draw_many_below:
  "n < 2 ^ 64 \<Longrightarrow> draw_many n (id_source_new p) =
     Some (map (\<lambda>i. \<lparr>uid_prefix = p, uid_sequence = of_nat i\<rparr>) [0..<n],
       \<lparr>src_prefix = p, src_next = of_nat n\<rparr>)"
proof (induction n)
  case 0
  then show ?case by (simp add: id_source_new_def)
next
  case (Suc n)
  then show ?case by (simp add: id_unique_below del: of_nat_Suc)
qed

lemma draw_many_last:
  assumes "Suc k = 2 ^ 64"
  shows "draw_many (Suc k) (id_source_new p) = None"
proof -
  have "k < 2 ^ 64"
    using assms by linarith
  then show ?thesis
    by (simp add: draw_many_below id_unique_exhausted [OF assms])
qed

lemma draw_many_mono: "draw_many m s = None \<Longrightarrow> draw_many (m + d) s = None"
  by (induction d) auto

lemma draw_many_exhausted:
  assumes "2 ^ 64 \<le> n"
  shows "draw_many n (id_source_new p) = None"
proof -
  obtain k :: nat where k: "Suc k = 2 ^ 64"
    by (metis Suc_pred' zero_less_numeral zero_less_power)
  then obtain d where "n = Suc k + d"
    using assms le_Suc_ex by metis
  with draw_many_mono [OF draw_many_last [OF k]] show ?thesis
    by simp
qed

text \<open>
  C35. A source counts from zero, one number a draw: the first \<open>n\<close> draws of a fresh source carry the
  sequence numbers \<open>0 .. n - 1\<close> and the names they display as are pairwise different; a source
  whose numbers are used up refuses to draw, it never repeats a number.
\<close>

theorem unique_ids_never_repeat:
  "draw_many n (id_source_new p) =
     (if n < 2 ^ 64
      then Some (map (\<lambda>i. \<lparr>uid_prefix = p, uid_sequence = of_nat i\<rparr>) [0..<n],
             \<lparr>src_prefix = p, src_next = of_nat n\<rparr>)
      else None) \<and>
   (case draw_many n (id_source_new p) of
      None \<Rightarrow> True
    | Some (us, _) \<Rightarrow> distinct (map show_unique_id us))"
proof (cases "n < 2 ^ 64")
  case True
  have "inj_on (\<lambda>i. of_nat i :: u64) {0..<n}"
    using True by (intro inj_onI) (simp add: of_nat_inverse word_of_nat_eq_iff take_bit_nat_eq_self)
  then have "distinct (map (show_unique_id \<circ> (\<lambda>i. \<lparr>uid_prefix = p, uid_sequence = of_nat i\<rparr>)) [0..<n])"
    by (simp add: distinct_map inj_on_def)
  with True show ?thesis
    by (simp add: draw_many_below)
next
  case False
  then show ?thesis
    by (simp add: draw_many_exhausted)
qed

end
