(* ===== verification/Host_Files.thy ===== *)
theory Host_Files
  imports Unique_Ids
begin

text \<open>
  The part of \<open>std::path\<close> and \<open>std::fs\<close> the store uses, on a Unix host. A path is the list of its
  components, as \<open>Path::components\<close> gives them; \<open>Path\<close> equality is equality of that list. A file
  name is UTF-8 text or an opaque byte name.

  A file system is a map from absolute names to nodes, with symbolic links; \<open>lookup_path\<close> resolves a
  path the way the kernel does, through at most forty links. Every system call consumes one tick, and
  the host's fault schedule may make the call of any tick fail with a device error; a failing write
  leaves arbitrary content in the file it was writing. So a theorem about an operation covers
  a failure at every one of its system calls. Writes by other processes between two calls of an
  operation are not modelled: the family lock excludes those of the program itself.
\<close>

subsection \<open>Paths\<close>

datatype osname = Utf8 ustr | Opaque nat

datatype component = RootDir | CurDir | ParentDir | Normal osname

type_synonym hpath = "component list"

definition is_absolute :: "hpath \<Rightarrow> bool" where
  "is_absolute p = (case p of RootDir # _ \<Rightarrow> True | _ \<Rightarrow> False)"

definition component_of :: "ustr \<Rightarrow> component option" where
  "component_of s =
     (if s = [] \<or> s = lit ''.'' then None
      else if s = lit ''..'' then Some ParentDir
      else Some (Normal (Utf8 s)))"

text \<open>\<open>Path::new(s)\<close>: only a leading \<open>.\<close> of a relative path is kept.\<close>

definition path_of_str :: "ustr \<Rightarrow> hpath" where
  "path_of_str s =
     (let pieces = str_split 47 s; tail = List.map_filter component_of pieces in
      if s = [] then []
      else if hd s = 47 then RootDir # tail
      else if hd pieces = lit ''.'' then CurDir # tail
      else tail)"

definition path_join :: "hpath \<Rightarrow> hpath \<Rightarrow> hpath" where
  "path_join a b =
     (if is_absolute b then b
      else if a = [] then b
      else a @ filter (\<lambda>c. c \<noteq> CurDir) b)"

definition path_join_str :: "hpath \<Rightarrow> ustr \<Rightarrow> hpath" where
  "path_join_str a s = path_join a (path_of_str s)"

definition path_parent :: "hpath \<Rightarrow> hpath option" where
  "path_parent p = (if p = [] \<or> last p = RootDir then None else Some (butlast p))"

definition path_file_name :: "hpath \<Rightarrow> osname option" where
  "path_file_name p =
     (if p = [] then None else case last p of Normal n \<Rightarrow> Some n | _ \<Rightarrow> None)"

fun osname_to_str :: "osname \<Rightarrow> ustr option" where
  "osname_to_str (Utf8 s) = Some s"
| "osname_to_str (Opaque n) = None"

text \<open>The replacement character of a lossy conversion.\<close>

fun component_display :: "component \<Rightarrow> ustr" where
  "component_display RootDir = []"
| "component_display CurDir = lit ''.''"
| "component_display ParentDir = lit ''..''"
| "component_display (Normal (Utf8 s)) = s"
| "component_display (Normal (Opaque n)) = [65533]"

definition path_display :: "hpath \<Rightarrow> ustr" where
  "path_display p = (if p = [RootDir] then lit ''/'' else str_join [47] (map component_display p))"

fun component_utf8 :: "component \<Rightarrow> bool" where
  "component_utf8 (Normal (Opaque n)) = False"
| "component_utf8 c = True"

definition path_to_str :: "hpath \<Rightarrow> ustr option" where
  "path_to_str p = (if list_all component_utf8 p then Some (path_display p) else None)"

subsection \<open>Nodes and errors\<close>

datatype 'b node = Directory | Regular 'b | Symlink hpath | Special

datatype io_kind =
    IoNotFound
  | IoAlreadyExists
  | IoNotADirectory
  | IoIsADirectory
  | IoFilesystemLoop
  | IoInvalidInput
  | IoUnsupported
  | IoOther

text \<open>
  \<open>IdsExhausted\<close> is not an error value of the code: it is the panic of an exhausted id source on its
  way up. No code catches it, so it passes through every error conversion unchanged.
\<close>

datatype io_error = OsError io_kind | CustomError io_kind ustr | IdsExhausted

fun error_kind :: "io_error \<Rightarrow> io_kind" where
  "error_kind (OsError k) = k"
| "error_kind (CustomError k t) = k"
| "error_kind IdsExhausted = IoOther"

fun os_error_text :: "io_kind \<Rightarrow> ustr" where
  "os_error_text IoNotFound = lit ''No such file or directory (os error 2)''"
| "os_error_text IoAlreadyExists = lit ''File exists (os error 17)''"
| "os_error_text IoNotADirectory = lit ''Not a directory (os error 20)''"
| "os_error_text IoIsADirectory = lit ''Is a directory (os error 21)''"
| "os_error_text IoFilesystemLoop = lit ''Too many levels of symbolic links (os error 40)''"
| "os_error_text IoInvalidInput = lit ''Invalid argument (os error 22)''"
| "os_error_text IoUnsupported = lit ''Operation not supported (os error 95)''"
| "os_error_text IoOther = lit ''other error''"

fun io_error_text :: "io_error \<Rightarrow> ustr" where
  "io_error_text (OsError k) = os_error_text k"
| "io_error_text (CustomError k t) = t"
| "io_error_text IdsExhausted = lit ''IdSource exhausted: every u64 has been drawn''"

type_synonym names = "osname list"
type_synonym 'b nodes = "names \<Rightarrow> 'b node option"

definition SYMLINK_LIMIT :: nat where
  "SYMLINK_LIMIT = 40"

text \<open>
  Resolution from the directory \<open>cur\<close>: \<open>follow\<close> says whether a link at the last component is
  followed, \<open>missing\<close> whether the last component may be absent (a call that creates it).
\<close>

function lookup_path ::
  "'b nodes \<Rightarrow> bool \<Rightarrow> bool \<Rightarrow> nat \<Rightarrow> names \<Rightarrow> hpath \<Rightarrow> io_kind + names" where
  "lookup_path N follow missing links cur [] = Inr cur"
| "lookup_path N follow missing links cur (RootDir # cs) = lookup_path N follow missing links [] cs"
| "lookup_path N follow missing links cur (CurDir # cs) = lookup_path N follow missing links cur cs"
| "lookup_path N follow missing links cur (ParentDir # cs) =
     lookup_path N follow missing links (butlast cur) cs"
| "lookup_path N follow missing links cur (Normal n # cs) =
     (case N (cur @ [n]) of
        None \<Rightarrow> if cs = [] \<and> missing then Inr (cur @ [n]) else Inl IoNotFound
      | Some Directory \<Rightarrow> lookup_path N follow missing links (cur @ [n]) cs
      | Some (Symlink t) \<Rightarrow>
          if cs = [] \<and> \<not> follow then Inr (cur @ [n])
          else (case links of
            0 \<Rightarrow> Inl IoFilesystemLoop
          | Suc l \<Rightarrow> lookup_path N follow missing l cur (t @ cs))
      | Some _ \<Rightarrow> if cs = [] then Inr (cur @ [n]) else Inl IoNotADirectory)"
  by pat_completeness auto
termination
  by (relation "measures [\<lambda>(N, f, m, links, cur, cs). links, \<lambda>(N, f, m, links, cur, cs). length cs]") auto

subsection \<open>The host\<close>

record 'b host =
  host_nodes :: "'b nodes"
  host_cwd :: names
  host_faults :: "nat \<Rightarrow> ustr option"
  host_torn :: "nat \<Rightarrow> 'b"
  host_tick :: nat
  host_locks :: "names list"
  host_lock_support :: bool
  host_ids :: IdSource

definition host_lookup :: "'b host \<Rightarrow> bool \<Rightarrow> bool \<Rightarrow> hpath \<Rightarrow> io_error + names" where
  "host_lookup h follow missing p =
     (if p = [] then Inl (OsError IoNotFound)
      else map_err OsError (lookup_path (host_nodes h) follow missing SYMLINK_LIMIT (host_cwd h) p))"

text \<open>A system call: one tick, which the fault schedule may fail.\<close>

definition syscall :: "('b host, io_error, 'a) op \<Rightarrow> ('b host, io_error, 'a) op" where
  "syscall act h =
     (case host_faults h (host_tick h) of
        Some text \<Rightarrow> (Inl (CustomError IoOther text), h\<lparr>host_tick := Suc (host_tick h)\<rparr>)
      | None \<Rightarrow> act (h\<lparr>host_tick := Suc (host_tick h)\<rparr>))"

definition put_node :: "names \<Rightarrow> 'b node option \<Rightarrow> 'b host \<Rightarrow> 'b host" where
  "put_node p n h = h\<lparr>host_nodes := (host_nodes h)(p := n)\<rparr>"

definition fs_canonicalize :: "hpath \<Rightarrow> ('b host, io_error, hpath) op" where
  "fs_canonicalize p = syscall (\<lambda>h.
     (and_then (host_lookup h True False p) (\<lambda>q. Inr (RootDir # map Normal q)), h))"

definition node_at :: "'b host \<Rightarrow> names \<Rightarrow> 'b node" where
  "node_at h q = (case host_nodes h q of Some n \<Rightarrow> n | None \<Rightarrow> Directory)"

definition fs_stat :: "bool \<Rightarrow> hpath \<Rightarrow> ('b host, io_error, 'b node) op" where
  "fs_stat follow p = syscall (\<lambda>h.
     (and_then (host_lookup h follow False p) (\<lambda>q. Inr (node_at h q)), h))"

definition fs_read :: "hpath \<Rightarrow> ('b host, io_error, 'b) op" where
  "fs_read p = syscall (\<lambda>h.
     (and_then (host_lookup h True False p) (\<lambda>q. case node_at h q of
        Regular b \<Rightarrow> Inr b
      | Directory \<Rightarrow> Inl (OsError IoIsADirectory)
      | _ \<Rightarrow> Inl (OsError IoOther)), h))"

definition fs_create_dir :: "hpath \<Rightarrow> ('b host, io_error, unit) op" where
  "fs_create_dir p = syscall (\<lambda>h. case host_lookup h False True p of
     Inl e \<Rightarrow> (Inl e, h)
   | Inr q \<Rightarrow>
       if q = [] \<or> host_nodes h q \<noteq> None then (Inl (OsError IoAlreadyExists), h)
       else (Inr (), put_node q (Some Directory) h))"

text \<open>\<open>OpenOptions::create_new\<close>: an exclusive new file, empty until it is written.\<close>

definition fs_create_new :: "'b \<Rightarrow> hpath \<Rightarrow> ('b host, io_error, names) op" where
  "fs_create_new blank p = syscall (\<lambda>h. case host_lookup h False True p of
     Inl e \<Rightarrow> (Inl e, h)
   | Inr q \<Rightarrow>
       if q = [] \<or> host_nodes h q \<noteq> None then (Inl (OsError IoAlreadyExists), h)
       else (Inr q, put_node q (Some (Regular blank)) h))"

text \<open>\<open>write_all\<close> on an open file; a failing write leaves arbitrary content.\<close>

definition fs_write_all :: "names \<Rightarrow> 'b \<Rightarrow> ('b host, io_error, unit) op" where
  "fs_write_all q contents h =
     (case host_faults h (host_tick h) of
        Some text \<Rightarrow> (Inl (CustomError IoOther text),
          put_node q (Some (Regular (host_torn h (host_tick h)))) (h\<lparr>host_tick := Suc (host_tick h)\<rparr>))
      | None \<Rightarrow> (Inr (),
          put_node q (Some (Regular contents)) (h\<lparr>host_tick := Suc (host_tick h)\<rparr>)))"

definition fs_sync :: "('b host, io_error, unit) op" where
  "fs_sync = syscall (op_return ())"

definition fs_open_directory :: "hpath \<Rightarrow> ('b host, io_error, unit) op" where
  "fs_open_directory p = syscall (\<lambda>h.
     (and_then (host_lookup h True False p) (\<lambda>q. Inr ()), h))"

definition fs_rename :: "hpath \<Rightarrow> hpath \<Rightarrow> ('b host, io_error, unit) op" where
  "fs_rename from to = syscall (\<lambda>h. case host_lookup h False False from of
     Inl e \<Rightarrow> (Inl e, h)
   | Inr p \<Rightarrow> (case host_lookup h False True to of
       Inl e \<Rightarrow> (Inl e, h)
     | Inr q \<Rightarrow>
         if q = [] \<or> host_nodes h q = Some Directory then (Inl (OsError IoIsADirectory), h)
         else if p = q then (Inr (), h)
         else (Inr (), put_node q (host_nodes h p) (put_node p None h))))"

definition fs_remove_file :: "hpath \<Rightarrow> ('b host, io_error, unit) op" where
  "fs_remove_file p = syscall (\<lambda>h. case host_lookup h False False p of
     Inl e \<Rightarrow> (Inl e, h)
   | Inr q \<Rightarrow>
       if node_at h q = Directory then (Inl (OsError IoIsADirectory), h)
       else (Inr (), put_node q None h))"

text \<open>\<open>open\<close> with create and no truncation: a missing file is created, a link is followed.\<close>

definition fs_open_or_create :: "'b \<Rightarrow> hpath \<Rightarrow> ('b host, io_error, names) op" where
  "fs_open_or_create blank p = syscall (\<lambda>h. case host_lookup h True True p of
     Inl e \<Rightarrow> (Inl e, h)
   | Inr q \<Rightarrow> (case host_nodes h q of
       None \<Rightarrow> if q = [] then (Inl (OsError IoIsADirectory), h)
         else (Inr q, put_node q (Some (Regular blank)) h)
     | Some Directory \<Rightarrow> (Inl (OsError IoIsADirectory), h)
     | Some _ \<Rightarrow> (Inr q, h)))"

subsection \<open>Resolution\<close>

text \<open>A directory spelled canonically: every prefix is a real directory.\<close>

definition dir_at :: "'b nodes \<Rightarrow> names \<Rightarrow> bool" where
  "dir_at N d \<longleftrightarrow> (\<forall>k \<le> length d. 0 < k \<longrightarrow> N (take k d) = Some Directory)"

definition canonical :: "names \<Rightarrow> hpath" where
  "canonical q = RootDir # map Normal q"

lemma dir_at_Nil [simp]: "dir_at N []"
  by (simp add: dir_at_def)

lemma dir_at_snoc [simp]: "dir_at N (d @ [n]) \<longleftrightarrow> dir_at N d \<and> N (d @ [n]) = Some Directory"
proof
  assume a: "dir_at N (d @ [n])"
  have "N (take k d) = Some Directory" if "k \<le> length d" "0 < k" for k
    using a that by (auto simp: dir_at_def dest: spec [of _ k])
  moreover have "N (d @ [n]) = Some Directory"
    using a by (auto simp: dir_at_def dest: spec [of _ "length (d @ [n])"])
  ultimately show "dir_at N d \<and> N (d @ [n]) = Some Directory"
    by (simp add: dir_at_def)
next
  assume "dir_at N d \<and> N (d @ [n]) = Some Directory"
  then show "dir_at N (d @ [n])"
    by (auto simp: dir_at_def le_Suc_eq)
qed

lemma dir_at_butlast: "dir_at N d \<Longrightarrow> dir_at N (butlast d)"
  by (cases d rule: rev_cases) auto

lemma dir_at_update: "dir_at N d \<Longrightarrow> N p \<noteq> Some Directory \<Longrightarrow> dir_at (N(p := v)) d"
  by (auto simp: dir_at_def)

lemma lookup_path_append_dirs:
  "dir_at N (cur @ d) \<Longrightarrow> dir_at N cur \<Longrightarrow>
     lookup_path N follow missing links cur (map Normal d @ cs) =
     lookup_path N follow missing links (cur @ d) cs"
proof (induction d arbitrary: cur)
  case (Cons n d)
  have "N (take (Suc (length cur)) (cur @ n # d)) = Some Directory"
    using Cons.prems(1) by (auto simp: dir_at_def dest: spec [of _ "Suc (length cur)"])
  then have "N (cur @ [n]) = Some Directory" by simp
  with Cons show ?case by simp
qed simp

lemma lookup_canonical:
  "dir_at N d \<Longrightarrow> lookup_path N follow missing links cur (canonical d @ cs) =
     lookup_path N follow missing links d cs"
  using lookup_path_append_dirs [of N "[]" d] by (simp add: canonical_def)

text \<open>Where a resolution ends: in a directory reached by real directories only.\<close>

lemma lookup_path_parent:
  "lookup_path N follow missing links cur p = Inr q \<Longrightarrow> dir_at N cur \<Longrightarrow> dir_at N (butlast q)"
proof (induction N follow missing links cur p rule: lookup_path.induct)
  case (5 N follow missing links cur n cs)
  then show ?case
    by (auto split: option.splits node.splits if_splits nat.splits)
qed (auto simp: dir_at_butlast)

lemma lookup_path_follow:
  "lookup_path N follow False links cur p = Inr q \<Longrightarrow> follow \<Longrightarrow> dir_at N cur \<Longrightarrow>
     dir_at N q \<or> (\<exists>v. N q = Some v \<and> v \<noteq> Directory \<and> (\<forall>t. v \<noteq> Symlink t))"
proof (induction N follow False links cur p rule: lookup_path.induct)
  case (5 N follow links cur n cs)
  then show ?case
    by (auto split: option.splits node.splits if_splits nat.splits)
qed (auto simp: dir_at_butlast)

text \<open>A node no resolution passes through.\<close>

definition leaf_at :: "'b nodes \<Rightarrow> names \<Rightarrow> bool" where
  "leaf_at N x \<longleftrightarrow> (case N x of Some Directory \<Rightarrow> False | Some (Symlink t) \<Rightarrow> False | _ \<Rightarrow> True)"

lemma lookup_path_avoids:
  "lookup_path N follow missing links cur p = Inr q \<Longrightarrow> q \<noteq> x \<Longrightarrow> leaf_at N x \<Longrightarrow>
     lookup_path (N(x := v)) follow missing links cur p = Inr q"
proof (induction N follow missing links cur p rule: lookup_path.induct)
  case (5 N follow missing links cur n cs)
  show ?case
  proof (cases "cur @ [n] = x")
    case True
    with 5 show ?thesis
      by (auto simp: leaf_at_def split: option.splits node.splits if_splits nat.splits)
  next
    case False
    with 5 show ?thesis
      by (auto split: option.splits node.splits if_splits nat.splits)
  qed
qed auto

lemma lookup_path_onto:
  "lookup_path N follow missing links cur p = Inr x \<Longrightarrow> leaf_at N x \<Longrightarrow> dir_at N cur \<Longrightarrow> x \<noteq> [] \<Longrightarrow>
     lookup_path (N(x \<mapsto> Regular b)) follow missing links cur p = Inr x"
proof (induction N follow missing links cur p rule: lookup_path.induct)
  case (1 N follow missing links cur)
  then show ?case by simp
next
  case (5 N follow missing links cur n cs)
  show ?case
  proof (cases "cur @ [n] = x")
    case True
    with 5 show ?thesis
      by (auto simp: leaf_at_def split: option.splits node.splits if_splits nat.splits)
  next
    case False
    with 5 show ?thesis
      by (auto split: option.splits node.splits if_splits nat.splits)
  qed
qed (auto simp: dir_at_butlast)

text \<open>A call that does not follow its last component resolves the parent first.\<close>

lemma lookup_path_snocD:
  "lookup_path N False missing links cur (p @ [Normal n]) = Inr q \<Longrightarrow> dir_at N cur \<Longrightarrow>
     \<exists>d. lookup_path N True False links cur p = Inr d \<and> dir_at N d \<and> q = d @ [n]"
proof (induction N True False links cur p rule: lookup_path.induct)
  case (1 N links cur)
  then show ?case
    by (auto split: option.splits node.splits if_splits nat.splits)
next
  case (5 N links cur m cs)
  then show ?case
    by (auto split: option.splits node.splits if_splits nat.splits)
qed (auto simp: dir_at_butlast)

lemma lookup_path_snoc:
  "lookup_path N True False links cur p = Inr d \<Longrightarrow> dir_at N cur \<Longrightarrow> dir_at N d \<Longrightarrow>
     lookup_path N False missing links cur (p @ [Normal n]) =
       (if N (d @ [n]) = None \<and> \<not> missing then Inl IoNotFound else Inr (d @ [n]))"
proof (induction N True False links cur p rule: lookup_path.induct)
  case (1 N links cur)
  then show ?case
    by (auto split: option.splits node.splits)
next
  case (5 N links cur m cs)
  show ?case
  proof (cases "N (cur @ [m])")
    case None
    with 5 show ?thesis by simp
  next
    case (Some v)
    with 5 show ?thesis
      by (cases v) (auto split: if_splits nat.splits)
  qed
qed (auto simp: dir_at_butlast)

lemma lookup_path_present:
  "lookup_path N follow True links cur p = Inr q \<Longrightarrow> N q \<noteq> None \<or> q = [] \<Longrightarrow> lookup_path N follow False links cur p = Inr q"
proof (induction N follow True links cur p rule: lookup_path.induct)
  case (5 N follow links cur m cs)
  then show ?case
    by (auto split: option.splits node.splits if_splits nat.splits)
qed auto

lemma lookup_path_no_link:
  "lookup_path N False missing links cur p = Inr q \<Longrightarrow> \<forall>t. N q \<noteq> Some (Symlink t) \<Longrightarrow>
     lookup_path N True missing links cur p = Inr q"
proof (induction N False missing links cur p rule: lookup_path.induct)
  case (5 N missing links cur m cs)
  then show ?case
    by (auto split: option.splits node.splits if_splits nat.splits)
qed auto

subsection \<open>Operations that only read\<close>

text \<open>An operation that leaves everything of the host but its tick.\<close>

definition same_host :: "'b host \<Rightarrow> 'b host \<Rightarrow> bool" where
  "same_host h h' \<longleftrightarrow> (\<exists>t. h' = h\<lparr>host_tick := t\<rparr>)"

definition reads_only :: "('b host, 'e, 'a) op \<Rightarrow> bool" where
  "reads_only m \<longleftrightarrow> (\<forall>h. same_host h (snd (m h)))"

named_theorems reads_only_intros \<open>operations that only read, and their compositions\<close>

lemma same_host_refl [simp]: "same_host h h"
  unfolding same_host_def by (rule exI [of _ "host_tick h"]) simp

lemma same_host_tick [simp]: "same_host h (h\<lparr>host_tick := t\<rparr>)"
  by (auto simp: same_host_def)

lemma same_host_trans: "same_host h h' \<Longrightarrow> same_host h' h'' \<Longrightarrow> same_host h h''"
  by (auto simp: same_host_def)

lemma same_host_nodes: "same_host h h' \<Longrightarrow> host_nodes h' = host_nodes h"
  by (auto simp: same_host_def)

lemma reads_onlyD: "reads_only m \<Longrightarrow> m h = (r, h') \<Longrightarrow> same_host h h'"
  unfolding reads_only_def by (metis snd_conv)

lemma reads_only_return [reads_only_intros]: "reads_only (op_return x)"
  by (simp add: reads_only_def)

lemma reads_only_fail [reads_only_intros]: "reads_only (op_fail e)"
  by (simp add: reads_only_def)

lemma reads_only_result [reads_only_intros]: "reads_only (op_result r)"
  by (simp add: reads_only_def)

lemma reads_only_bind [reads_only_intros]:
  "reads_only m \<Longrightarrow> (\<And>x. reads_only (f x)) \<Longrightarrow> reads_only (op_bind m f)"
  unfolding reads_only_def
  by (auto simp: op_bind_eq split: sum.split) (meson same_host_trans)

lemma reads_only_map_err [reads_only_intros]: "reads_only m \<Longrightarrow> reads_only (op_map_err f m)"
  by (simp add: reads_only_def)

lemma reads_only_match [reads_only_intros]:
  "reads_only m \<Longrightarrow> (\<And>r. reads_only (f r)) \<Longrightarrow> reads_only (op_match m f)"
  unfolding reads_only_def op_match_eq by (meson same_host_trans)

lemma reads_only_syscall:
  "(\<And>h. snd (act h) = h) \<Longrightarrow> reads_only (syscall act)"
  by (simp add: reads_only_def syscall_def split: option.split)

lemma reads_only_fs [reads_only_intros]:
  "reads_only (fs_canonicalize p)"
  "reads_only (fs_stat follow p)"
  "reads_only (fs_read p)"
  "reads_only fs_sync"
  "reads_only (fs_open_directory p)"
  unfolding fs_canonicalize_def fs_stat_def fs_read_def fs_sync_def fs_open_directory_def
  by (rule reads_only_syscall, simp)+

end
