(* ===== verification/Store_Publish.thy ===== *)
theory Store_Publish
  imports Host_Files
begin

text \<open>
  Metadata publication (\<open>crates/family-store/src/publish.rs\<close>) and the advisory lock
  (\<open>crates/family-store/src/lock.rs\<close>) over the host: a temporary file beside the target, written,
  flushed and renamed over it, each step a system call that may fail.
\<close>

datatype FileState = Absent | RegularFile | Irregular

definition is_present :: "FileState \<Rightarrow> bool" where
  "is_present s \<longleftrightarrow> s \<noteq> Absent"

definition file_state :: "hpath \<Rightarrow> ('b host, io_error, FileState) op" where
  "file_state path = op_match (fs_stat False path) (\<lambda>r. case r of
     Inr (Regular _) \<Rightarrow> op_return RegularFile
   | Inr _ \<Rightarrow> op_return Irregular
   | Inl error \<Rightarrow> if error_kind error = IoNotFound then op_return Absent else op_fail error)"

definition publish_read :: "hpath \<Rightarrow> ('b host, io_error, 'b) op" where
  "publish_read path = fs_read path"

definition encoded_size :: "('b \<Rightarrow> nat) \<Rightarrow> hpath \<Rightarrow> ('b host, io_error, nat) op" where
  "encoded_size len path = op_bind (fs_stat True path) (\<lambda>metadata.
     op_return (case metadata of Regular b \<Rightarrow> len b | _ \<Rightarrow> 0))"

definition ensure_metadata_directory :: "hpath \<Rightarrow> ('b host, io_error, unit) op" where
  "ensure_metadata_directory directory = op_match (fs_create_dir directory) (\<lambda>r. case r of
     Inr _ \<Rightarrow> op_return ()
   | Inl error \<Rightarrow>
       if error_kind error = IoAlreadyExists then
         op_bind (fs_stat False directory) (\<lambda>metadata.
           if metadata = Directory then op_return ()
           else op_fail (CustomError IoNotADirectory (path_display directory @
             lit '' is not a directory, so the family metadata cannot live there'')))
       else op_fail error)"

definition TEMPORARY_ATTEMPTS :: nat where
  "TEMPORARY_ATTEMPTS = 64"

text \<open>\<open>ids.unique()\<close>, whose panic on exhaustion ends the operation.\<close>

definition draw_unique :: "('b host, io_error, UniqueId) op" where
  "draw_unique h = (case id_unique (host_ids h) of
     None \<Rightarrow> (Inl IdsExhausted, h)
   | Some (u, ids) \<Rightarrow> (Inr u, h\<lparr>host_ids := ids\<rparr>))"

definition no_parent :: io_error where
  "no_parent = CustomError IoInvalidInput (lit ''a metadata file always has a parent directory'')"

definition temporary_path :: "hpath \<Rightarrow> ('b host, io_error, hpath) op" where
  "temporary_path target =
     op_bind (op_result (ok_or no_parent (path_parent target))) (\<lambda>directory.
     op_bind (op_result (ok_or
       (CustomError IoInvalidInput (lit ''a metadata file always has a UTF-8 name''))
       (Option.bind (path_file_name target) osname_to_str))) (\<lambda>name.
     op_bind draw_unique (\<lambda>unique.
       op_return (path_join_str directory
         (lit ''.'' @ name @ lit ''.tmp.'' @ show_unique_id unique)))))"

text \<open>\<open>n\<close> counts the attempts left.\<close>

fun create_temporary_loop ::
  "'b \<Rightarrow> nat \<Rightarrow> hpath \<Rightarrow> ('b host, io_error, hpath \<times> names) op" where
  "create_temporary_loop blank 0 target = op_fail (OsError IoAlreadyExists)"
| "create_temporary_loop blank (Suc n) target =
     op_bind (temporary_path target) (\<lambda>temporary.
     op_match (fs_create_new blank temporary) (\<lambda>r. case r of
       Inr handle \<Rightarrow> op_return (temporary, handle)
     | Inl error \<Rightarrow>
         if error_kind error = IoAlreadyExists
         then (if n = 0 then op_fail error else create_temporary_loop blank n target)
         else op_fail error))"

definition create_temporary :: "'b \<Rightarrow> hpath \<Rightarrow> ('b host, io_error, hpath \<times> names) op" where
  "create_temporary blank target = create_temporary_loop blank TEMPORARY_ATTEMPTS target"

definition flush_directory :: "hpath \<Rightarrow> ('b host, io_error, unit) op" where
  "flush_directory directory = op_bind (fs_open_directory directory) (\<lambda>_. fs_sync)"

definition write_then_rename ::
  "names \<Rightarrow> hpath \<Rightarrow> hpath \<Rightarrow> 'b \<Rightarrow> hpath \<Rightarrow> ('b host, io_error, unit) op" where
  "write_then_rename handle temporary target contents directory =
     op_bind (fs_write_all handle contents) (\<lambda>_.
     op_bind fs_sync (\<lambda>_.
     op_bind (fs_rename temporary target) (\<lambda>_.
       flush_directory directory)))"

definition publish :: "'b \<Rightarrow> hpath \<Rightarrow> 'b \<Rightarrow> ('b host, io_error, unit) op" where
  "publish blank target contents =
     op_bind (op_result (ok_or no_parent (path_parent target))) (\<lambda>directory.
     op_bind (create_temporary blank target) (\<lambda>(temporary, handle).
     op_match (write_then_rename handle temporary target contents directory) (\<lambda>outcome.
       if \<not> is_ok outcome
       then op_match (fs_remove_file temporary) (\<lambda>_. op_result outcome)
       else op_result outcome)))"

definition publish_remove :: "hpath \<Rightarrow> ('b host, io_error, bool) op" where
  "publish_remove path = op_match (fs_remove_file path) (\<lambda>r. case r of
     Inr _ \<Rightarrow> op_return True
   | Inl error \<Rightarrow>
       if error_kind error = IoNotFound then op_return False else op_fail error)"

subsection \<open>The lock\<close>

datatype Attempt = Acquired names | BusyLock | UnsupportedLock ustr

definition try_acquire :: "'b \<Rightarrow> hpath \<Rightarrow> ('b host, io_error, Attempt) op" where
  "try_acquire blank path =
     op_bind (fs_open_or_create blank path) (\<lambda>handle.
     syscall (\<lambda>h.
       if \<not> host_lock_support h then (Inr (UnsupportedLock (os_error_text IoUnsupported)), h)
       else if handle \<in> set (host_locks h) then (Inr BusyLock, h)
       else (Inr (Acquired handle), h\<lparr>host_locks := handle # host_locks h\<rparr>)))"

definition release_lock :: "names \<Rightarrow> 'b host \<Rightarrow> 'b host" where
  "release_lock handle h = h\<lparr>host_locks := remove1 handle (host_locks h)\<rparr>"

subsection \<open>Lemmas\<close>

lemma reads_only_file_state [reads_only_intros]: "reads_only (file_state p)"
  unfolding file_state_def
  by (intro reads_only_intros) (auto intro: reads_only_intros split: sum.split node.split)

lemma reads_only_publish_read [reads_only_intros]: "reads_only (publish_read p)"
  unfolding publish_read_def by (intro reads_only_intros)

lemma reads_only_encoded_size [reads_only_intros]: "reads_only (encoded_size len p)"
  unfolding encoded_size_def by (intro reads_only_intros)

lemma reads_only_flush [reads_only_intros]: "reads_only (flush_directory p)"
  unfolding flush_directory_def by (intro reads_only_intros)

text \<open>Hosts that differ in their tick and their id source only.\<close>

definition same_files :: "'b host \<Rightarrow> 'b host \<Rightarrow> bool" where
  "same_files h h' \<longleftrightarrow> host_nodes h' = host_nodes h \<and> host_cwd h' = host_cwd h \<and>
     host_faults h' = host_faults h \<and> host_torn h' = host_torn h \<and> host_locks h' = host_locks h \<and>
     host_lock_support h' = host_lock_support h"

definition host_wf :: "'b host \<Rightarrow> bool" where
  "host_wf h \<longleftrightarrow> dir_at (host_nodes h) (host_cwd h)"

lemma same_files_refl [simp]: "same_files h h"
  by (simp add: same_files_def)

lemma same_files_trans: "same_files h h' \<Longrightarrow> same_files h' h'' \<Longrightarrow> same_files h h''"
  by (simp add: same_files_def)

lemma same_host_files: "same_host h h' \<Longrightarrow> same_files h h'"
  by (auto simp: same_host_def same_files_def)

lemma same_files_tick [simp]: "same_files h (h'\<lparr>host_tick := t\<rparr>) = same_files h h'"
  by (simp add: same_files_def)

lemma same_files_simps:
  assumes "same_files h h'"
  shows "host_nodes h' = host_nodes h" "host_cwd h' = host_cwd h"
    "host_lookup h' f m p = host_lookup h f m p" "host_wf h' = host_wf h" "host_locks h' = host_locks h"
  using assms by (auto simp: same_files_def host_lookup_def host_wf_def)

lemma same_files_put_node:
  "same_files h h' \<Longrightarrow> same_files (put_node q v h) (put_node q v h')"
  by (simp add: same_files_def put_node_def)

definition tmp_name :: "ustr \<Rightarrow> UniqueId \<Rightarrow> ustr" where
  "tmp_name name u = lit ''.'' @ name @ lit ''.tmp.'' @ show_unique_id u"

lemma digits_not_slash: "c \<in> set (render_base 16 n) \<Longrightarrow> c \<noteq> 47"
proof (induction "16::nat" n rule: render_base.induct)
  case (1 n)
  show ?case
  proof (cases "n < 16")
    case True
    with 1 show ?thesis
      by (simp add: render_base.simps [of 16 n] digit_char_def split: if_splits)
  next
    case False
    have "digit_char (n mod 16) \<noteq> 47"
      by (simp add: digit_char_def)
    with False 1 show ?thesis
      by (auto simp: render_base.simps [of 16 n])
  qed
qed

lemma unique_id_no_slash: "47 \<notin> set (show_unique_id u)"
  using digits_not_slash by (auto simp: show_unique_id_def pad_zero_def show_hex_def lit_def)

lemma tmp_name_no_slash: "47 \<notin> set name \<Longrightarrow> 47 \<notin> set (tmp_name name u)"
  using unique_id_no_slash by (auto simp: tmp_name_def lit_def)

lemma tmp_name_path: "47 \<notin> set name \<Longrightarrow> path_of_str (tmp_name name u) = [Normal (Utf8 (tmp_name name u))]"
  using tmp_name_no_slash [of name u]
  by (simp add: path_of_str_def str_split_no_sep Let_def List.map_filter_simps component_of_def)
     (simp add: tmp_name_def lit_def)

lemma tmp_name_neq: "tmp_name name u \<noteq> name"
proof -
  have "length (tmp_name name u) > length name"
    by (simp add: tmp_name_def lit_def)
  then show ?thesis by auto
qed

lemma join_tmp:
  "47 \<notin> set name \<Longrightarrow> path_join_str d (tmp_name name u) = d @ [Normal (Utf8 (tmp_name name u))]"
  by (simp add: path_join_str_def path_join_def tmp_name_path is_absolute_def)

lemma draw_unique_files: "same_files h (snd (draw_unique h))"
  by (simp add: same_files_def draw_unique_def split: option.split prod.split)

lemma temporary_path_result:
  assumes "47 \<notin> set name"
  shows "temporary_path (d @ [Normal (Utf8 name)]) h = (r, h') \<Longrightarrow> same_files h h' \<and>
    (case r of Inl e \<Rightarrow> True | Inr t \<Rightarrow> \<exists>u. t = d @ [Normal (Utf8 (tmp_name name u))])"
  using draw_unique_files [of h] join_tmp [OF assms, of d]
  by (auto simp: temporary_path_def path_parent_def path_file_name_def op_bind_eq tmp_name_def
      split: sum.splits)

text \<open>What an exclusive creation in a directory does.\<close>

lemma create_new_result:
  assumes "fs_create_new blank (d @ [Normal n]) h = (r, h')" "host_wf h"
  shows "case r of
      Inl e \<Rightarrow> same_files h h'
    | Inr q \<Rightarrow> \<exists>dir. lookup_path (host_nodes h) True False SYMLINK_LIMIT (host_cwd h) d = Inr dir \<and>
        dir_at (host_nodes h) dir \<and> q = dir @ [n] \<and> host_nodes h q = None \<and>
        same_files (put_node q (Some (Regular blank)) h) h'"
proof -
  show ?thesis
  proof (cases "lookup_path (host_nodes h) False True SYMLINK_LIMIT (host_cwd h) (d @ [Normal n])")
    case (Inl e)
    with assms show ?thesis
      by (auto simp: fs_create_new_def syscall_def host_lookup_def split: option.splits)
  next
    case (Inr q)
    from lookup_path_snocD [OF Inr] assms(2) obtain dir where
      "lookup_path (host_nodes h) True False SYMLINK_LIMIT (host_cwd h) d = Inr dir"
      "dir_at (host_nodes h) dir" "q = dir @ [n]"
      by (auto simp: host_wf_def)
    with assms Inr show ?thesis
      by (auto simp: fs_create_new_def syscall_def host_lookup_def same_files_put_node
          split: option.splits if_splits)
  qed
qed

lemma create_temporary_result:
  assumes "create_temporary_loop blank k (d @ [Normal (Utf8 name)]) h = (r, h')" "host_wf h"
    "47 \<notin> set name"
  shows "case r of
      Inl e \<Rightarrow> same_files h h'
    | Inr (t, q) \<Rightarrow> \<exists>u dir. t = d @ [Normal (Utf8 (tmp_name name u))] \<and>
        lookup_path (host_nodes h) True False SYMLINK_LIMIT (host_cwd h) d = Inr dir \<and>
        dir_at (host_nodes h) dir \<and> q = dir @ [Utf8 (tmp_name name u)] \<and> host_nodes h q = None \<and>
        same_files (put_node q (Some (Regular blank)) h) h'"
  using assms
proof (induction k arbitrary: h)
  case (Suc k)
  obtain r1 h1 where t1: "temporary_path (d @ [Normal (Utf8 name)]) h = (r1, h1)"
    by (cases "temporary_path (d @ [Normal (Utf8 name)]) h")
  note s1 = temporary_path_result [OF Suc.prems(3) t1]
  show ?case
  proof (cases r1)
    case (Inl e)
    with Suc.prems(1) t1 s1 show ?thesis by (auto simp: op_bind_def)
  next
    case (Inr t)
    then obtain u where t: "t = d @ [Normal (Utf8 (tmp_name name u))]"
      using s1 by auto
    obtain r2 h2 where c2: "fs_create_new blank t h1 = (r2, h2)"
      by (cases "fs_create_new blank t h1")
    have wf1: "host_wf h1"
      using s1 Suc.prems(2) same_files_simps(4) by blast
    note s2 = create_new_result [OF c2 [unfolded t] wf1]
    have rest: "op_match (fs_create_new blank t) (\<lambda>r. case r of
         Inr handle \<Rightarrow> op_return (t, handle)
       | Inl error \<Rightarrow> if error_kind error = IoAlreadyExists
           then (if k = 0 then op_fail error
                 else create_temporary_loop blank k (d @ [Normal (Utf8 name)]))
           else op_fail error) h1 = (r, h')"
      using Suc.prems(1) t1 Inr by (simp add: op_bind_def)
    show ?thesis
    proof (cases r2)
      case r2: (Inl e)
      then have h2: "same_files h h2"
        using s1 s2 same_files_trans by auto
      show ?thesis
      proof (cases "error_kind e = IoAlreadyExists \<and> k \<noteq> 0")
        case True
        then have loop: "create_temporary_loop blank k (d @ [Normal (Utf8 name)]) h2 = (r, h')"
          using rest c2 r2 by (simp add: op_match_def)
        have "host_wf h2"
          using h2 Suc.prems(2) same_files_simps(4) by blast
        from Suc.IH [OF loop this Suc.prems(3)] show ?thesis
          using h2 by (auto simp: same_files_simps [OF h2] split: sum.splits
              intro: same_files_trans same_files_trans [OF same_files_put_node])
      next
        case False
        then have "r = Inl e" "h' = h2"
          using rest c2 r2 by (auto simp: op_match_def split: if_splits)
        with h2 show ?thesis by simp
      qed
    next
      case (Inr q)
      then have "r = Inr (t, q)" "h' = h2"
        using rest c2 by (auto simp: op_match_def)
      with Inr s2 t s1 show ?thesis
        by (auto simp: same_files_simps intro: same_files_trans [OF same_files_put_node])
    qed
  qed
qed auto

text \<open>The state while the temporary file stands: the host as it was, plus that file.\<close>

definition with_temporary :: "'b host \<Rightarrow> names \<Rightarrow> 'b \<Rightarrow> 'b host \<Rightarrow> bool" where
  "with_temporary h0 q x h \<longleftrightarrow> same_files (put_node q (Some (Regular x)) h0) h"

lemma with_temporary_write:
  "with_temporary h0 q x h \<Longrightarrow> fs_write_all q contents h = (r, h') \<Longrightarrow>
     \<exists>y. with_temporary h0 q y h' \<and> (r = Inr () \<longrightarrow> y = contents)"
  by (auto simp: with_temporary_def same_files_def put_node_def fs_write_all_def split: option.splits)

lemma with_temporary_read:
  "with_temporary h0 q x h \<Longrightarrow> reads_only m \<Longrightarrow> m h = (r, h') \<Longrightarrow> with_temporary h0 q x h'"
  unfolding with_temporary_def by (meson reads_onlyD same_files_trans same_host_files)

lemma with_temporary_lookups:
  assumes wt: "with_temporary h0 q x h" and wf: "host_wf h0" and free: "host_nodes h0 q = None"
    and dir: "lookup_path (host_nodes h0) True False SYMLINK_LIMIT (host_cwd h0) d = Inr dir"
      "dir_at (host_nodes h0) dir" and q: "q = dir @ [tn]"
  shows "host_lookup h False m (d @ [Normal tn]) = Inr q"
    and "n \<noteq> tn \<Longrightarrow> host_lookup h False True (d @ [Normal n]) = Inr (dir @ [n])"
proof -
  let ?N = "(host_nodes h0)(q \<mapsto> Regular x)"
  have h: "host_nodes h = ?N" "host_cwd h = host_cwd h0"
    using wt by (auto simp: with_temporary_def same_files_def put_node_def)
  have d: "lookup_path ?N True False SYMLINK_LIMIT (host_cwd h0) d = Inr dir"
    using dir free q by (intro lookup_path_avoids) (auto simp: leaf_at_def)
  have "dir_at ?N dir" "dir_at ?N (host_cwd h0)"
    using dir(2) wf free by (auto simp: host_wf_def intro!: dir_at_update)
  note look = lookup_path_snoc [OF d this(2,1)]
  show "host_lookup h False m (d @ [Normal tn]) = Inr q"
    by (simp add: host_lookup_def h look flip: q)
  show "n \<noteq> tn \<Longrightarrow> host_lookup h False True (d @ [Normal n]) = Inr (dir @ [n])"
    by (simp add: host_lookup_def h look)
qed

lemma host_lookup_tick [simp]: "host_lookup (h\<lparr>host_tick := t\<rparr>) f m p = host_lookup h f m p"
  by (simp add: host_lookup_def)

lemma rename_result:
  assumes wt: "with_temporary h0 q x h" and wf: "host_wf h0" and free: "host_nodes h0 q = None"
    and dir: "lookup_path (host_nodes h0) True False SYMLINK_LIMIT (host_cwd h0) d = Inr dir"
      "dir_at (host_nodes h0) dir" and q: "q = dir @ [tn]" and n: "n \<noteq> tn"
    and run: "fs_rename (d @ [Normal tn]) (d @ [Normal n]) h = (r, h')"
  shows "case r of
      Inl e \<Rightarrow> with_temporary h0 q x h'
    | Inr _ \<Rightarrow> host_nodes h0 (dir @ [n]) \<noteq> Some Directory \<and>
        same_files (put_node (dir @ [n]) (Some (Regular x)) h0) h'"
proof -
  note look = with_temporary_lookups [OF wt wf free dir q]
  have nodes: "host_nodes h = (host_nodes h0)(q \<mapsto> Regular x)"
    using wt by (simp add: with_temporary_def same_files_def put_node_def)
  have undo: "(host_nodes h0)(q := None) = host_nodes h0"
    using free by auto
  have put: "same_files (put_node (dir @ [n]) (Some (Regular x)) h0)
      (put_node (dir @ [n]) (Some (Regular x)) (put_node q None (h\<lparr>host_tick := t\<rparr>)))" for t
    using wt undo n q by (auto simp: with_temporary_def same_files_def put_node_def fun_upd_twist)
  show ?thesis
    using run wt put nodes q n
    by (auto simp: fs_rename_def syscall_def look look(2) [OF n] with_temporary_def
        split: option.splits if_splits intro: same_files_trans)
qed

lemma write_then_rename_result:
  assumes wt: "with_temporary h0 q x h" and wf: "host_wf h0" and free: "host_nodes h0 q = None"
    and dir: "lookup_path (host_nodes h0) True False SYMLINK_LIMIT (host_cwd h0) d = Inr dir"
      "dir_at (host_nodes h0) dir" and q: "q = dir @ [tn]" and n: "n \<noteq> tn"
    and run: "write_then_rename q (d @ [Normal tn]) (d @ [Normal n]) contents d h = (r, h')"
  shows "(host_nodes h0 (dir @ [n]) \<noteq> Some Directory \<and>
      same_files (put_node (dir @ [n]) (Some (Regular contents)) h0) h') \<or>
    ((\<exists>e. r = Inl e) \<and> (\<exists>y. with_temporary h0 q y h'))"
proof -
  obtain r1 h1 where w: "fs_write_all q contents h = (r1, h1)"
    by (cases "fs_write_all q contents h")
  obtain y where y: "with_temporary h0 q y h1" "r1 = Inr () \<longrightarrow> y = contents"
    using with_temporary_write [OF wt w] by blast
  obtain r2 h2 where s: "fs_sync h1 = (r2, h2)"
    by (cases "fs_sync h1")
  have y2: "with_temporary h0 q y h2"
    using with_temporary_read [OF y(1) reads_only_fs(4) s] .
  obtain r3 h3 where rn: "fs_rename (d @ [Normal tn]) (d @ [Normal n]) h2 = (r3, h3)"
    by (cases "fs_rename (d @ [Normal tn]) (d @ [Normal n]) h2")
  note res = rename_result [OF y2 wf free dir q n rn]
  obtain r4 h4 where f: "flush_directory d h3 = (r4, h4)"
    by (cases "flush_directory d h3")
  have h4: "same_files h3 h4"
    using reads_onlyD [OF reads_only_flush f] by (rule same_host_files)
  have steps: "(r, h') = (case r1 of Inl e \<Rightarrow> (Inl e, h1) | Inr _ \<Rightarrow>
     (case r2 of Inl e \<Rightarrow> (Inl e, h2) | Inr _ \<Rightarrow>
     (case r3 of Inl e \<Rightarrow> (Inl e, h3) | Inr _ \<Rightarrow> (r4, h4))))"
    unfolding run [symmetric] write_then_rename_def
    by (simp add: op_bind_def w s rn f split: sum.split)
  show ?thesis
    using steps y y2 res h4 by (auto split: sum.splits intro: same_files_trans)
qed


text \<open>Removing the temporary file at the end of a failed publication.\<close>

lemma remove_temporary:
  assumes wt: "with_temporary h0 q x h" and wf: "host_wf h0" and free: "host_nodes h0 q = None"
    and dir: "lookup_path (host_nodes h0) True False SYMLINK_LIMIT (host_cwd h0) d = Inr dir"
      "dir_at (host_nodes h0) dir" and q: "q = dir @ [tn]"
    and run: "fs_remove_file (d @ [Normal tn]) h = (r, h')"
  shows "same_files h0 h' \<or> with_temporary h0 q x h'"
proof -
  note look = with_temporary_lookups(1) [OF wt wf free dir q, of False]
  have nodes: "host_nodes h = (host_nodes h0)(q \<mapsto> Regular x)"
    using wt by (simp add: with_temporary_def same_files_def put_node_def)
  have "same_files h0 (put_node q None (h\<lparr>host_tick := t\<rparr>))" for t
    using wt free by (auto simp: with_temporary_def same_files_def put_node_def)
  then show ?thesis
    using run wt
    by (auto simp: fs_remove_file_def syscall_def look node_at_def nodes with_temporary_def
        split: option.splits)
qed

text \<open>After the rename the temporary name is free, so the removal removes nothing.\<close>

lemma remove_gone:
  assumes h: "same_files (put_node (dir @ [n]) (Some (Regular c)) h0) h" and wf: "host_wf h0"
    and free: "host_nodes h0 (dir @ [tn]) = None" and n: "n \<noteq> tn"
    and notdir: "host_nodes h0 (dir @ [n]) \<noteq> Some Directory"
    and dir: "lookup_path (host_nodes h0) True False SYMLINK_LIMIT (host_cwd h0) d = Inr dir"
      "dir_at (host_nodes h0) dir"
    and run: "fs_remove_file (d @ [Normal tn]) h = (r, h')"
  shows "same_files h h'"
proof -
  let ?N = "(host_nodes h0)(dir @ [n] \<mapsto> Regular c)"
  have nodes: "host_nodes h = ?N" "host_cwd h = host_cwd h0"
    using h by (auto simp: same_files_def put_node_def)
  have cwd: "dir_at ?N (host_cwd h0)"
    using wf notdir by (auto simp: host_wf_def intro!: dir_at_update)
  have "lookup_path ?N False False SYMLINK_LIMIT (host_cwd h0) (d @ [Normal tn]) \<noteq> Inr q" for q
  proof
    assume q: "lookup_path ?N False False SYMLINK_LIMIT (host_cwd h0) (d @ [Normal tn]) = Inr q"
    then have "q \<noteq> dir @ [n]"
      using lookup_path_snocD [OF q cwd] n by auto
    with q have "lookup_path (?N(dir @ [n] := host_nodes h0 (dir @ [n]))) False False SYMLINK_LIMIT
        (host_cwd h0) (d @ [Normal tn]) = Inr q"
      by (rule lookup_path_avoids) (simp add: leaf_at_def)
    moreover have "lookup_path (host_nodes h0) False False SYMLINK_LIMIT (host_cwd h0)
        (d @ [Normal tn]) = Inl IoNotFound"
      using lookup_path_snoc [OF dir(1) _ dir(2), of False tn] wf free by (simp add: host_wf_def)
    ultimately show False by simp
  qed
  then obtain k where "lookup_path ?N False False SYMLINK_LIMIT (host_cwd h0) (d @ [Normal tn]) = Inl k"
    by (meson sum.exhaust)
  then show ?thesis
    using run by (auto simp: fs_remove_file_def syscall_def host_lookup_def nodes split: option.splits)
qed

text \<open>What a publication can leave: nothing changed, the target replaced, or a stray temporary.\<close>

definition published :: "hpath \<Rightarrow> ustr \<Rightarrow> 'b \<Rightarrow> 'b host \<Rightarrow> 'b host \<Rightarrow> bool" where
  "published d name contents h h' \<longleftrightarrow>
     (\<exists>dir. lookup_path (host_nodes h) True False SYMLINK_LIMIT (host_cwd h) d = Inr dir \<and>
       dir_at (host_nodes h) dir \<and> host_nodes h (dir @ [Utf8 name]) \<noteq> Some Directory \<and>
       same_files (put_node (dir @ [Utf8 name]) (Some (Regular contents)) h) h')"

definition stray_temporary :: "hpath \<Rightarrow> ustr \<Rightarrow> 'b host \<Rightarrow> 'b host \<Rightarrow> bool" where
  "stray_temporary d name h h' \<longleftrightarrow>
     (\<exists>dir u y. lookup_path (host_nodes h) True False SYMLINK_LIMIT (host_cwd h) d = Inr dir \<and>
       dir_at (host_nodes h) dir \<and> host_nodes h (dir @ [Utf8 (tmp_name name u)]) = None \<and>
       with_temporary h (dir @ [Utf8 (tmp_name name u)]) y h')"

lemma publish_result:
  assumes wf: "host_wf h" and name: "47 \<notin> set name"
    and run: "publish blank (d @ [Normal (Utf8 name)]) contents h = (r, h')"
  shows "published d name contents h h' \<or>
    ((\<exists>e. r = Inl e) \<and> (same_files h h' \<or> stray_temporary d name h h'))"
proof -
  obtain r1 h1 where c: "create_temporary blank (d @ [Normal (Utf8 name)]) h = (r1, h1)"
    by (cases "create_temporary blank (d @ [Normal (Utf8 name)]) h")
  note res = create_temporary_result [OF c [unfolded create_temporary_def] wf name]
  show ?thesis
  proof (cases r1)
    case (Inl e)
    with run c res show ?thesis
      by (auto simp: publish_def path_parent_def op_bind_def)
  next
    case (Inr tq)
    obtain t q where tq: "tq = (t, q)" by (cases tq)
    obtain u dir where t: "t = d @ [Normal (Utf8 (tmp_name name u))]"
      and dir: "lookup_path (host_nodes h) True False SYMLINK_LIMIT (host_cwd h) d = Inr dir"
        "dir_at (host_nodes h) dir"
      and q: "q = dir @ [Utf8 (tmp_name name u)]" and free: "host_nodes h q = None"
      and h1: "with_temporary h q blank h1"
      using res Inr tq by (auto simp: with_temporary_def)
    have n: "Utf8 name \<noteq> Utf8 (tmp_name name u)"
      using tmp_name_neq [of name u] by simp
    obtain r2 h2 where w: "write_then_rename q t (d @ [Normal (Utf8 name)]) contents d h1 = (r2, h2)"
      by (cases "write_then_rename q t (d @ [Normal (Utf8 name)]) contents d h1")
    note res2 = write_then_rename_result [OF h1 wf free dir q n w [unfolded t]]
    obtain r3 h3 where rm: "fs_remove_file t h2 = (r3, h3)"
      by (cases "fs_remove_file t h2")
    have out: "(r, h') = (if is_ok r2 then (r2, h2) else (r2, h3))"
      unfolding run [symmetric] publish_def
      by (simp add: op_bind_def path_parent_def c Inr tq op_match_def w rm split: if_split)
    from res2 show ?thesis
    proof
      assume a: "host_nodes h (dir @ [Utf8 name]) \<noteq> Some Directory \<and>
        same_files (put_node (dir @ [Utf8 name]) (Some (Regular contents)) h) h2"
      then have "same_files h2 h3"
        using remove_gone [OF _ wf free [unfolded q] n _ dir rm [unfolded t]] by blast
      with a out dir show ?thesis
        by (auto simp: published_def split: if_splits intro: same_files_trans)
    next
      assume b: "(\<exists>e. r2 = Inl e) \<and> (\<exists>y. with_temporary h q y h2)"
      then obtain e y where "r2 = Inl e" "with_temporary h q y h2" by blast
      with remove_temporary [OF this(2) wf free dir q rm [unfolded t]] out dir free q
      show ?thesis
        by (auto simp: stray_temporary_def)
    qed
  qed
qed

subsection \<open>Properties\<close>

text \<open>
  C13. Publication never tears its target. Whatever system call fails, the target afterwards is either
  what it was or the complete new content; a success installs the content and changes nothing else;
  and no node that stood before, other than the target, is changed or removed.
\<close>

theorem publish_never_tears:
  assumes "host_wf h" and "47 \<notin> set name"
    and "lookup_path (host_nodes h) True False SYMLINK_LIMIT (host_cwd h) d = Inr dir"
    and "publish blank (d @ [Normal (Utf8 name)]) contents h = (r, h')"
  shows "(host_nodes h' (dir @ [Utf8 name]) = host_nodes h (dir @ [Utf8 name]) \<or>
      host_nodes h' (dir @ [Utf8 name]) = Some (Regular contents)) \<and>
    (r = Inr () \<longrightarrow> host_nodes h' = (host_nodes h)(dir @ [Utf8 name] \<mapsto> Regular contents)) \<and>
    (\<forall>q. q \<noteq> dir @ [Utf8 name] \<and> host_nodes h q \<noteq> None \<longrightarrow> host_nodes h' q = host_nodes h q)"
  using publish_result [OF assms(1,2,4)]
proof (elim disjE conjE exE)
  assume "published d name contents h h'"
  then have "host_nodes h' = (host_nodes h)(dir @ [Utf8 name] \<mapsto> Regular contents)"
    using assms(3) by (auto simp: published_def same_files_def put_node_def)
  then show ?thesis by simp
next
  fix e assume "r = Inl e" "same_files h h'"
  then show ?thesis by (simp add: same_files_def)
next
  fix e assume r: "r = Inl e" and "stray_temporary d name h h'"
  then obtain u y where "host_nodes h (dir @ [Utf8 (tmp_name name u)]) = None"
    "host_nodes h' = (host_nodes h)(dir @ [Utf8 (tmp_name name u)] \<mapsto> Regular y)"
    using assms(3) by (auto simp: stray_temporary_def with_temporary_def same_files_def put_node_def)
  then show ?thesis
    using r tmp_name_neq [of name u] by auto
qed

text \<open>A directory with an old file, on a host that fails the call of one tick.\<close>

definition sample_host :: "nat option \<Rightarrow> nat host" where
  "sample_host fault = \<lparr>host_nodes = (\<lambda>q. if q = [Utf8 (lit ''d'')] then Some Directory
       else if q = [Utf8 (lit ''d''), Utf8 (lit ''f'')] then Some (Regular 1) else None),
     host_cwd = [], host_faults = (\<lambda>t. if fault = Some t then Some (lit ''I/O error'') else None),
     host_torn = (\<lambda>t. 9), host_tick = 0, host_locks = [], host_lock_support = True,
     host_ids = id_source_new 7\<rparr>"

definition sample_dir :: hpath where
  "sample_dir = [RootDir, Normal (Utf8 (lit ''d''))]"

lemma sample_host_facts:
  "host_wf (sample_host k)"
  "lookup_path (host_nodes (sample_host k)) True False SYMLINK_LIMIT (host_cwd (sample_host k)) sample_dir =
     Inr [Utf8 (lit ''d'')]"
  "host_nodes (sample_host k) [Utf8 (lit ''d''), Utf8 (lit ''f'')] = Some (Regular 1)"
  by (simp_all add: host_wf_def sample_host_def sample_dir_def)

theorem publish_never_tears_witness:
  "host_nodes (snd (publish 0 (sample_dir @ [Normal (Utf8 (lit ''f''))]) 2 (sample_host (Some 1))))
      [Utf8 (lit ''d''), Utf8 (lit ''f'')] \<in> {Some (Regular 1), Some (Regular 2)}"
proof -
  obtain r h' where run: "publish 0 (sample_dir @ [Normal (Utf8 (lit ''f''))]) 2 (sample_host (Some 1)) = (r, h')"
    by (cases "publish 0 (sample_dir @ [Normal (Utf8 (lit ''f''))]) 2 (sample_host (Some 1))")
  have "47 \<notin> set (lit ''f'')"
    by (simp add: lit_def)
  from publish_never_tears [OF sample_host_facts(1) this sample_host_facts(2) run]
  show ?thesis
    unfolding run snd_conv by (simp add: sample_host_facts(3))
qed

lemma sample_publish_run:
  defines "u \<equiv> \<lparr>uid_prefix = 7, uid_sequence = 0\<rparr>"
  shows "publish 0 (sample_dir @ [Normal (Utf8 (lit ''f''))]) 2 (sample_host (Some 4)) =
    (Inl (CustomError IoOther (lit ''I/O error'')),
     (put_node [Utf8 (lit ''d''), Utf8 (lit ''f'')] (Some (Regular 2)) (sample_host (Some 4)))
       \<lparr>host_tick := 6, host_ids := \<lparr>src_prefix = 7, src_next = 1\<rparr>\<rparr>)"
proof -
  have t: "temporary_path (sample_dir @ [Normal (Utf8 (lit ''f''))]) (sample_host (Some 4)) =
      (Inr (sample_dir @ [Normal (Utf8 (tmp_name (lit ''f'') u))]),
       (sample_host (Some 4))\<lparr>host_ids := \<lparr>src_prefix = 7, src_next = 1\<rparr>\<rparr>)"
    using join_tmp [of "lit ''f''" sample_dir u]
    by (simp add: temporary_path_def path_parent_def path_file_name_def op_bind_eq draw_unique_def
        id_unique_def id_next_def checked_add_u64_def id_source_new_def tmp_name_def u_def
        sample_host_def) (simp add: lit_def sample_dir_def)
  have n: "tmp_name (lit ''f'') u \<noteq> lit ''f''" "lit ''f'' \<noteq> tmp_name (lit ''f'') u"
    using tmp_name_neq [of "lit ''f''" u] by auto
  have l: "create_temporary_loop 0 TEMPORARY_ATTEMPTS = create_temporary_loop (0::nat) (Suc 63)"
    by (simp add: TEMPORARY_ATTEMPTS_def)
  have ct: "create_temporary 0 (sample_dir @ [Normal (Utf8 (lit ''f''))]) (sample_host (Some 4)) =
      (Inr (sample_dir @ [Normal (Utf8 (tmp_name (lit ''f'') u))],
            [Utf8 (lit ''d''), Utf8 (tmp_name (lit ''f'') u)]),
       (put_node [Utf8 (lit ''d''), Utf8 (tmp_name (lit ''f'') u)] (Some (Regular 0)) (sample_host (Some 4)))
         \<lparr>host_tick := 1, host_ids := \<lparr>src_prefix = 7, src_next = 1\<rparr>\<rparr>)"
    unfolding create_temporary_def l create_temporary_loop.simps(2)
    by (simp add: op_bind_eq op_match_eq t)
       (simp add: sample_dir_def sample_host_def fs_create_new_def syscall_def host_lookup_def n
        put_node_def)
  show ?thesis
    unfolding publish_def
    by (simp add: op_bind_eq op_match_eq path_parent_def ct)
       (simp add: sample_dir_def sample_host_def fs_create_new_def syscall_def host_lookup_def n
        put_node_def write_then_rename_def op_bind_eq op_match_eq fs_write_all_def fs_sync_def
        fs_rename_def flush_directory_def fs_open_directory_def fs_remove_file_def SYMLINK_LIMIT_def
        fun_eq_iff)
qed

text \<open>
  An error does not say that the old file is still there: when the directory flush after the
  rename fails, publication returns an error although the target already holds the new content.
\<close>

theorem publish_error_after_rename:
  "\<exists>h :: nat host. host_wf h \<and>
     (\<exists>e. fst (publish 0 (sample_dir @ [Normal (Utf8 (lit ''f''))]) 2 h) = Inl e) \<and>
     host_nodes h [Utf8 (lit ''d''), Utf8 (lit ''f'')] = Some (Regular 1) \<and>
     host_nodes (snd (publish 0 (sample_dir @ [Normal (Utf8 (lit ''f''))]) 2 h))
       [Utf8 (lit ''d''), Utf8 (lit ''f'')] = Some (Regular 2)"
  using sample_host_facts(1,3) [of "Some 4"]
  by (intro exI [of _ "sample_host (Some 4)"]) (simp add: sample_publish_run, simp add: put_node_def)

end
