(* ===== verification/Family_Store.thy ===== *)
theory Family_Store
  imports Store_Format Store_Publish
begin

text \<open>
  The store contract (\<open>crates/family-store-contract/src/lib.rs\<close>) and the store that implements it
  (\<open>crates/family-store/src/lib.rs\<close>): reading a workspace's family, taking the family lock, and the
  operations of the locked session. A session is the root it holds the lock of; the host carries the
  files, the locks and the id source of the temporary names.
\<close>

subsection \<open>Contract\<close>

record FamilyLocation =
  location_workspace :: hpath

datatype FamilySource = SourceIndex | SourcePointer

datatype FamilyObservation =
    ObservedNoFamily
  | ObservedFamily hpath FamilySource FamilyView

fun observation_view :: "FamilyObservation \<Rightarrow> FamilyView option" where
  "observation_view ObservedNoFamily = None"
| "observation_view (ObservedFamily root source view) = Some view"

datatype StoreOperation =
    ReadIndex
  | ReadPointer
  | ReadMarker
  | LockOperation
  | WriteIndex
  | RemoveIndex
  | WritePointer
  | RemovePointer
  | WriteMarker
  | RemoveMarker

datatype MetadataEffect =
    IndexWritten
  | IndexRemoved
  | PointerWritten hpath
  | PointerRemoved hpath
  | MarkerWritten hpath
  | MarkerRemoved hpath

text \<open>\<open>StorePanic\<close> is the panic of an exhausted id source on its way up; no code catches it.\<close>

datatype StoreError =
    Busy hpath
  | LockingUnsupported ustr
  | Malformed hpath ustr
  | Oversize hpath nat nat
  | ConflictingMetadata hpath
  | PointerTargetInvalid hpath hpath ustr
  | NoFamily hpath
  | Refused Refusal
  | IoFailure StoreOperation hpath ustr
  | PartialFailure StoreOperation "MetadataEffect list" hpath ustr
  | PointerStillInstalled ustr hpath
  | PathMismatch ustr hpath hpath
  | Unimplemented StoreOperation
  | StorePanic

fun operation_name :: "StoreOperation \<Rightarrow> ustr" where
  "operation_name ReadIndex = lit ''ReadIndex''"
| "operation_name ReadPointer = lit ''ReadPointer''"
| "operation_name ReadMarker = lit ''ReadMarker''"
| "operation_name LockOperation = lit ''Lock''"
| "operation_name WriteIndex = lit ''WriteIndex''"
| "operation_name RemoveIndex = lit ''RemoveIndex''"
| "operation_name WritePointer = lit ''WritePointer''"
| "operation_name RemovePointer = lit ''RemovePointer''"
| "operation_name WriteMarker = lit ''WriteMarker''"
| "operation_name RemoveMarker = lit ''RemoveMarker''"

fun show_store_error :: "StoreError \<Rightarrow> ustr" where
  "show_store_error (Busy lock_path) =
     lit ''family lock '' @ path_display lock_path @ lit '' is held by another operation''"
| "show_store_error (LockingUnsupported detail) = lit ''family locking unsupported: '' @ detail"
| "show_store_error (Malformed path detail) = path_display path @ lit '' is malformed: '' @ detail"
| "show_store_error (Oversize path bytes limit) =
     path_display path @ lit '' is '' @ show_nat bytes @ lit '' bytes; the limit is '' @ show_nat limit"
| "show_store_error (ConflictingMetadata workspace) =
     path_display workspace @ lit '' holds both a family index and a family pointer''"
| "show_store_error (PointerTargetInvalid pointer root detail) =
     path_display pointer @ lit '' points at '' @ path_display root @
     lit '' which holds no matching index: '' @ detail"
| "show_store_error (NoFamily workspace) = path_display workspace @ lit '' is in no local family''"
| "show_store_error (Refused refusal) = show_refusal refusal"
| "show_store_error (IoFailure operation path detail) =
     operation_name operation @ lit '' '' @ path_display path @ lit '': '' @ detail"
| "show_store_error (PartialFailure operation completed path detail) =
     operation_name operation @ lit '' '' @ path_display path @ lit '' failed after '' @
     show_nat (length completed) @ lit '' effect(s): '' @ detail"
| "show_store_error (PointerStillInstalled member workspace) =
     lit ''member `'' @ member @ lit ''` still has its clone pointer installed at '' @
     path_display workspace @
     lit ''; remove the pointer before removing the row or disbanding the family''"
| "show_store_error (PathMismatch member recorded requested) =
     lit ''member `'' @ member @ lit ''` is recorded at '' @ path_display recorded @
     lit ''; refusing to install its pointer at '' @ path_display requested"
| "show_store_error (Unimplemented operation) = operation_name operation @ lit '' is not implemented''"
| "show_store_error StorePanic = io_error_text IdsExhausted"

record AppliedChange =
  applied_effects :: "MetadataEffect list"
  applied_view :: "FamilyView option"

subsection \<open>Reading\<close>

definition store_io_error :: "StoreOperation \<Rightarrow> hpath \<Rightarrow> io_error \<Rightarrow> StoreError" where
  "store_io_error operation path error = (case error of
     IdsExhausted \<Rightarrow> StorePanic
   | _ \<Rightarrow> IoFailure operation path (io_error_text error))"

definition encoding_error :: "StoreOperation \<Rightarrow> hpath \<Rightarrow> FormatError \<Rightarrow> StoreError" where
  "encoding_error operation path error = IoFailure operation path
     (lit ''the metadata could not be encoded: '' @ format_detail error)"

definition partial_failure ::
  "StoreOperation \<Rightarrow> MetadataEffect list \<Rightarrow> hpath \<Rightarrow> io_error \<Rightarrow> StoreError" where
  "partial_failure operation completed path error = (case error of
     IdsExhausted \<Rightarrow> StorePanic
   | _ \<Rightarrow> PartialFailure operation completed path (io_error_text error))"

definition partial_or_io ::
  "StoreOperation \<Rightarrow> MetadataEffect list \<Rightarrow> hpath \<Rightarrow> io_error \<Rightarrow> StoreError" where
  "partial_or_io operation completed path error =
     (if completed = [] then store_io_error operation path error
      else partial_failure operation completed path error)"

definition irregular :: "hpath \<Rightarrow> StoreError" where
  "irregular path = Malformed path
     (lit ''a symlink, directory or other node occupies this metadata path; the store neither follows nor replaces it'')"

definition resolve :: "hpath \<Rightarrow> ('b host, io_error, hpath) op" where
  "resolve path = fs_canonicalize path"

definition metadata_directory :: "hpath \<Rightarrow> hpath" where
  "metadata_directory workspace = path_join workspace (butlast (path_of_str INDEX_RELATIVE_PATH))"

definition index_state :: "hpath \<Rightarrow> ('b host, StoreError, FileState) op" where
  "index_state workspace =
     (let path = path_join_str workspace INDEX_RELATIVE_PATH in
      op_map_err (store_io_error ReadIndex path) (file_state path))"

definition read_index :: "'b codec \<Rightarrow> hpath \<Rightarrow> ('b host, StoreError, FamilyView option) op" where
  "read_index c root =
     (let path = path_join_str root INDEX_RELATIVE_PATH in
      op_bind (op_map_err (store_io_error ReadIndex path) (file_state path)) (\<lambda>state.
      case state of
        Absent \<Rightarrow> op_return None
      | Irregular \<Rightarrow> op_fail (irregular path)
      | RegularFile \<Rightarrow>
          op_bind (op_map_err (store_io_error ReadIndex path) (encoded_size (yaml_len c) path)) (\<lambda>bytes.
          op_bind (op_result (map_err (\<lambda>o'. Oversize path (oversize_bytes o') (oversize_limit o'))
            (check_encoded_size bytes))) (\<lambda>_.
          op_bind (op_map_err (store_io_error ReadIndex path) (publish_read path)) (\<lambda>encoded.
          op_bind (op_result (map_err (\<lambda>e. Malformed path (format_detail e)) (decode_index c encoded))) (\<lambda>view.
          op_bind (op_result (map_err (\<lambda>refusal. Malformed path (show_refusal refusal)) (validate_view view))) (\<lambda>_.
            op_return (Some view))))))))"

definition read_metadata ::
  "hpath \<Rightarrow> StoreOperation \<Rightarrow> ('b host, StoreError, 'b option) op" where
  "read_metadata path operation =
     op_bind (op_map_err (store_io_error operation path) (file_state path)) (\<lambda>state.
     case state of
       Absent \<Rightarrow> op_return None
     | Irregular \<Rightarrow> op_fail (irregular path)
     | RegularFile \<Rightarrow> op_bind (op_map_err (store_io_error operation path) (publish_read path))
         (\<lambda>encoded. op_return (Some encoded)))"

definition read_pointer :: "'b codec \<Rightarrow> hpath \<Rightarrow> ('b host, StoreError, PointerFile option) op" where
  "read_pointer c workspace =
     (let path = path_join_str workspace POINTER_RELATIVE_PATH in
      op_bind (read_metadata path ReadPointer) (\<lambda>encoded. case encoded of
        None \<Rightarrow> op_return None
      | Some encoded \<Rightarrow> op_bind (op_result (map_err (\<lambda>e. Malformed path (format_detail e))
          (decode_pointer c encoded))) (\<lambda>pointer. op_return (Some pointer))))"

definition read_destination_pointer ::
  "'b codec \<Rightarrow> hpath \<Rightarrow> ('b host, StoreError, PointerFile option) op" where
  "read_destination_pointer c workspace =
     (let path = path_join_str workspace POINTER_RELATIVE_PATH in
      op_bind (op_map_err (store_io_error ReadPointer path) (file_state path)) (\<lambda>state.
        if state = RegularFile then read_pointer c workspace else op_return None))"

definition read_marker :: "'b codec \<Rightarrow> hpath \<Rightarrow> ('b host, StoreError, MarkerFile option) op" where
  "read_marker c workspace =
     (let path = path_join_str workspace ALLOCATION_MARKER_RELATIVE_PATH in
      op_bind (read_metadata path ReadMarker) (\<lambda>encoded. case encoded of
        None \<Rightarrow> op_return None
      | Some encoded \<Rightarrow> op_bind (op_result (map_err (\<lambda>e. Malformed path (format_detail e))
          (decode_marker c encoded))) (\<lambda>marker. op_return (Some marker))))"

text \<open>Any failure of the reading is answered with no.\<close>

definition pointer_of :: "'b codec \<Rightarrow> hpath \<Rightarrow> FamilyView \<Rightarrow> ('b host, 'e, bool) op" where
  "pointer_of c resolved view = op_match (read_pointer c resolved) (\<lambda>r. op_return (case r of
     Inr (Some pointer) \<Rightarrow> pf_family_id pointer = family_str (view_family_id view)
   | _ \<Rightarrow> False))"

definition marker_of :: "'b codec \<Rightarrow> hpath \<Rightarrow> FamilyView \<Rightarrow> MemberRow \<Rightarrow> ('b host, 'e, bool) op" where
  "marker_of c resolved view row = op_match (read_marker c resolved) (\<lambda>r. op_return (case r of
     Inr (Some marker) \<Rightarrow> mf_family_id marker = family_str (view_family_id view) \<and>
       mf_allocation_id marker = allocation_str (row_allocation_id row)
   | _ \<Rightarrow> False))"

definition locate ::
  "'b codec \<Rightarrow> hpath \<Rightarrow> ('b host, StoreError, (hpath \<times> FamilySource) option) op" where
  "locate c workspace =
     op_bind (index_state workspace) (\<lambda>index.
     let pointer_path = path_join_str workspace POINTER_RELATIVE_PATH in
     op_bind (op_map_err (store_io_error ReadPointer pointer_path) (file_state pointer_path)) (\<lambda>pointer.
     if is_present index \<and> is_present pointer then op_fail (ConflictingMetadata workspace)
     else if is_present index then op_return (Some (workspace, SourceIndex))
     else op_bind (read_pointer c workspace) (\<lambda>pointer. case pointer of
       None \<Rightarrow> op_return None
     | Some pointer \<Rightarrow>
         let root = path_of_str (pf_root_path pointer) in
         op_match (read_index c root) (\<lambda>r. case r of
           Inr (Some view) \<Rightarrow>
             if family_str (view_family_id view) = pf_family_id pointer
             then op_return (Some (root, SourcePointer))
             else op_fail (PointerTargetInvalid pointer_path root
               (lit ''the root holds another family's index''))
         | Inr None \<Rightarrow> op_fail (PointerTargetInvalid pointer_path root
             (lit ''the root holds no family index''))
         | Inl (Malformed _ _) \<Rightarrow> op_return (Some (root, SourcePointer))
         | Inl (Oversize _ _ _) \<Rightarrow> op_return (Some (root, SourcePointer))
         | Inl error \<Rightarrow> op_fail error))))"

definition observe :: "'b codec \<Rightarrow> hpath \<Rightarrow> ('b host, StoreError, FamilyObservation) op" where
  "observe c workspace = op_bind (locate c workspace) (\<lambda>found. case found of
     None \<Rightarrow> op_return ObservedNoFamily
   | Some (root, source) \<Rightarrow>
       op_bind (read_index c root) (\<lambda>view.
       op_bind (op_result (ok_or (NoFamily workspace) view)) (\<lambda>view.
         op_return (ObservedFamily root source view))))"

definition read_view :: "'b codec \<Rightarrow> FamilyLocation \<Rightarrow> ('b host, StoreError, FamilyObservation) op" where
  "read_view c location = observe c (location_workspace location)"

subsection \<open>Observing a workspace\<close>

record WorkspaceMetadata =
  metadata_index :: bool
  metadata_pointer :: PointerObservation
  metadata_marker :: MarkerObservation

datatype WorkspaceObservation =
    WorkspaceMissing
  | WorkspaceUnobservable ustr
  | WorkspacePresent WorkspaceMetadata

text \<open>The pointer as the observation reports it; an error of the reading makes it unobservable.\<close>

definition observe_pointer ::
  "'b codec \<Rightarrow> hpath \<Rightarrow> FamilyId \<Rightarrow> hpath \<Rightarrow> ('b host, ustr, PointerObservation) op" where
  "observe_pointer c resolved family_id expected_root =
     op_match (read_destination_pointer c resolved) (\<lambda>r. case r of
       Inr None \<Rightarrow> op_match (file_state (path_join_str resolved POINTER_RELATIVE_PATH)) (\<lambda>s. case s of
         Inr Absent \<Rightarrow> op_return PointerAbsent
       | Inr _ \<Rightarrow> op_return PointerMalformed
       | Inl error \<Rightarrow> op_fail (io_error_text error))
     | Inr (Some pointer) \<Rightarrow> op_return
         (if pf_family_id pointer = family_str family_id \<and> path_of_str (pf_root_path pointer) = expected_root
          then PointerMatches else PointerOtherFamily)
     | Inl (Malformed _ _) \<Rightarrow> op_return PointerMalformed
     | Inl error \<Rightarrow> op_fail (show_store_error error))"

definition observe_marker ::
  "'b codec \<Rightarrow> hpath \<Rightarrow> FamilyId \<Rightarrow> AllocationId \<Rightarrow> ('b host, ustr, MarkerObservation) op" where
  "observe_marker c resolved family_id allocation =
     op_match (read_marker c resolved) (\<lambda>r. case r of
       Inr None \<Rightarrow> op_return MarkerAbsent
     | Inr (Some marker) \<Rightarrow> op_return
         (if mf_family_id marker = family_str family_id \<and> mf_allocation_id marker = allocation_str allocation
          then MarkerMatches else MarkerMismatch)
     | Inl (Malformed _ _) \<Rightarrow> op_return MarkerMalformed
     | Inl error \<Rightarrow> op_fail (show_store_error error))"

definition observe_present ::
  "'b codec \<Rightarrow> hpath \<Rightarrow> FamilyId \<Rightarrow> hpath \<Rightarrow> AllocationId \<Rightarrow> ('b host, ustr, WorkspaceMetadata) op" where
  "observe_present c resolved family_id root allocation =
     op_bind (op_map_err show_store_error (index_state resolved)) (\<lambda>state.
     op_match (resolve root) (\<lambda>r. let expected_root = (case r of Inr p \<Rightarrow> p | Inl _ \<Rightarrow> root) in
     op_bind (observe_pointer c resolved family_id expected_root) (\<lambda>pointer.
     op_bind (observe_marker c resolved family_id allocation) (\<lambda>marker.
       op_return \<lparr>metadata_index = is_present state, metadata_pointer = pointer,
         metadata_marker = marker\<rparr>))))"

definition observe_workspace ::
  "'b codec \<Rightarrow> hpath \<Rightarrow> FamilyId \<Rightarrow> hpath \<Rightarrow> AllocationId \<Rightarrow> ('b host, 'e, WorkspaceObservation) op" where
  "observe_workspace c workspace family_id root allocation =
     op_match (resolve workspace) (\<lambda>r. case r of
       Inl error \<Rightarrow> op_return (if error_kind error = IoNotFound then WorkspaceMissing
         else WorkspaceUnobservable (path_display workspace @ lit '': '' @ io_error_text error))
     | Inr resolved \<Rightarrow> op_match (fs_stat False resolved) (\<lambda>m. case m of
         Inl error \<Rightarrow> op_return (if error_kind error = IoNotFound then WorkspaceMissing
           else WorkspaceUnobservable (path_display workspace @ lit '': '' @ io_error_text error))
       | Inr Directory \<Rightarrow>
           op_match (observe_present c resolved family_id root allocation) (\<lambda>p. op_return (case p of
             Inl detail \<Rightarrow> WorkspaceUnobservable detail
           | Inr metadata \<Rightarrow> WorkspacePresent metadata))
       | Inr _ \<Rightarrow> op_return (WorkspaceUnobservable
           (path_display workspace @ lit '' is not a directory''))))"

definition observe_member_target ::
  "'b codec \<Rightarrow> hpath \<Rightarrow> FamilyView \<Rightarrow> MemberRow \<Rightarrow> ('b host, 'e, TargetObservation) op" where
  "observe_member_target c root view row =
     op_bind (observe_workspace c (path_join_str root (row_path row)) (view_family_id view) root
       (row_allocation_id row)) (\<lambda>o'. op_return (case o' of
         WorkspaceMissing \<Rightarrow> TargetMissing
       | WorkspaceUnobservable detail \<Rightarrow> TargetMalformed detail
       | WorkspacePresent metadata \<Rightarrow> TargetPresent
           (if metadata_index metadata then PointerIsIndex else metadata_pointer metadata)
           (metadata_marker metadata)))"

subsection \<open>The locked session\<close>

record LockedFamilySession =
  session_root :: hpath
  session_lock :: names

definition try_lock :: "'b codec \<Rightarrow> FamilyLocation \<Rightarrow> ('b host, StoreError, LockedFamilySession) op" where
  "try_lock c location =
     op_bind (locate c (location_workspace location)) (\<lambda>located.
     let root = (case located of Some (root, _) \<Rightarrow> root | None \<Rightarrow> location_workspace location);
         directory = metadata_directory root;
         lock_path = path_join_str root LOCK_RELATIVE_PATH in
     op_bind (op_map_err (store_io_error LockOperation directory) (ensure_metadata_directory directory)) (\<lambda>_.
     op_bind (op_map_err (store_io_error LockOperation lock_path) (try_acquire (yaml_blank c) lock_path))
       (\<lambda>attempt. case attempt of
         Acquired lock \<Rightarrow> op_return \<lparr>session_root = root, session_lock = lock\<rparr>
       | BusyLock \<Rightarrow> op_fail (Busy lock_path)
       | UnsupportedLock detail \<Rightarrow> op_fail (LockingUnsupported detail))))"

definition drop_session :: "LockedFamilySession \<Rightarrow> 'b host \<Rightarrow> 'b host" where
  "drop_session session h = release_lock (session_lock session) h"

definition reread :: "'b codec \<Rightarrow> hpath \<Rightarrow> ('b host, StoreError, FamilyView option) op" where
  "reread c root = read_index c root"

definition pointer_state :: "hpath \<Rightarrow> ('b host, StoreError, FileState) op" where
  "pointer_state root =
     (let path = path_join_str root POINTER_RELATIVE_PATH in
      op_map_err (store_io_error ReadPointer path) (file_state path))"

definition recorded_workspace :: "hpath \<Rightarrow> MemberRow \<Rightarrow> hpath" where
  "recorded_workspace root row = path_join_str root (row_path row)"

definition session_row :: "FamilyView \<Rightarrow> MemberName \<Rightarrow> StoreError + MemberRow" where
  "session_row view name = ok_or (Refused (NotFound name)) (bt_get (view_members view) name)"

definition standing_pointer ::
  "'b codec \<Rightarrow> hpath \<Rightarrow> FamilyView \<Rightarrow> MemberRow \<Rightarrow> ('b host, 'e, hpath option) op" where
  "standing_pointer c root view row =
     (let recorded = recorded_workspace root row in
      op_match (resolve recorded) (\<lambda>r. case r of
        Inl _ \<Rightarrow> op_return None
      | Inr resolved \<Rightarrow> op_bind (pointer_of c resolved view) (\<lambda>stands.
          op_return (if stands then Some recorded else None))))"

fun first_standing ::
  "'b codec \<Rightarrow> hpath \<Rightarrow> FamilyView \<Rightarrow> (MemberName \<times> MemberRow) list \<Rightarrow>
   ('b host, 'e, (ustr \<times> hpath) option) op" where
  "first_standing c root view [] = op_return None"
| "first_standing c root view ((name, row) # rows) =
     op_bind (standing_pointer c root view row) (\<lambda>s. case s of
       Some workspace \<Rightarrow> op_return (Some (name_str name, workspace))
     | None \<Rightarrow> first_standing c root view rows)"

definition stranded_by ::
  "'b codec \<Rightarrow> hpath \<Rightarrow> FamilyView \<Rightarrow> FamilyChange \<Rightarrow> ('b host, 'e, (ustr \<times> hpath) option) op" where
  "stranded_by c root view change = (case change of
     RemoveRow name _ \<Rightarrow> (case bt_get (view_members view) name of
       None \<Rightarrow> op_return None
     | Some row \<Rightarrow> first_standing c root view [(name, row)])
   | Disband \<Rightarrow> first_standing c root view (view_members view)
   | _ \<Rightarrow> op_return None)"

definition write_index :: "'b codec \<Rightarrow> hpath \<Rightarrow> FamilyView \<Rightarrow> ('b host, StoreError, MetadataEffect) op" where
  "write_index c root view =
     (let path = path_join_str root INDEX_RELATIVE_PATH; directory = metadata_directory root in
      op_bind (op_result (map_err (encoding_error WriteIndex path) (encode_index c view))) (\<lambda>encoded.
      op_bind (op_result (map_err (\<lambda>o'. Oversize path (oversize_bytes o') (oversize_limit o'))
        (check_encoded_size (yaml_len c encoded)))) (\<lambda>_.
      op_bind (op_map_err (store_io_error WriteIndex directory) (ensure_metadata_directory directory)) (\<lambda>_.
      op_bind (op_map_err (store_io_error WriteIndex path) (publish (yaml_blank c) path encoded)) (\<lambda>_.
        op_return IndexWritten)))))"

definition remove_index :: "hpath \<Rightarrow> ('b host, StoreError, MetadataEffect) op" where
  "remove_index root =
     (let path = path_join_str root INDEX_RELATIVE_PATH in
      op_bind (op_map_err (store_io_error RemoveIndex path) (publish_remove path)) (\<lambda>_.
        op_return IndexRemoved))"

definition session_encode_pointer ::
  "'b codec \<Rightarrow> hpath \<Rightarrow> FamilyId \<Rightarrow> hpath \<Rightarrow> ('b host, StoreError, 'b) op" where
  "session_encode_pointer c own_root family_id pointer_path =
     op_match (resolve own_root) (\<lambda>r. let root = (case r of Inr p \<Rightarrow> p | Inl _ \<Rightarrow> own_root) in
     op_bind (op_result (ok_or (IoFailure WritePointer pointer_path
         (lit ''the registering root '' @ path_display root @
          lit '' is not UTF-8, so it cannot be recorded in a pointer'')) (path_to_str root))) (\<lambda>root.
     op_result (map_err (encoding_error WritePointer pointer_path) (encode_pointer c family_id root))))"

definition session_found ::
  "'b codec \<Rightarrow> hpath \<Rightarrow> FamilyId \<Rightarrow> AllocationId \<Rightarrow> ('b host, StoreError, AppliedChange) op" where
  "session_found c root family_id root_allocation =
     op_bind (reread c root) (\<lambda>current.
     op_bind (if current \<noteq> None then op_return True
       else op_bind (pointer_state root) (\<lambda>s. op_return (is_present s))) (\<lambda>occupied.
     if occupied then op_fail (ConflictingMetadata root)
     else let view = founded family_id root_allocation in
       op_bind (write_index c root view) (\<lambda>effect.
         op_return \<lparr>applied_effects = [effect], applied_view = Some view\<rparr>)))"

definition session_apply ::
  "'b codec \<Rightarrow> hpath \<Rightarrow> FamilyChange \<Rightarrow> ('b host, StoreError, AppliedChange) op" where
  "session_apply c root change =
     op_bind (reread c root) (\<lambda>current. case current of
       None \<Rightarrow>
         if change = Disband then op_return \<lparr>applied_effects = [], applied_view = None\<rparr>
         else op_fail (NoFamily root)
     | Some current \<Rightarrow>
         op_bind (stranded_by c root current change) (\<lambda>stranded. case stranded of
           Some (member, workspace) \<Rightarrow> op_fail (PointerStillInstalled member workspace)
         | None \<Rightarrow>
             op_bind (op_result (map_err Refused (validate_transition current change))) (\<lambda>validated.
             if change = Disband then
               op_bind (remove_index root) (\<lambda>effect.
                 op_return \<lparr>applied_effects = [effect], applied_view = None\<rparr>)
             else
               op_bind (write_index c root (validated_next validated)) (\<lambda>effect.
                 op_return \<lparr>applied_effects = [effect],
                   applied_view = Some (validated_next validated)\<rparr>))))"

definition session_install_pointer ::
  "'b codec \<Rightarrow> hpath \<Rightarrow> MemberName \<Rightarrow> hpath \<Rightarrow> ('b host, StoreError, AppliedChange) op" where
  "session_install_pointer c root name destination =
     op_bind (reread c root) (\<lambda>current.
     op_bind (op_result (ok_or (NoFamily root) current)) (\<lambda>view.
     op_bind (op_result (session_row view name)) (\<lambda>row.
     if row_state row \<noteq> Creating
     then op_fail (Refused (WrongState name Creating (row_state row)))
     else
     let recorded = recorded_workspace root row;
         marker_path = path_join_str destination ALLOCATION_MARKER_RELATIVE_PATH;
         pointer_path = path_join_str destination POINTER_RELATIVE_PATH;
         directory = metadata_directory destination in
     op_bind (op_map_err (store_io_error WriteMarker marker_path) (resolve destination)) (\<lambda>resolved.
     op_match (resolve recorded) (\<lambda>rec_resolved.
     if result_ok rec_resolved \<noteq> Some resolved
     then op_fail (PathMismatch (name_str name) recorded destination)
     else
     op_bind (index_state destination) (\<lambda>index.
     if is_present index then op_fail (ConflictingMetadata destination)
     else
     op_bind (read_destination_pointer c destination) (\<lambda>pointer.
     op_bind (op_result (case pointer of
         Some pointer \<Rightarrow>
           if pf_family_id pointer \<noteq> family_str (view_family_id view)
           then Inl (PointerTargetInvalid pointer_path root
             (lit ''the destination already points at family `'' @ pf_family_id pointer @ lit ''`''))
           else Inr ()
       | None \<Rightarrow> Inr ())) (\<lambda>_.
     op_bind (op_map_err (store_io_error WriteMarker directory) (ensure_metadata_directory directory)) (\<lambda>_.
     op_bind (op_result (map_err (encoding_error WriteMarker marker_path)
         (encode_marker c (view_family_id view) (row_allocation_id row)))) (\<lambda>marker.
     op_bind (op_map_err (store_io_error WriteMarker marker_path)
         (publish (yaml_blank c) marker_path marker)) (\<lambda>_.
     let effects = [MarkerWritten destination] in
     op_bind (session_encode_pointer c root (view_family_id view) pointer_path) (\<lambda>pointer.
     op_bind (op_map_err (partial_failure WritePointer effects pointer_path)
         (publish (yaml_blank c) pointer_path pointer)) (\<lambda>_.
       op_return \<lparr>applied_effects = effects @ [PointerWritten destination],
         applied_view = Some view\<rparr>)))))))))))))"

definition session_remove_pointer ::
  "'b codec \<Rightarrow> hpath \<Rightarrow> MemberName \<Rightarrow> ('b host, StoreError, AppliedChange) op" where
  "session_remove_pointer c root name =
     op_bind (reread c root) (\<lambda>current.
     op_bind (op_result (ok_or (NoFamily root) current)) (\<lambda>view.
     op_bind (op_result (session_row view name)) (\<lambda>row.
     let workspace = recorded_workspace root row in
     op_match (resolve workspace) (\<lambda>r. case r of
       Inl _ \<Rightarrow> op_return \<lparr>applied_effects = [], applied_view = Some view\<rparr>
     | Inr resolved \<Rightarrow>
         op_bind (pointer_of c resolved view) (\<lambda>stands.
         let pointer_path = path_join_str resolved POINTER_RELATIVE_PATH;
             marker_path = path_join_str resolved ALLOCATION_MARKER_RELATIVE_PATH in
         op_bind (if stands
             then op_bind (op_map_err (store_io_error RemovePointer pointer_path) (publish_remove pointer_path))
               (\<lambda>_. op_return [PointerRemoved workspace])
             else op_return []) (\<lambda>effects.
         op_bind (marker_of c resolved view row) (\<lambda>marked.
         op_bind (if marked
             then op_bind (op_map_err (partial_or_io RemoveMarker effects marker_path) (publish_remove marker_path))
               (\<lambda>_. op_return (effects @ [MarkerRemoved workspace]))
             else op_return effects) (\<lambda>effects.
           op_return \<lparr>applied_effects = effects, applied_view = Some view\<rparr>))))))))"

end
