(* ===== verification/Store_Proofs.thy ===== *)
theory Store_Proofs
  imports Family_Store
begin

text \<open>
  What the store guarantees. Readers leave the host as it is; a successful session operation does to
  the stored index what the model's transition does to the view, on a host that may fail any system
  call; and a refusal leaves every file as it was.

  \<open>stored_index\<close> is what a reader finds when no call fails. A reader that succeeds on a failing host
  found just that (\<open>honest\<close>).
\<close>

definition quiet :: "'b host \<Rightarrow> 'b host" where
  "quiet h = h\<lparr>host_faults := (\<lambda>_. None)\<rparr>"

definition stored_index :: "'b codec \<Rightarrow> hpath \<Rightarrow> 'b host \<Rightarrow> StoreError + FamilyView option" where
  "stored_index c root h = fst (read_index c root (quiet h))"

subsection \<open>Readers only read\<close>

lemma reads_only_Pair [reads_only_intros]: "reads_only (Pair r)"
  by (simp add: reads_only_def)

lemma reads_only_index_state [reads_only_intros]: "reads_only (index_state w)"
  unfolding index_state_def Let_def by (intro reads_only_intros)

lemma reads_only_read_index [reads_only_intros]: "reads_only (read_index c root)"
  unfolding read_index_def Let_def
  by (intro reads_only_intros) (auto intro!: reads_only_intros split: FileState.split)

lemma reads_only_read_metadata [reads_only_intros]: "reads_only (read_metadata p op)"
  unfolding read_metadata_def
  by (intro reads_only_intros) (auto intro!: reads_only_intros split: FileState.split)

lemma reads_only_read_pointer [reads_only_intros]: "reads_only (read_pointer c w)"
  unfolding read_pointer_def Let_def
  by (intro reads_only_intros) (auto intro!: reads_only_intros split: option.split)

lemma reads_only_read_destination_pointer [reads_only_intros]:
  "reads_only (read_destination_pointer c w)"
  unfolding read_destination_pointer_def Let_def
  by (intro reads_only_intros) (auto intro!: reads_only_intros)

lemma reads_only_read_marker [reads_only_intros]: "reads_only (read_marker c w)"
  unfolding read_marker_def Let_def
  by (intro reads_only_intros) (auto intro!: reads_only_intros split: option.split)

lemma reads_only_resolve [reads_only_intros]: "reads_only (resolve p)"
  unfolding resolve_def by (intro reads_only_intros)

lemma reads_only_pointer_of [reads_only_intros]: "reads_only (pointer_of c r v)"
  unfolding pointer_of_def by (intro reads_only_intros)

lemma reads_only_marker_of [reads_only_intros]: "reads_only (marker_of c r v row)"
  unfolding marker_of_def by (intro reads_only_intros)

lemma reads_only_locate [reads_only_intros]: "reads_only (locate c w)"
  unfolding locate_def Let_def
  by (intro reads_only_intros)
     (auto intro!: reads_only_intros split: option.split sum.split StoreError.split)

lemma reads_only_observe [reads_only_intros]: "reads_only (observe c w)"
  unfolding observe_def
  by (intro reads_only_intros) (auto intro!: reads_only_intros split: option.split prod.split)

lemma reads_only_observe_pointer [reads_only_intros]: "reads_only (observe_pointer c r f e)"
  unfolding observe_pointer_def
  by (intro reads_only_intros)
     (auto intro!: reads_only_intros split: option.split sum.split StoreError.split FileState.split)

lemma reads_only_observe_marker [reads_only_intros]: "reads_only (observe_marker c r f a)"
  unfolding observe_marker_def
  by (intro reads_only_intros)
     (auto intro!: reads_only_intros split: option.split sum.split StoreError.split)

lemma reads_only_observe_present [reads_only_intros]: "reads_only (observe_present c r f root a)"
  unfolding observe_present_def Let_def by (intro reads_only_intros)

lemma reads_only_observe_workspace [reads_only_intros]: "reads_only (observe_workspace c w f root a)"
  unfolding observe_workspace_def
  by (intro reads_only_intros) (auto intro!: reads_only_intros split: sum.split node.split)

lemma reads_only_observe_member_target [reads_only_intros]:
  "reads_only (observe_member_target c root view row)"
  unfolding observe_member_target_def by (intro reads_only_intros)

lemma reads_only_standing_pointer [reads_only_intros]: "reads_only (standing_pointer c root view row)"
  unfolding standing_pointer_def Let_def
  by (intro reads_only_intros) (auto intro!: reads_only_intros split: sum.split)

lemma reads_only_first_standing [reads_only_intros]: "reads_only (first_standing c root view rows)"
proof (induction rows)
  case Nil
  then show ?case by (simp add: reads_only_Pair)
next
  case (Cons x rows)
  obtain n r where x: "x = (n, r)" by (cases x)
  show ?case
    unfolding x first_standing.simps
    by (intro reads_only_intros) (auto intro!: reads_only_intros Cons split: option.split)
qed

lemma reads_only_stranded_by [reads_only_intros]: "reads_only (stranded_by c root view change)"
  unfolding stranded_by_def
  by (auto intro!: reads_only_intros split: FamilyChange.split option.split)

subsection \<open>A successful reading is what a quiet host gives\<close>

definition honest :: "('b host, 'e, 'a) op \<Rightarrow> bool" where
  "honest m \<longleftrightarrow> (\<forall>h t x. fst (m h) = Inr x \<longrightarrow> fst (m ((quiet h)\<lparr>host_tick := t\<rparr>)) = Inr x)"

named_theorems honest_intros \<open>readers whose success does not depend on the faults\<close>

lemma honestD: "honest m \<Longrightarrow> fst (m h) = Inr x \<Longrightarrow> fst (m (quiet h)) = Inr x"
  unfolding honest_def quiet_def by (metis host.update_convs(5) host.surjective)

lemma honest_result [honest_intros]: "honest (op_result r)"
  by (simp add: honest_def)

lemma honest_return [honest_intros]: "honest (op_return x)"
  by (simp add: honest_def)

lemma honest_fail [honest_intros]: "honest (op_fail e)"
  by (simp add: honest_def)

lemma honest_bind [honest_intros]:
  assumes "honest m" "reads_only m" "\<And>x. honest (f x)"
  shows "honest (op_bind m f)"
  unfolding honest_def
proof (intro allI impI)
  fix h t y
  assume y: "fst (op_bind m f h) = Inr y"
  obtain x h1 where m: "m h = (Inr x, h1)" "fst (f x h1) = Inr y"
    using y by (cases "m h"; cases "fst (m h)") (auto simp: op_bind_def)
  obtain u where h1: "h1 = h\<lparr>host_tick := u\<rparr>"
    using reads_onlyD [OF assms(2) m(1)] by (auto simp: same_host_def)
  let ?q = "(quiet h)\<lparr>host_tick := t\<rparr>"
  have mq: "fst (m ?q) = Inr x"
    using assms(1) m(1) by (auto simp: honest_def)
  obtain v where v: "snd (m ?q) = ?q\<lparr>host_tick := v\<rparr>"
    using reads_onlyD [OF assms(2), of ?q "fst (m ?q)" "snd (m ?q)"] by (auto simp: same_host_def)
  have "fst (f x ((quiet h1)\<lparr>host_tick := v\<rparr>)) = Inr y"
    using assms(3) m(2) by (auto simp: honest_def)
  then show "fst (op_bind m f ?q) = Inr y"
    using mq v h1 by (simp add: op_bind_eq quiet_def)
qed

lemma honest_map_err [honest_intros]: "honest m \<Longrightarrow> honest (op_map_err f m)"
  by (simp add: honest_def)

lemma honest_syscall:
  assumes "\<And>h t f. fst (act (h\<lparr>host_faults := f, host_tick := t\<rparr>)) = fst (act h)"
  shows "honest (syscall act)"
proof -
  have "fst (act (quiet h\<lparr>host_tick := t\<rparr>)) = fst (act (h\<lparr>host_tick := u\<rparr>))" for h t u
    using assms [where h = h and t = t and f = "\<lambda>_. None"]
      assms [where h = h and t = u and f = "host_faults h"]
    by (simp add: quiet_def)
  then show ?thesis
    by (auto simp: honest_def syscall_def quiet_def split: option.split) metis
qed

lemma host_lookup_faults [simp]:
  "host_lookup (h\<lparr>host_faults := f\<rparr>) a m p = host_lookup h a m p"
  "host_lookup (h\<lparr>host_faults := f, host_tick := t\<rparr>) a m p = host_lookup h a m p"
  by (simp_all add: host_lookup_def)

lemma honest_fs [honest_intros]:
  "honest (fs_canonicalize p)"
  "honest (fs_stat follow p)"
  "honest (fs_read p)"
  unfolding fs_canonicalize_def fs_stat_def fs_read_def
  by (rule honest_syscall, simp add: node_at_def)+


lemma honest_file_state [honest_intros]: "honest (file_state p)"
  unfolding honest_def
  by (auto simp: file_state_def op_match_eq fs_stat_def syscall_def quiet_def node_at_def
      split: option.splits sum.splits node.splits if_splits)

lemma honest_read_index [honest_intros]: "honest (read_index c root)"
  unfolding read_index_def Let_def publish_read_def encoded_size_def
  by (intro honest_intros reads_only_intros)
     (auto intro!: honest_intros reads_only_intros split: FileState.split)

lemma stored_index_read: "fst (read_index c root h) = Inr v \<Longrightarrow> stored_index c root h = Inr v"
  unfolding stored_index_def using honest_read_index by (rule honestD)

subsection \<open>Metadata paths\<close>

definition gwz_name :: osname where
  "gwz_name = Utf8 (lit ''.gwz'')"

definition index_name :: osname where
  "index_name = Utf8 (lit ''local-family.yml'')"

definition pointer_name :: osname where
  "pointer_name = Utf8 (lit ''family-root'')"

definition marker_name :: osname where
  "marker_name = Utf8 (lit ''local-clone-allocation'')"

lemma relative_paths:
  "path_of_str INDEX_RELATIVE_PATH = [Normal gwz_name, Normal index_name]"
  "path_of_str POINTER_RELATIVE_PATH = [Normal gwz_name, Normal pointer_name]"
  "path_of_str ALLOCATION_MARKER_RELATIVE_PATH = [Normal gwz_name, Normal marker_name]"
  "path_of_str LOCK_RELATIVE_PATH = [Normal gwz_name, Normal (Utf8 (lit ''local-family.lock''))]"
  by code_simp+

lemma join_relative:
  "b = [Normal x, Normal y] \<Longrightarrow> path_join w b = (w @ [Normal x]) @ [Normal y]"
  by (simp add: path_join_def is_absolute_def)

definition meta_path :: "hpath \<Rightarrow> osname \<Rightarrow> hpath" where
  "meta_path w n = (w @ [Normal gwz_name]) @ [Normal n]"

lemma metadata_paths:
  "path_join_str w INDEX_RELATIVE_PATH = meta_path w index_name"
  "path_join_str w POINTER_RELATIVE_PATH = meta_path w pointer_name"
  "path_join_str w ALLOCATION_MARKER_RELATIVE_PATH = meta_path w marker_name"
  "metadata_directory w = w @ [Normal gwz_name]"
  unfolding path_join_str_def metadata_directory_def relative_paths meta_path_def
  by (simp_all add: join_relative path_join_def is_absolute_def)

subsection \<open>Reading metadata on a quiet host\<close>

text \<open>The workspace \<open>w\<close> has a real metadata directory, at \<open>g\<close>.\<close>

definition metadata_at :: "'b host \<Rightarrow> hpath \<Rightarrow> names \<Rightarrow> bool" where
  "metadata_at h w g \<longleftrightarrow> host_wf h \<and> dir_at (host_nodes h) g \<and>
     lookup_path (host_nodes h) True False SYMLINK_LIMIT (host_cwd h) (w @ [Normal gwz_name]) = Inr g"

lemma quiet_simps [simp]:
  "host_nodes (quiet h) = host_nodes h" "host_cwd (quiet h) = host_cwd h" "host_wf (quiet h) = host_wf h"
  "host_lookup (quiet h) f m p = host_lookup h f m p" "host_faults (quiet h) = (\<lambda>_. None)"
  by (simp_all add: quiet_def host_wf_def)

lemma metadata_lookup:
  assumes "metadata_at h w g"
  shows "host_lookup h False False (meta_path w n) =
      (if host_nodes h (g @ [n]) = None then Inl (OsError IoNotFound) else Inr (g @ [n]))"
    and "host_nodes h (g @ [n]) = Some (Regular b) \<Longrightarrow>
      host_lookup h True False (meta_path w n) = Inr (g @ [n])"
proof -
  have look: "lookup_path (host_nodes h) False False SYMLINK_LIMIT (host_cwd h)
      (meta_path w n) =
    (if host_nodes h (g @ [n]) = None then Inl IoNotFound else Inr (g @ [n]))"
    using assms lookup_path_snoc [of "host_nodes h" SYMLINK_LIMIT "host_cwd h" "w @ [Normal gwz_name]" g False n]
    by (simp add: metadata_at_def host_wf_def meta_path_def)
  then show "host_lookup h False False (meta_path w n) =
      (if host_nodes h (g @ [n]) = None then Inl (OsError IoNotFound) else Inr (g @ [n]))"
    by (simp add: host_lookup_def meta_path_def)
  assume "host_nodes h (g @ [n]) = Some (Regular b)"
  then show "host_lookup h True False (meta_path w n) = Inr (g @ [n])"
    using look lookup_path_no_link [of "host_nodes h" False SYMLINK_LIMIT "host_cwd h"
        "meta_path w n" "g @ [n]"]
    by (simp add: host_lookup_def meta_path_def)
qed

lemma quiet_file_state:
  assumes "metadata_at h w g" "host_faults h = (\<lambda>_. None)"
  shows "fst (file_state (meta_path w n) h) =
    Inr (case host_nodes h (g @ [n]) of None \<Rightarrow> Absent | Some (Regular b) \<Rightarrow> RegularFile | _ \<Rightarrow> Irregular)"
  using assms metadata_lookup(1) [OF assms(1), of n]
  by (auto simp: file_state_def op_match_eq fs_stat_def syscall_def node_at_def
      split: option.split node.split)

lemma quiet_read:
  assumes "metadata_at h w g" "host_faults h = (\<lambda>_. None)" "host_nodes h (g @ [n]) = Some (Regular b)"
  shows "fst (publish_read (meta_path w n) h) = Inr b"
    and "fst (encoded_size len (meta_path w n) h) = Inr (len b)"
  using assms metadata_lookup(2) [OF assms(1,3)]
  by (simp_all add: publish_read_def encoded_size_def op_bind_eq fs_read_def fs_stat_def syscall_def
      node_at_def)

lemma metadata_at_tick: "same_host h h' \<Longrightarrow> metadata_at h w g \<Longrightarrow> metadata_at h' w g"
  by (auto simp: same_host_def metadata_at_def host_wf_def)

lemma same_host_faults: "same_host h h' \<Longrightarrow> host_faults h' = host_faults h"
  by (auto simp: same_host_def)

lemma quiet_read_index_none:
  assumes m: "metadata_at h root g" and q: "host_faults h = (\<lambda>_. None)"
    and n: "host_nodes h (g @ [index_name]) = None"
  shows "fst (read_index c root h) = Inr None"
proof -
  let ?p = "meta_path root index_name"
  have "fst (op_map_err (store_io_error ReadIndex ?p) (file_state ?p) h) = Inr Absent"
    using quiet_file_state [OF m q, of index_name] n by simp
  then show ?thesis
    unfolding read_index_def metadata_paths Let_def op_bind_eq by simp
qed

lemma quiet_read_index_regular:
  assumes m: "metadata_at h root g" and q: "host_faults h = (\<lambda>_. None)"
    and n: "host_nodes h (g @ [index_name]) = Some (Regular b)"
  shows "fst (read_index c root h) =
    and_then (map_err (\<lambda>o'. Oversize (meta_path root index_name) (oversize_bytes o') (oversize_limit o'))
      (check_encoded_size (yaml_len c b))) (\<lambda>_.
    and_then (map_err (\<lambda>e. Malformed (meta_path root index_name) (format_detail e)) (decode_index c b)) (\<lambda>v.
    and_then (map_err (\<lambda>r. Malformed (meta_path root index_name) (show_refusal r)) (validate_view v)) (\<lambda>_.
      Inr (Some v))))"
proof -
  let ?p = "meta_path root index_name"
  define h1 where "h1 = snd (file_state ?p h)"
  have h1: "same_host h h1"
    using reads_only_file_state by (auto simp: h1_def reads_only_def)
  have q1: "metadata_at h1 root g" "host_faults h1 = (\<lambda>_. None)" "host_nodes h1 (g @ [index_name]) = Some (Regular b)"
    using h1 m q n by (auto simp: metadata_at_tick same_host_faults same_host_nodes)
  define h2 where "h2 = snd (encoded_size (yaml_len c) ?p h1)"
  have h2: "same_host h1 h2"
    using reads_only_encoded_size by (auto simp: h2_def reads_only_def)
  have q2: "metadata_at h2 root g" "host_faults h2 = (\<lambda>_. None)" "host_nodes h2 (g @ [index_name]) = Some (Regular b)"
    using h2 q1 by (auto simp: metadata_at_tick same_host_faults same_host_nodes)
  show ?thesis
    using quiet_file_state [OF m q, of index_name] n quiet_read(2) [OF q1, of "yaml_len c"]
      quiet_read(1) [OF q2]
    unfolding read_index_def metadata_paths Let_def
    by (simp add: op_bind_eq and_then_def map_err_def split: sum.split flip: h1_def h2_def)
qed

lemma quiet_read_index_some:
  assumes "metadata_at h root g" "host_faults h = (\<lambda>_. None)"
    "host_nodes h (g @ [index_name]) = Some (Regular b)"
  shows "fst (read_index c root h) = Inr (Some v) \<longleftrightarrow>
    check_encoded_size (yaml_len c b) = Inr () \<and> decode_index c b = Inr v \<and> validate_view v = Inr ()"
  unfolding quiet_read_index_regular [OF assms] by (auto simp: and_then_eq_Inr)

subsection \<open>What a successful reading says of the files\<close>

lemma node_at_tick [simp]: "node_at (h\<lparr>host_tick := t\<rparr>) q = node_at h q"
  by (simp add: node_at_def)

lemma stat_metadata:
  assumes "fs_stat False (meta_path w n) h = (Inr nd, h1)" "host_wf h"
  shows "\<exists>g. metadata_at h w g \<and> host_nodes h (g @ [n]) = Some nd"
proof -
  obtain q where q: "host_lookup h False False (meta_path w n) = Inr q" "nd = node_at h q"
    using assms(1) by (auto simp: fs_stat_def syscall_def and_then_eq_Inr split: option.splits)
  then have l: "lookup_path (host_nodes h) False False SYMLINK_LIMIT (host_cwd h)
      ((w @ [Normal gwz_name]) @ [Normal n]) = Inr q"
    by (auto simp: host_lookup_def meta_path_def map_err_eq_Inr split: if_splits)
  from lookup_path_snocD [OF l] assms(2) obtain g where g:
    "lookup_path (host_nodes h) True False SYMLINK_LIMIT (host_cwd h) (w @ [Normal gwz_name]) = Inr g"
    "dir_at (host_nodes h) g" "q = g @ [n]"
    by (auto simp: host_wf_def)
  then have m: "metadata_at h w g"
    using assms(2) by (simp add: metadata_at_def)
  have "host_nodes h (g @ [n]) \<noteq> None"
    using metadata_lookup(1) [OF m, of n] q by (auto split: if_splits)
  with m q g show ?thesis
    by (auto simp: node_at_def)
qed

lemma file_state_facts:
  assumes "file_state (meta_path w n) h = (Inr st, h1)" "host_wf h"
  shows "same_host h h1"
    and "st = RegularFile \<Longrightarrow> \<exists>g b. metadata_at h w g \<and> host_nodes h (g @ [n]) = Some (Regular b)"
    and "st = Absent \<Longrightarrow> metadata_at h w g \<Longrightarrow> host_nodes h (g @ [n]) = None"
proof -
  show "same_host h h1"
    using reads_onlyD [OF reads_only_file_state assms(1)] .
  show "\<exists>g b. metadata_at h w g \<and> host_nodes h (g @ [n]) = Some (Regular b)" if st: "st = RegularFile"
  proof -
    obtain b where "fs_stat False (meta_path w n) h = (Inr (Regular b), h1)"
      using assms(1) st
      by (cases "fs_stat False (meta_path w n) h")
         (auto simp: file_state_def op_match_def split: sum.splits node.splits if_splits)
    from stat_metadata [OF this assms(2)] show ?thesis by blast
  qed
  show "host_nodes h (g @ [n]) = None" if st: "st = Absent" and m: "metadata_at h w g"
  proof -
    obtain e where e: "fst (fs_stat False (meta_path w n) h) = Inl e" "error_kind e = IoNotFound"
      using assms(1) st
      by (cases "fs_stat False (meta_path w n) h")
         (auto simp: file_state_def op_match_def split: sum.splits node.splits if_splits)
    then show ?thesis
      using metadata_lookup(1) [OF m, of n]
      by (auto simp: fs_stat_def syscall_def split: option.splits if_splits)
  qed
qed

lemma read_index_success:
  assumes run: "read_index c root h = (Inr ov, h1)"
  shows "\<exists>st h2. file_state (meta_path root index_name) h = (Inr st, h2) \<and>
    (ov = None \<and> st = Absent \<or> st = RegularFile \<and>
      (\<exists>v b. ov = Some v \<and> decode_index c b = Inr v \<and> validate_view v = Inr ()))"
proof -
  obtain r h2 where fs: "file_state (meta_path root index_name) h = (r, h2)"
    by (cases "file_state (meta_path root index_name) h")
  show ?thesis
  proof (cases r)
    case (Inl e)
    with run fs show ?thesis
      by (simp add: read_index_def metadata_paths Let_def op_bind_eq)
  next
    case (Inr st)
    with run fs show ?thesis
      by (cases st) (auto simp: read_index_def metadata_paths Let_def op_bind_eq split: sum.splits)
  qed
qed

lemma read_index_found:
  assumes run: "read_index c root h = (Inr (Some v), h1)" and wf: "host_wf h"
  shows "\<exists>g b. metadata_at h root g \<and> host_nodes h (g @ [index_name]) = Some (Regular b) \<and>
    view_typed v \<and> family_ok v"
proof -
  obtain h2 b where fs: "file_state (meta_path root index_name) h = (Inr RegularFile, h2)"
    "decode_index c b = Inr v" "validate_view v = Inr ()"
    using read_index_success [OF run] by auto
  then have "view_typed v \<and> family_ok v"
    using decode_index_typed [OF fs(2)] validate_view_family_ok by (simp add: view_typed_def)
  with file_state_facts(2) [OF fs(1) wf] show ?thesis by blast
qed

lemma read_index_absent:
  assumes run: "read_index c root h = (Inr None, h1)" and wf: "host_wf h" and m: "metadata_at h root g"
  shows "host_nodes h (g @ [index_name]) = None"
proof -
  obtain h2 where "file_state (meta_path root index_name) h = (Inr Absent, h2)"
    using read_index_success [OF run] by auto
  from file_state_facts(3) [OF this wf refl m] show ?thesis .
qed

subsection \<open>Writing metadata\<close>

lemma metadata_of_dir:
  assumes "host_wf h" "lookup_path (host_nodes h) True False SYMLINK_LIMIT (host_cwd h) w = Inr r"
    "dir_at (host_nodes h) r" "host_nodes h (r @ [gwz_name]) = Some Directory"
  shows "metadata_at h w (r @ [gwz_name])"
proof -
  have "lookup_path (host_nodes h) False False SYMLINK_LIMIT (host_cwd h) (w @ [Normal gwz_name]) =
      Inr (r @ [gwz_name])"
    using assms lookup_path_snoc [of "host_nodes h" SYMLINK_LIMIT "host_cwd h" w r False gwz_name]
    by (simp add: host_wf_def)
  then have "lookup_path (host_nodes h) True False SYMLINK_LIMIT (host_cwd h) (w @ [Normal gwz_name]) =
      Inr (r @ [gwz_name])"
    by (rule lookup_path_no_link) (simp add: assms(4))
  with assms show ?thesis
    by (simp add: metadata_at_def)
qed

lemma metadata_at_files: "same_files h h' \<Longrightarrow> metadata_at h' w g = metadata_at h w g"
  by (simp add: metadata_at_def same_files_simps)

lemma metadata_at_put:
  assumes "metadata_at h w g" "leaf_at (host_nodes h) x" "x \<noteq> g"
  shows "metadata_at (put_node x v h) w g"
proof -
  have "host_nodes h x \<noteq> Some Directory"
    using assms(2) by (auto simp: leaf_at_def)
  with assms show ?thesis
    by (auto simp: metadata_at_def put_node_def host_wf_def intro: dir_at_update lookup_path_avoids)
qed

text \<open>Making sure of the metadata directory: it stood, or it is created.\<close>

lemma create_dir_result:
  assumes run: "fs_create_dir (w @ [Normal gwz_name]) h = (r, h')" and wf: "host_wf h"
  shows "case r of
      Inl e \<Rightarrow> same_host h h'
    | Inr _ \<Rightarrow> \<exists>d. host_nodes h (d @ [gwz_name]) = None \<and> metadata_at h' w (d @ [gwz_name]) \<and>
        same_files (put_node (d @ [gwz_name]) (Some Directory) h) h'"
proof (cases r)
  case (Inl e)
  with run show ?thesis
    by (auto simp: fs_create_dir_def syscall_def split: option.splits sum.splits if_splits)
next
  case (Inr u)
  then obtain q where q: "host_lookup h False True (w @ [Normal gwz_name]) = Inr q"
    "host_nodes h q = None" "h' = put_node q (Some Directory) (h\<lparr>host_tick := Suc (host_tick h)\<rparr>)"
    using run by (auto simp: fs_create_dir_def syscall_def split: option.splits sum.splits if_splits)
  then have l: "lookup_path (host_nodes h) False True SYMLINK_LIMIT (host_cwd h) (w @ [Normal gwz_name]) = Inr q"
    by (auto simp: host_lookup_def)
  from lookup_path_snocD [OF l] wf obtain d where d:
    "lookup_path (host_nodes h) True False SYMLINK_LIMIT (host_cwd h) w = Inr d"
    "dir_at (host_nodes h) d" "q = d @ [gwz_name]"
    by (auto simp: host_wf_def)
  have "metadata_at h' w (d @ [gwz_name])"
  proof (rule metadata_of_dir)
    show "host_wf h'"
      using wf q by (auto simp: host_wf_def put_node_def intro: dir_at_update)
    show "lookup_path (host_nodes h') True False SYMLINK_LIMIT (host_cwd h') w = Inr d"
      using d q by (auto simp: put_node_def leaf_at_def intro!: lookup_path_avoids)
    show "dir_at (host_nodes h') d"
      using d q by (auto simp: put_node_def intro!: dir_at_update)
    show "host_nodes h' (d @ [gwz_name]) = Some Directory"
      using d q by (simp add: put_node_def)
  qed
  with Inr q d show ?thesis
    by (auto simp: same_files_put_node)
qed

lemma stat_gwz:
  assumes run: "fs_stat False (w @ [Normal gwz_name]) h = (Inr Directory, h')" and wf: "host_wf h"
  shows "\<exists>g. metadata_at h w g"
proof -
  obtain q where q: "host_lookup h False False (w @ [Normal gwz_name]) = Inr q" "node_at h q = Directory"
    using run by (auto simp: fs_stat_def syscall_def and_then_eq_Inr split: option.splits)
  then have l: "lookup_path (host_nodes h) False False SYMLINK_LIMIT (host_cwd h) (w @ [Normal gwz_name]) = Inr q"
    by (auto simp: host_lookup_def)
  from lookup_path_snocD [OF l] wf obtain d where d:
    "lookup_path (host_nodes h) True False SYMLINK_LIMIT (host_cwd h) w = Inr d"
    "dir_at (host_nodes h) d" "q = d @ [gwz_name]"
    by (auto simp: host_wf_def)
  have "host_nodes h (d @ [gwz_name]) \<noteq> None"
    using l lookup_path_snoc [OF d(1) _ d(2), of False gwz_name] wf
    by (auto simp: host_wf_def split: if_splits)
  then have "host_nodes h (d @ [gwz_name]) = Some Directory"
    using q d by (auto simp: node_at_def)
  with metadata_of_dir [OF wf d(1,2)] show ?thesis by blast
qed

lemma ensure_result:
  assumes run: "ensure_metadata_directory (w @ [Normal gwz_name]) h = (r, h')" and wf: "host_wf h"
  shows "case r of
      Inl e \<Rightarrow> same_files h h'
    | Inr _ \<Rightarrow> (\<exists>g. metadata_at h w g \<and> same_files h h') \<or>
        (\<exists>d. host_nodes h (d @ [gwz_name]) = None \<and> metadata_at h' w (d @ [gwz_name]) \<and>
          same_files (put_node (d @ [gwz_name]) (Some Directory) h) h')"
proof -
  let ?p = "w @ [Normal gwz_name]"
  obtain r1 h1 where c: "fs_create_dir ?p h = (r1, h1)" by (cases "fs_create_dir ?p h")
  note res = create_dir_result [OF c wf]
  show ?thesis
  proof (cases r1)
    case (Inr u)
    with run c res show ?thesis
      by (auto simp: ensure_metadata_directory_def op_match_def)
  next
    case (Inl e)
    then have h1: "same_host h h1"
      using res by simp
    obtain r2 h2 where s: "fs_stat False ?p h1 = (r2, h2)" by (cases "fs_stat False ?p h1")
    have h2: "same_files h h1" "same_files h h2"
      using h1 reads_onlyD [OF reads_only_fs(2) s] same_host_files same_host_trans by blast+
    have wf1: "host_wf h1"
      using h2 wf by (simp add: same_files_simps)
    have "\<exists>g. metadata_at h w g" if "r2 = Inr Directory"
      using stat_gwz [OF s [unfolded that] wf1] h2 by (simp add: metadata_at_files)
    then show ?thesis
      using run c Inl s h2
      by (auto simp: ensure_metadata_directory_def op_match_def op_bind_def split: if_splits sum.splits)
  qed
qed

text \<open>A publication into the metadata directory.\<close>

lemma publish_meta:
  assumes run: "publish blank (meta_path w n) contents h = (r, h')" and wf: "host_wf h"
    and n: "n = Utf8 s" "47 \<notin> set s"
  shows "(\<exists>g. metadata_at h w g \<and> host_nodes h (g @ [n]) \<noteq> Some Directory \<and>
      same_files (put_node (g @ [n]) (Some (Regular contents)) h) h') \<or>
    ((\<exists>e. r = Inl e) \<and> (same_files h h' \<or> stray_temporary (w @ [Normal gwz_name]) s h h'))"
  using publish_result [OF wf n(2) run [unfolded meta_path_def n(1)]] wf n
  by (auto simp: published_def metadata_at_def)

lemma metadata_at_unique: "metadata_at h w g \<Longrightarrow> metadata_at h w g' \<Longrightarrow> g = g'"
  by (simp add: metadata_at_def)

lemma name_slashes:
  "index_name = Utf8 (lit ''local-family.yml'')" "47 \<notin> set (lit ''local-family.yml'')"
  "pointer_name = Utf8 (lit ''family-root'')" "47 \<notin> set (lit ''family-root'')"
  "marker_name = Utf8 (lit ''local-clone-allocation'')" "47 \<notin> set (lit ''local-clone-allocation'')"
  by (simp_all add: index_name_def pointer_name_def marker_name_def lit_def)

text \<open>
  A written index: the metadata directory stands and the index file in it holds the encoding. The
  index path must not have been a link, which a preceding reading of the index ensures.
\<close>

lemma write_index_done:
  assumes run: "write_index c root view h = (Inr e, h')" and wf: "host_wf h"
    and leaf: "\<And>g. metadata_at h root g \<Longrightarrow> leaf_at (host_nodes h) (g @ [index_name])"
    and fresh: "\<And>d. host_nodes h (d @ [gwz_name]) = None \<Longrightarrow> host_nodes h (d @ [gwz_name, index_name]) = None"
  shows "e = IndexWritten \<and> (\<exists>b g. encode_index c view = Inr b \<and>
    check_encoded_size (yaml_len c b) = Inr () \<and> metadata_at h' root g \<and>
    host_nodes h' (g @ [index_name]) = Some (Regular b))"
proof -
  obtain r1 h1 where en: "ensure_metadata_directory (root @ [Normal gwz_name]) h = (r1, h1)"
    by (cases "ensure_metadata_directory (root @ [Normal gwz_name]) h")
  obtain b where b: "encode_index c view = Inr b" "check_encoded_size (yaml_len c b) = Inr ()"
    using run by (auto simp: write_index_def Let_def split: sum.splits)
  obtain u where r1: "r1 = Inr u"
    using run b en by (cases r1) (auto simp: write_index_def Let_def metadata_paths op_bind_eq)
  obtain r2 h2 where pub: "publish (yaml_blank c) (meta_path root index_name) b h1 = (r2, h2)"
    by (cases "publish (yaml_blank c) (meta_path root index_name) b h1")
  have fin: "r2 = Inr ()" "h' = h2" "e = IndexWritten"
    using run b en r1 pub by (cases r2; auto simp: write_index_def Let_def metadata_paths op_bind_eq)+
  have en': "(\<exists>g. metadata_at h root g \<and> same_files h h1) \<or>
      (\<exists>d. host_nodes h (d @ [gwz_name]) = None \<and> metadata_at h1 root (d @ [gwz_name]) \<and>
        same_files (put_node (d @ [gwz_name]) (Some Directory) h) h1)"
    using ensure_result [OF en wf] r1 by simp
  then obtain g where g: "metadata_at h1 root g" "leaf_at (host_nodes h1) (g @ [index_name])"
  proof (elim disjE exE conjE)
    fix g assume "metadata_at h root g" "same_files h h1"
    with leaf [of g] that [of g] show ?thesis
      by (simp add: metadata_at_files same_files_simps)
  next
    fix d assume d: "host_nodes h (d @ [gwz_name]) = None" "metadata_at h1 root (d @ [gwz_name])"
      "same_files (put_node (d @ [gwz_name]) (Some Directory) h) h1"
    then have "host_nodes h1 (d @ [gwz_name, index_name]) = None"
      using fresh [OF d(1)] by (simp add: same_files_def put_node_def)
    with d that [of "d @ [gwz_name]"] show ?thesis
      by (simp add: leaf_at_def)
  qed
  have wf1: "host_wf h1"
    using g by (simp add: metadata_at_def)
  from publish_meta [OF pub wf1 name_slashes(1,2)] fin obtain g' where g': "metadata_at h1 root g'"
    "same_files (put_node (g' @ [index_name]) (Some (Regular b)) h1) h2"
    by auto
  have "g' = g"
    using g'(1) g(1) by (rule metadata_at_unique)
  then have "metadata_at h2 root g" "host_nodes h2 (g @ [index_name]) = Some (Regular b)"
    using g' g metadata_at_put [of h1 root g "g @ [index_name]" "Some (Regular b)"]
    by (auto simp: metadata_at_files, simp add: same_files_def put_node_def)
  with fin b show ?thesis by blast
qed

lemma index_written_back:
  assumes m: "metadata_at h root g" and n: "host_nodes h (g @ [index_name]) = Some (Regular b)"
    and enc: "encode_index c view = Inr b" and len: "check_encoded_size (yaml_len c b) = Inr ()"
    and ok: "codec_ok c" "view_typed view" "family_ok view"
  shows "stored_index c root h = Inr (Some view)"
proof -
  have "validate_view view = Inr ()"
    using ok validate_view_family_ok by (simp add: view_typed_def)
  moreover have "metadata_at (quiet h) root g"
    using m by (simp add: metadata_at_def)
  ultimately show ?thesis
    unfolding stored_index_def using n len decode_encode_index [OF ok(1,2) enc]
    by (simp add: quiet_read_index_some)
qed

subsection \<open>Applying a change\<close>

text \<open>What the constructors guarantee of the values in a change.\<close>

definition change_typed :: "FamilyChange \<Rightarrow> bool" where
  "change_typed change = (case change of
     Allocate n row \<Rightarrow> name_ok (name_str n) \<and> row_typed row
   | _ \<Rightarrow> True)"

lemma typed_modify:
  assumes "bt_wf ms" "\<forall>x \<in> set ms. name_ok (name_str (fst x)) \<and> row_typed (snd x)"
    "\<And>r. row_typed (f r) = row_typed r" "x \<in> set (bt_modify n f ms)"
  shows "name_ok (name_str (fst x)) \<and> row_typed (snd x)"
  using assms bt.mem_modify [OF assms(1), of "fst x" "snd x" n f] by fastforce

lemma change_effect_typed:
  assumes t: "view_typed v" and c: "change_typed ch"
  shows "view_typed (v\<lparr>view_members := change_effect ch (view_members v)\<rparr>)"
proof -
  let ?ms = "view_members v"
  have wf: "bt_wf ?ms" and all: "\<forall>x \<in> set ?ms. name_ok (name_str (fst x)) \<and> row_typed (snd x)"
    using t by (auto simp: view_typed_def)
  have "name_ok (name_str (fst x)) \<and> row_typed (snd x)" if x: "x \<in> set (change_effect ch ?ms)" for x
  proof (cases ch)
    case (Allocate n row)
    with x c all bt.mem_insert [OF wf, of "fst x" "snd x" n row] show ?thesis
      by (auto simp: change_typed_def)
  next
    case (RemoveRow n reason)
    with x all show ?thesis by (auto simp: bt_remove_def)
  next
    case Disband
    with x show ?thesis by (simp add: bt_empty_def)
  next
    case (RecordError n e)
    with x show ?thesis
      by (intro typed_modify [OF wf all, of "\<lambda>row. row\<lparr>row_last_error := Some e\<rparr>" x n])
         (simp_all add: row_typed_def)
  next
    case (MarkReady n a)
    with x show ?thesis
      by (intro typed_modify [OF wf all, of "\<lambda>row. row\<lparr>row_state := Ready, row_last_error := None\<rparr>" x n])
         (simp_all add: row_typed_def)
  next
    case (MarkDisposing n a)
    with x show ?thesis
      by (intro typed_modify [OF wf all, of "\<lambda>row. row\<lparr>row_state := Disposing\<rparr>" x n])
         (simp_all add: row_typed_def)
  qed
  with t wf show ?thesis
    by (auto simp: view_typed_def change_effect_wf)
qed

lemma session_apply_steps:
  assumes run: "session_apply c root ch h = (Inr ac, h')"
  shows "\<exists>cur h1. read_index c root h = (Inr cur, h1) \<and>
    (cur = None \<and> ch = Disband \<and> h' = h1 \<and> ac = \<lparr>applied_effects = [], applied_view = None\<rparr> \<or>
     (\<exists>v vc h2. cur = Some v \<and> stranded_by c root v ch h1 = (Inr None :: StoreError + (ustr \<times> hpath) option, h2) \<and>
       validate_transition v ch = Inr vc \<and>
       (if ch = Disband
        then remove_index root h2 = (Inr IndexRemoved, h') \<and>
          ac = \<lparr>applied_effects = [IndexRemoved], applied_view = None\<rparr>
        else (\<exists>e. write_index c root (validated_next vc) h2 = (Inr e, h') \<and>
          ac = \<lparr>applied_effects = [e], applied_view = Some (validated_next vc)\<rparr>))))"
proof -
  obtain r1 h1 where r1: "read_index c root h = (r1, h1)" by (cases "read_index c root h")
  obtain cur where cur: "r1 = Inr cur"
    using run r1 by (cases r1) (auto simp: session_apply_def reread_def op_bind_def)
  show ?thesis
  proof (cases cur)
    case None
    with run r1 cur show ?thesis
      by (auto simp: session_apply_def reread_def op_bind_def split: if_splits)
  next
    case (Some v)
    obtain r2 h2 where r2: "stranded_by c root v ch h1 = (r2 :: StoreError + (ustr \<times> hpath) option, h2)"
      by (cases "stranded_by c root v ch h1 :: (StoreError + (ustr \<times> hpath) option) \<times> 'a host")
    have n: "r2 = Inr None"
      using run r1 cur Some r2
      by (auto simp: session_apply_def reread_def op_bind_def split: sum.splits option.splits)
    have rest: "op_bind (op_result (map_err Refused (validate_transition v ch))) (\<lambda>validated.
             if ch = Disband then
               op_bind (remove_index root) (\<lambda>effect.
                 op_return \<lparr>applied_effects = [effect], applied_view = None\<rparr>)
             else
               op_bind (write_index c root (validated_next validated)) (\<lambda>effect.
                 op_return \<lparr>applied_effects = [effect],
                   applied_view = Some (validated_next validated)\<rparr>)) h2 = (Inr ac, h')"
      using run r1 cur Some r2 n by (simp add: session_apply_def reread_def op_bind_def)
    obtain vc where vc: "validate_transition v ch = Inr vc"
      using rest by (cases "validate_transition v ch") auto
    show ?thesis
    proof (cases "ch = Disband")
      case True
      obtain x where x: "remove_index root h2 = (Inr x, h')"
        "ac = \<lparr>applied_effects = [x], applied_view = None\<rparr>"
        using rest vc True
        by (cases "remove_index root h2"; cases "fst (remove_index root h2)") (auto simp: op_bind_def)
      have "x = IndexRemoved"
        using arg_cong [OF x(1), of fst] by (simp add: remove_index_def Let_def op_bind_eq split: sum.splits)
      with x r1 cur Some r2 n vc True show ?thesis by auto
    next
      case False
      obtain x where x: "write_index c root (validated_next vc) h2 = (Inr x, h')"
        "ac = \<lparr>applied_effects = [x], applied_view = Some (validated_next vc)\<rparr>"
        using rest vc False
        by (cases "write_index c root (validated_next vc) h2";
            cases "fst (write_index c root (validated_next vc) h2)") (auto simp: op_bind_def)
      with r1 cur Some r2 n vc False show ?thesis by auto
    qed
  qed
qed

text \<open>The stored index, seen through the file it is in.\<close>

lemma stored_index_node:
  assumes "metadata_at h root g" "host_nodes h (g @ [index_name]) = Some (Regular b)"
  shows "stored_index c root h = Inr (Some v) \<longleftrightarrow>
    check_encoded_size (yaml_len c b) = Inr () \<and> decode_index c b = Inr v \<and> validate_view v = Inr ()"
  unfolding stored_index_def using assms
  by (intro quiet_read_index_some) (simp_all add: metadata_at_def)

lemma metadata_at_fresh:
  assumes m: "metadata_at h root g" and x: "host_nodes h x = None" "x \<noteq> []"
  shows "metadata_at (put_node x v h) root g"
    and "host_nodes h (g @ [n]) \<noteq> None \<Longrightarrow> host_nodes (put_node x v h) (g @ [n]) = host_nodes h (g @ [n])"
proof -
  have "x \<noteq> g"
  proof
    assume "x = g"
    then have "host_nodes h x = Some Directory"
      using m x(2) by (cases g rule: rev_cases) (auto simp: metadata_at_def)
    with x(1) show False by simp
  qed
  with m x show "metadata_at (put_node x v h) root g"
    by (intro metadata_at_put) (simp_all add: leaf_at_def)
  show "host_nodes h (g @ [n]) \<noteq> None \<Longrightarrow> host_nodes (put_node x v h) (g @ [n]) = host_nodes h (g @ [n])"
    using x by (auto simp: put_node_def)
qed

lemma ensure_keeps:
  assumes run: "ensure_metadata_directory (root @ [Normal gwz_name]) h = (r, h')"
    and m: "metadata_at h root g" and n: "host_nodes h (g @ [n]) = Some v"
  shows "metadata_at h' root g \<and> host_nodes h' (g @ [n]) = Some v"
proof -
  have wf: "host_wf h"
    using m by (simp add: metadata_at_def)
  have same: "metadata_at h' root g \<and> host_nodes h' (g @ [n]) = Some v" if "same_files h h'"
    using that m n by (simp add: metadata_at_files same_files_simps)
  have new: "metadata_at h' root g \<and> host_nodes h' (g @ [n]) = Some v"
    if "host_nodes h (d @ [gwz_name]) = None" "same_files (put_node (d @ [gwz_name]) (Some Directory) h) h'" for d
    using metadata_at_fresh(1) [OF m that(1), where v = "Some Directory"]
      metadata_at_fresh(2) [OF m that(1), where v = "Some Directory" and n = n] that(2) n
    by (simp add: metadata_at_files same_files_simps(1))
  from ensure_result [OF run wf] same new show ?thesis
    by (auto split: sum.splits)
qed

lemma publish_keeps:
  assumes run: "publish blank (meta_path root index_name) contents h = (r, h')"
    and m: "metadata_at h root g" and n: "host_nodes h (g @ [index_name]) = Some (Regular b0)"
  shows "metadata_at h' root g \<and>
    (host_nodes h' (g @ [index_name]) = Some (Regular contents) \<or>
     (\<exists>e. r = Inl e) \<and> host_nodes h' (g @ [index_name]) = Some (Regular b0))"
proof -
  have wf: "host_wf h"
    using m by (simp add: metadata_at_def)
  from publish_meta [OF run wf name_slashes(1,2)] show ?thesis
  proof (elim disjE exE conjE)
    fix g' assume g': "metadata_at h root g'"
      "same_files (put_node (g' @ [index_name]) (Some (Regular contents)) h) h'"
    have "g' = g" using g'(1) m by (rule metadata_at_unique)
    with g' n metadata_at_put [OF m, of "g @ [index_name]"] show ?thesis
      by (simp add: metadata_at_files same_files_simps(1) leaf_at_def) (simp add: put_node_def)
  next
    fix e assume "r = Inl e" "same_files h h'"
    with m n show ?thesis by (simp add: metadata_at_files same_files_simps)
  next
    fix e assume "r = Inl e" "stray_temporary (root @ [Normal gwz_name]) (lit ''local-family.yml'') h h'"
    then obtain d u y where d: "host_nodes h (d @ [Utf8 (tmp_name (lit ''local-family.yml'') u)]) = None"
      "same_files (put_node (d @ [Utf8 (tmp_name (lit ''local-family.yml'') u)]) (Some (Regular y)) h) h'"
      by (auto simp: stray_temporary_def with_temporary_def)
    with metadata_at_fresh(1) [OF m d(1), where v = "Some (Regular y)"]
      metadata_at_fresh(2) [OF m d(1), where v = "Some (Regular y)" and n = index_name] n \<open>r = Inl e\<close> show ?thesis
      by (simp add: metadata_at_files same_files_simps(1))
  qed
qed

lemma write_index_outcome:
  assumes run: "write_index c root view h = (r, h')" and m: "metadata_at h root g"
    and n: "host_nodes h (g @ [index_name]) = Some (Regular b0)"
  shows "metadata_at h' root g \<and>
    ((\<exists>b. encode_index c view = Inr b \<and> check_encoded_size (yaml_len c b) = Inr () \<and>
        host_nodes h' (g @ [index_name]) = Some (Regular b)) \<or>
     (\<exists>e. r = Inl e) \<and> host_nodes h' (g @ [index_name]) = Some (Regular b0))"
proof (cases "\<exists>b. encode_index c view = Inr b \<and> check_encoded_size (yaml_len c b) = Inr ()")
  case False
  then have "(\<exists>e. r = Inl e) \<and> h' = h"
    using run by (auto simp: write_index_def Let_def split: sum.splits)
  with m n show ?thesis by auto
next
  case True
  then obtain b where b: "encode_index c view = Inr b" "check_encoded_size (yaml_len c b) = Inr ()"
    by blast
  obtain r1 h1 where en: "ensure_metadata_directory (root @ [Normal gwz_name]) h = (r1, h1)"
    by (cases "ensure_metadata_directory (root @ [Normal gwz_name]) h")
  note k1 = ensure_keeps [OF en m n]
  obtain r2 h2 where pub: "publish (yaml_blank c) (meta_path root index_name) b h1 = (r2, h2)"
    by (cases "publish (yaml_blank c) (meta_path root index_name) b h1")
  note k2 = publish_keeps [OF pub conjunct1 [OF k1] conjunct2 [OF k1]]
  have out: "(r, h') = (case r1 of Inl e \<Rightarrow> (Inl (store_io_error WriteIndex (root @ [Normal gwz_name]) e), h1)
     | Inr _ \<Rightarrow> (case r2 of Inl e \<Rightarrow> (Inl (store_io_error WriteIndex (meta_path root index_name) e), h2)
         | Inr _ \<Rightarrow> (Inr IndexWritten, h2)))"
    unfolding run [symmetric] write_index_def Let_def metadata_paths
    by (simp add: op_bind_eq b en pub split: sum.split)
  show ?thesis
    using out k1 k2 b by (auto split: sum.splits)
qed

end
