(* ===== verification/Store_Session.thy ===== *)
theory Store_Session
  imports Store_Proofs
begin

text \<open>
  The properties of the store's reader and of its session's \<open>apply\<close>, \<open>found\<close>,
  \<open>install_pointer\<close> and \<open>remove_pointer\<close>, on hosts that may fail any system call.
\<close>

lemma quiet_quiet [simp]: "quiet (quiet h) = quiet h"
  by (simp add: quiet_def)

lemma stored_index_tick:
  assumes "same_host h h'" "stored_index c root h = Inr x"
  shows "stored_index c root h' = Inr x"
proof -
  obtain t where h': "h' = h\<lparr>host_tick := t\<rparr>"
    using assms(1) by (auto simp: same_host_def)
  have "fst (read_index c root ((quiet (quiet h))\<lparr>host_tick := t\<rparr>)) = Inr x"
    using honest_read_index assms(2) unfolding honest_def stored_index_def by blast
  moreover have "quiet (h\<lparr>host_tick := t\<rparr>) = (quiet h)\<lparr>host_tick := t\<rparr>"
    by (rule host.equality) (simp_all add: quiet_def)
  ultimately show ?thesis
    by (simp add: stored_index_def h')
qed

text \<open>What the quiet reading says of the files.\<close>

lemma stored_index_found:
  assumes "stored_index c root h = Inr (Some v)" "host_wf h"
  shows "\<exists>g b. metadata_at h root g \<and> host_nodes h (g @ [index_name]) = Some (Regular b) \<and>
    view_typed v \<and> family_ok v"
proof -
  obtain h1 where "read_index c root (quiet h) = (Inr (Some v), h1)"
    using assms(1) by (cases "read_index c root (quiet h)") (auto simp: stored_index_def)
  from read_index_found [OF this] assms(2) show ?thesis
    by (auto simp: metadata_at_def)
qed

lemma remove_index_outcome:
  assumes run: "remove_index root h = (r, h')" and m: "metadata_at h root g"
    and n: "host_nodes h (g @ [index_name]) = Some (Regular b)"
  shows "((\<exists>e. r = Inl e) \<and> same_host h h') \<or>
    (r = Inr IndexRemoved \<and> metadata_at h' root g \<and> host_nodes h' (g @ [index_name]) = None)"
proof -
  have look: "host_lookup h False False (meta_path root index_name) = Inr (g @ [index_name])"
    using metadata_lookup(1) [OF m, of index_name] n by simp
  have mt: "metadata_at (h\<lparr>host_tick := t\<rparr>) root g" for t
    using m by (simp add: metadata_at_def host_wf_def)
  have "metadata_at (put_node (g @ [index_name]) None (h\<lparr>host_tick := t\<rparr>)) root g" for t
    using n by (intro metadata_at_put [OF mt]) (simp_all add: leaf_at_def)
  then show ?thesis
    using run n
    by (auto simp: remove_index_def Let_def metadata_paths publish_remove_def op_bind_eq op_match_eq
        fs_remove_file_def syscall_def look node_at_def put_node_def split: option.splits)
qed

lemma stored_index_removed:
  "metadata_at h root g \<Longrightarrow> host_nodes h (g @ [index_name]) = None \<Longrightarrow> stored_index c root h = Inr None"
  unfolding stored_index_def by (rule quiet_read_index_none) (simp_all add: metadata_at_def)

text \<open>Every outcome of \<open>apply\<close>: nothing written, or one index write or removal attempted.\<close>

lemma session_apply_outcome:
  assumes run: "session_apply c root ch h = (r, h')" and st: "stored_index c root h = Inr (Some v)"
  shows "((\<exists>e. r = Inl e) \<and> same_host h h') \<or>
    (\<exists>vc h2 r2. same_host h h2 \<and> validate_transition v ch = Inr vc \<and>
      (if ch = Disband
       then remove_index root h2 = (r2, h') \<and>
         r = map_sum id (\<lambda>e. \<lparr>applied_effects = [e], applied_view = None\<rparr>) r2
       else write_index c root (validated_next vc) h2 = (r2, h') \<and>
         r = map_sum id (\<lambda>e. \<lparr>applied_effects = [e], applied_view = Some (validated_next vc)\<rparr>) r2))"
proof -
  obtain r1 h1 where r1: "read_index c root h = (r1, h1)" by (cases "read_index c root h")
  have h1: "same_host h h1"
    using reads_onlyD [OF reads_only_read_index r1] .
  show ?thesis
  proof (cases r1)
    case (Inl e)
    with run r1 h1 show ?thesis
      by (auto simp: session_apply_def reread_def op_bind_def)
  next
    case (Inr cur)
    have cur: "cur = Some v"
      using stored_index_read [of c root h cur] r1 Inr st by simp
    obtain r2 h2 where r2: "stranded_by c root v ch h1 = (r2 :: StoreError + (ustr \<times> hpath) option, h2)"
      by (cases "stranded_by c root v ch h1 :: (StoreError + (ustr \<times> hpath) option) \<times> 'a host")
    have h2: "same_host h h2"
      using reads_onlyD [OF reads_only_stranded_by r2] h1 same_host_trans by blast
    show ?thesis
    proof (cases "r2 = Inr None \<and> (\<exists>vc. validate_transition v ch = Inr vc)")
      case False
      with run r1 Inr cur r2 h2 show ?thesis
        by (cases "validate_transition v ch")
           (auto simp: session_apply_def reread_def op_bind_def split: sum.splits option.splits)
    next
      case True
      then obtain vc where vc: "r2 = Inr None" "validate_transition v ch = Inr vc" by blast
      have rest: "(r, h') = (if ch = Disband then
               op_bind (remove_index root) (\<lambda>effect.
                 op_return \<lparr>applied_effects = [effect], applied_view = None\<rparr>)
             else
               op_bind (write_index c root (validated_next vc)) (\<lambda>effect.
                 op_return \<lparr>applied_effects = [effect],
                   applied_view = Some (validated_next vc)\<rparr>)) h2"
        unfolding run [symmetric]
        by (simp add: session_apply_def reread_def op_bind_def r1 Inr cur r2 vc)
      show ?thesis
      proof (rule disjI2, rule exI [of _ vc], rule exI [of _ h2],
          rule exI [of _ "if ch = Disband then fst (remove_index root h2)
            else fst (write_index c root (validated_next vc) h2)"], intro conjI)
        show "if ch = Disband
         then remove_index root h2 = (if ch = Disband then fst (remove_index root h2)
            else fst (write_index c root (validated_next vc) h2), h') \<and>
           r = map_sum id (\<lambda>e. \<lparr>applied_effects = [e], applied_view = None\<rparr>)
             (if ch = Disband then fst (remove_index root h2)
              else fst (write_index c root (validated_next vc) h2))
         else write_index c root (validated_next vc) h2 = (if ch = Disband then fst (remove_index root h2)
            else fst (write_index c root (validated_next vc) h2), h') \<and>
           r = map_sum id (\<lambda>e. \<lparr>applied_effects = [e], applied_view = Some (validated_next vc)\<rparr>)
             (if ch = Disband then fst (remove_index root h2)
              else fst (write_index c root (validated_next vc) h2))"
          using rest
          by (cases "remove_index root h2"; cases "write_index c root (validated_next vc) h2")
             (auto simp: op_bind_def split: if_splits sum.splits)
      qed (use h2 vc in simp_all)
    qed
  qed
qed

lemma session_apply_stored:
  assumes ok: "codec_ok c" and wf: "host_wf h" and ct: "change_typed ch"
    and st: "stored_index c root h = Inr (Some v)" and run: "session_apply c root ch h = (r, h')"
  shows "((\<exists>e. r = Inl e) \<and> stored_index c root h' = Inr (Some v)) \<or>
    (\<exists>vc. validate_transition v ch = Inr vc \<and>
      stored_index c root h' = Inr (if ch = Disband then None else Some (validated_next vc)) \<and>
      (\<forall>ac. r = Inr ac \<longrightarrow> applied_view ac = (if ch = Disband then None else Some (validated_next vc))))"
  using session_apply_outcome [OF run st]
proof (elim disjE exE conjE)
  fix e assume "same_host h h'" "r = Inl e"
  then show ?thesis
    using stored_index_tick [OF _ st] by blast
next
  fix vc h2 r2
  assume h2: "same_host h h2" and vc: "validate_transition v ch = Inr vc"
    and act: "if ch = Disband
      then remove_index root h2 = (r2, h') \<and>
        r = map_sum id (\<lambda>e. \<lparr>applied_effects = [e], applied_view = None\<rparr>) r2
      else write_index c root (validated_next vc) h2 = (r2, h') \<and>
        r = map_sum id (\<lambda>e. \<lparr>applied_effects = [e], applied_view = Some (validated_next vc)\<rparr>) r2"
  obtain g b where g: "metadata_at h root g" "host_nodes h (g @ [index_name]) = Some (Regular b)"
    and v: "view_typed v" "family_ok v"
    using stored_index_found [OF st wf] by blast
  then have g2: "metadata_at h2 root g" "host_nodes h2 (g @ [index_name]) = Some (Regular b)"
    using h2 by (simp_all add: metadata_at_tick same_host_nodes)
  have dec: "check_encoded_size (yaml_len c b) = Inr () \<and> decode_index c b = Inr v \<and> validate_view v = Inr ()"
    using stored_index_node [OF g] st by blast
  show ?thesis
  proof (cases "ch = Disband")
    case True
    then have rm: "remove_index root h2 = (r2, h')"
      and r: "r = map_sum id (\<lambda>e. \<lparr>applied_effects = [e], applied_view = None\<rparr>) r2"
      using act by simp_all
    from remove_index_outcome [OF rm g2] show ?thesis
    proof (elim disjE exE conjE)
      fix e assume "r2 = Inl e" "same_host h2 h'"
      then show ?thesis
        using r stored_index_tick [OF same_host_trans [OF h2] st] by auto
    next
      assume "r2 = Inr IndexRemoved" "metadata_at h' root g" "host_nodes h' (g @ [index_name]) = None"
      then show ?thesis
        using r vc True stored_index_removed by auto
    qed
  next
    case False
    then have wr: "write_index c root (validated_next vc) h2 = (r2, h')"
      and r: "r = map_sum id (\<lambda>e. \<lparr>applied_effects = [e], applied_view = Some (validated_next vc)\<rparr>) r2"
      using act by simp_all
    have wfv: "bt_wf (view_members v)"
      using v by (simp add: view_typed_def)
    have nx: "change_guard v ch"
      "validated_next vc = v\<lparr>view_members := change_effect ch (view_members v)\<rparr>"
      using vc by (auto simp: validate_transition_Inr [OF wfv])
    have typed: "view_typed (validated_next vc)" "family_ok (validated_next vc)"
      using change_effect_typed [OF v(1) ct] change_keeps_family [OF wfv v(2) nx(1)] nx(2) by simp_all
    from write_index_outcome [OF wr g2] show ?thesis
    proof (elim conjE disjE exE)
      fix b' assume w: "metadata_at h' root g" "encode_index c (validated_next vc) = Inr b'"
        "check_encoded_size (yaml_len c b') = Inr ()" "host_nodes h' (g @ [index_name]) = Some (Regular b')"
      have "stored_index c root h' = Inr (Some (validated_next vc))"
        by (rule index_written_back [OF w(1,4,2,3) ok typed])
      then show ?thesis
        using r vc False by (cases r2) auto
    next
      fix e assume "r2 = Inl e" "metadata_at h' root g" "host_nodes h' (g @ [index_name]) = Some (Regular b)"
      then show ?thesis
        using r dec stored_index_node [of h' root g b c v] by auto
    qed
  qed
qed

subsection \<open>A concrete store\<close>

definition sample_root :: hpath where
  "sample_root = [RootDir, Normal (Utf8 (lit ''w''))]"

definition sample_store :: "nat option \<Rightarrow> yaml host" where
  "sample_store fault = \<lparr>host_nodes = (\<lambda>q.
       if q = [Utf8 (lit ''w'')] \<or> q = [Utf8 (lit ''w''), gwz_name] then Some Directory
       else if q = [Utf8 (lit ''w''), gwz_name, index_name] then Some (Regular (YIndex (index_file sample_view)))
       else None),
     host_cwd = [], host_faults = (\<lambda>t. if fault = Some t then Some (lit ''I/O error'') else None),
     host_torn = (\<lambda>t. YBlank), host_tick = 0, host_locks = [], host_lock_support = True,
     host_ids = id_source_new 7\<rparr>"

lemma sample_store_metadata:
  "host_wf (sample_store k)"
  "metadata_at (sample_store k) sample_root [Utf8 (lit ''w''), gwz_name]"
  "host_nodes (sample_store k) ([Utf8 (lit ''w''), gwz_name] @ [index_name]) =
     Some (Regular (YIndex (index_file sample_view)))"
proof -
  let ?w = "[Utf8 (lit ''w'')]"
  have d: "dir_at (host_nodes (sample_store k)) (?w @ [gwz_name])"
    by (simp only: dir_at_snoc) (simp add: sample_store_def dir_at_snoc [of _ "[]", simplified])
  show wf: "host_wf (sample_store k)"
    by (simp add: host_wf_def sample_store_def)
  show "metadata_at (sample_store k) sample_root [Utf8 (lit ''w''), gwz_name]"
    using d wf by (simp add: metadata_at_def sample_root_def) (simp add: sample_store_def)
  show "host_nodes (sample_store k) ([Utf8 (lit ''w''), gwz_name] @ [index_name]) =
     Some (Regular (YIndex (index_file sample_view)))"
    by (simp add: sample_store_def gwz_name_def index_name_def)
qed

lemma sample_store_index: "stored_index value_codec sample_root (sample_store k) = Inr (Some sample_view)"
proof -
  have "decode_index value_codec (YIndex (index_file sample_view)) = Inr sample_view"
    by (rule decode_encode_index [OF value_codec_ok sample_view_typed])
       (simp add: encode_index_def value_codec_def)
  moreover have "validate_view sample_view = Inr ()"
    by code_simp
  moreover have "check_encoded_size (yaml_len value_codec (YIndex (index_file sample_view))) = Inr ()"
    by (simp add: check_encoded_size_def MAX_ENCODED_INDEX_BYTES_def value_codec_def)
  ultimately show ?thesis
    using stored_index_node [OF sample_store_metadata(2,3)] by blast
qed

subsection \<open>Properties\<close>

text \<open>
  C3. Applying a change is atomic on the stored index, whatever system call fails on the way: the
  index afterwards is either the one before, and then the caller got an error, or exactly the one the
  model's transition produces from it (none, for a disband). A success always means the latter, and
  returns that view.
\<close>

theorem apply_is_atomic:
  assumes "codec_ok c" and "host_wf h" and "change_typed change"
    and "stored_index c root h = Inr (Some view)"
    and "session_apply c root change h = (r, h')"
  shows "((\<exists>e. r = Inl e) \<and> stored_index c root h' = Inr (Some view)) \<or>
    (\<exists>vc. validate_transition view change = Inr vc \<and>
      stored_index c root h' = Inr (if change = Disband then None else Some (validated_next vc)) \<and>
      (\<forall>ac. r = Inr ac \<longrightarrow>
         applied_view ac = (if change = Disband then None else Some (validated_next vc))))"
  by (rule session_apply_stored [OF assms])

theorem apply_is_atomic_witness:
  "\<exists>r h'. session_apply value_codec sample_root Disband (sample_store (Some 5)) = (r, h') \<and>
     stored_index value_codec sample_root h' \<in> {Inr (Some sample_view), Inr None}"
proof -
  obtain r h' where run: "session_apply value_codec sample_root Disband (sample_store (Some 5)) = (r, h')"
    by (cases "session_apply value_codec sample_root Disband (sample_store (Some 5))")
  have "change_typed Disband"
    by (simp add: change_typed_def)
  from apply_is_atomic [OF value_codec_ok sample_store_metadata(1) this sample_store_index run]
  show ?thesis
    using run by auto
qed

text \<open>
  Observation never writes: reading a family's view, listing a row's target and rereading under
  the lock leave every file, every lock and the id source as they were, on success and on failure;
  the lock file is not created either.
\<close>

theorem observation_never_writes:
  "(\<exists>t. snd (read_view c location h) = h\<lparr>host_tick := t\<rparr>) \<and>
   (\<exists>t. snd (reread c root h) = h\<lparr>host_tick := t\<rparr>) \<and>
   (\<exists>t. snd (observe_member_target c root view row h :: (StoreError + TargetObservation) \<times> _) =
      h\<lparr>host_tick := t\<rparr>)"
  using reads_only_observe [of c "location_workspace location"] reads_only_read_index [of c root]
    reads_only_observe_member_target [of c root view row, where ?'b = StoreError]
  by (simp add: read_view_def reread_def reads_only_def same_host_def)

end
