(* ===== verification/Repo_Contract.thy ===== *)
theory Repo_Contract
  imports Host_Files
begin

text \<open>
  The repository observation values of \<open>crates/repo-contract/src/lib.rs\<close>: object ids with their hex
  form, layouts, observations of work and of protected history, object records and read errors. The
  two ports (\<open>RepoInspector\<close>, \<open>ObjectReader\<close>) are records of functions, one field per method.
\<close>

type_synonym u8 = "8 word"
type_synonym BytePath = "u8 list"

subsection \<open>Object ids\<close>

datatype ObjectFormat = Sha1 | Sha256

fun digest_len :: "ObjectFormat \<Rightarrow> nat" where
  "digest_len Sha1 = 20"
| "digest_len Sha256 = 32"

datatype ObjectId = ObjectId (oid_format: ObjectFormat) (oid_bytes: "u8 list")

datatype ObjectIdError =
    IdLength ObjectFormat nat nat
  | IdHex ustr

definition oid_from_bytes :: "ObjectFormat \<Rightarrow> u8 list \<Rightarrow> ObjectIdError + ObjectId" where
  "oid_from_bytes format bytes =
     (if length bytes \<noteq> digest_len format
      then Inl (IdLength format (digest_len format) (length bytes))
      else Inr (ObjectId format bytes))"

text \<open>UTF-8 encoding of one scalar value.\<close>

definition utf8_char :: "uchar \<Rightarrow> nat list" where
  "utf8_char c =
     (if c < 128 then [c]
      else if c < 2048 then [192 + c div 64, 128 + c mod 64]
      else if c < 65536 then [224 + c div 4096, 128 + c div 64 mod 64, 128 + c mod 64]
      else [240 + c div 262144, 128 + c div 4096 mod 64, 128 + c div 64 mod 64, 128 + c mod 64])"

definition utf8_bytes :: "ustr \<Rightarrow> nat list" where
  "utf8_bytes s = concat (map utf8_char s)"

definition valid_utf8_pair :: "nat \<Rightarrow> nat \<Rightarrow> bool" where
  "valid_utf8_pair a b \<longleftrightarrow> (a < 128 \<and> b < 128) \<or> (194 \<le> a \<and> a < 224 \<and> 128 \<le> b \<and> b < 192)"

definition hex_digit :: "nat \<Rightarrow> nat option" where
  "hex_digit c =
     (if 48 \<le> c \<and> c \<le> 57 then Some (c - 48)
      else if 97 \<le> c \<and> c \<le> 102 then Some (c - 87)
      else if 65 \<le> c \<and> c \<le> 70 then Some (c - 55)
      else None)"

text \<open>\<open>u8::from_str_radix(_, 16)\<close> on a text of two bytes: a leading \<open>+\<close> is skipped.\<close>

definition from_str_radix_16 :: "nat \<Rightarrow> nat \<Rightarrow> ustr + u8" where
  "from_str_radix_16 a b =
     (if a = 43
      then (case hex_digit b of
              Some y \<Rightarrow> Inr (of_nat y)
            | None \<Rightarrow> Inl (lit ''invalid digit found in string''))
      else (case hex_digit a of
              None \<Rightarrow> Inl (lit ''invalid digit found in string'')
            | Some x \<Rightarrow> (case hex_digit b of
                None \<Rightarrow> Inl (lit ''invalid digit found in string'')
              | Some y \<Rightarrow> Inr (of_nat (16 * x + y)))))"

fun parse_pairs :: "nat list \<Rightarrow> ObjectIdError + u8 list" where
  "parse_pairs (a # b # rest) =
     (if \<not> valid_utf8_pair a b then Inl (IdHex (lit ''non-ascii hex''))
      else and_then (map_err IdHex (from_str_radix_16 a b)) (\<lambda>value.
        and_then (parse_pairs rest) (\<lambda>values. Inr (value # values))))"
| "parse_pairs _ = Inr []"

definition parse_hex :: "ObjectFormat \<Rightarrow> ustr \<Rightarrow> ObjectIdError + ObjectId" where
  "parse_hex format hex =
     (if utf8_len hex \<noteq> digest_len format * 2
      then Inl (IdLength format (digest_len format) (utf8_len hex div 2))
      else and_then (parse_pairs (utf8_bytes hex)) (\<lambda>bytes. Inr (ObjectId format bytes)))"

definition hex_byte :: "u8 \<Rightarrow> ustr" where
  "hex_byte b = [digit_char (unat b div 16), digit_char (unat b mod 16)]"

definition to_hex :: "ObjectId \<Rightarrow> ustr" where
  "to_hex oid = concat (map hex_byte (oid_bytes oid))"

fun format_name :: "ObjectFormat \<Rightarrow> ustr" where
  "format_name Sha1 = lit ''Sha1''"
| "format_name Sha256 = lit ''Sha256''"

fun show_object_id_error :: "ObjectIdError \<Rightarrow> ustr" where
  "show_object_id_error (IdLength format expected actual) =
     lit ''object id length '' @ show_nat actual @ lit '' does not match '' @ format_name format @
     lit '' ('' @ show_nat expected @ lit '' bytes)''"
| "show_object_id_error (IdHex detail) = lit ''invalid hex object id: '' @ detail"

definition show_oid :: "ObjectId \<Rightarrow> ustr" where
  "show_oid oid = to_hex oid"

definition debug_oid :: "ObjectId \<Rightarrow> ustr" where
  "debug_oid oid = format_name (oid_format oid) @ lit '':'' @ to_hex oid"

subsection \<open>Repositories\<close>

datatype RepoKey = KeyRoot | KeyMember ustr

fun show_repo_key :: "RepoKey \<Rightarrow> ustr" where
  "show_repo_key KeyRoot = [64] @ lit ''root''"
| "show_repo_key (KeyMember i) = i"

datatype HeadState =
    HeadAttached ustr ObjectId
  | HeadDetached ObjectId
  | HeadUnborn ustr

record RepositoryInfo =
  repo_path :: hpath
  repo_git_dir :: hpath
  repo_common_dir :: hpath
  repo_bare :: bool
  repo_object_format :: ObjectFormat
  repo_head :: HeadState

datatype LayoutHazard =
    GitFile hpath
  | ExternalCommonDir hpath
  | Alternates hpath
  | EscapingMetadataLink hpath hpath
  | EscapingConfig ustr ustr
  | UnresolvableConfig ustr ustr
  | PartialClone ustr
  | EnvironmentOverride ustr

datatype LayoutError =
    NotARepository hpath
  | UnsupportedLayoutOf hpath "LayoutHazard list"
  | LayoutReadFailed hpath ustr
  | LayoutUnimplemented ustr

subsection \<open>Observations\<close>

datatype UnknownKind =
    Unreadable
  | UnsupportedIndexFlag
  | UnsupportedLayout
  | UnsupportedEvidence
  | LimitExceeded
  | UnimplementedObservation
  | Cancelled

record UnknownReason =
  reason_kind :: UnknownKind
  reason_path :: "BytePath option"
  reason_detail :: ustr

definition unknown_reason :: "UnknownKind \<Rightarrow> ustr \<Rightarrow> UnknownReason" where
  "unknown_reason kind detail = \<lparr>reason_kind = kind, reason_path = None, reason_detail = detail\<rparr>"

definition unimplemented_reason :: "ustr \<Rightarrow> UnknownReason" where
  "unimplemented_reason operation =
     unknown_reason UnimplementedObservation (operation @ lit '' is not implemented'')"

datatype 'a Observation = Known 'a | Unknown "UnknownReason list"

fun known :: "'a Observation \<Rightarrow> 'a option" where
  "known (Known value) = Some value"
| "known (Unknown _) = None"

fun is_unknown :: "'a Observation \<Rightarrow> bool" where
  "is_unknown (Known _) = False"
| "is_unknown (Unknown _) = True"

definition unimplemented_observation :: "ustr \<Rightarrow> 'a Observation" where
  "unimplemented_observation operation = Unknown [unimplemented_reason operation]"

datatype WorkKind =
    Staged
  | Unstaged
  | Untracked
  | Ignored
  | Conflict
  | ModeChange
  | LinkChange
  | Renamed
  | Deleted

record WorkEntry =
  entry_path :: BytePath
  entry_kind :: WorkKind
  entry_binary :: "bool option"

datatype SuppressionFlag = AssumeUnchanged | SkipWorktree | OtherFlag

datatype PhysicalState = MatchesIndex | Differs | PhysicallyAbsent | Unobservable

record SuppressedEntry =
  suppressed_path :: BytePath
  suppressed_flag :: SuppressionFlag
  suppressed_physical :: PhysicalState

datatype NativeOperation =
    NativeMerge
  | NativeRebase
  | NativeCherryPick
  | NativeRevert
  | NativeBisect
  | NativeApplyMailbox
  | NativeOther

record WorkObservation =
  work_entries :: "WorkEntry list"
  work_suppressed :: "SuppressedEntry list"
  work_sparse_absent :: "BytePath list"
  work_native_operation :: "NativeOperation option"
  work_stash_entries :: nat
  work_unknown :: "UnknownReason list"

datatype RootSource =
    SourceRef ustr
  | SourceHead
  | SourceReflog ustr nat
  | SourceStash nat
  | SourceAnnotatedTag ustr
  | SourceCoordinationRecord ustr ustr
  | SourceOther ustr

datatype RootSourceKind =
    KindRef
  | KindHead
  | KindReflog
  | KindStash
  | KindAnnotatedTag
  | KindCoordinationRecord
  | KindOther

fun source_kind :: "RootSource \<Rightarrow> RootSourceKind" where
  "source_kind (SourceRef _) = KindRef"
| "source_kind SourceHead = KindHead"
| "source_kind (SourceReflog _ _) = KindReflog"
| "source_kind (SourceStash _) = KindStash"
| "source_kind (SourceAnnotatedTag _) = KindAnnotatedTag"
| "source_kind (SourceCoordinationRecord _ _) = KindCoordinationRecord"
| "source_kind (SourceOther _) = KindOther"

record ProtectedRoot =
  root_source :: RootSource
  root_oid :: ObjectId

record ProtectedRoots =
  protected_roots :: "ProtectedRoot list"
  protected_unknown :: "UnknownReason list"

definition is_complete :: "ProtectedRoots \<Rightarrow> bool" where
  "is_complete p \<longleftrightarrow> protected_unknown p = []"

subsection \<open>Objects\<close>

record ReadLimits =
  max_object_bytes :: nat

definition default_read_limits :: ReadLimits where
  "default_read_limits = \<lparr>max_object_bytes = 64 * 1024 * 1024\<rparr>"

datatype ObjectKind = CommitObject | TreeObject | BlobObject | TagObject

record ObjectRecord =
  record_oid :: ObjectId
  record_kind :: ObjectKind
  record_size :: nat
  record_edges :: "ObjectId list"

datatype ReadError =
    ReadMissing ObjectId
  | ReadLimitExceeded ObjectId nat nat
  | ReadCorrupt ObjectId ustr
  | ReadFailed ustr
  | ReadUnimplemented ustr

fun show_read_error :: "ReadError \<Rightarrow> ustr" where
  "show_read_error (ReadMissing oid) = lit ''object '' @ show_oid oid @ lit '' is missing''"
| "show_read_error (ReadLimitExceeded oid bytes limit) =
     lit ''object '' @ show_oid oid @ lit '' ('' @ show_nat bytes @
     lit '' bytes) exceeds the read limit '' @ show_nat limit"
| "show_read_error (ReadCorrupt oid detail) =
     lit ''object '' @ show_oid oid @ lit '' is corrupt: '' @ detail"
| "show_read_error (ReadFailed detail) = detail"
| "show_read_error (ReadUnimplemented operation) = operation @ lit '' is not implemented''"

record RepoInspector =
  inspect_layout :: "hpath \<Rightarrow> LayoutError + RepositoryInfo"
  observe_work :: "RepositoryInfo \<Rightarrow> WorkObservation Observation"
  inventory_history :: "RepositoryInfo \<Rightarrow> ProtectedRoots Observation"

record ObjectReader =
  retained_roots :: "ReadError + ProtectedRoots"
  read_object :: "ObjectId \<Rightarrow> ReadLimits \<Rightarrow> ReadError + ObjectRecord"

subsection \<open>Hex round trip\<close>

lemma digit_char_ascii: "d < 16 \<Longrightarrow> digit_char d < 128 \<and> digit_char d \<noteq> 43"
  by (auto simp: digit_char_def)

lemma hex_digit_char: "d < 16 \<Longrightarrow> hex_digit (digit_char d) = Some d"
  by (auto simp: hex_digit_def digit_char_def)

lemma unat_u8: "unat (b :: u8) < 256"
  using unsigned_less [of b] by simp

lemma nibbles_u8: "unat (b :: u8) div 16 < 16" "unat b mod 16 < 16"
  using unat_u8 [of b] by auto

lemma from_str_radix_hex_byte:
  "from_str_radix_16 (digit_char (unat b div 16)) (digit_char (unat b mod 16)) = Inr b"
  by (simp add: from_str_radix_16_def hex_digit_char digit_char_ascii nibbles_u8)

lemma utf8_bytes_ascii: "(\<And>c. c \<in> set s \<Longrightarrow> c < 128) \<Longrightarrow> utf8_bytes s = s"
  by (induction s) (auto simp: utf8_bytes_def utf8_char_def)

lemma to_hex_ascii: "c \<in> set (concat (map hex_byte bs)) \<Longrightarrow> c < 128"
  by (auto simp: hex_byte_def digit_char_ascii nibbles_u8)

lemma parse_pairs_hex: "parse_pairs (concat (map hex_byte bs)) = Inr bs"
proof (induction bs)
  case (Cons b bs)
  then show ?case
    by (simp add: hex_byte_def valid_utf8_pair_def from_str_radix_hex_byte digit_char_ascii nibbles_u8)
qed simp

lemma utf8_len_hex: "utf8_len (concat (map hex_byte bs)) = 2 * length bs"
proof -
  have "utf8_len s = length s" if "\<And>c. c \<in> set s \<Longrightarrow> c < 128" for s
    using that by (induction s) (auto simp: utf8_len_def utf8_width_def)
  moreover have "length (concat (map hex_byte bs)) = 2 * length bs"
    by (induction bs) (auto simp: hex_byte_def)
  ultimately show ?thesis
    using to_hex_ascii by metis
qed

text \<open>
  Printing an object id in hex and parsing it back gives the id, for every id of the format's
  length; the length is checked first, in both formats.
\<close>

theorem hex_round_trip:
  assumes "length (oid_bytes oid) = digest_len (oid_format oid)"
  shows "parse_hex (oid_format oid) (to_hex oid) = Inr oid"
proof -
  have "utf8_bytes (to_hex oid) = concat (map hex_byte (oid_bytes oid))"
    unfolding to_hex_def by (rule utf8_bytes_ascii) (rule to_hex_ascii)
  with assms show ?thesis
    by (simp add: parse_hex_def parse_pairs_hex) (simp add: to_hex_def utf8_len_hex)
qed

theorem hex_round_trip_witness:
  "parse_hex Sha1 (to_hex (ObjectId Sha1 (replicate 20 255))) = Inr (ObjectId Sha1 (replicate 20 255))"
  using hex_round_trip [of "ObjectId Sha1 (replicate 20 255)"] by simp

text \<open>
  Parsing is not the inverse of printing on everything it accepts: a digit pair may start with a
  plus sign, which the number parser skips, so a text that is no hex object id is read as one.
\<close>

theorem parse_hex_accepts_plus:
  "parse_hex Sha1 (concat (replicate 20 (lit ''+a''))) = Inr (ObjectId Sha1 (replicate 20 10)) \<and>
   to_hex (ObjectId Sha1 (replicate 20 10)) \<noteq> concat (replicate 20 (lit ''+a''))"
  by code_simp

end
