(* ===== verification/Work_Detector.thy ===== *)
theory Work_Detector
  imports Repo_Contract BTree_Map
begin

text \<open>
  The classifier of unsaved work (\<open>crates/work-detector/src\<close>): the provenance baseline
  (\<open>provenance.rs\<close>), decoded evidence (\<open>evidence.rs\<close>), the hazard vocabulary (\<open>hazard.rs\<close>), the
  report with its bounded detail (\<open>report.rs\<close>), the accumulator (\<open>builder.rs\<close>) and the entry points
  (\<open>lib.rs\<close>). The lemmas say what the verdict is in terms of the inputs, that truncation keeps every
  hazard, and that nothing that refuses is ever lost to a later answer of the baseline.
\<close>

subsection \<open>Provenance\<close>

datatype Provenance = Unique | UnchangedCopy | ChangedCopy | Regenerable

definition provenance_all :: "Provenance list" where
  "provenance_all = [Regenerable, UnchangedCopy, ChangedCopy, Unique]"

fun provenance_str :: "Provenance \<Rightarrow> ustr" where
  "provenance_str Unique = lit ''unique''"
| "provenance_str UnchangedCopy = lit ''unchanged-copy''"
| "provenance_str ChangedCopy = lit ''changed-copy''"
| "provenance_str Regenerable = lit ''regenerable''"

fun refuses :: "Provenance \<Rightarrow> bool" where
  "refuses Unique = True"
| "refuses ChangedCopy = True"
| "refuses UnchangedCopy = False"
| "refuses Regenerable = False"

record CopyBaseline =
  baseline_entries :: "(BytePath, Provenance) btree"
  baseline_stash :: Provenance

definition default_baseline :: CopyBaseline where
  "default_baseline = \<lparr>baseline_entries = bt_empty, baseline_stash = Unique\<rparr>"

definition baseline_set :: "BytePath \<Rightarrow> Provenance \<Rightarrow> CopyBaseline \<Rightarrow> CopyBaseline" where
  "baseline_set path provenance b =
     (let slot = (case bt_get (baseline_entries b) path of Some old \<Rightarrow> old | None \<Rightarrow> provenance);
          slot' = (if slot = Regenerable \<or> provenance = Regenerable then Regenerable
                   else if refuses provenance then provenance
                   else slot)
      in b\<lparr>baseline_entries := bt_insert path slot' (baseline_entries b)\<rparr>)"

definition baseline_set_stash :: "Provenance \<Rightarrow> CopyBaseline \<Rightarrow> CopyBaseline" where
  "baseline_set_stash provenance b = b\<lparr>baseline_stash := provenance\<rparr>"

definition baseline_entry :: "CopyBaseline \<Rightarrow> BytePath \<Rightarrow> Provenance" where
  "baseline_entry b path =
     (case bt_get (baseline_entries b) path of Some p \<Rightarrow> p | None \<Rightarrow> Unique)"

definition baseline_is_empty :: "CopyBaseline \<Rightarrow> bool" where
  "baseline_is_empty b \<longleftrightarrow> baseline_entries b = [] \<and> baseline_stash b = Unique"

subsection \<open>Evidence, hazards and reports\<close>

datatype EvidenceState = EvNone | EvOpen ustr | EvUnknown ustr

record EvidenceItem =
  item_kind :: ustr
  item_state :: EvidenceState

record GwzEvidence =
  evidence_merge :: EvidenceState
  evidence_stash :: EvidenceState
  evidence_other :: "EvidenceItem list"

datatype WorkVerdict = VerdictClean | VerdictDirty | VerdictUnknown

datatype HazardKind =
    HazardWork WorkKind
  | HazardSuppressed
  | OpenNativeOperation
  | OpenGwzMerge
  | OpenGwzStash
  | UninterpretableEvidence
  | NativeStash
  | OpenGwzRecord

fun force_name :: "HazardKind \<Rightarrow> ustr option" where
  "force_name (HazardWork _) = Some (lit ''dirty'')"
| "force_name HazardSuppressed = Some (lit ''dirty'')"
| "force_name NativeStash = Some (lit ''dirty'')"
| "force_name OpenNativeOperation = Some (lit ''open-merge'')"
| "force_name OpenGwzMerge = Some (lit ''open-merge'')"
| "force_name OpenGwzStash = Some (lit ''open-merge'')"
| "force_name OpenGwzRecord = Some (lit ''open-merge'')"
| "force_name UninterpretableEvidence = None"

record Hazard =
  hazard_kind :: HazardKind
  hazard_path :: "BytePath option"
  hazard_detail :: ustr
  hazard_provenance :: Provenance

record WorkReport =
  report_verdict :: WorkVerdict
  report_hazards :: "Hazard list"
  report_unknown :: "UnknownReason list"
  report_truncated :: bool

definition MAX_DETAILED_ENTRIES :: nat where
  "MAX_DETAILED_ENTRIES = 128"

definition unknown_report :: "UnknownReason list \<Rightarrow> WorkReport" where
  "unknown_report reasons =
     \<lparr>report_verdict = VerdictUnknown, report_hazards = [], report_unknown = reasons,
      report_truncated = False\<rparr>"

definition clean_report :: WorkReport where
  "clean_report =
     \<lparr>report_verdict = VerdictClean, report_hazards = [], report_unknown = [],
      report_truncated = False\<rparr>"

definition drop_details :: "('a \<Rightarrow> 'a) \<Rightarrow> 'a list \<Rightarrow> 'a list \<times> bool" where
  "drop_details clear items =
     (if length items \<le> MAX_DETAILED_ENTRIES then (items, False)
      else (take MAX_DETAILED_ENTRIES items @ map clear (drop MAX_DETAILED_ENTRIES items), True))"

subsection \<open>The accumulator\<close>

record Builder =
  builder_hazards :: "Hazard list"
  builder_unknown :: "UnknownReason list"
  builder_baseline :: CopyBaseline

definition default_builder :: Builder where
  "default_builder =
     \<lparr>builder_hazards = [], builder_unknown = [], builder_baseline = default_baseline\<rparr>"

definition add_provenanced ::
    "HazardKind \<Rightarrow> BytePath option \<Rightarrow> ustr \<Rightarrow> Provenance \<Rightarrow> Builder \<Rightarrow> Builder" where
  "add_provenanced kind path detail provenance b =
     b\<lparr>builder_hazards := builder_hazards b @
        [\<lparr>hazard_kind = kind, hazard_path = path, hazard_detail = detail,
          hazard_provenance = provenance\<rparr>]\<rparr>"

definition add_hazard :: "HazardKind \<Rightarrow> BytePath option \<Rightarrow> ustr \<Rightarrow> Builder \<Rightarrow> Builder" where
  "add_hazard kind path detail = add_provenanced kind path detail Unique"

definition add_unknown :: "UnknownKind \<Rightarrow> BytePath option \<Rightarrow> ustr \<Rightarrow> Builder \<Rightarrow> Builder" where
  "add_unknown kind path detail b =
     b\<lparr>builder_unknown := builder_unknown b @
        [\<lparr>reason_kind = kind, reason_path = path, reason_detail = detail\<rparr>]\<rparr>"

fun work_cause :: "WorkKind \<Rightarrow> ustr" where
  "work_cause Staged = lit ''staged change''"
| "work_cause Unstaged = lit ''unstaged change''"
| "work_cause Untracked = lit ''untracked file''"
| "work_cause Ignored = lit ''ignored user data (ignored does not mean disposable)''"
| "work_cause Conflict = lit ''conflict stages in the index''"
| "work_cause ModeChange = lit ''file mode change''"
| "work_cause LinkChange = lit ''symbolic link change''"
| "work_cause Renamed = lit ''rename''"
| "work_cause Deleted = lit ''deletion''"

fun work_detail :: "WorkKind \<Rightarrow> bool option \<Rightarrow> ustr" where
  "work_detail kind (Some True) = work_cause kind @ lit '', binary content''"
| "work_detail kind (Some False) = work_cause kind @ lit '', text content''"
| "work_detail kind None = work_cause kind"

fun native_operation_detail :: "NativeOperation \<Rightarrow> ustr" where
  "native_operation_detail NativeMerge = lit ''unfinished native git merge''"
| "native_operation_detail NativeRebase = lit ''unfinished native git rebase''"
| "native_operation_detail NativeCherryPick = lit ''unfinished native git cherry-pick''"
| "native_operation_detail NativeRevert = lit ''unfinished native git revert''"
| "native_operation_detail NativeBisect = lit ''unfinished native git bisect''"
| "native_operation_detail NativeApplyMailbox = lit ''unfinished native git mailbox application''"
| "native_operation_detail NativeOther = lit ''unfinished native git operation''"

fun flag_name :: "SuppressionFlag \<Rightarrow> ustr" where
  "flag_name AssumeUnchanged = lit ''assume-unchanged''"
| "flag_name SkipWorktree = lit ''skip-worktree''"
| "flag_name OtherFlag = lit ''uninterpreted index flag''"

definition add_suppressed ::
    "SuppressionFlag \<Rightarrow> PhysicalState \<Rightarrow> BytePath \<Rightarrow> BytePath set \<Rightarrow> Builder \<Rightarrow> Builder" where
  "add_suppressed flag physical path sparse b =
     (let name = flag_name flag; uninterpreted = (flag = OtherFlag) in
      case physical of
        Unobservable \<Rightarrow> add_unknown Unreadable (Some path)
          (name @ lit '' path: the worktree bytes could not be observed'') b
      | Differs \<Rightarrow> add_hazard HazardSuppressed (Some path)
          (name @ lit '' path: the worktree bytes differ from the index'') b
      | MatchesIndex \<Rightarrow>
          (if uninterpreted
           then add_unknown UnsupportedIndexFlag (Some path)
             (name @ lit '': the bytes match the index, but what else the flag suppresses is not interpreted'') b
           else b)
      | PhysicallyAbsent \<Rightarrow>
          (if uninterpreted
           then add_unknown UnsupportedIndexFlag (Some path)
             (name @ lit '': the path is absent and the flag is not interpreted'') b
           else if path \<in> sparse then b
           else if flag = AssumeUnchanged
           then add_hazard HazardSuppressed (Some path) (name @ lit '' path: absent from the worktree'') b
           else add_unknown UnsupportedIndexFlag (Some path)
             (name @ lit '' path: absent with no recorded valid sparse absence'') b))"

definition add_entry :: "WorkEntry \<Rightarrow> Builder \<Rightarrow> Builder" where
  "add_entry entry b =
     add_provenanced (HazardWork (entry_kind entry)) (Some (entry_path entry))
       (work_detail (entry_kind entry) (entry_binary entry))
       (baseline_entry (builder_baseline b) (entry_path entry)) b"

definition add_native :: "NativeOperation option \<Rightarrow> Builder \<Rightarrow> Builder" where
  "add_native op b =
     (case op of
        Some operation \<Rightarrow> add_hazard OpenNativeOperation None (native_operation_detail operation) b
      | None \<Rightarrow> b)"

definition add_stash :: "nat \<Rightarrow> Builder \<Rightarrow> Builder" where
  "add_stash count b =
     (if count > 0
      then add_provenanced NativeStash None
             (show_nat count @ lit '' native stash entr'' @ (if count = 1 then lit ''y'' else lit ''ies''))
             (baseline_stash (builder_baseline b)) b
      else b)"

definition add_observation :: "WorkObservation \<Rightarrow> Builder \<Rightarrow> Builder" where
  "add_observation observation b =
     (let b = fold add_entry (work_entries observation) b;
          sparse = set (work_sparse_absent observation);
          b = fold (\<lambda>e. add_suppressed (suppressed_flag e) (suppressed_physical e) (suppressed_path e) sparse)
                (work_suppressed observation) b;
          b = add_native (work_native_operation observation) b;
          b = add_stash (work_stash_entries observation) b
      in b\<lparr>builder_unknown := builder_unknown b @ work_unknown observation\<rparr>)"

definition add_record :: "ustr \<Rightarrow> EvidenceState \<Rightarrow> HazardKind \<Rightarrow> Builder \<Rightarrow> Builder" where
  "add_record label state open b =
     (case state of
        EvNone \<Rightarrow> b
      | EvOpen detail \<Rightarrow> add_hazard open None (label @ lit '': '' @ detail) b
      | EvUnknown detail \<Rightarrow>
          add_unknown UnsupportedEvidence None (label @ lit '': '' @ detail)
            (add_hazard UninterpretableEvidence None (label @ lit '': '' @ detail) b))"

definition add_evidence :: "GwzEvidence \<Rightarrow> Builder \<Rightarrow> Builder" where
  "add_evidence evidence b =
     (let b = add_record (lit ''gwz merge record'') (evidence_merge evidence) OpenGwzMerge b;
          b = add_record (lit ''gwz stash record'') (evidence_stash evidence) OpenGwzStash b
      in fold (\<lambda>item. add_record (item_kind item) (item_state item) OpenGwzRecord)
           (evidence_other evidence) b)"

definition finish :: "Builder \<Rightarrow> WorkReport" where
  "finish b =
     (let (hazards, hazards_cut) = drop_details (\<lambda>h. h\<lparr>hazard_detail := []\<rparr>) (builder_hazards b);
          (unknown, unknown_cut) = drop_details (\<lambda>r. r\<lparr>reason_detail := []\<rparr>) (builder_unknown b);
          verdict = (if unknown = []
                     then (if list_ex (\<lambda>h. refuses (hazard_provenance h)) hazards
                           then VerdictDirty else VerdictClean)
                     else VerdictUnknown)
      in \<lparr>report_verdict = verdict, report_hazards = hazards, report_unknown = unknown,
          report_truncated = hazards_cut \<or> unknown_cut\<rparr>)"

subsection \<open>Entry points\<close>

definition classify_work_against ::
    "WorkObservation \<Rightarrow> GwzEvidence \<Rightarrow> CopyBaseline \<Rightarrow> WorkReport" where
  "classify_work_against observation evidence baseline =
     finish (add_evidence evidence
       (add_observation observation (default_builder\<lparr>builder_baseline := baseline\<rparr>)))"

definition classify_work :: "WorkObservation \<Rightarrow> GwzEvidence \<Rightarrow> WorkReport" where
  "classify_work observation evidence = classify_work_against observation evidence default_baseline"

fun classify_observed_work_against ::
    "WorkObservation Observation \<Rightarrow> GwzEvidence \<Rightarrow> CopyBaseline \<Rightarrow> WorkReport" where
  "classify_observed_work_against (Known observed) evidence baseline =
     classify_work_against observed evidence baseline"
| "classify_observed_work_against (Unknown reasons) evidence baseline =
     finish (add_evidence evidence (default_builder\<lparr>builder_unknown := reasons\<rparr>))"

definition classify_observed_work ::
    "WorkObservation Observation \<Rightarrow> GwzEvidence \<Rightarrow> WorkReport" where
  "classify_observed_work observation evidence =
     classify_observed_work_against observation evidence default_baseline"

subsection \<open>What the accumulator holds\<close>

text \<open>
  Two summaries of a builder decide the verdict: whether a reason is open and whether a hazard
  refuses. Every step changes them as follows, and no step touches the baseline.
\<close>

definition open_reason :: "Builder \<Rightarrow> bool" where
  "open_reason b \<longleftrightarrow> builder_unknown b \<noteq> []"

definition refusing :: "Builder \<Rightarrow> bool" where
  "refusing b \<longleftrightarrow> list_ex (\<lambda>h. refuses (hazard_provenance h)) (builder_hazards b)"

text \<open>The table of status suppression flags in the crate documentation.\<close>

fun suppression_verdict :: "SuppressionFlag \<Rightarrow> PhysicalState \<Rightarrow> bool \<Rightarrow> WorkVerdict" where
  "suppression_verdict flag Differs sparse = VerdictDirty"
| "suppression_verdict flag Unobservable sparse = VerdictUnknown"
| "suppression_verdict OtherFlag physical sparse = VerdictUnknown"
| "suppression_verdict flag MatchesIndex sparse = VerdictClean"
| "suppression_verdict flag PhysicallyAbsent True = VerdictClean"
| "suppression_verdict AssumeUnchanged PhysicallyAbsent False = VerdictDirty"
| "suppression_verdict SkipWorktree PhysicallyAbsent False = VerdictUnknown"

fun evidence_verdict :: "EvidenceState \<Rightarrow> WorkVerdict" where
  "evidence_verdict EvNone = VerdictClean"
| "evidence_verdict (EvOpen _) = VerdictDirty"
| "evidence_verdict (EvUnknown _) = VerdictUnknown"

definition entry_verdict :: "WorkObservation \<Rightarrow> SuppressedEntry \<Rightarrow> WorkVerdict" where
  "entry_verdict observation e =
     suppression_verdict (suppressed_flag e) (suppressed_physical e)
       (suppressed_path e \<in> set (work_sparse_absent observation))"

definition evidence_verdicts :: "GwzEvidence \<Rightarrow> WorkVerdict list" where
  "evidence_verdicts evidence =
     evidence_verdict (evidence_merge evidence) # evidence_verdict (evidence_stash evidence) #
     map (\<lambda>i. evidence_verdict (item_state i)) (evidence_other evidence)"

lemma list_ex_map: "list_ex P (map f xs) \<longleftrightarrow> list_ex (\<lambda>x. P (f x)) xs"
  by (induction xs) simp_all

lemma builder_baseline_steps [simp]:
  "builder_baseline (add_provenanced k p d pr b) = builder_baseline b"
  "builder_baseline (add_hazard k p d b) = builder_baseline b"
  "builder_baseline (add_unknown u p d b) = builder_baseline b"
  by (simp_all add: add_provenanced_def add_hazard_def add_unknown_def)

lemma builder_baseline_entry [simp]: "builder_baseline (add_entry e b) = builder_baseline b"
  by (simp add: add_entry_def)

lemma builder_baseline_entries [simp]: "builder_baseline (fold add_entry es b) = builder_baseline b"
  by (induction es arbitrary: b) simp_all

lemma builder_baseline_suppressed [simp]:
  "builder_baseline (add_suppressed f ph p s b) = builder_baseline b"
  by (simp add: add_suppressed_def Let_def split: PhysicalState.split)

lemma builder_baseline_suppressed_fold [simp]:
  "builder_baseline (fold (\<lambda>e. add_suppressed (f e) (ph e) (p e) s) es b) = builder_baseline b"
  by (induction es arbitrary: b) simp_all

lemma builder_baseline_native [simp]: "builder_baseline (add_native op b) = builder_baseline b"
  by (simp add: add_native_def split: option.split)

lemma refusing_steps [simp]:
  "refusing (add_provenanced k p d pr b) \<longleftrightarrow> refusing b \<or> refuses pr"
  "refusing (add_hazard k p d b)"
  "refusing (add_unknown u p d b) \<longleftrightarrow> refusing b"
  by (simp_all add: add_provenanced_def add_hazard_def add_unknown_def refusing_def)

lemma open_reason_steps [simp]:
  "open_reason (add_provenanced k p d pr b) \<longleftrightarrow> open_reason b"
  "open_reason (add_hazard k p d b) \<longleftrightarrow> open_reason b"
  "open_reason (add_unknown u p d b)"
  by (simp_all add: add_provenanced_def add_hazard_def add_unknown_def open_reason_def)

lemma suppressed_step:
  "refusing (add_suppressed f ph p s b) \<longleftrightarrow>
     refusing b \<or> suppression_verdict f ph (p \<in> s) = VerdictDirty"
  "open_reason (add_suppressed f ph p s b) \<longleftrightarrow>
     open_reason b \<or> suppression_verdict f ph (p \<in> s) = VerdictUnknown"
  by (cases f; cases ph; cases "p \<in> s"; simp add: add_suppressed_def)+

lemma suppressed_fold:
  "refusing (fold (\<lambda>e. add_suppressed (f e) (ph e) (p e) s) es b) \<longleftrightarrow>
     refusing b \<or> list_ex (\<lambda>e. suppression_verdict (f e) (ph e) (p e \<in> s) = VerdictDirty) es"
  "open_reason (fold (\<lambda>e. add_suppressed (f e) (ph e) (p e) s) es b) \<longleftrightarrow>
     open_reason b \<or> list_ex (\<lambda>e. suppression_verdict (f e) (ph e) (p e \<in> s) = VerdictUnknown) es"
  by (induction es arbitrary: b) (auto simp: suppressed_step)

lemma entries_fold:
  "refusing (fold add_entry es b) \<longleftrightarrow>
     refusing b \<or> list_ex (\<lambda>e. refuses (baseline_entry (builder_baseline b) (entry_path e))) es"
  "open_reason (fold add_entry es b) \<longleftrightarrow> open_reason b"
  by (induction es arbitrary: b) (auto simp: add_entry_def)

lemma native_step:
  "refusing (add_native op b) \<longleftrightarrow> refusing b \<or> op \<noteq> None"
  "open_reason (add_native op b) \<longleftrightarrow> open_reason b"
  by (cases op; simp add: add_native_def)+

lemma stash_step:
  "refusing (add_stash n b) \<longleftrightarrow> refusing b \<or> n > 0 \<and> refuses (baseline_stash (builder_baseline b))"
  "open_reason (add_stash n b) \<longleftrightarrow> open_reason b"
  by (auto simp: add_stash_def)

lemma record_step:
  "refusing (add_record l st k b) \<longleftrightarrow> refusing b \<or> evidence_verdict st \<noteq> VerdictClean"
  "open_reason (add_record l st k b) \<longleftrightarrow> open_reason b \<or> evidence_verdict st = VerdictUnknown"
  by (cases st; simp add: add_record_def)+

lemma records_fold:
  "refusing (fold (\<lambda>i. add_record (l i) (st i) k) es b) \<longleftrightarrow>
     refusing b \<or> list_ex (\<lambda>i. evidence_verdict (st i) \<noteq> VerdictClean) es"
  "open_reason (fold (\<lambda>i. add_record (l i) (st i) k) es b) \<longleftrightarrow>
     open_reason b \<or> list_ex (\<lambda>i. evidence_verdict (st i) = VerdictUnknown) es"
  by (induction es arbitrary: b) (auto simp: record_step)

lemma evidence_step:
  "refusing (add_evidence ev b) \<longleftrightarrow> refusing b \<or> list_ex (\<lambda>v. v \<noteq> VerdictClean) (evidence_verdicts ev)"
  "open_reason (add_evidence ev b) \<longleftrightarrow> open_reason b \<or> list_ex (\<lambda>v. v = VerdictUnknown) (evidence_verdicts ev)"
  by (auto simp: add_evidence_def records_fold record_step evidence_verdicts_def list_ex_map)

lemma observation_step:
  "refusing (add_observation obs b) \<longleftrightarrow>
     refusing b \<or>
     list_ex (\<lambda>e. refuses (baseline_entry (builder_baseline b) (entry_path e))) (work_entries obs) \<or>
     list_ex (\<lambda>e. entry_verdict obs e = VerdictDirty) (work_suppressed obs) \<or>
     work_native_operation obs \<noteq> None \<or>
     work_stash_entries obs > 0 \<and> refuses (baseline_stash (builder_baseline b))"
  "open_reason (add_observation obs b) \<longleftrightarrow>
     open_reason b \<or> work_unknown obs \<noteq> [] \<or>
     list_ex (\<lambda>e. entry_verdict obs e = VerdictUnknown) (work_suppressed obs)"
proof -
  define c where "c = add_stash (work_stash_entries obs) (add_native (work_native_operation obs)
     (fold (\<lambda>e. add_suppressed (suppressed_flag e) (suppressed_physical e) (suppressed_path e)
        (set (work_sparse_absent obs))) (work_suppressed obs) (fold add_entry (work_entries obs) b)))"
  have "add_observation obs b = c\<lparr>builder_unknown := builder_unknown c @ work_unknown obs\<rparr>"
    by (simp add: add_observation_def c_def Let_def)
  then have "refusing (add_observation obs b) = refusing c"
    "open_reason (add_observation obs b) = (open_reason c \<or> work_unknown obs \<noteq> [])"
    by (auto simp: refusing_def open_reason_def)
  then show
    "refusing (add_observation obs b) \<longleftrightarrow>
       refusing b \<or>
       list_ex (\<lambda>e. refuses (baseline_entry (builder_baseline b) (entry_path e))) (work_entries obs) \<or>
       list_ex (\<lambda>e. entry_verdict obs e = VerdictDirty) (work_suppressed obs) \<or>
       work_native_operation obs \<noteq> None \<or>
       work_stash_entries obs > 0 \<and> refuses (baseline_stash (builder_baseline b))"
    "open_reason (add_observation obs b) \<longleftrightarrow>
       open_reason b \<or> work_unknown obs \<noteq> [] \<or>
       list_ex (\<lambda>e. entry_verdict obs e = VerdictUnknown) (work_suppressed obs)"
    by (auto simp: c_def stash_step native_step suppressed_fold entries_fold entry_verdict_def [abs_def])
qed

lemma drop_details_map:
  assumes "\<And>x. f (clear x) = f x"
  shows "map f (fst (drop_details clear xs)) = map f xs"
proof -
  have "map f (take n xs @ map clear (drop n xs)) = map f (take n xs @ drop n xs)" for n
    by (simp only: map_append map_map comp_def assms)
  then show ?thesis
    by (simp add: drop_details_def)
qed

lemma drop_details_prop:
  assumes "\<And>x. P (clear x) = P x"
  shows "list_ex P (fst (drop_details clear xs)) = list_ex P xs"
proof -
  have "list_ex P ys = list_ex (\<lambda>b. b) (map P ys)" for ys
    by (simp add: list_ex_map)
  then show ?thesis
    using drop_details_map [of P clear xs, OF assms] by simp
qed

lemma drop_details_Nil [simp]: "fst (drop_details clear xs) = [] \<longleftrightarrow> xs = []"
  by (auto simp: drop_details_def MAX_DETAILED_ENTRIES_def)

lemma finish_verdict:
  "report_verdict (finish b) =
     (if open_reason b then VerdictUnknown else if refusing b then VerdictDirty else VerdictClean)"
proof -
  have "list_ex (\<lambda>h. refuses (hazard_provenance h))
      (fst (drop_details (\<lambda>h. h\<lparr>hazard_detail := []\<rparr>) (builder_hazards b))) = refusing b"
    unfolding refusing_def by (rule drop_details_prop) simp
  then show ?thesis
    by (simp add: finish_def open_reason_def case_prod_beta Let_def)
qed

text \<open>The hazards themselves, by kind, path and provenance, in the order they are found.\<close>

type_synonym hazard_id = "HazardKind \<times> BytePath option \<times> Provenance"

definition hazard_id :: "Hazard \<Rightarrow> hazard_id" where
  "hazard_id h = (hazard_kind h, hazard_path h, hazard_provenance h)"

definition suppressed_ids :: "WorkObservation \<Rightarrow> SuppressedEntry \<Rightarrow> hazard_id list" where
  "suppressed_ids observation e =
     (if entry_verdict observation e = VerdictDirty
      then [(HazardSuppressed, Some (suppressed_path e), Unique)] else [])"

fun record_ids :: "HazardKind \<Rightarrow> EvidenceState \<Rightarrow> hazard_id list" where
  "record_ids open EvNone = []"
| "record_ids open (EvOpen _) = [(open, None, Unique)]"
| "record_ids open (EvUnknown _) = [(UninterpretableEvidence, None, Unique)]"

definition evidence_ids :: "GwzEvidence \<Rightarrow> hazard_id list" where
  "evidence_ids evidence =
     record_ids OpenGwzMerge (evidence_merge evidence) @
     record_ids OpenGwzStash (evidence_stash evidence) @
     concat (map (\<lambda>i. record_ids OpenGwzRecord (item_state i)) (evidence_other evidence))"

definition observation_ids :: "WorkObservation \<Rightarrow> CopyBaseline \<Rightarrow> hazard_id list" where
  "observation_ids observation baseline =
     map (\<lambda>e. (HazardWork (entry_kind e), Some (entry_path e), baseline_entry baseline (entry_path e)))
       (work_entries observation) @
     concat (map (suppressed_ids observation) (work_suppressed observation)) @
     (if work_native_operation observation \<noteq> None then [(OpenNativeOperation, None, Unique)] else []) @
     (if work_stash_entries observation > 0 then [(NativeStash, None, baseline_stash baseline)] else [])"

definition builder_ids :: "Builder \<Rightarrow> hazard_id list" where
  "builder_ids b = map hazard_id (builder_hazards b)"

lemma builder_ids_steps [simp]:
  "builder_ids (add_provenanced k p d pr b) = builder_ids b @ [(k, p, pr)]"
  "builder_ids (add_hazard k p d b) = builder_ids b @ [(k, p, Unique)]"
  "builder_ids (add_unknown u p d b) = builder_ids b"
  by (simp_all add: add_provenanced_def add_hazard_def add_unknown_def builder_ids_def hazard_id_def)

lemma builder_ids_entries:
  "builder_ids (fold add_entry es b) = builder_ids b @
     map (\<lambda>e. (HazardWork (entry_kind e), Some (entry_path e),
                baseline_entry (builder_baseline b) (entry_path e))) es"
  by (induction es arbitrary: b) (simp_all add: add_entry_def)

lemma builder_ids_suppressed:
  "builder_ids (add_suppressed (suppressed_flag e) (suppressed_physical e) (suppressed_path e)
     (set (work_sparse_absent obs)) b) = builder_ids b @ suppressed_ids obs e"
  by (cases "suppressed_flag e"; cases "suppressed_physical e";
      cases "suppressed_path e \<in> set (work_sparse_absent obs)";
      simp add: add_suppressed_def suppressed_ids_def entry_verdict_def)

lemma builder_ids_suppressed_fold:
  "builder_ids (fold (\<lambda>e. add_suppressed (suppressed_flag e) (suppressed_physical e)
     (suppressed_path e) (set (work_sparse_absent obs))) es b) =
   builder_ids b @ concat (map (suppressed_ids obs) es)"
  by (induction es arbitrary: b) (simp_all add: builder_ids_suppressed)

lemma builder_ids_record: "builder_ids (add_record l st k b) = builder_ids b @ record_ids k st"
  by (cases st) (simp_all add: add_record_def)

lemma builder_ids_records_fold:
  "builder_ids (fold (\<lambda>i. add_record (l i) (st i) k) es b) =
   builder_ids b @ concat (map (\<lambda>i. record_ids k (st i)) es)"
  by (induction es arbitrary: b) (simp_all add: builder_ids_record)

lemma builder_ids_evidence: "builder_ids (add_evidence ev b) = builder_ids b @ evidence_ids ev"
  by (simp add: add_evidence_def evidence_ids_def builder_ids_record builder_ids_records_fold)

lemma builder_ids_native:
  "builder_ids (add_native op b) =
     builder_ids b @ (if op \<noteq> None then [(OpenNativeOperation, None, Unique)] else [])"
  by (cases op) (simp_all add: add_native_def)

lemma builder_ids_stash:
  "builder_ids (add_stash n b) =
     builder_ids b @ (if n > 0 then [(NativeStash, None, baseline_stash (builder_baseline b))] else [])"
  by (simp add: add_stash_def)

lemma builder_ids_more [simp]: "builder_ids (b\<lparr>builder_unknown := u\<rparr>) = builder_ids b"
  by (simp add: builder_ids_def)

lemma builder_ids_observation:
  "builder_ids (add_observation obs b) = builder_ids b @ observation_ids obs (builder_baseline b)"
  by (simp add: add_observation_def Let_def builder_ids_stash builder_ids_native
      builder_ids_suppressed_fold builder_ids_entries observation_ids_def)

lemma builder_ids_default [simp]: "builder_ids (default_builder\<lparr>builder_baseline := base\<rparr>) = []"
  by (simp add: builder_ids_def default_builder_def)

lemma builder_ids_reasons [simp]: "builder_ids default_builder = []"
  by (simp add: builder_ids_def default_builder_def)

lemma finish_ids: "map hazard_id (report_hazards (finish b)) = builder_ids b"
  unfolding builder_ids_def
  by (subst drop_details_map [symmetric, of hazard_id "\<lambda>h. h\<lparr>hazard_detail := []\<rparr>"])
     (simp_all add: hazard_id_def finish_def case_prod_beta Let_def)

definition forced_id :: "hazard_id \<Rightarrow> bool" where
  "forced_id i \<longleftrightarrow> force_name (fst i) \<noteq> None"

lemma record_ids_forced:
  "list_all forced_id (record_ids k st) \<longleftrightarrow>
     evidence_verdict st \<noteq> VerdictUnknown" if "force_name k \<noteq> None"
  using that by (cases st) (auto simp: forced_id_def)

lemma evidence_ids_forced:
  "list_all forced_id (evidence_ids ev) \<longleftrightarrow>
     \<not> list_ex (\<lambda>v. v = VerdictUnknown) (evidence_verdicts ev)"
proof -
  have "list_all forced_id (concat (map (\<lambda>i. record_ids OpenGwzRecord (item_state i)) items)) \<longleftrightarrow>
      \<not> list_ex (\<lambda>v. v = VerdictUnknown) (map (\<lambda>i. evidence_verdict (item_state i)) items)" for items :: "EvidenceItem list"
    by (induction items) (simp_all add: record_ids_forced)
  then show ?thesis
    by (simp add: evidence_ids_def evidence_verdicts_def record_ids_forced)
qed

lemma observation_ids_forced: "list_all forced_id (observation_ids obs base)"
  by (auto simp: observation_ids_def list_all_iff forced_id_def suppressed_ids_def split: if_splits)

lemma baseline_entry_set:
  "baseline_entry (baseline_set p q b) r =
     (if r = p
      then (case bt_get (baseline_entries b) p of
              None \<Rightarrow> q
            | Some old \<Rightarrow> if old = Regenerable \<or> q = Regenerable then Regenerable
                          else if refuses q then q else old)
      else baseline_entry b r)"
  by (auto simp: baseline_entry_def baseline_set_def Let_def bt.get_insert split: option.split)

lemma baseline_named:
  "bt_get (baseline_entries (baseline_set p q b)) r = None \<longleftrightarrow>
     r \<noteq> p \<and> bt_get (baseline_entries b) r = None"
  by (auto simp: baseline_set_def Let_def bt.get_insert)

definition answers_for :: "BytePath \<Rightarrow> (BytePath \<times> Provenance) list \<Rightarrow> Provenance list" where
  "answers_for p ops = map snd (filter (\<lambda>op. fst op = p) ops)"

definition record_all :: "(BytePath \<times> Provenance) list \<Rightarrow> CopyBaseline" where
  "record_all ops = fold (\<lambda>(p, q). baseline_set p q) ops default_baseline"

lemma record_all_snoc: "record_all (ops @ [(p, q)]) = baseline_set p q (record_all ops)"
  by (simp add: record_all_def)

lemma answers_for_snoc:
  "answers_for r (ops @ [(p, q)]) = answers_for r ops @ (if p = r then [q] else [])"
  by (simp add: answers_for_def)

lemma record_all_named: "bt_get (baseline_entries (record_all ops)) p = None \<longleftrightarrow> answers_for p ops = []"
proof (induction ops rule: rev_induct)
  case Nil
  then show ?case
    by (simp add: record_all_def default_baseline_def answers_for_def bt.get_empty)
next
  case (snoc op ops)
  then show ?case
    by (cases op) (auto simp: record_all_snoc baseline_named answers_for_snoc)
qed

lemma record_all_entry:
  "answers_for p ops \<noteq> [] \<Longrightarrow>
     (baseline_entry (record_all ops) p = Regenerable \<longleftrightarrow> Regenerable \<in> set (answers_for p ops)) \<and>
     (refuses (baseline_entry (record_all ops) p) \<longleftrightarrow>
        Regenerable \<notin> set (answers_for p ops) \<and> list_ex refuses (answers_for p ops))"
proof (induction ops rule: rev_induct)
  case Nil
  then show ?case
    by (simp add: answers_for_def)
next
  case (snoc op ops)
  obtain r q where op: "op = (r, q)"
    by (cases op)
  consider "r \<noteq> p" | "r = p" "answers_for p ops = []" | "r = p" "answers_for p ops \<noteq> []"
    by blast
  then show ?case
  proof cases
    case 1
    then show ?thesis
      using snoc by (simp add: op record_all_snoc answers_for_snoc baseline_entry_set)
  next
    case 2
    then show ?thesis
      using record_all_named [of ops p]
      by (cases q) (simp_all add: op record_all_snoc answers_for_snoc baseline_entry_set)
  next
    case 3
    then obtain old where old: "bt_get (baseline_entries (record_all ops)) p = Some old"
      using record_all_named [of ops p] by auto
    then have "baseline_entry (record_all ops) p = old"
      by (simp add: baseline_entry_def)
    then show ?thesis
      using snoc.IH 3 old
      by (cases q; cases old) (auto simp: op record_all_snoc answers_for_snoc baseline_entry_set)
  qed
qed

subsection \<open>Properties\<close>

text \<open>
  C16. The verdict on a known observation: unknown exactly when the observer reported a reason, a
  suppressed path is unknown by the table of the crate documentation, or a record could not be
  interpreted; otherwise dirty exactly when a worktree entry or the stash is data the lane alone
  holds, a suppressed path is dirty by the table, a native operation is unfinished or a record is
  open; otherwise clean.
\<close>

theorem work_verdict_decided:
  "report_verdict (classify_work_against obs ev base) =
     (if work_unknown obs \<noteq> [] \<or>
         list_ex (\<lambda>e. entry_verdict obs e = VerdictUnknown) (work_suppressed obs) \<or>
         list_ex (\<lambda>v. v = VerdictUnknown) (evidence_verdicts ev)
      then VerdictUnknown
      else if list_ex (\<lambda>e. refuses (baseline_entry base (entry_path e))) (work_entries obs) \<or>
         list_ex (\<lambda>e. entry_verdict obs e = VerdictDirty) (work_suppressed obs) \<or>
         work_native_operation obs \<noteq> None \<or>
         (work_stash_entries obs > 0 \<and> refuses (baseline_stash base)) \<or>
         list_ex (\<lambda>v. v = VerdictDirty) (evidence_verdicts ev)
      then VerdictDirty
      else VerdictClean)"
proof -
  have init: "\<not> refusing (default_builder\<lparr>builder_baseline := base\<rparr>)"
    "\<not> open_reason (default_builder\<lparr>builder_baseline := base\<rparr>)"
    by (simp_all add: refusing_def open_reason_def default_builder_def)
  have "list_ex (\<lambda>v. v \<noteq> VerdictClean) vs \<longleftrightarrow> list_ex (\<lambda>v. v = VerdictDirty) vs"
    if "\<not> list_ex (\<lambda>v. v = VerdictUnknown) vs" for vs
    using that WorkVerdict.exhaust by (auto simp: list_ex_iff)
  then show ?thesis
    by (simp add: classify_work_against_def finish_verdict evidence_step observation_step init)
qed

definition sample_work :: WorkObservation where
  "sample_work =
     \<lparr>work_entries = [\<lparr>entry_path = [1], entry_kind = Ignored, entry_binary = None\<rparr>],
      work_suppressed =
        [\<lparr>suppressed_path = [2], suppressed_flag = SkipWorktree, suppressed_physical = PhysicallyAbsent\<rparr>],
      work_sparse_absent = [[2]], work_native_operation = None, work_stash_entries = 0,
      work_unknown = []\<rparr>"

definition no_evidence :: GwzEvidence where
  "no_evidence = \<lparr>evidence_merge = EvNone, evidence_stash = EvNone, evidence_other = []\<rparr>"

theorem work_verdict_decided_witness:
  "report_verdict (classify_work_against sample_work no_evidence
     (baseline_set [1] Regenerable default_baseline)) = VerdictClean \<and>
   report_verdict (classify_work_against sample_work no_evidence default_baseline) = VerdictDirty"
  by (simp add: work_verdict_decided sample_work_def no_evidence_def evidence_verdicts_def
      entry_verdict_def baseline_entry_set default_baseline_def bt.get_empty)
     (simp add: baseline_entry_def bt.get_empty)

text \<open>
  Cutting the diagnostics never drops a hazard: however long the report, its hazards are, by
  kind, path and provenance and in order, one per worktree entry, one per dirty suppressed path, the
  unfinished native operation, the native stash, and one per open or uninterpretable record.
\<close>

theorem report_names_every_hazard:
  "map hazard_id (report_hazards (classify_work_against obs ev base)) =
     observation_ids obs base @ evidence_ids ev"
  by (simp add: classify_work_against_def finish_ids builder_ids_evidence builder_ids_observation)

text \<open>
  A report that is not unknown lists only hazards that a force name covers; evidence that cannot
  be interpreted always makes the verdict unknown, so it is never waived by name.
\<close>

theorem known_report_is_waivable:
  assumes "report_verdict (classify_observed_work_against observation ev base) \<noteq> VerdictUnknown"
  shows "list_all (\<lambda>h. force_name (hazard_kind h) \<noteq> None)
           (report_hazards (classify_observed_work_against observation ev base))"
proof -
  have by_id: "list_all (\<lambda>h. force_name (hazard_kind h) \<noteq> None) hs =
      list_all forced_id (map hazard_id hs)" for hs
    by (simp add: list_all_iff hazard_id_def forced_id_def)
  show ?thesis
  proof (cases observation)
    case (Known obs)
    then have "\<not> list_ex (\<lambda>v. v = VerdictUnknown) (evidence_verdicts ev)"
      using assms by (auto simp: classify_work_against_def finish_verdict evidence_step split: if_splits)
    then show ?thesis
      using observation_ids_forced [of obs base] evidence_ids_forced [of ev]
      unfolding by_id by (simp add: Known classify_work_against_def finish_ids builder_ids_evidence
          builder_ids_observation)
  next
    case (Unknown reasons)
    then have "\<not> list_ex (\<lambda>v. v = VerdictUnknown) (evidence_verdicts ev)"
      using assms by (auto simp: finish_verdict evidence_step split: if_splits)
    then show ?thesis
      using evidence_ids_forced [of ev]
      unfolding by_id by (simp add: Unknown finish_ids builder_ids_evidence)
  qed
qed

definition open_merge_evidence :: GwzEvidence where
  "open_merge_evidence =
     \<lparr>evidence_merge = EvOpen (lit ''m1''), evidence_stash = EvNone, evidence_other = []\<rparr>"

theorem known_report_is_waivable_witness:
  "report_verdict (classify_observed_work_against (Unknown []) open_merge_evidence default_baseline)
     = VerdictDirty \<and>
   list_all (\<lambda>h. force_name (hazard_kind h) \<noteq> None)
     (report_hazards (classify_observed_work_against (Unknown []) open_merge_evidence default_baseline))"
proof -
  have "report_verdict (classify_observed_work_against (Unknown []) open_merge_evidence default_baseline)
     = VerdictDirty"
    by (simp add: finish_verdict evidence_step evidence_verdicts_def open_merge_evidence_def)
       (simp add: open_reason_def)
  then show ?thesis
    using known_report_is_waivable [of "Unknown []" open_merge_evidence default_baseline] by simp
qed

text \<open>A reason without the detail that a long report may drop.\<close>

definition reason_id :: "UnknownReason \<Rightarrow> UnknownKind \<times> BytePath option" where
  "reason_id r = (reason_kind r, reason_path r)"

fun record_reasons :: "EvidenceState \<Rightarrow> (UnknownKind \<times> BytePath option) list" where
  "record_reasons (EvUnknown _) = [(UnsupportedEvidence, None)]"
| "record_reasons _ = []"

definition evidence_reasons :: "GwzEvidence \<Rightarrow> (UnknownKind \<times> BytePath option) list" where
  "evidence_reasons evidence =
     record_reasons (evidence_merge evidence) @ record_reasons (evidence_stash evidence) @
     concat (map (\<lambda>i. record_reasons (item_state i)) (evidence_other evidence))"

lemma record_reason_ids:
  "map reason_id (builder_unknown (add_record label state kind b)) = map reason_id (builder_unknown b) @ record_reasons state"
  by (cases state) (simp_all add: add_record_def add_unknown_def add_hazard_def add_provenanced_def reason_id_def)

lemma record_reason_ids_fold:
  "map reason_id (builder_unknown (fold (\<lambda>i. add_record (item_kind i) (item_state i) kind) items b)) =
     map reason_id (builder_unknown b) @ concat (map (\<lambda>i. record_reasons (item_state i)) items)"
  by (induction items arbitrary: b) (simp_all add: record_reason_ids)

lemma evidence_reason_ids:
  "map reason_id (builder_unknown (add_evidence evidence b)) = map reason_id (builder_unknown b) @ evidence_reasons evidence"
  by (simp add: add_evidence_def Let_def record_reason_ids record_reason_ids_fold evidence_reasons_def)

lemma finish_reason_ids: "map reason_id (report_unknown (finish b)) = map reason_id (builder_unknown b)"
  using drop_details_map [of reason_id "\<lambda>r. r\<lparr>reason_detail := []\<rparr>" "builder_unknown b"]
  by (auto simp: finish_def Let_def reason_id_def split: prod.split)

text \<open>
  C37. A work observation that is unknown for some reason is never classified as clean or dirty, whatever
  the evidence and the baseline say: the verdict is unknown. Its reasons are carried through, in order and
  before one for each record that could not be interpreted; and the evidence is classified all the same,
  so the report names every open or uninterpretable record and no other hazard.
\<close>

theorem unknown_observation_verdict:
  assumes "reasons \<noteq> []" "report = classify_observed_work_against (Unknown reasons) ev base"
  shows "report_verdict report = VerdictUnknown \<and>
    map reason_id (report_unknown report) = map reason_id reasons @ evidence_reasons ev \<and>
    map hazard_id (report_hazards report) = evidence_ids ev"
proof -
  have "open": "open_reason (default_builder\<lparr>builder_unknown := reasons\<rparr>) \<longleftrightarrow> reasons \<noteq> []"
    by (simp add: open_reason_def)
  have "map reason_id (report_unknown report) = map reason_id reasons @ evidence_reasons ev"
    by (simp add: assms(2) finish_reason_ids evidence_reason_ids)
  moreover have "map hazard_id (report_hazards report) = evidence_ids ev"
    by (simp add: assms(2) finish_ids builder_ids_evidence)
  moreover have "report_verdict report = VerdictUnknown"
    using assms(1) by (simp add: assms(2) finish_verdict evidence_step "open")
  ultimately show ?thesis
    by simp
qed

theorem unknown_observation_verdict_witness:
  "report_verdict (classify_observed_work_against
     (Unknown [unknown_reason Unreadable (lit ''denied'')]) open_merge_evidence default_baseline)
     = VerdictUnknown \<and>
   evidence_ids open_merge_evidence = [(OpenGwzMerge, None, Unique)]"
  using unknown_observation_verdict
    [of "[unknown_reason Unreadable (lit ''denied'')]" _ open_merge_evidence default_baseline]
  by (simp add: evidence_ids_def open_merge_evidence_def)

text \<open>
  An observation that is unknown and gives no reason leaves no trace: beside evidence that names no record
  the report is the clean one.
\<close>

lemma reasonless_unknown_is_clean: "classify_observed_work (Unknown []) no_evidence = clean_report"
  by (simp add: no_evidence_def classify_observed_work_def add_evidence_def add_record_def default_builder_def
      finish_def drop_details_def clean_report_def)

text \<open>
  The baseline never softens a refusal by accident: whatever the order in which answers are
  recorded, a path refuses exactly when no answer names it, or when some answer refuses and none
  recognises it as regenerable.
\<close>

theorem baseline_keeps_refusals:
  "refuses (baseline_entry (record_all ops) p) \<longleftrightarrow>
     answers_for p ops = [] \<or>
     (Regenerable \<notin> set (answers_for p ops) \<and> list_ex refuses (answers_for p ops))"
proof (cases "answers_for p ops = []")
  case True
  then have "bt_get (baseline_entries (record_all ops)) p = None"
    by (simp add: record_all_named)
  then show ?thesis
    using True by (simp add: baseline_entry_def)
next
  case False
  then show ?thesis
    using record_all_entry [of p ops] by simp
qed

theorem baseline_keeps_refusals_witness:
  "\<not> refuses (baseline_entry
     (record_all [([1], ChangedCopy), ([1], Regenerable), ([1], Unique)]) [1])"
  by (simp add: baseline_keeps_refusals answers_for_def)

end
