(* ===== verification/History_Check.thy ===== *)
theory History_Check
  imports Repo_Contract BTree_Map "HOL-Library.While_Combinator"
begin

text \<open>
  The history verifier of \<open>crates/history-check/src/lib.rs\<close>: eligibility of witness roots, the budget
  that bounds the bookkeeping, the depth-first walk over the object graph with its explicit stack of
  frames, and the two conclusions (history preserved by a witness, connectivity of one store).

  Every object is read at most once in an invocation, so the reader is a function from ids. The
  cancellation port answers by the number of the poll. The sizes \<open>size_of::<T>()\<close> that the budget
  charges are not fixed by the language; they are a parameter (\<open>TypeSizes\<close>). The walk is a loop that
  need not end on every input, so its result is an \<open>option\<close>, \<open>None\<close> for a walk that never returns.
\<close>

subsection \<open>Order of object ids\<close>

text \<open>The derived order compares the formats and then the digests.\<close>

instantiation ObjectFormat :: linorder
begin

fun less_eq_ObjectFormat :: "ObjectFormat \<Rightarrow> ObjectFormat \<Rightarrow> bool" where
  "less_eq_ObjectFormat Sha256 Sha1 = False"
| "less_eq_ObjectFormat _ _ = True"

definition less_ObjectFormat :: "ObjectFormat \<Rightarrow> ObjectFormat \<Rightarrow> bool" where
  "less_ObjectFormat a b = (a \<le> b \<and> \<not> b \<le> a)"

instance
proof
  fix a b c :: ObjectFormat
  show "a < b \<longleftrightarrow> a \<le> b \<and> \<not> b \<le> a"
    by (simp add: less_ObjectFormat_def)
  show "a \<le> a"
    by (cases a) simp_all
  show "a \<le> b \<Longrightarrow> b \<le> c \<Longrightarrow> a \<le> c"
    by (cases a; cases b; cases c) simp_all
  show "a \<le> b \<Longrightarrow> b \<le> a \<Longrightarrow> a = b"
    by (cases a; cases b) simp_all
  show "a \<le> b \<or> b \<le> a"
    by (cases a; cases b) simp_all
qed

end

instantiation ObjectId :: linorder
begin

definition less_eq_ObjectId :: "ObjectId \<Rightarrow> ObjectId \<Rightarrow> bool" where
  "less_eq_ObjectId a b =
     (oid_format a < oid_format b \<or> (oid_format a = oid_format b \<and> oid_bytes a \<le> oid_bytes b))"

definition less_ObjectId :: "ObjectId \<Rightarrow> ObjectId \<Rightarrow> bool" where
  "less_ObjectId a b = (a \<le> b \<and> \<not> b \<le> a)"

instance
proof
  fix a b c :: ObjectId
  show "a < b \<longleftrightarrow> a \<le> b \<and> \<not> b \<le> a"
    by (simp add: less_ObjectId_def)
  show "a \<le> a"
    by (simp add: less_eq_ObjectId_def)
  show "a \<le> b \<Longrightarrow> b \<le> c \<Longrightarrow> a \<le> c"
    by (auto simp: less_eq_ObjectId_def)
  show "a \<le> b \<Longrightarrow> b \<le> a \<Longrightarrow> a = b"
    by (auto simp: less_eq_ObjectId_def intro: ObjectId.expand)
  show "a \<le> b \<or> b \<le> a"
    by (auto simp: less_eq_ObjectId_def)
qed

end

subsection \<open>Values\<close>

record Witness =
  witness_repository :: RepoKey
  witness_label :: ustr

record Limits =
  max_roots :: nat
  max_bookkeeping_bytes :: nat
  limit_reads :: ReadLimits

definition default_limits :: Limits where
  "default_limits =
     \<lparr>max_roots = 100000, max_bookkeeping_bytes = 256 * 1024 * 1024,
      limit_reads = default_read_limits\<rparr>"

record RootCoverage =
  coverage_root :: ProtectedRoot
  coverage_witness :: "RepoKey option"
  coverage_witness_root :: ProtectedRoot

record Coverage =
  cov_roots_checked :: nat
  cov_objects_visited :: u64
  cov_witnesses_used :: "RepoKey list"
  cov_bookkeeping_bytes :: nat
  cov_covered :: "RootCoverage list"

definition default_coverage :: Coverage where
  "default_coverage =
     \<lparr>cov_roots_checked = 0, cov_objects_visited = 0, cov_witnesses_used = [],
      cov_bookkeeping_bytes = 0, cov_covered = []\<rparr>"

record UnpreservedItem =
  unpreserved_root :: ProtectedRoot
  unpreserved_missing :: "ObjectId option"
  unpreserved_detail :: ustr

datatype HistoryOutcome =
    Verified Coverage
  | Unpreserved "UnpreservedItem list"
  | HistoryUnknown "UnknownReason list"

fun is_verified :: "HistoryOutcome \<Rightarrow> bool" where
  "is_verified (Verified _) = True"
| "is_verified _ = False"

record ConnectivityCoverage =
  conn_roots_checked :: nat
  conn_objects_visited :: u64
  conn_bookkeeping_bytes :: nat

record MissingObject =
  missing_root :: ProtectedRoot
  missing_oid :: ObjectId

datatype ConnectivityOutcome =
    ConnComplete ConnectivityCoverage
  | ConnIncomplete "MissingObject list"
  | ConnUnknown "UnknownReason list"

fun is_conn_complete :: "ConnectivityOutcome \<Rightarrow> bool" where
  "is_conn_complete (ConnComplete _) = True"
| "is_conn_complete _ = False"

subsection \<open>Eligible witness roots\<close>

datatype WitnessPolicy = Durable | IdenticalCopy

definition OPERATION_PSEUDO_REFS :: "ustr list" where
  "OPERATION_PSEUDO_REFS =
     [lit ''ORIG_HEAD'', lit ''MERGE_HEAD'', lit ''CHERRY_PICK_HEAD'', lit ''REVERT_HEAD'',
      lit ''REBASE_HEAD'', lit ''BISECT_HEAD'', lit ''FETCH_HEAD'', lit ''AUTO_MERGE'']"

definition OPERATION_NAMESPACES :: "ustr list" where
  "OPERATION_NAMESPACES = [lit ''refs/bisect/'', lit ''refs/rewritten/'', lit ''refs/gwz/'']"

definition is_temporary_operation_ref :: "ustr \<Rightarrow> bool" where
  "is_temporary_operation_ref name =
     (if prefix (lit ''refs/gwz/local-imports/'') name then False
      else name \<in> set OPERATION_PSEUDO_REFS \<or> list_ex (\<lambda>p. prefix p name) OPERATION_NAMESPACES)"

fun is_eligible_witness_root :: "RootSource \<Rightarrow> bool" where
  "is_eligible_witness_root SourceHead = True"
| "is_eligible_witness_root (SourceAnnotatedTag _) = True"
| "is_eligible_witness_root (SourceRef name) = (\<not> is_temporary_operation_ref name)"
| "is_eligible_witness_root _ = False"

fun is_eligible_witness_root_under :: "RootSource \<Rightarrow> WitnessPolicy \<Rightarrow> bool" where
  "is_eligible_witness_root_under (SourceReflog _ _) IdenticalCopy = True"
| "is_eligible_witness_root_under (SourceStash _) IdenticalCopy = True"
| "is_eligible_witness_root_under source _ = is_eligible_witness_root source"

subsection \<open>Costs, reasons and the budget\<close>

record TypeSizes =
  sizeof_ObjectId :: nat
  sizeof_ProtectedRoot :: nat
  sizeof_NodeState :: nat
  sizeof_Frame :: nat
  sizeof_usize :: nat

definition MAP_ENTRY_OVERHEAD :: nat where
  "MAP_ENTRY_OVERHEAD = 48"

definition oid_cost :: "TypeSizes \<Rightarrow> ObjectId \<Rightarrow> nat" where
  "oid_cost sz oid = sizeof_ObjectId sz + length (oid_bytes oid)"

fun source_name_len :: "RootSource \<Rightarrow> nat" where
  "source_name_len (SourceRef name) = utf8_len name"
| "source_name_len (SourceAnnotatedTag name) = utf8_len name"
| "source_name_len (SourceReflog reference _) = utf8_len reference"
| "source_name_len (SourceCoordinationRecord rec obj) = utf8_len rec + utf8_len obj"
| "source_name_len (SourceOther detail) = utf8_len detail"
| "source_name_len SourceHead = 0"
| "source_name_len (SourceStash _) = 0"

definition root_cost :: "TypeSizes \<Rightarrow> ProtectedRoot \<Rightarrow> nat" where
  "root_cost sz root =
     sizeof_ProtectedRoot sz + source_name_len (root_source root) + oid_cost sz (root_oid root)"

definition cancelled_reason :: UnknownReason where
  "cancelled_reason =
     unknown_reason Cancelled (lit ''history verification was cancelled before it completed'')"

definition read_reason :: "ReadError \<Rightarrow> UnknownReason" where
  "read_reason error =
     unknown_reason
       (case error of
          ReadLimitExceeded _ _ _ \<Rightarrow> LimitExceeded
        | ReadUnimplemented _ \<Rightarrow> UnimplementedObservation
        | _ \<Rightarrow> Unreadable)
       (show_read_error error)"

record Budget =
  budget_used :: nat
  budget_peak :: nat
  budget_limit :: nat

definition budget_new :: "nat \<Rightarrow> Budget" where
  "budget_new limit = \<lparr>budget_used = 0, budget_peak = 0, budget_limit = limit\<rparr>"

definition over_budget :: "Budget \<Rightarrow> UnknownReason" where
  "over_budget b =
     unknown_reason LimitExceeded
       (lit ''history verification bookkeeping reached '' @ show_nat (budget_used b) @
        lit '' bytes, above the '' @ show_nat (budget_limit b) @ lit '' byte limit'')"

definition charge :: "nat \<Rightarrow> Budget \<Rightarrow> UnknownReason + Budget" where
  "charge bytes b =
     (let used = saturating_add (budget_used b) bytes;
          b = b\<lparr>budget_used := used, budget_peak := max (budget_peak b) used\<rparr>
      in if used > budget_limit b then Inl (over_budget b) else Inr b)"

definition release :: "nat \<Rightarrow> Budget \<Rightarrow> Budget" where
  "release bytes b = b\<lparr>budget_used := saturating_sub (budget_used b) bytes\<rparr>"

subsection \<open>The verifier\<close>

datatype NodeState = NodeInProgress | NodeComplete | NodeIncomplete

record Frame =
  frame_oid :: ObjectId
  frame_edges :: "ObjectId list"
  frame_next :: nat
  frame_complete :: bool
  frame_missing :: "ObjectId option"
  frame_charged :: nat

record Verifier =
  ver_reader :: ObjectReader
  ver_cancellation :: "nat \<Rightarrow> bool"
  ver_polls :: nat
  ver_limits :: Limits
  ver_sizes :: TypeSizes
  ver_budget :: Budget
  ver_state :: "(ObjectId, NodeState) btree"
  ver_first_missing :: "(ObjectId, ObjectId) btree"
  ver_targets :: "ObjectId set"
  ver_origin :: "(ObjectId, nat) btree"
  ver_objects_visited :: u64
  ver_current_root :: nat

definition verifier_new :: "ObjectReader \<Rightarrow> (nat \<Rightarrow> bool) \<Rightarrow> nat \<Rightarrow> Limits \<Rightarrow> TypeSizes \<Rightarrow> Verifier" where
  "verifier_new reader cancellation polls limits sz =
     \<lparr>ver_reader = reader, ver_cancellation = cancellation, ver_polls = polls, ver_limits = limits,
      ver_sizes = sz, ver_budget = budget_new (max_bookkeeping_bytes limits), ver_state = bt_empty,
      ver_first_missing = bt_empty, ver_targets = {}, ver_origin = bt_empty,
      ver_objects_visited = 0, ver_current_root = 0\<rparr>"

definition ver_charge :: "nat \<Rightarrow> Verifier \<Rightarrow> UnknownReason + Verifier" where
  "ver_charge bytes v = and_then (charge bytes (ver_budget v)) (\<lambda>b. Inr (v\<lparr>ver_budget := b\<rparr>))"

definition taint :: "ObjectId option \<Rightarrow> Frame \<Rightarrow> Frame" where
  "taint missing f =
     f\<lparr>frame_complete := False,
       frame_missing := (if frame_missing f = None then missing else frame_missing f)\<rparr>"

definition record_origin :: "ObjectId \<Rightarrow> Verifier \<Rightarrow> UnknownReason + Verifier" where
  "record_origin oid v =
     (if oid \<in> ver_targets v \<and> bt_get (ver_origin v) oid = None
      then and_then (ver_charge (oid_cost (ver_sizes v) oid + sizeof_usize (ver_sizes v) + MAP_ENTRY_OVERHEAD) v)
             (\<lambda>v. Inr (v\<lparr>ver_origin := bt_insert oid (ver_current_root v) (ver_origin v)\<rparr>))
      else Inr v)"

definition open_present :: "ObjectId \<Rightarrow> ObjectRecord \<Rightarrow> Verifier \<Rightarrow> UnknownReason + Verifier \<times> Frame option" where
  "open_present oid rec v =
     (let v = v\<lparr>ver_objects_visited := ver_objects_visited v + 1,
                ver_state := bt_insert oid NodeInProgress (ver_state v)\<rparr>;
          charged = sizeof_Frame (ver_sizes v) + sum_list (map (oid_cost (ver_sizes v)) (record_edges rec))
      in and_then (record_origin oid v) (\<lambda>v.
         and_then (ver_charge charged v) (\<lambda>v.
           Inr (v, Some \<lparr>frame_oid = oid, frame_edges = record_edges rec, frame_next = 0,
                         frame_complete = True, frame_missing = None, frame_charged = charged\<rparr>))))"

definition open_missing :: "ObjectId \<Rightarrow> Verifier \<Rightarrow> UnknownReason + Verifier \<times> Frame option" where
  "open_missing oid v =
     (let v = v\<lparr>ver_state := bt_insert oid NodeIncomplete (ver_state v)\<rparr>
      in and_then (ver_charge (2 * oid_cost (ver_sizes v) oid + MAP_ENTRY_OVERHEAD) v) (\<lambda>v.
           Inr (v\<lparr>ver_first_missing := bt_insert oid oid (ver_first_missing v)\<rparr>, None)))"

definition open_object :: "ObjectId \<Rightarrow> Verifier \<Rightarrow> UnknownReason + Verifier \<times> Frame option" where
  "open_object oid v =
     (let cancelled = ver_cancellation v (ver_polls v); v = v\<lparr>ver_polls := ver_polls v + 1\<rparr>
      in if cancelled then Inl cancelled_reason
      else and_then (ver_charge (oid_cost (ver_sizes v) oid + sizeof_NodeState (ver_sizes v) + MAP_ENTRY_OVERHEAD) v)
        (\<lambda>v. case read_object (ver_reader v) oid (limit_reads (ver_limits v)) of
               Inr rec \<Rightarrow> open_present oid rec v
             | Inl (ReadMissing _) \<Rightarrow> open_missing oid v
             | Inl error \<Rightarrow> Inl (read_reason error)))"

text \<open>
  One turn of the loop of \<open>walk\<close>; the top of the stack is the head of the list. The first branch
  follows the next edge of the top frame, the second one pops it.
\<close>

definition follow_edge ::
    "ObjectId \<Rightarrow> Frame \<Rightarrow> Frame list \<Rightarrow> Verifier \<Rightarrow> UnknownReason + Verifier \<times> Frame list" where
  "follow_edge child frm rest v =
     (case bt_get (ver_state v) child of
        Some NodeIncomplete \<Rightarrow>
          (let missing = (case bt_get (ver_first_missing v) child of Some m \<Rightarrow> Some m | None \<Rightarrow> Some child)
           in Inr (v, taint missing frm # rest))
      | Some _ \<Rightarrow> Inr (v, frm # rest)
      | None \<Rightarrow> and_then (open_object child v) (\<lambda>(v, opened).
          case opened of
            Some frame \<Rightarrow> Inr (v, frame # frm # rest)
          | None \<Rightarrow> Inr (v, taint (Some child) frm # rest)))"

definition node_of :: "Frame \<Rightarrow> NodeState" where
  "node_of f = (if frame_complete f then NodeComplete else NodeIncomplete)"

definition record_missing :: "Frame \<Rightarrow> Verifier \<Rightarrow> UnknownReason + Verifier" where
  "record_missing f v =
     (case (node_of f, frame_missing f) of
        (NodeIncomplete, Some missing) \<Rightarrow>
          and_then (ver_charge (oid_cost (ver_sizes v) missing + oid_cost (ver_sizes v) (frame_oid f) +
                                MAP_ENTRY_OVERHEAD) v)
            (\<lambda>v. Inr (v\<lparr>ver_first_missing := bt_insert (frame_oid f) missing (ver_first_missing v)\<rparr>))
      | _ \<Rightarrow> Inr v)"

definition taint_parent :: "Frame \<Rightarrow> Frame list \<Rightarrow> Frame list" where
  "taint_parent f rest =
     (case rest of
        parent # below \<Rightarrow>
          (if node_of f = NodeIncomplete then taint (frame_missing f) parent # below else rest)
      | [] \<Rightarrow> [])"

definition pop_frame :: "Frame \<Rightarrow> Frame list \<Rightarrow> Verifier \<Rightarrow> UnknownReason + Verifier \<times> Frame list" where
  "pop_frame f rest v =
     (let v = v\<lparr>ver_budget := release (frame_charged f) (ver_budget v),
                ver_state := bt_insert (frame_oid f) (node_of f) (ver_state v)\<rparr>
      in and_then (record_missing f v) (\<lambda>v. Inr (v, taint_parent f rest)))"

fun walk_step :: "Verifier \<times> Frame list \<Rightarrow> UnknownReason + Verifier \<times> Frame list" where
  "walk_step (v, frm # rest) =
     (if frame_next frm < length (frame_edges frm)
      then follow_edge (frame_edges frm ! frame_next frm)
             (frm\<lparr>frame_next := frame_next frm + 1\<rparr>) rest v
      else pop_frame frm rest v)"
| "walk_step (v, []) = Inr (v, [])"

fun walking :: "UnknownReason + Verifier \<times> Frame list \<Rightarrow> bool" where
  "walking (Inr (v, stack)) = (stack \<noteq> [])"
| "walking (Inl _) = False"

definition walk_loop ::
    "Verifier \<times> Frame list \<Rightarrow> (UnknownReason + Verifier \<times> Frame list) option" where
  "walk_loop s = while_option walking (\<lambda>r. and_then r walk_step) (Inr s)"

definition walk_object :: "ObjectId \<Rightarrow> Verifier \<Rightarrow> (UnknownReason + Verifier) option" where
  "walk_object start v =
     (if bt_get (ver_state v) start \<noteq> None then Some (Inr v)
      else case open_object start v of
        Inl reason \<Rightarrow> Some (Inl reason)
      | Inr (v, None) \<Rightarrow> Some (Inr v)
      | Inr (v, Some frame) \<Rightarrow>
          map_option (\<lambda>r. and_then r (\<lambda>(v, _). Inr v)) (walk_loop (v, [frame])))"

fun run_targets :: "ProtectedRoot list \<Rightarrow> Verifier \<Rightarrow> UnknownReason + Verifier" where
  "run_targets [] v = Inr v"
| "run_targets (root # roots) v =
     and_then (ver_charge (oid_cost (ver_sizes v) (root_oid root) + MAP_ENTRY_OVERHEAD) v) (\<lambda>v.
       run_targets roots (v\<lparr>ver_targets := insert (root_oid root) (ver_targets v)\<rparr>))"

fun run_charges :: "ProtectedRoot list \<Rightarrow> Verifier \<Rightarrow> UnknownReason + Verifier" where
  "run_charges [] v = Inr v"
| "run_charges (root # roots) v =
     and_then (ver_charge (root_cost (ver_sizes v) root) v) (run_charges roots)"

fun run_walks :: "nat \<Rightarrow> ProtectedRoot list \<Rightarrow> Verifier \<Rightarrow> (UnknownReason + Verifier) option" where
  "run_walks index [] v = Some (Inr v)"
| "run_walks index (root # roots) v =
     (case walk_object (root_oid root) (v\<lparr>ver_current_root := index\<rparr>) of
        None \<Rightarrow> None
      | Some (Inl reason) \<Rightarrow> Some (Inl reason)
      | Some (Inr v) \<Rightarrow> run_walks (Suc index) roots v)"

definition run ::
    "ProtectedRoots \<Rightarrow> ProtectedRoot list \<Rightarrow> Verifier \<Rightarrow> (UnknownReason + Verifier) option" where
  "run protected eligible v =
     (case and_then (run_targets (protected_roots protected) v) (run_charges eligible) of
        Inl reason \<Rightarrow> Some (Inl reason)
      | Inr v \<Rightarrow> run_walks 0 eligible v)"

subsection \<open>Conclusions\<close>

definition attribution :: "Witness list \<Rightarrow> RepoKey option" where
  "attribution witnesses = (case witnesses of [only] \<Rightarrow> Some (witness_repository only) | _ \<Rightarrow> None)"

definition nth_opt :: "'a list \<Rightarrow> nat \<Rightarrow> 'a option" where
  "nth_opt xs i = (if i < length xs then Some (xs ! i) else None)"

definition conclude_root ::
    "Verifier \<Rightarrow> Witness list \<Rightarrow> ProtectedRoot list \<Rightarrow> ProtectedRoot \<Rightarrow> UnpreservedItem + RootCoverage" where
  "conclude_root v witnesses eligible root =
     (case bt_get (ver_state v) (root_oid root) of
        Some NodeComplete \<Rightarrow>
          (case Option.bind (bt_get (ver_origin v) (root_oid root)) (nth_opt eligible) of
             Some witness_root \<Rightarrow>
               Inr \<lparr>coverage_root = root, coverage_witness = attribution witnesses,
                    coverage_witness_root = witness_root\<rparr>
           | None \<Rightarrow>
               Inl \<lparr>unpreserved_root = root, unpreserved_missing = None,
                    unpreserved_detail = lit ''coverage of '' @ show_oid (root_oid root) @
                      lit '' could not be attributed to a witness root''\<rparr>)
      | Some _ \<Rightarrow>
          Inl \<lparr>unpreserved_root = root,
               unpreserved_missing = bt_get (ver_first_missing v) (root_oid root),
               unpreserved_detail = lit ''the witness graph below '' @ show_oid (root_oid root) @
                 lit '' is incomplete; the history is not self-contained there''\<rparr>
      | None \<Rightarrow>
          Inl \<lparr>unpreserved_root = root, unpreserved_missing = None,
               unpreserved_detail = lit ''no eligible retained witness root reaches '' @
                 show_oid (root_oid root)\<rparr>)"

fun lefts :: "('a + 'b) list \<Rightarrow> 'a list" where
  "lefts [] = []"
| "lefts (Inl a # xs) = a # lefts xs"
| "lefts (Inr _ # xs) = lefts xs"

fun rights :: "('a + 'b) list \<Rightarrow> 'b list" where
  "rights [] = []"
| "rights (Inl _ # xs) = rights xs"
| "rights (Inr b # xs) = b # rights xs"

definition conclude ::
    "ProtectedRoots \<Rightarrow> Witness list \<Rightarrow> ProtectedRoot list \<Rightarrow> Verifier \<Rightarrow> HistoryOutcome" where
  "conclude protected witnesses eligible v =
     (let answers = map (conclude_root v witnesses eligible) (protected_roots protected);
          covered = rights answers; unpreserved = lefts answers
      in if unpreserved \<noteq> [] then Unpreserved unpreserved
         else Verified
           \<lparr>cov_roots_checked = length (protected_roots protected),
            cov_objects_visited = ver_objects_visited v,
            cov_witnesses_used = map witness_repository witnesses,
            cov_bookkeeping_bytes = budget_peak (ver_budget v),
            cov_covered = covered\<rparr>)"

fun missing_under :: "Verifier \<Rightarrow> ProtectedRoot list \<Rightarrow> MissingObject list" where
  "missing_under v [] = []"
| "missing_under v (root # roots) =
     (if bt_get (ver_state v) (root_oid root) = Some NodeComplete then missing_under v roots
      else \<lparr>missing_root = root,
            missing_oid = (case bt_get (ver_first_missing v) (root_oid root) of
                             Some m \<Rightarrow> m | None \<Rightarrow> root_oid root)\<rparr> # missing_under v roots)"

definition conclude_connectivity :: "ProtectedRoots \<Rightarrow> Verifier \<Rightarrow> ConnectivityOutcome" where
  "conclude_connectivity protected v =
     (let missing = missing_under v (protected_roots protected)
      in if missing \<noteq> [] then ConnIncomplete missing
         else ConnComplete
           \<lparr>conn_roots_checked = length (protected_roots protected),
            conn_objects_visited = ver_objects_visited v,
            conn_bookkeeping_bytes = budget_peak (ver_budget v)\<rparr>)"

subsection \<open>Entry points\<close>

definition root_limit_reason :: "ProtectedRoots \<Rightarrow> Limits \<Rightarrow> UnknownReason" where
  "root_limit_reason protected limits =
     unknown_reason LimitExceeded
       (show_nat (length (protected_roots protected)) @ lit '' protected roots exceed the '' @
        show_nat (max_roots limits) @ lit '' root limit'')"

definition unsupported_root :: "ProtectedRoot \<Rightarrow> UnknownReason list" where
  "unsupported_root root =
     (case root_source root of
        SourceOther detail \<Rightarrow>
          [unknown_reason UnsupportedEvidence
             (lit ''protected root '' @ show_oid (root_oid root) @
              lit '' is evidence this verifier does not interpret: '' @ detail)]
      | _ \<Rightarrow> [])"

definition unsupported_roots :: "ProtectedRoots \<Rightarrow> UnknownReason list" where
  "unsupported_roots protected = concat (map unsupported_root (protected_roots protected))"

definition no_witness_item :: "ProtectedRoot \<Rightarrow> UnpreservedItem" where
  "no_witness_item root =
     \<lparr>unpreserved_root = root, unpreserved_missing = None,
      unpreserved_detail = lit ''no surviving witness repository was offered for '' @
        show_oid (root_oid root)\<rparr>"

definition eligible_roots :: "ProtectedRoots \<Rightarrow> WitnessPolicy \<Rightarrow> ProtectedRoot list" where
  "eligible_roots retained policy =
     filter (\<lambda>root. is_eligible_witness_root_under (root_source root) policy) (protected_roots retained)"

definition witness_limit_reason :: "ProtectedRoots \<Rightarrow> ProtectedRoot list \<Rightarrow> Limits \<Rightarrow> UnknownReason" where
  "witness_limit_reason protected eligible limits =
     unknown_reason LimitExceeded
       (show_nat (length (protected_roots protected)) @ lit '' protected and '' @
        show_nat (length eligible) @ lit '' witness roots exceed the '' @
        show_nat (max_roots limits) @ lit '' root limit'')"

definition verify_history ::
    "TypeSizes \<Rightarrow> ProtectedRoots \<Rightarrow> Witness list \<Rightarrow> ObjectReader \<Rightarrow> Limits \<Rightarrow> (nat \<Rightarrow> bool) \<Rightarrow>
     ProtectedRoot list \<Rightarrow> HistoryOutcome option" where
  "verify_history sz protected witnesses reader limits cancellation eligible =
     map_option
       (\<lambda>r. case r of
              Inl reason \<Rightarrow> HistoryUnknown [reason]
            | Inr v \<Rightarrow> conclude protected witnesses eligible v)
       (run protected eligible (verifier_new reader cancellation 1 limits sz))"

definition check_history_under ::
    "TypeSizes \<Rightarrow> ProtectedRoots \<Rightarrow> Witness list \<Rightarrow> ObjectReader \<Rightarrow> Limits \<Rightarrow> (nat \<Rightarrow> bool) \<Rightarrow>
     WitnessPolicy \<Rightarrow> HistoryOutcome option" where
  "check_history_under sz protected witnesses reader limits cancellation policy =
     (if cancellation 0 then Some (HistoryUnknown [cancelled_reason])
      else if length (protected_roots protected) > max_roots limits
      then Some (HistoryUnknown [root_limit_reason protected limits])
      else if unsupported_roots protected \<noteq> [] then Some (HistoryUnknown (unsupported_roots protected))
      else if protected_roots protected = [] then Some (Verified default_coverage)
      else if witnesses = [] then Some (Unpreserved (map no_witness_item (protected_roots protected)))
      else case retained_roots reader of
        Inl error \<Rightarrow> Some (HistoryUnknown [read_reason error])
      | Inr retained \<Rightarrow>
          (let eligible = eligible_roots retained policy in
           if length (protected_roots protected) + length eligible > max_roots limits
           then Some (HistoryUnknown [witness_limit_reason protected eligible limits])
           else verify_history sz protected witnesses reader limits cancellation eligible))"

definition check_history ::
    "TypeSizes \<Rightarrow> ProtectedRoots \<Rightarrow> Witness list \<Rightarrow> ObjectReader \<Rightarrow> Limits \<Rightarrow> (nat \<Rightarrow> bool) \<Rightarrow>
     HistoryOutcome option" where
  "check_history sz protected witnesses reader limits cancellation =
     check_history_under sz protected witnesses reader limits cancellation Durable"

definition check_connectivity ::
    "TypeSizes \<Rightarrow> ProtectedRoots \<Rightarrow> ObjectReader \<Rightarrow> Limits \<Rightarrow> (nat \<Rightarrow> bool) \<Rightarrow>
     ConnectivityOutcome option" where
  "check_connectivity sz protected reader limits cancellation =
     (if cancellation 0 then Some (ConnUnknown [cancelled_reason])
      else if \<not> is_complete protected then Some (ConnUnknown (protected_unknown protected))
      else if length (protected_roots protected) > max_roots limits
      then Some (ConnUnknown [root_limit_reason protected limits])
      else if unsupported_roots protected \<noteq> [] then Some (ConnUnknown (unsupported_roots protected))
      else if protected_roots protected = []
      then Some (ConnComplete \<lparr>conn_roots_checked = 0, conn_objects_visited = 0, conn_bookkeeping_bytes = 0\<rparr>)
      else map_option
        (\<lambda>r. case r of
               Inl reason \<Rightarrow> ConnUnknown [reason]
             | Inr v \<Rightarrow> conclude_connectivity protected v)
        (run protected (protected_roots protected) (verifier_new reader cancellation 1 limits sz)))"

end
