(* ===== verification/History_Walk.thy ===== *)
theory History_Walk
  imports History_Check
begin

text \<open>
  The walk of the history verifier against the object graph it reads: what the memo table, the
  frames on the stack and the recorded origins say about the graph while the walk runs, that every
  step keeps it, and what follows when the walk returns.
\<close>

subsection \<open>The object graph of a store\<close>

definition edges_of :: "ObjectReader \<Rightarrow> ReadLimits \<Rightarrow> ObjectId \<Rightarrow> ObjectId list" where
  "edges_of rd rl oid = (case read_object rd oid rl of Inr rec \<Rightarrow> record_edges rec | Inl _ \<Rightarrow> [])"

definition present :: "ObjectReader \<Rightarrow> ReadLimits \<Rightarrow> ObjectId \<Rightarrow> bool" where
  "present rd rl oid \<longleftrightarrow> (\<exists>rec. read_object rd oid rl = Inr rec)"

definition absent :: "ObjectReader \<Rightarrow> ReadLimits \<Rightarrow> ObjectId \<Rightarrow> bool" where
  "absent rd rl oid \<longleftrightarrow> (\<exists>x. read_object rd oid rl = Inl (ReadMissing x))"

definition graph :: "ObjectReader \<Rightarrow> ReadLimits \<Rightarrow> (ObjectId \<times> ObjectId) set" where
  "graph rd rl = {(a, b). b \<in> set (edges_of rd rl a)}"

definition reaches :: "ObjectReader \<Rightarrow> ReadLimits \<Rightarrow> ObjectId \<Rightarrow> ObjectId \<Rightarrow> bool" where
  "reaches rd rl a b \<longleftrightarrow> (a, b) \<in> (graph rd rl)\<^sup>*"

text \<open>An object is whole when everything it reaches can be read.\<close>

definition whole :: "ObjectReader \<Rightarrow> ReadLimits \<Rightarrow> ObjectId \<Rightarrow> bool" where
  "whole rd rl oid \<longleftrightarrow> (\<forall>b. reaches rd rl oid b \<longrightarrow> present rd rl b)"

lemma reaches_refl [simp]: "reaches rd rl a a"
  by (simp add: reaches_def)

lemma reaches_step: "c \<in> set (edges_of rd rl a) \<Longrightarrow> reaches rd rl c b \<Longrightarrow> reaches rd rl a b"
  unfolding reaches_def graph_def by (rule converse_rtrancl_into_rtrancl) simp_all

lemma reaches_snoc: "reaches rd rl a b \<Longrightarrow> c \<in> set (edges_of rd rl b) \<Longrightarrow> reaches rd rl a c"
  unfolding reaches_def graph_def by (rule rtrancl_into_rtrancl) simp_all

lemma absent_not_present: "absent rd rl m \<Longrightarrow> \<not> present rd rl m"
  by (auto simp: absent_def present_def)

lemma not_whole: "reaches rd rl a m \<Longrightarrow> absent rd rl m \<Longrightarrow> \<not> whole rd rl a"
  using absent_not_present by (auto simp: whole_def)

lemma closed_reaches:
  assumes "reaches rd rl a b" "P a" "\<And>x c. P x \<Longrightarrow> c \<in> set (edges_of rd rl x) \<Longrightarrow> P c"
  shows "P b"
  using assms(1) unfolding reaches_def by (induction rule: rtrancl_induct) (auto simp: graph_def assms)

subsection \<open>What the verifier knows\<close>

abbreviation node :: "Verifier \<Rightarrow> ObjectId \<Rightarrow> NodeState option" where
  "node v \<equiv> bt_get (ver_state v)"

abbreviation lost :: "Verifier \<Rightarrow> ObjectId \<Rightarrow> ObjectId option" where
  "lost v \<equiv> bt_get (ver_first_missing v)"

abbreviation origin :: "Verifier \<Rightarrow> ObjectId \<Rightarrow> nat option" where
  "origin v \<equiv> bt_get (ver_origin v)"

definition serves :: "ObjectReader \<Rightarrow> ReadLimits \<Rightarrow> Verifier \<Rightarrow> bool" where
  "serves rd rl v \<longleftrightarrow> ver_reader v = rd \<and> limit_reads (ver_limits v) = rl"

text \<open>A decided object is complete with complete children, or incomplete with a lost object below.\<close>

definition nodes_ok :: "ObjectReader \<Rightarrow> ReadLimits \<Rightarrow> Verifier \<Rightarrow> bool" where
  "nodes_ok rd rl v \<longleftrightarrow> (\<forall>x.
     (node v x = Some NodeComplete \<longrightarrow>
        present rd rl x \<and> (\<forall>c \<in> set (edges_of rd rl x). node v c = Some NodeComplete)) \<and>
     (node v x = Some NodeIncomplete \<longrightarrow>
        (\<exists>m. lost v x = Some m \<and> reaches rd rl x m \<and> absent rd rl m) \<and>
        (\<forall>c \<in> set (edges_of rd rl x). node v c \<noteq> None)))"

text \<open>
  A frame has followed a prefix of its object's edges. Each followed child is complete, or incomplete
  with the frame tainted, or the object of the frame above.
\<close>

definition frame_ok :: "ObjectReader \<Rightarrow> ReadLimits \<Rightarrow> Verifier \<Rightarrow> ObjectId option \<Rightarrow> Frame \<Rightarrow> bool" where
  "frame_ok rd rl v upper f \<longleftrightarrow>
     present rd rl (frame_oid f) \<and> frame_edges f = edges_of rd rl (frame_oid f) \<and>
     (\<forall>c \<in> set (take (frame_next f) (frame_edges f)).
        node v c = Some NodeComplete \<or> (node v c = Some NodeIncomplete \<and> \<not> frame_complete f) \<or>
        upper = Some c) \<and>
     (\<forall>m. frame_missing f = Some m \<longrightarrow> reaches rd rl (frame_oid f) m \<and> absent rd rl m) \<and>
     (\<not> frame_complete f \<longrightarrow> frame_missing f \<noteq> None) \<and>
     (\<forall>c. upper = Some c \<longrightarrow> c \<in> set (frame_edges f))"

fun stack_ok :: "ObjectReader \<Rightarrow> ReadLimits \<Rightarrow> Verifier \<Rightarrow> ObjectId option \<Rightarrow> Frame list \<Rightarrow> bool" where
  "stack_ok rd rl v upper [] = True"
| "stack_ok rd rl v upper (f # fs) =
     (frame_ok rd rl v upper f \<and> stack_ok rd rl v (Some (frame_oid f)) fs)"

definition progress_ok :: "Verifier \<Rightarrow> Frame list \<Rightarrow> bool" where
  "progress_ok v stack \<longleftrightarrow>
     distinct (map frame_oid stack) \<and>
     (\<forall>x. node v x = Some NodeInProgress \<longleftrightarrow> x \<in> set (map frame_oid stack))"

text \<open>Every object met is reached from an eligible root, and protected ones remember from which.\<close>

definition root_reaches ::
    "ObjectReader \<Rightarrow> ReadLimits \<Rightarrow> ProtectedRoot list \<Rightarrow> nat \<Rightarrow> ObjectId \<Rightarrow> bool" where
  "root_reaches rd rl eligible i x \<longleftrightarrow>
     i < length eligible \<and> reaches rd rl (root_oid (eligible ! i)) x"

definition reach_ok :: "ObjectReader \<Rightarrow> ReadLimits \<Rightarrow> ProtectedRoot list \<Rightarrow> Verifier \<Rightarrow> bool" where
  "reach_ok rd rl eligible v \<longleftrightarrow>
     (\<forall>x. node v x \<noteq> None \<longrightarrow> (\<exists>i. root_reaches rd rl eligible i x)) \<and>
     (\<forall>x i. origin v x = Some i \<longrightarrow> root_reaches rd rl eligible i x) \<and>
     (\<forall>x. x \<in> ver_targets v \<longrightarrow> node v x \<noteq> None \<longrightarrow> present rd rl x \<longrightarrow> origin v x \<noteq> None)"

definition stack_reached :: "ObjectReader \<Rightarrow> ReadLimits \<Rightarrow> ProtectedRoot list \<Rightarrow> Verifier \<Rightarrow> Frame list \<Rightarrow> bool" where
  "stack_reached rd rl eligible v stack \<longleftrightarrow>
     (\<forall>f \<in> set stack. root_reaches rd rl eligible (ver_current_root v) (frame_oid f))"

definition walk_inv ::
    "ObjectReader \<Rightarrow> ReadLimits \<Rightarrow> ProtectedRoot list \<Rightarrow> ObjectId set \<Rightarrow> Verifier \<times> Frame list \<Rightarrow> bool" where
  "walk_inv rd rl eligible met = (\<lambda>(v, stack).
     serves rd rl v \<and> nodes_ok rd rl v \<and> stack_ok rd rl v None stack \<and> progress_ok v stack \<and>
     reach_ok rd rl eligible v \<and> stack_reached rd rl eligible v stack \<and> met \<subseteq> {x. node v x \<noteq> None})"

subsection \<open>Opening an object\<close>

lemma ver_charge_fields:
  assumes "ver_charge n v = Inr v'"
  obtains b where "v' = v\<lparr>ver_budget := b\<rparr>"
  using assms by (auto simp: ver_charge_def and_then_eq_Inr)

lemma record_origin_fields:
  assumes "record_origin x v = Inr v'"
  obtains b where "v' = v\<lparr>ver_budget := b,
    ver_origin := (if x \<in> ver_targets v \<and> origin v x = None
                   then bt_insert x (ver_current_root v) (ver_origin v) else ver_origin v)\<rparr>"
proof (cases "x \<in> ver_targets v \<and> origin v x = None")
  case True
  then obtain w where "ver_charge (oid_cost (ver_sizes v) x + sizeof_usize (ver_sizes v) + MAP_ENTRY_OVERHEAD) v = Inr w"
    "v' = w\<lparr>ver_origin := bt_insert x (ver_current_root w) (ver_origin w)\<rparr>"
    using assms by (auto simp: record_origin_def and_then_eq_Inr)
  then show ?thesis
    using True that by (elim ver_charge_fields) simp
next
  case False
  then have "v' = v"
    using assms by (auto simp: record_origin_def)
  with False show ?thesis
    using that [of "ver_budget v"] by auto
qed

lemma open_present_fields:
  assumes "open_present x rec v = Inr (v', opened)"
  obtains b charged where
    "v' = v\<lparr>ver_objects_visited := ver_objects_visited v + 1,
            ver_state := bt_insert x NodeInProgress (ver_state v), ver_budget := b,
            ver_origin := (if x \<in> ver_targets v \<and> origin v x = None
                           then bt_insert x (ver_current_root v) (ver_origin v) else ver_origin v)\<rparr>"
    "opened = Some \<lparr>frame_oid = x, frame_edges = record_edges rec, frame_next = 0,
                    frame_complete = True, frame_missing = None, frame_charged = charged\<rparr>"
proof -
  define w where "w = v\<lparr>ver_objects_visited := ver_objects_visited v + 1,
                         ver_state := bt_insert x NodeInProgress (ver_state v)\<rparr>"
  from assms obtain u charged where "record_origin x w = Inr u" "ver_charge charged u = Inr v'"
    and opened: "opened = Some \<lparr>frame_oid = x, frame_edges = record_edges rec, frame_next = 0,
                    frame_complete = True, frame_missing = None, frame_charged = charged\<rparr>"
    by (auto simp: open_present_def w_def and_then_eq_Inr Let_def)
  then obtain b b' where
    "u = w\<lparr>ver_budget := b, ver_origin := (if x \<in> ver_targets w \<and> origin w x = None
       then bt_insert x (ver_current_root w) (ver_origin w) else ver_origin w)\<rparr>"
    "v' = u\<lparr>ver_budget := b'\<rparr>"
    by (metis record_origin_fields ver_charge_fields)
  then show ?thesis
    using opened by (intro that [of b' charged]) (simp_all add: w_def)
qed

lemma open_missing_fields:
  assumes "open_missing x v = Inr (v', opened)"
  obtains b where
    "v' = v\<lparr>ver_state := bt_insert x NodeIncomplete (ver_state v), ver_budget := b,
            ver_first_missing := bt_insert x x (ver_first_missing v)\<rparr>" "opened = None"
  using assms that
  by (auto simp: open_missing_def and_then_eq_Inr Let_def elim!: ver_charge_fields)

lemma open_object_cases:
  assumes "open_object x v = Inr (v', opened)" "serves rd rl v"
  obtains (found) rec b charged where
      "read_object rd x rl = Inr rec"
      "v' = v\<lparr>ver_polls := ver_polls v + 1, ver_objects_visited := ver_objects_visited v + 1,
              ver_state := bt_insert x NodeInProgress (ver_state v), ver_budget := b,
              ver_origin := (if x \<in> ver_targets v \<and> origin v x = None
                             then bt_insert x (ver_current_root v) (ver_origin v) else ver_origin v)\<rparr>"
      "opened = Some \<lparr>frame_oid = x, frame_edges = record_edges rec, frame_next = 0,
                      frame_complete = True, frame_missing = None, frame_charged = charged\<rparr>"
    | (gone) y b where
      "read_object rd x rl = Inl (ReadMissing y)"
      "v' = v\<lparr>ver_polls := ver_polls v + 1,
              ver_state := bt_insert x NodeIncomplete (ver_state v), ver_budget := b,
              ver_first_missing := bt_insert x x (ver_first_missing v)\<rparr>"
      "opened = None"
proof -
  define w where "w = v\<lparr>ver_polls := ver_polls v + 1\<rparr>"
  from assms(1) obtain u where
    u: "ver_charge (oid_cost (ver_sizes w) x + sizeof_NodeState (ver_sizes w) + MAP_ENTRY_OVERHEAD) w = Inr u"
    and rest: "(case read_object (ver_reader u) x (limit_reads (ver_limits u)) of
               Inr rec \<Rightarrow> open_present x rec u
             | Inl (ReadMissing _) \<Rightarrow> open_missing x u
             | Inl error \<Rightarrow> Inl (read_reason error)) = Inr (v', opened)"
    by (auto simp: open_object_def w_def and_then_eq_Inr Let_def split: if_splits)
  from u obtain b where b: "u = w\<lparr>ver_budget := b\<rparr>"
    by (elim ver_charge_fields)
  then have rd: "ver_reader u = rd" "limit_reads (ver_limits u) = rl"
    using assms(2) by (auto simp: serves_def w_def)
  show ?thesis
  proof (cases "read_object rd x rl")
    case (Inr rec)
    then have "open_present x rec u = Inr (v', opened)"
      using rest rd by simp
    then show ?thesis
    proof (rule open_present_fields)
      fix b' charged
      assume "v' = u\<lparr>ver_objects_visited := ver_objects_visited u + 1,
            ver_state := bt_insert x NodeInProgress (ver_state u), ver_budget := b',
            ver_origin := (if x \<in> ver_targets u \<and> origin u x = None
                           then bt_insert x (ver_current_root u) (ver_origin u) else ver_origin u)\<rparr>"
        "opened = Some \<lparr>frame_oid = x, frame_edges = record_edges rec, frame_next = 0,
                    frame_complete = True, frame_missing = None, frame_charged = charged\<rparr>"
      then show ?thesis
        by (intro found [OF Inr, of b' charged]) (simp_all add: b w_def)
    qed
  next
    case (Inl e)
    with rest rd obtain y where y: "e = ReadMissing y" and m: "open_missing x u = Inr (v', opened)"
      by (cases e) auto
    from m show ?thesis
    proof (rule open_missing_fields)
      fix b'
      assume "v' = u\<lparr>ver_state := bt_insert x NodeIncomplete (ver_state u), ver_budget := b',
            ver_first_missing := bt_insert x x (ver_first_missing u)\<rparr>" "opened = None"
      then show ?thesis
        by (intro gone [of y b']) (simp_all add: Inl y b w_def)
    qed
  qed
qed

subsection \<open>Every step keeps the invariant\<close>

text \<open>Facts about decided objects survive a change of one object that was not decided.\<close>

definition decided_kept :: "Verifier \<Rightarrow> Verifier \<Rightarrow> bool" where
  "decided_kept v v' \<longleftrightarrow>
     (\<forall>x s. s \<noteq> NodeInProgress \<longrightarrow> node v x = Some s \<longrightarrow> node v' x = Some s)"

lemma decided_keptI:
  assumes "ver_state v' = bt_insert x s (ver_state v)" "node v x \<in> {None, Some NodeInProgress}"
  shows "decided_kept v v'"
  using assms by (auto simp: decided_kept_def bt.get_insert)

lemma frame_ok_kept: "frame_ok rd rl v up f \<Longrightarrow> decided_kept v v' \<Longrightarrow> frame_ok rd rl v' up f"
  unfolding frame_ok_def decided_kept_def by blast

lemma stack_ok_kept: "stack_ok rd rl v up fs \<Longrightarrow> decided_kept v v' \<Longrightarrow> stack_ok rd rl v' up fs"
  by (induction fs arbitrary: up) (auto intro: frame_ok_kept)

lemma stack_path:
  assumes "stack_ok rd rl v up (f # fs)" "g \<in> set fs"
  shows "(frame_oid g, frame_oid f) \<in> (graph rd rl)\<^sup>+"
  using assms
proof (induction fs arbitrary: up f)
  case (Cons h fs)
  then have "frame_oid f \<in> set (edges_of rd rl (frame_oid h))"
    by (auto simp: frame_ok_def)
  then have step: "(frame_oid h, frame_oid f) \<in> (graph rd rl)\<^sup>+"
    by (auto simp: graph_def)
  show ?case
  proof (cases "g = h")
    case False
    then have "(frame_oid g, frame_oid h) \<in> (graph rd rl)\<^sup>+"
      using Cons.prems Cons.IH [of "Some (frame_oid f)" h] by simp
    then show ?thesis
      using step by (rule trancl_trans)
  qed (simp add: step)
qed simp

text \<open>In a graph without cycles no edge of the top frame leads back into the stack.\<close>

lemma no_back_edge:
  assumes "acyclic (graph rd rl)" "stack_ok rd rl v up (f # fs)" "c \<in> set (edges_of rd rl (frame_oid f))"
  shows "c \<notin> set (map frame_oid (f # fs))"
proof
  assume "c \<in> set (map frame_oid (f # fs))"
  then obtain g where g: "g \<in> set (f # fs)" "c = frame_oid g"
    by auto
  have "(frame_oid f, c) \<in> (graph rd rl)\<^sup>+"
    using assms(3) by (auto simp: graph_def)
  moreover have "c = frame_oid f \<or> (c, frame_oid f) \<in> (graph rd rl)\<^sup>+"
    using g stack_path [OF assms(2)] by auto
  ultimately have "(c, c) \<in> (graph rd rl)\<^sup>+"
    by (auto intro: trancl_trans)
  then show False
    using assms(1) by (simp add: acyclic_def)
qed

lemma take_next_edge:
  "i < length xs \<Longrightarrow> set (take (Suc i) xs) = insert (xs ! i) (set (take i xs))"
  by (simp add: take_Suc_conv_app_nth)

text \<open>Moving a frame past its next edge, with or without taint.\<close>

lemma frame_ok_advance:
  assumes "frame_ok rd rl v None f" "frame_next f < length (frame_edges f)"
    and "c = frame_edges f ! frame_next f" "f' = f\<lparr>frame_next := frame_next f + 1\<rparr>"
    and "node v c = Some NodeComplete"
  shows "frame_ok rd rl v None f'"
  using assms by (auto simp: frame_ok_def take_next_edge)

lemma frame_ok_taint:
  assumes "frame_ok rd rl v None f" "frame_next f < length (frame_edges f)"
    and "c = frame_edges f ! frame_next f" "f' = f\<lparr>frame_next := frame_next f + 1\<rparr>"
    and "node v c = Some NodeIncomplete" "reaches rd rl c m" "absent rd rl m"
  shows "frame_ok rd rl v None (taint (Some m) f')"
proof -
  have "c \<in> set (edges_of rd rl (frame_oid f))"
    using assms(1-3) by (auto simp: frame_ok_def)
  then have "reaches rd rl (frame_oid f) m"
    using assms(6) by (rule reaches_step)
  then show ?thesis
    using assms by (auto simp: frame_ok_def take_next_edge taint_def)
qed

lemma frame_ok_push:
  assumes "frame_ok rd rl v None f" "frame_next f < length (frame_edges f)"
    and "c = frame_edges f ! frame_next f" "f' = f\<lparr>frame_next := frame_next f + 1\<rparr>"
  shows "frame_ok rd rl v (Some c) f'"
  using assms by (auto simp: frame_ok_def take_next_edge)

lemma edges_of_gone: "read_object rd x rl = Inl e \<Longrightarrow> edges_of rd rl x = []"
  by (simp add: edges_of_def)

lemma open_kept:
  assumes "open_object x v = Inr (v', opened)" "serves rd rl v" "node v x = None"
  shows "decided_kept v v'" "serves rd rl v'" "ver_current_root v' = ver_current_root v"
    "ver_targets v' = ver_targets v" "node v' x \<noteq> None" "\<And>y. node v y \<noteq> None \<Longrightarrow> node v' y \<noteq> None"
proof -
  obtain s where s: "ver_state v' = bt_insert x s (ver_state v)" "serves rd rl v'"
    "ver_current_root v' = ver_current_root v" "ver_targets v' = ver_targets v"
    using assms(1,2)
  proof (cases rule: open_object_cases)
    case found
    then show ?thesis
      using assms(2) by (intro that [of NodeInProgress]) (simp_all add: serves_def)
  next
    case gone
    then show ?thesis
      using assms(2) by (intro that [of NodeIncomplete]) (simp_all add: serves_def)
  qed
  then show "serves rd rl v'" "ver_current_root v' = ver_current_root v" "ver_targets v' = ver_targets v"
    by simp_all
  show "decided_kept v v'" "node v' x \<noteq> None" "\<And>y. node v y \<noteq> None \<Longrightarrow> node v' y \<noteq> None"
    using assms(3) s(1) by (auto simp: decided_kept_def bt.get_insert)
qed

lemma open_nodes_ok:
  assumes "open_object x v = Inr (v', opened)" "serves rd rl v" "node v x = None" "nodes_ok rd rl v"
  shows "nodes_ok rd rl v'"
  using assms(1,2)
proof (cases rule: open_object_cases)
  case (found rec b charged)
  then show ?thesis
    using assms(3,4) by (auto simp: nodes_ok_def bt.get_insert)
next
  case (gone y b)
  have "absent rd rl x"
    using gone(1) by (auto simp: absent_def)
  then show ?thesis
    using assms(3,4) gone(2) edges_of_gone [OF gone(1)] by (auto simp: nodes_ok_def bt.get_insert)
qed

lemma open_reach_ok:
  assumes "open_object x v = Inr (v', opened)" "serves rd rl v" "reach_ok rd rl eligible v"
    and "root_reaches rd rl eligible (ver_current_root v) x"
  shows "reach_ok rd rl eligible v'"
  using assms(1,2)
proof (cases rule: open_object_cases)
  case (found rec b charged)
  then show ?thesis
    using assms(3,4) by (auto simp: reach_ok_def bt.get_insert)
next
  case (gone y b)
  then have "\<not> present rd rl x"
    by (auto simp: present_def)
  then show ?thesis
    using assms(3,4) gone(2) by (auto simp: reach_ok_def bt.get_insert)
qed

lemma open_found:
  assumes "open_object x v = Inr (v', Some f)" "serves rd rl v"
  shows "frame_oid f = x \<and> frame_ok rd rl v' None f \<and> node v' x = Some NodeInProgress \<and>
    (\<forall>y. y \<noteq> x \<longrightarrow> node v' y = node v y)"
  using assms
proof (cases rule: open_object_cases)
  case (found rec b charged)
  then show ?thesis
    by (simp add: frame_ok_def present_def edges_of_def bt.get_insert)
qed simp

lemma open_gone:
  assumes "open_object x v = Inr (v', None)" "serves rd rl v"
  shows "absent rd rl x \<and> node v' x = Some NodeIncomplete \<and> (\<forall>y. y \<noteq> x \<longrightarrow> node v' y = node v y)"
  using assms
proof (cases rule: open_object_cases)
  case (gone y b)
  then show ?thesis
    by (simp add: absent_def bt.get_insert)
qed simp

lemma progress_push:
  assumes "progress_ok v stack" "node v c = None" "node v' c = Some NodeInProgress"
    and "\<forall>y. y \<noteq> c \<longrightarrow> node v' y = node v y"
    and "map frame_oid stack' = c # map frame_oid stack"
  shows "progress_ok v' stack'"
proof -
  have "c \<notin> set (map frame_oid stack)"
    using assms(1,2) by (metis option.distinct(1) progress_ok_def)
  then show ?thesis
    using assms unfolding progress_ok_def by (metis distinct.simps(2) list.set_intros(1) set_ConsD list.set_intros(2))
qed

lemma progress_gone:
  assumes "progress_ok v stack" "node v c = None" "node v' c = Some NodeIncomplete"
    and "\<forall>y. y \<noteq> c \<longrightarrow> node v' y = node v y"
    and "map frame_oid stack' = map frame_oid stack"
  shows "progress_ok v' stack'"
  using assms unfolding progress_ok_def by (metis NodeState.distinct(3) option.distinct(1) option.inject)

lemma taint_oid [simp]: "frame_oid (taint m f) = frame_oid f"
  by (simp add: taint_def)

lemma stack_ok_top:
  "stack_ok rd rl v up (f # fs) \<Longrightarrow> frame_oid f' = frame_oid f \<Longrightarrow> frame_ok rd rl v up f' \<Longrightarrow>
   stack_ok rd rl v up (f' # fs)"
  by simp

lemma follow_edge_inv:
  assumes "acyclic (graph rd rl)" "walk_inv rd rl eligible met (v, f # fs)"
    and "frame_next f < length (frame_edges f)"
    and "follow_edge (frame_edges f ! frame_next f) (f\<lparr>frame_next := frame_next f + 1\<rparr>) fs v = Inr (v', stack')"
  shows "walk_inv rd rl eligible met (v', stack')"
proof -
  define c where "c = frame_edges f ! frame_next f"
  define f' where "f' = f\<lparr>frame_next := frame_next f + 1\<rparr>"
  have oid [simp]: "frame_oid f' = frame_oid f"
    by (simp add: f'_def)
  note step = assms(4) [folded c_def f'_def, unfolded follow_edge_def]
  from assms(2) have inv: "serves rd rl v" "nodes_ok rd rl v" "stack_ok rd rl v None (f # fs)"
    "progress_ok v (f # fs)" "reach_ok rd rl eligible v" "stack_reached rd rl eligible v (f # fs)"
    "met \<subseteq> {x. node v x \<noteq> None}"
    by (simp_all add: walk_inv_def)
  then have f: "frame_ok rd rl v None f"
    by simp
  have child: "c \<in> set (edges_of rd rl (frame_oid f))"
    using f assms(3) by (auto simp: frame_ok_def c_def)
  have fresh: "node v c \<noteq> Some NodeInProgress"
    using no_back_edge [OF assms(1) inv(3) child] inv(4) by (auto simp: progress_ok_def)
  have reached: "root_reaches rd rl eligible (ver_current_root v) c"
    using inv(6) child by (auto simp: stack_reached_def root_reaches_def intro: reaches_snoc)
  have advanced: "walk_inv rd rl eligible met (v, g # fs)"
    if "frame_ok rd rl v None g" "frame_oid g = frame_oid f" for g
    using inv that by (auto simp: walk_inv_def progress_ok_def stack_reached_def)
  show ?thesis
  proof (cases "node v c")
    case None
    then obtain opened where o: "open_object c v = Inr (v', opened)"
      and stack': "stack' = (case opened of Some g \<Rightarrow> g # f' # fs | None \<Rightarrow> taint (Some c) f' # fs)"
      using step by (auto simp: and_then_eq_Inr split: option.splits)
    note kept = open_kept [OF o inv(1) None]
    have shared: "serves rd rl v'" "nodes_ok rd rl v'" "reach_ok rd rl eligible v'"
      "met \<subseteq> {x. node v' x \<noteq> None}" "stack_ok rd rl v' (Some (frame_oid f)) fs" "frame_ok rd rl v' None f"
      using kept inv(7) open_nodes_ok [OF o inv(1) None inv(2)] open_reach_ok [OF o inv(1,5) reached]
        stack_ok_kept [OF _ kept(1)] frame_ok_kept [OF f kept(1)] inv(3)
      by auto
    show ?thesis
    proof (cases opened)
      case (Some g)
      note g = open_found [OF o [unfolded Some] inv(1)]
      have "progress_ok v' (g # f' # fs)"
        by (rule progress_push [OF inv(4) None]) (use g in simp_all)
      then show ?thesis
        using shared g frame_ok_push [OF shared(6) assms(3) c_def f'_def] inv(6) reached kept(3)
        by (simp add: walk_inv_def stack' Some stack_reached_def)
    next
      case gone: None
      note g = open_gone [OF o [unfolded gone] inv(1)]
      have "progress_ok v' (taint (Some c) f' # fs)"
        by (rule progress_gone [OF inv(4) None]) (use g in simp_all)
      then show ?thesis
        using shared g frame_ok_taint [OF shared(6) assms(3) c_def f'_def _ reaches_refl] inv(6) kept(3)
        by (simp add: walk_inv_def stack' gone stack_reached_def)
    qed
  next
    case (Some s)
    show ?thesis
    proof (cases s)
      case NodeIncomplete
      then obtain m where m: "lost v c = Some m" "reaches rd rl c m" "absent rd rl m"
        using inv(2) Some by (auto simp: nodes_ok_def)
      then have "v' = v" "stack' = taint (Some m) f' # fs"
        using step Some NodeIncomplete by auto
      then show ?thesis
        using frame_ok_taint [OF f assms(3) c_def f'_def _ m(2,3)] Some NodeIncomplete advanced by simp
    next
      case NodeComplete
      then have "v' = v" "stack' = f' # fs"
        using step Some by auto
      then show ?thesis
        using NodeComplete Some frame_ok_advance [OF f assms(3) c_def f'_def] advanced by simp
    qed (use fresh Some in simp)
  qed
qed

lemma stack_reached_oids:
  assumes "map frame_oid stack' = map frame_oid stack" "ver_current_root v' = ver_current_root v"
  shows "stack_reached rd rl eligible v' stack' = stack_reached rd rl eligible v stack"
proof -
  have "stack_reached rd rl eligible v stack \<longleftrightarrow>
      (\<forall>x \<in> set (map frame_oid stack). root_reaches rd rl eligible (ver_current_root v) x)" for v stack
    by (simp add: stack_reached_def)
  then show ?thesis
    by (simp only: assms)
qed

lemma record_missing_fields:
  assumes "record_missing f v = Inr v'"
  obtains b where
    "v' = v\<lparr>ver_budget := b,
            ver_first_missing := (case frame_missing f of
               Some m \<Rightarrow> if frame_complete f then ver_first_missing v
                          else bt_insert (frame_oid f) m (ver_first_missing v)
             | None \<Rightarrow> ver_first_missing v)\<rparr>"
proof (cases "\<not> frame_complete f \<and> frame_missing f \<noteq> None")
  case True
  then obtain m w n where "frame_missing f = Some m" "ver_charge n v = Inr w"
    "v' = w\<lparr>ver_first_missing := bt_insert (frame_oid f) m (ver_first_missing w)\<rparr>"
    using assms by (auto simp: record_missing_def node_of_def and_then_eq_Inr)
  then show ?thesis
    using True by (elim ver_charge_fields) (rule that, simp)
next
  case False
  then have "v' = v"
    using assms by (auto simp: record_missing_def node_of_def split: option.splits if_splits)
  with False show ?thesis
    by (intro that [of "ver_budget v"]) (auto split: option.split)
qed

lemma frame_ok_popped:
  assumes "frame_ok rd rl v (Some (frame_oid f)) g" "frame_ok rd rl v None f"
    and "decided_kept v v'" "node v' (frame_oid f) = Some (node_of f)"
  shows "frame_ok rd rl v' None (if node_of f = NodeIncomplete then taint (frame_missing f) g else g)"
proof (cases "frame_complete f")
  case True
  then show ?thesis
    using frame_ok_kept [OF assms(1,3)] assms(4) by (auto simp: frame_ok_def node_of_def)
next
  case False
  then obtain m where m: "frame_missing f = Some m" "reaches rd rl (frame_oid f) m" "absent rd rl m"
    using assms(2) by (auto simp: frame_ok_def)
  moreover have "frame_oid f \<in> set (edges_of rd rl (frame_oid g))"
    using assms(1) by (auto simp: frame_ok_def)
  ultimately have "reaches rd rl (frame_oid g) m"
    by (auto intro: reaches_step)
  then show ?thesis
    using False m frame_ok_kept [OF assms(1,3)] assms(4)
    by (auto simp: frame_ok_def node_of_def taint_def)
qed

lemma stack_ok_popped:
  assumes "stack_ok rd rl v None (f # fs)" "decided_kept v v'" "node v' (frame_oid f) = Some (node_of f)"
  shows "stack_ok rd rl v' None (taint_parent f fs)"
proof (cases fs)
  case (Cons g below)
  then have ok: "frame_ok rd rl v (Some (frame_oid f)) g" "frame_ok rd rl v None f"
    "stack_ok rd rl v (Some (frame_oid g)) below"
    using assms(1) by auto
  show ?thesis
    using frame_ok_popped [OF ok(1,2) assms(2,3)] stack_ok_kept [OF ok(3) assms(2)]
    by (auto simp: Cons taint_parent_def split: if_splits)
qed (simp add: taint_parent_def)

lemma taint_parent_oids [simp]: "map frame_oid (taint_parent f fs) = map frame_oid fs"
  by (simp add: taint_parent_def split: list.split)

lemma pop_frame_inv:
  assumes "walk_inv rd rl eligible met (v, f # fs)" "\<not> frame_next f < length (frame_edges f)"
    and "pop_frame f fs v = Inr (v', stack')"
  shows "walk_inv rd rl eligible met (v', stack')"
proof -
  from assms(1) have inv: "serves rd rl v" "nodes_ok rd rl v" "stack_ok rd rl v None (f # fs)"
    "progress_ok v (f # fs)" "reach_ok rd rl eligible v" "stack_reached rd rl eligible v (f # fs)"
    "met \<subseteq> {x. node v x \<noteq> None}"
    by (simp_all add: walk_inv_def)
  define w where "w = v\<lparr>ver_budget := release (frame_charged f) (ver_budget v),
                ver_state := bt_insert (frame_oid f) (node_of f) (ver_state v)\<rparr>"
  from assms(3) have rm: "record_missing f w = Inr v'" and stack': "stack' = taint_parent f fs"
    by (auto simp: pop_frame_def w_def and_then_eq_Inr Let_def)
  from rm obtain b where v': "v' = w\<lparr>ver_budget := b,
            ver_first_missing := (case frame_missing f of
               Some m \<Rightarrow> if frame_complete f then ver_first_missing w
                          else bt_insert (frame_oid f) m (ver_first_missing w)
             | None \<Rightarrow> ver_first_missing w)\<rparr>"
    by (rule record_missing_fields)
  have node: "node v' x = (if x = frame_oid f then Some (node_of f) else node v x)" for x
    by (simp add: v' w_def bt.get_insert)
  have was: "node v (frame_oid f) = Some NodeInProgress"
    using inv(4) by (auto simp: progress_ok_def)
  have kept: "decided_kept v v'"
    using was by (auto simp: decided_kept_def node)
  have f: "frame_ok rd rl v None f"
    using inv(3) by simp
  have lost: "lost v' x = (if x = frame_oid f \<and> \<not> frame_complete f then frame_missing f else lost v x)" for x
    using f by (auto simp: v' w_def bt.get_insert frame_ok_def split: option.split)
  have children: "node v c = Some NodeComplete \<or> (node v c = Some NodeIncomplete \<and> \<not> frame_complete f)"
    if "c \<in> set (edges_of rd rl (frame_oid f))" for c
    using f that assms(2) by (auto simp: frame_ok_def)
  have "nodes_ok rd rl v'"
    unfolding nodes_ok_def
  proof (intro allI)
    fix x
    show "(node v' x = Some NodeComplete \<longrightarrow>
        present rd rl x \<and> (\<forall>c \<in> set (edges_of rd rl x). node v' c = Some NodeComplete)) \<and>
     (node v' x = Some NodeIncomplete \<longrightarrow>
        (\<exists>m. lost v' x = Some m \<and> reaches rd rl x m \<and> absent rd rl m) \<and>
        (\<forall>c \<in> set (edges_of rd rl x). node v' c \<noteq> None))"
    proof (cases "x = frame_oid f")
      case True
      have "node v' c = Some NodeComplete" if "frame_complete f" "c \<in> set (edges_of rd rl x)" for c
        using that children [of c] was True by (auto simp: node)
      moreover have "node v' c \<noteq> None" if "c \<in> set (edges_of rd rl x)" for c
        using that children [of c] True by (auto simp: node)
      moreover have "present rd rl x"
        "\<not> frame_complete f \<longrightarrow> (\<exists>m. lost v' x = Some m \<and> reaches rd rl x m \<and> absent rd rl m)"
        using f True by (auto simp: lost frame_ok_def)
      ultimately show ?thesis
        by (simp add: node True node_of_def)
    next
      case False
      then show ?thesis
        using inv(2) was by (auto simp: node lost nodes_ok_def)
    qed
  qed
  moreover have "progress_ok v' (taint_parent f fs)"
    using inv(4) by (auto simp: progress_ok_def node node_of_def)
  moreover have same: "ver_origin v' = ver_origin v" "ver_targets v' = ver_targets v"
    "ver_current_root v' = ver_current_root v"
    by (simp_all add: v' w_def)
  then have "reach_ok rd rl eligible v'"
    using inv(5) was by (auto simp: reach_ok_def node)
  moreover have "stack_reached rd rl eligible v fs"
    using inv(6) by (simp add: stack_reached_def)
  then have "stack_reached rd rl eligible v' (taint_parent f fs)"
    using stack_reached_oids [OF taint_parent_oids same(3)] by simp
  moreover have "serves rd rl v'" "met \<subseteq> {x. node v' x \<noteq> None}"
    using inv(1,7) by (auto simp: serves_def v' w_def bt.get_insert)
  ultimately show ?thesis
    using stack_ok_popped [OF inv(3) kept] by (simp add: walk_inv_def stack' node)
qed

lemma walk_step_inv:
  assumes "acyclic (graph rd rl)" "walk_inv rd rl eligible met s" "walk_step s = Inr s'"
  shows "walk_inv rd rl eligible met s'"
proof -
  obtain v stack v' stack' where s: "s = (v, stack)" "s' = (v', stack')"
    by (cases s; cases s') auto
  show ?thesis
  proof (cases stack)
    case (Cons f fs)
    have inv: "walk_inv rd rl eligible met (v, f # fs)"
      using assms(2) by (simp add: s Cons)
    show ?thesis
    proof (cases "frame_next f < length (frame_edges f)")
      case True
      then show ?thesis
        using assms(3) follow_edge_inv [OF assms(1) inv True] by (simp add: s Cons)
    next
      case False
      then show ?thesis
        using assms(3) pop_frame_inv [OF inv False] by (simp add: s Cons)
    qed
  qed (use assms s in simp)
qed

subsection \<open>Walks and runs\<close>

lemma walk_loop_inv:
  assumes "acyclic (graph rd rl)" "walk_inv rd rl eligible met s" "walk_loop s = Some (Inr s')"
  shows "walk_inv rd rl eligible met s' \<and> snd s' = []"
proof -
  have "\<forall>t. Inr s' = (Inr t :: UnknownReason + _) \<longrightarrow> walk_inv rd rl eligible met t"
  proof (rule while_option_rule [OF _ assms(3) [unfolded walk_loop_def],
        where P = "\<lambda>r. \<forall>t. r = Inr t \<longrightarrow> walk_inv rd rl eligible met t"])
    fix r :: "UnknownReason + Verifier \<times> Frame list"
    assume "\<forall>t. r = Inr t \<longrightarrow> walk_inv rd rl eligible met t" "walking r"
    then show "\<forall>t. and_then r walk_step = Inr t \<longrightarrow> walk_inv rd rl eligible met t"
      using walk_step_inv [OF assms(1)] by (auto simp: and_then_eq_Inr)
  qed (use assms(2) in simp)
  moreover have "\<not> walking (Inr s')"
    using while_option_stop [OF assms(3) [unfolded walk_loop_def]] .
  ultimately show ?thesis
    by (cases s') simp
qed

definition settled ::
    "ObjectReader \<Rightarrow> ReadLimits \<Rightarrow> ProtectedRoot list \<Rightarrow> ObjectId set \<Rightarrow> Verifier \<Rightarrow> bool" where
  "settled rd rl eligible met v \<longleftrightarrow> walk_inv rd rl eligible met (v, [])"

lemma settled_current [simp]:
  "settled rd rl eligible met (v\<lparr>ver_current_root := i\<rparr>) = settled rd rl eligible met v"
  by (simp add: settled_def walk_inv_def serves_def nodes_ok_def progress_ok_def reach_ok_def
      stack_reached_def)

lemma settled_opened:
  assumes "settled rd rl eligible met v" "node v x = None" "open_object x v = Inr (v', opened)"
    and "root_reaches rd rl eligible (ver_current_root v) x"
  shows "walk_inv rd rl eligible (insert x met) (v', case opened of Some f \<Rightarrow> [f] | None \<Rightarrow> [])"
proof -
  have inv: "serves rd rl v" "nodes_ok rd rl v" "progress_ok v []" "reach_ok rd rl eligible v"
    "met \<subseteq> {x. node v x \<noteq> None}"
    using assms(1) by (simp_all add: settled_def walk_inv_def)
  note kept = open_kept [OF assms(3) inv(1) assms(2)]
  have shared: "serves rd rl v'" "nodes_ok rd rl v'" "reach_ok rd rl eligible v'"
    "insert x met \<subseteq> {x. node v' x \<noteq> None}"
    using kept inv(5) open_nodes_ok [OF assms(3) inv(1) assms(2) inv(2)]
      open_reach_ok [OF assms(3) inv(1,4) assms(4)] by auto
  show ?thesis
  proof (cases opened)
    case (Some f)
    note f = open_found [OF assms(3) [unfolded Some] inv(1)]
    have "progress_ok v' [f]"
      by (rule progress_push [OF inv(3) assms(2)]) (use f in simp_all)
    then show ?thesis
      using shared f assms(4) kept(3) by (simp add: walk_inv_def Some stack_reached_def)
  next
    case None
    note f = open_gone [OF assms(3) [unfolded None] inv(1)]
    have "progress_ok v' []"
      by (rule progress_gone [OF inv(3) assms(2)]) (use f in simp_all)
    then show ?thesis
      using shared by (simp add: walk_inv_def None stack_reached_def)
  qed
qed

lemma walk_settled:
  assumes "acyclic (graph rd rl)" "settled rd rl eligible met v" "walk_object x v = Some (Inr v')"
    and "root_reaches rd rl eligible (ver_current_root v) x"
  shows "settled rd rl eligible (insert x met) v'"
proof (cases "node v x")
  case (Some s)
  then have "v' = v"
    using assms(3) by (simp add: walk_object_def)
  then show ?thesis
    using assms(2) Some by (simp add: settled_def walk_inv_def)
next
  case None
  then obtain w opened where o: "open_object x v = Inr (w, opened)"
    and rest: "(case opened of None \<Rightarrow> Some (Inr w)
       | Some f \<Rightarrow> map_option (\<lambda>r. and_then r (\<lambda>(v, _). Inr v)) (walk_loop (w, [f]))) = Some (Inr v')"
    using assms(3) by (auto simp: walk_object_def split: sum.splits option.splits)
  note inv = settled_opened [OF assms(2) None o assms(4)]
  show ?thesis
  proof (cases opened)
    case (Some f)
    then obtain s where s: "walk_loop (w, [f]) = Some (Inr s)" "v' = fst s"
      using rest by (auto simp: and_then_eq_Inr)
    then have "walk_inv rd rl eligible (insert x met) s \<and> snd s = []"
      using walk_loop_inv [OF assms(1) _ s(1)] inv Some by simp
    then show ?thesis
      using s by (cases s) (simp add: settled_def)
  qed (use rest inv in \<open>simp add: settled_def\<close>)
qed

lemma run_walks_settled:
  assumes "acyclic (graph rd rl)" "settled rd rl eligible met v" "run_walks i roots v = Some (Inr v')"
    and "drop i eligible = roots"
  shows "settled rd rl eligible (met \<union> root_oid ` set roots) v'"
  using assms(2-)
proof (induction roots arbitrary: i met v)
  case Nil
  then show ?case by simp
next
  case (Cons root roots)
  have i: "i < length eligible" "eligible ! i = root" "drop (Suc i) eligible = roots"
    using Cons.prems(3) by (metis drop_eq_Nil list.distinct(1) not_le, metis Cons.prems(3) hd_drop_conv_nth
        drop_eq_Nil list.distinct(1) list.sel(1) not_le, metis drop_Suc list.sel(3) tl_drop)
  from Cons.prems(2) obtain w where w: "walk_object (root_oid root) (v\<lparr>ver_current_root := i\<rparr>) = Some (Inr w)"
    "run_walks (Suc i) roots w = Some (Inr v')"
    by (auto split: option.splits sum.splits)
  have "settled rd rl eligible (insert (root_oid root) met) w"
    by (rule walk_settled [OF assms(1) _ w(1)]) (use Cons.prems(1) i in \<open>simp_all add: root_reaches_def\<close>)
  from Cons.IH [OF this w(2) i(3)] show ?case
    by simp
qed

lemma run_targets_fields:
  "run_targets roots v = Inr v' \<Longrightarrow>
     \<exists>b. v' = v\<lparr>ver_budget := b, ver_targets := ver_targets v \<union> root_oid ` set roots\<rparr>"
proof (induction roots arbitrary: v)
  case Nil
  then show ?case
    by (intro exI [of _ "ver_budget v"]) simp
next
  case (Cons root roots)
  from Cons.prems obtain w b where w: "w = v\<lparr>ver_budget := b\<rparr>"
    "run_targets roots (w\<lparr>ver_targets := insert (root_oid root) (ver_targets w)\<rparr>) = Inr v'"
    by (auto simp: and_then_eq_Inr elim!: ver_charge_fields)
  from Cons.IH [OF w(2)] show ?case
    by (auto simp: w(1))
qed

lemma run_charges_fields: "run_charges roots v = Inr v' \<Longrightarrow> \<exists>b. v' = v\<lparr>ver_budget := b\<rparr>"
proof (induction roots arbitrary: v)
  case Nil
  then show ?case
    by (intro exI [of _ "ver_budget v"]) simp
next
  case (Cons root roots)
  from Cons.prems obtain w b where w: "w = v\<lparr>ver_budget := b\<rparr>" "run_charges roots w = Inr v'"
    by (auto simp: and_then_eq_Inr elim!: ver_charge_fields)
  from Cons.IH [OF w(2)] show ?case
    by (auto simp: w(1))
qed

lemma settled_new:
  "settled reader (limit_reads limits) eligible {}
     ((verifier_new reader cancellation n limits sz)\<lparr>ver_budget := b, ver_targets := T\<rparr>)"
  by (simp add: settled_def walk_inv_def verifier_new_def serves_def nodes_ok_def progress_ok_def
      reach_ok_def stack_reached_def bt.get_empty)

text \<open>The set of protected ids is fixed before the first walk.\<close>

lemma open_targets: "open_object x v = Inr (v', opened) \<Longrightarrow> ver_targets v' = ver_targets v"
  by (erule open_object_cases [where rd = "ver_reader v" and rl = "limit_reads (ver_limits v)"])
     (simp_all add: serves_def)

lemma walk_step_targets: "walk_step s = Inr s' \<Longrightarrow> ver_targets (fst s') = ver_targets (fst s)"
proof (induction s rule: walk_step.induct)
  case (1 v f fs)
  then show ?case
  proof (cases "frame_next f < length (frame_edges f)")
    case True
    then show ?thesis
      using 1 open_targets
      by (auto simp: follow_edge_def and_then_eq_Inr split: option.splits NodeState.splits)
  next
    case False
    then obtain w v' where "record_missing f w = Inr v'" "ver_targets w = ver_targets v" "fst s' = v'"
      using 1 by (auto simp: pop_frame_def and_then_eq_Inr Let_def)
    then show ?thesis
      by (elim record_missing_fields) simp
  qed
qed simp

lemma walk_targets: "walk_object x v = Some (Inr v') \<Longrightarrow> ver_targets v' = ver_targets v"
proof -
  assume w: "walk_object x v = Some (Inr v')"
  have loop: "ver_targets (fst s') = ver_targets (fst s)" if "walk_loop s = Some (Inr s')" for s s'
  proof -
    have "\<forall>t. Inr s' = (Inr t :: UnknownReason + _) \<longrightarrow> ver_targets (fst t) = ver_targets (fst s)"
      by (rule while_option_rule [OF _ that [unfolded walk_loop_def],
            where P = "\<lambda>r. \<forall>t. r = Inr t \<longrightarrow> ver_targets (fst t) = ver_targets (fst s)"])
         (auto simp: and_then_eq_Inr dest: walk_step_targets)
    then show ?thesis by simp
  qed
  show ?thesis
    using w open_targets
    by (auto simp: walk_object_def and_then_eq_Inr split: if_splits sum.splits option.splits dest!: loop)
qed

lemma run_walks_targets: "run_walks i roots v = Some (Inr v') \<Longrightarrow> ver_targets v' = ver_targets v"
  by (induction roots arbitrary: i v) (auto split: option.splits sum.splits dest!: walk_targets)

lemma run_settled:
  assumes "acyclic (graph reader (limit_reads limits))"
    and "run protected eligible (verifier_new reader cancellation n limits sz) = Some (Inr v)"
  shows "settled reader (limit_reads limits) eligible (root_oid ` set eligible) v \<and>
    ver_targets v = root_oid ` set (protected_roots protected)"
proof -
  define v0 where "v0 = verifier_new reader cancellation n limits sz"
  from assms(2) obtain w u where w: "run_targets (protected_roots protected) v0 = Inr w"
    "run_charges eligible w = Inr u" and walks: "run_walks 0 eligible u = Some (Inr v)"
    by (auto simp: run_def v0_def and_then_eq_Inr split: sum.splits)
  from run_targets_fields [OF w(1)] obtain b' where
    "w = v0\<lparr>ver_budget := b', ver_targets := ver_targets v0 \<union> root_oid ` set (protected_roots protected)\<rparr>"
    by auto
  moreover from run_charges_fields [OF w(2)] obtain b where "u = w\<lparr>ver_budget := b\<rparr>"
    by auto
  ultimately have
    u: "u = v0\<lparr>ver_budget := b, ver_targets := ver_targets v0 \<union> root_oid ` set (protected_roots protected)\<rparr>"
    by simp
  have "settled reader (limit_reads limits) eligible {} u"
    unfolding u v0_def by (rule settled_new)
  from run_walks_settled [OF assms(1) this walks] have
    "settled reader (limit_reads limits) eligible (root_oid ` set eligible) v"
    by simp
  moreover have "ver_targets v = root_oid ` set (protected_roots protected)"
    using run_walks_targets [OF walks] by (simp add: u v0_def verifier_new_def)
  ultimately show ?thesis
    by simp
qed

subsection \<open>What a finished run says about the graph\<close>

definition reached_from ::
    "ObjectReader \<Rightarrow> ReadLimits \<Rightarrow> ProtectedRoot list \<Rightarrow> ObjectId \<Rightarrow> bool" where
  "reached_from rd rl eligible x \<longleftrightarrow> (\<exists>w \<in> set eligible. reaches rd rl (root_oid w) x)"

lemma settled_decided: "settled rd rl eligible met v \<Longrightarrow> node v x \<noteq> Some NodeInProgress"
  by (simp add: settled_def walk_inv_def progress_ok_def)

lemma settled_complete:
  assumes "settled rd rl eligible met v" "node v x = Some NodeComplete"
  shows "whole rd rl x"
  unfolding whole_def
proof (intro allI impI)
  fix b assume "reaches rd rl x b"
  have ok: "nodes_ok rd rl v"
    using assms(1) by (simp add: settled_def walk_inv_def)
  from \<open>reaches rd rl x b\<close> have "node v b = Some NodeComplete"
    by (rule closed_reaches) (use assms(2) ok in \<open>auto simp: nodes_ok_def\<close>)
  then show "present rd rl b"
    using ok by (simp add: nodes_ok_def)
qed

lemma settled_incomplete:
  assumes "settled rd rl eligible met v" "node v x = Some NodeIncomplete"
  shows "\<exists>m. lost v x = Some m \<and> reaches rd rl x m \<and> absent rd rl m"
  using assms by (simp add: settled_def walk_inv_def nodes_ok_def)

lemma settled_met:
  assumes "settled rd rl eligible (root_oid ` set eligible) v"
  shows "node v x \<noteq> None \<longleftrightarrow> reached_from rd rl eligible x"
proof
  assume "node v x \<noteq> None"
  then show "reached_from rd rl eligible x"
    using assms by (force simp: settled_def walk_inv_def reach_ok_def root_reaches_def reached_from_def)
next
  assume "reached_from rd rl eligible x"
  then obtain w where w: "w \<in> set eligible" "reaches rd rl (root_oid w) x"
    by (auto simp: reached_from_def)
  have ok: "nodes_ok rd rl v" "node v (root_oid w) \<noteq> None"
    using assms w(1) by (auto simp: settled_def walk_inv_def)
  from w(2) show "node v x \<noteq> None"
  proof (rule closed_reaches)
    fix y c assume "node v y \<noteq> None" "c \<in> set (edges_of rd rl y)"
    moreover obtain s where "node v y = Some s"
      using calculation by auto
    ultimately show "node v c \<noteq> None"
      using ok(1) settled_decided [OF assms, of y] by (cases s) (auto simp: nodes_ok_def)
  qed (use ok in simp)
qed

lemma settled_whole:
  assumes "settled rd rl eligible (root_oid ` set eligible) v"
  shows "node v x = Some NodeComplete \<longleftrightarrow> reached_from rd rl eligible x \<and> whole rd rl x"
proof
  assume "node v x = Some NodeComplete"
  then show "reached_from rd rl eligible x \<and> whole rd rl x"
    using settled_complete [OF assms] settled_met [OF assms, of x] by auto
next
  assume a: "reached_from rd rl eligible x \<and> whole rd rl x"
  then obtain s where "node v x = Some s"
    using settled_met [OF assms, of x] by auto
  then show "node v x = Some NodeComplete"
    using a settled_decided [OF assms, of x] settled_incomplete [OF assms, of x] not_whole
    by (cases s) auto
qed

lemma settled_origin:
  assumes "settled rd rl eligible met v" "x \<in> ver_targets v" "node v x = Some NodeComplete"
  obtains i where "origin v x = Some i" "i < length eligible" "reaches rd rl (root_oid (eligible ! i)) x"
proof -
  have "present rd rl x"
    using settled_complete [OF assms(1,3)] by (auto simp: whole_def)
  then obtain i where "origin v x = Some i" "root_reaches rd rl eligible i x"
    using assms by (auto simp: settled_def walk_inv_def reach_ok_def)
  then show ?thesis
    using that by (auto simp: root_reaches_def)
qed

end
