(* ===== verification/History_Proofs.thy ===== *)
theory History_Proofs
  imports History_Walk
begin

text \<open>
  The properties of the history verifier: it always returns when its bookkeeping limit is a limit
  (below the largest 64-bit count), and what it returns is decided by reachability and completeness in the
  object graph of the witness.
\<close>

subsection \<open>The budget bounds the walk\<close>

abbreviation used :: "Verifier \<Rightarrow> nat" where
  "used v \<equiv> budget_used (ver_budget v)"

abbreviation cap :: "Verifier \<Rightarrow> nat" where
  "cap v \<equiv> budget_limit (ver_budget v)"

definition met_count :: "Verifier \<Rightarrow> nat" where
  "met_count v = card (dom (node v))"

lemma finite_met [simp]: "finite (dom (node v))"
  by (simp add: bt_get_def [abs_def] finite_dom_map_of)

lemma ver_charge_used:
  assumes "ver_charge n v = Inr v'" "cap v < u64_max"
  shows "used v' = used v + n \<and> used v' \<le> cap v' \<and> cap v' = cap v \<and> ver_state v' = ver_state v \<and>
    ver_sizes v' = ver_sizes v"
  using assms saturating_add_below [of "used v" n "cap v"]
  by (auto simp: ver_charge_def charge_def and_then_eq_Inr Let_def not_less split: if_splits)

lemma record_origin_used:
  assumes "record_origin x v = Inr v'" "cap v < u64_max"
  shows "used v \<le> used v' \<and> cap v' = cap v \<and> ver_state v' = ver_state v \<and> ver_sizes v' = ver_sizes v"
  using assms by (auto simp: record_origin_def and_then_eq_Inr split: if_splits dest!: ver_charge_used)

lemma open_present_used:
  assumes "open_present x rec v = Inr (v', opened)" "cap v < u64_max"
  shows "\<exists>f. opened = Some f \<and> frame_oid f = x \<and> used v + frame_charged f \<le> used v' \<and> used v' \<le> cap v' \<and>
    cap v' = cap v \<and> dom (node v') = insert x (dom (node v))"
proof -
  define w where "w = v\<lparr>ver_objects_visited := ver_objects_visited v + 1,
                         ver_state := bt_insert x NodeInProgress (ver_state v)\<rparr>"
  define charged where
    "charged = sizeof_Frame (ver_sizes w) + sum_list (map (oid_cost (ver_sizes w)) (record_edges rec))"
  from assms(1) obtain u where u: "record_origin x w = Inr u" "ver_charge charged u = Inr v'"
    "opened = Some \<lparr>frame_oid = x, frame_edges = record_edges rec, frame_next = 0,
                    frame_complete = True, frame_missing = None, frame_charged = charged\<rparr>"
    by (auto simp: open_present_def w_def charged_def and_then_eq_Inr Let_def)
  have w: "cap w = cap v" "used w = used v" "dom (node w) = insert x (dom (node v))"
    by (auto simp: w_def bt.get_insert)
  show ?thesis
    using record_origin_used [OF u(1)] ver_charge_used [OF u(2)] assms(2) w u(3) by auto
qed

lemma open_missing_used:
  assumes "open_missing x v = Inr (v', opened)" "cap v < u64_max"
  shows "opened = None \<and> used v \<le> used v' \<and> used v' \<le> cap v' \<and> cap v' = cap v \<and>
    dom (node v') = insert x (dom (node v))"
proof -
  define w where "w = v\<lparr>ver_state := bt_insert x NodeIncomplete (ver_state v)\<rparr>"
  from assms(1) obtain u n where u: "ver_charge n w = Inr u"
    "v' = u\<lparr>ver_first_missing := bt_insert x x (ver_first_missing u)\<rparr>" "opened = None"
    by (auto simp: open_missing_def w_def and_then_eq_Inr Let_def)
  have w: "cap w = cap v" "used w = used v" "dom (node w) = insert x (dom (node v))"
    by (auto simp: w_def bt.get_insert)
  show ?thesis
    using ver_charge_used [OF u(1)] assms(2) w u(2,3) by auto
qed

lemma open_object_used:
  assumes "open_object x v = Inr (v', opened)" "cap v < u64_max"
  shows "used v + MAP_ENTRY_OVERHEAD + (case opened of Some f \<Rightarrow> frame_charged f | None \<Rightarrow> 0) \<le> used v' \<and>
    used v' \<le> cap v' \<and> cap v' = cap v \<and> dom (node v') = insert x (dom (node v)) \<and>
    (\<forall>f. opened = Some f \<longrightarrow> frame_oid f = x)"
proof -
  from assms(1) obtain u where
    u: "ver_charge (oid_cost (ver_sizes v) x + sizeof_NodeState (ver_sizes v) + MAP_ENTRY_OVERHEAD)
          (v\<lparr>ver_polls := ver_polls v + 1\<rparr>) = Inr u"
    and rest: "(case read_object (ver_reader u) x (limit_reads (ver_limits u)) of
               Inr rec \<Rightarrow> open_present x rec u
             | Inl (ReadMissing _) \<Rightarrow> open_missing x u
             | Inl error \<Rightarrow> Inl (read_reason error)) = Inr (v', opened)"
    by (auto simp: open_object_def and_then_eq_Inr Let_def split: if_splits)
  have u': "used v + MAP_ENTRY_OVERHEAD \<le> used u" "cap u = cap v" "dom (node u) = dom (node v)"
    using ver_charge_used [OF u] assms(2) by auto
  consider rec where "open_present x rec u = Inr (v', opened)" | "open_missing x u = Inr (v', opened)"
    using rest by (auto split: sum.splits ReadError.splits)
  then show ?thesis
  proof cases
    case 1
    from open_present_used [OF this] show ?thesis
      using u' assms(2) by auto
  next
    case 2
    from open_missing_used [OF this] show ?thesis
      using u' assms(2) by auto
  qed
qed

definition budget_inv :: "nat \<Rightarrow> Verifier \<times> Frame list \<Rightarrow> bool" where
  "budget_inv limit = (\<lambda>(v, stack).
     cap v = limit \<and> used v \<le> limit \<and>
     MAP_ENTRY_OVERHEAD * met_count v + sum_list (map frame_charged stack) \<le> used v \<and>
     frame_oid ` set stack \<subseteq> dom (node v))"

definition stack_work :: "Frame list \<Rightarrow> nat" where
  "stack_work stack = sum_list (map (\<lambda>f. Suc (length (frame_edges f) - frame_next f)) stack)"

text \<open>A step either meets a new object or does some of the work left on the stack.\<close>

definition progresses :: "Verifier \<times> Frame list \<Rightarrow> Verifier \<times> Frame list \<Rightarrow> bool" where
  "progresses s s' \<longleftrightarrow>
     met_count (fst s) < met_count (fst s') \<or>
     (met_count (fst s') = met_count (fst s) \<and> stack_work (snd s') < stack_work (snd s))"

lemma met_count_fresh: "dom (node v') = insert x (dom (node v)) \<Longrightarrow> node v x = None \<Longrightarrow> met_count v' = Suc (met_count v)"
  unfolding met_count_def by (simp add: domIff)

lemma taint_fields [simp]:
  "frame_charged (taint m f) = frame_charged f" "frame_edges (taint m f) = frame_edges f"
  "frame_next (taint m f) = frame_next f"
  by (simp_all add: taint_def)

lemma follow_edge_budget:
  assumes "budget_inv limit (v, f # fs)" "limit < u64_max" "frame_next f < length (frame_edges f)"
    and "follow_edge c (f\<lparr>frame_next := frame_next f + 1\<rparr>) fs v = Inr s'"
  shows "budget_inv limit s' \<and> progresses (v, f # fs) s'"
proof (cases "node v c")
  case (Some st)
  have "budget_inv limit (v, g # fs) \<and> progresses (v, f # fs) (v, g # fs)"
    if "frame_charged g = frame_charged f" "frame_edges g = frame_edges f"
      "frame_next g = Suc (frame_next f)" "frame_oid g = frame_oid f" for g
    using assms(1,3) that by (auto simp: budget_inv_def progresses_def stack_work_def)
  then show ?thesis
    using assms(4) Some by (cases st) (auto simp: follow_edge_def Let_def split: option.splits)
next
  case None
  define f' where "f' = f\<lparr>frame_next := frame_next f + 1\<rparr>"
  from assms(4) None obtain v' opened where o: "open_object c v = Inr (v', opened)"
    and s': "s' = (v', case opened of Some g \<Rightarrow> g # f' # fs | None \<Rightarrow> taint (Some c) f' # fs)"
    by (auto simp: follow_edge_def f'_def and_then_eq_Inr split: option.splits)
  have cap: "cap v < u64_max"
    using assms(1,2) by (auto simp: budget_inv_def)
  note u = open_object_used [OF o cap]
  have "met_count v' = Suc (met_count v)"
    using u met_count_fresh None by blast
  then show ?thesis
    using u assms(1) by (auto simp: s' budget_inv_def progresses_def f'_def split: option.split)
qed

lemma record_missing_used:
  assumes "record_missing f v = Inr v'" "cap v < u64_max" "used v \<le> cap v"
  shows "used v \<le> used v' \<and> used v' \<le> cap v' \<and> cap v' = cap v \<and> ver_state v' = ver_state v"
  using assms by (auto simp: record_missing_def and_then_eq_Inr split: option.splits NodeState.splits
      dest!: ver_charge_used)

lemma taint_parent_charged [simp]: "map frame_charged (taint_parent f fs) = map frame_charged fs"
  by (simp add: taint_parent_def split: list.split)

lemma taint_parent_work [simp]: "stack_work (taint_parent f fs) = stack_work fs"
  by (simp add: taint_parent_def stack_work_def split: list.split)

lemma pop_frame_budget:
  assumes "budget_inv limit (v, f # fs)" "limit < u64_max" "pop_frame f fs v = Inr s'"
  shows "budget_inv limit s' \<and> progresses (v, f # fs) s'"
proof -
  define w where "w = v\<lparr>ver_budget := release (frame_charged f) (ver_budget v),
                ver_state := bt_insert (frame_oid f) (node_of f) (ver_state v)\<rparr>"
  from assms(3) obtain v' where v': "record_missing f w = Inr v'" and s': "s' = (v', taint_parent f fs)"
    by (auto simp: pop_frame_def w_def and_then_eq_Inr Let_def)
  have w: "cap w = limit" "used w = used v - frame_charged f"
    using assms(1) by (auto simp: w_def release_def saturating_sub_def budget_inv_def)
  have dom: "dom (node w) = dom (node v)"
    using assms(1) by (auto simp: w_def bt.get_insert budget_inv_def split: if_splits)
  have below: "used w \<le> cap w"
    using w assms(1) by (auto simp: budget_inv_def)
  have r: "used w \<le> used v'" "used v' \<le> limit" "cap v' = limit" "dom (node v') = dom (node v)"
    using record_missing_used [OF v' _ below] w dom assms(2) by auto
  have oids: "frame_oid ` set (taint_parent f fs) = frame_oid ` set fs"
    by (metis list.set_map taint_parent_oids)
  show ?thesis
    using assms(1) r w(2)
    by (auto simp: s' budget_inv_def progresses_def met_count_def oids) (simp add: stack_work_def)
qed

lemma walk_step_budget:
  assumes "budget_inv limit s" "limit < u64_max" "walk_step s = Inr s'" "snd s \<noteq> []"
  shows "budget_inv limit s' \<and> progresses s s'"
proof -
  obtain v f fs where s: "s = (v, f # fs)"
    using assms(4) by (cases s; cases "snd s") auto
  show ?thesis
  proof (cases "frame_next f < length (frame_edges f)")
    case True
    then show ?thesis
      using assms(3) follow_edge_budget [OF assms(1) [unfolded s] assms(2) True] by (simp add: s)
  next
    case False
    then show ?thesis
      using assms(3) pop_frame_budget [OF assms(1) [unfolded s] assms(2)] by (simp add: s)
  qed
qed

fun rank :: "nat \<Rightarrow> UnknownReason + Verifier \<times> Frame list \<Rightarrow> nat \<times> nat" where
  "rank limit (Inl _) = (0, 0)"
| "rank limit (Inr (v, stack)) = (Suc limit - met_count v, stack_work stack)"

lemma rank_drops:
  assumes "budget_inv limit s" "limit < u64_max" "walking (Inr s)"
  shows "(rank limit (walk_step s), rank limit (Inr s)) \<in> less_than <*lex*> less_than"
proof -
  obtain v stack where s: "s = (v, stack)"
    by (cases s)
  have met: "met_count v \<le> limit"
    using assms(1) by (auto simp: s budget_inv_def MAP_ENTRY_OVERHEAD_def)
  show ?thesis
  proof (cases "walk_step s")
    case (Inl e)
    then show ?thesis
      using met by (simp add: s)
  next
    case (Inr s')
    have "budget_inv limit s'" "progresses s s'"
      using walk_step_budget [OF assms(1,2) Inr] assms(3) by (simp_all add: s)
    then show ?thesis
      using met unfolding Inr by (cases s') (auto simp: s budget_inv_def MAP_ENTRY_OVERHEAD_def progresses_def)
  qed
qed

lemma walk_loop_returns:
  assumes "budget_inv limit s" "limit < u64_max"
  shows "\<exists>r. walk_loop s = Some r \<and> (\<forall>s'. r = Inr s' \<longrightarrow> budget_inv limit s')"
proof -
  define P where "P = (\<lambda>r :: UnknownReason + Verifier \<times> Frame list. \<forall>s'. r = Inr s' \<longrightarrow> budget_inv limit s')"
  have keep: "P (and_then r walk_step)" if Pr: "P r" "walking r" for r
  proof -
    obtain s where s: "r = Inr s" "snd s \<noteq> []"
      using Pr(2) by (cases r rule: walking.cases) auto
    have "budget_inv limit s"
      using Pr(1) s(1) unfolding P_def by blast
    then show ?thesis
      using walk_step_budget [OF _ assms(2) _ s(2)] unfolding P_def s(1) and_then_Inr by blast
  qed
  have drop: "(and_then r walk_step, r) \<in> inv_image (less_than <*lex*> less_than) (rank limit)"
    if Pr: "P r" "walking r" for r
  proof -
    obtain s where s: "r = Inr s"
      using Pr(2) by (cases r rule: walking.cases) auto
    have "budget_inv limit s"
      using Pr(1) s unfolding P_def by blast
    from rank_drops [OF this assms(2)] show ?thesis
      using Pr(2) by (simp add: s in_inv_image)
  qed
  have "P (Inr s)"
    using assms(1) unfolding P_def by blast
  then obtain r where r: "walk_loop s = Some r"
    using wf_rel_while_option_Some [of "inv_image (less_than <*lex*> less_than) (rank limit)" P walking
        "\<lambda>r. and_then r walk_step" "Inr s"] keep drop
    unfolding walk_loop_def by blast
  have "P r"
    by (rule while_option_rule [OF _ r [unfolded walk_loop_def]]) (use keep \<open>P (Inr s)\<close> in auto)
  then show ?thesis
    using r by (auto simp: P_def)
qed

definition within :: "nat \<Rightarrow> Verifier \<Rightarrow> bool" where
  "within limit v \<longleftrightarrow> budget_inv limit (v, [])"

lemma walk_returns:
  assumes "within limit v" "limit < u64_max"
  shows "\<exists>r. walk_object x v = Some r \<and> (\<forall>v'. r = Inr v' \<longrightarrow> within limit v')"
proof (cases "node v x = None \<and> (\<exists>w f. open_object x v = Inr (w, Some f))")
  case True
  then obtain w f where o: "open_object x v = Inr (w, Some f)" and x: "node v x = None"
    by auto
  have cap: "cap v < u64_max"
    using assms by (simp add: within_def budget_inv_def)
  note u = open_object_used [OF o cap]
  have "budget_inv limit (w, [f])"
    using u assms(1) met_count_fresh [of w x v] x by (auto simp: within_def budget_inv_def)
  from walk_loop_returns [OF this assms(2)] obtain r where
    r: "walk_loop (w, [f]) = Some r" "\<forall>s'. r = Inr s' \<longrightarrow> budget_inv limit s'"
    by auto
  have "\<not> walking r"
    using while_option_stop [OF r(1) [unfolded walk_loop_def]] .
  then show ?thesis
    using r x o by (cases r rule: walking.cases) (auto simp: walk_object_def within_def)
next
  case False
  have cap: "cap v < u64_max"
    using assms by (simp add: within_def budget_inv_def)
  have "within limit w" if "open_object x v = Inr (w, None)" "node v x = None" for w
    using open_object_used [OF that(1) cap] assms(1) met_count_fresh [of w x v] that(2)
    by (auto simp: within_def budget_inv_def)
  then show ?thesis
    using False assms(1) by (auto simp: walk_object_def split: sum.splits option.splits prod.splits)
qed

lemma run_walks_returns:
  assumes "within limit v" "limit < u64_max"
  shows "\<exists>r. run_walks i roots v = Some r"
  using assms(1)
proof (induction roots arbitrary: i v)
  case (Cons root roots)
  have "within limit (v\<lparr>ver_current_root := i\<rparr>)"
    using Cons.prems by (simp add: within_def budget_inv_def met_count_def)
  from walk_returns [OF this assms(2)] obtain r where
    r: "walk_object (root_oid root) (v\<lparr>ver_current_root := i\<rparr>) = Some r" "\<forall>v'. r = Inr v' \<longrightarrow> within limit v'"
    by blast
  then show ?case
    using Cons.IH by (cases r) auto
qed simp

lemma run_returns:
  assumes "max_bookkeeping_bytes limits < u64_max"
  shows "\<exists>r. run protected eligible (verifier_new reader cancellation n limits sz) = Some r"
proof -
  define v0 where "v0 = verifier_new reader cancellation n limits sz"
  have targets: "within (max_bookkeeping_bytes limits) v'"
    if "run_targets roots v = Inr v'" "within (max_bookkeeping_bytes limits) v" for roots v v'
    using that
  proof (induction roots arbitrary: v)
    case (Cons root roots)
    then obtain w k where w: "ver_charge k v = Inr w"
      "run_targets roots (w\<lparr>ver_targets := insert (root_oid root) (ver_targets w)\<rparr>) = Inr v'"
      by (auto simp: and_then_eq_Inr)
    have "within (max_bookkeeping_bytes limits) (w\<lparr>ver_targets := insert (root_oid root) (ver_targets w)\<rparr>)"
      using ver_charge_used [OF w(1)] Cons.prems(2) assms
      by (auto simp: within_def budget_inv_def met_count_def)
    from Cons.IH [OF w(2) this] show ?case .
  qed simp
  have charges: "within (max_bookkeeping_bytes limits) v'"
    if "run_charges roots v = Inr v'" "within (max_bookkeeping_bytes limits) v" for roots v v'
    using that
  proof (induction roots arbitrary: v)
    case (Cons root roots)
    then obtain w k where w: "ver_charge k v = Inr w" "run_charges roots w = Inr v'"
      by (auto simp: and_then_eq_Inr)
    have "within (max_bookkeeping_bytes limits) w"
      using ver_charge_used [OF w(1)] Cons.prems(2) assms
      by (auto simp: within_def budget_inv_def met_count_def)
    from Cons.IH [OF w(2) this] show ?case .
  qed simp
  have "within (max_bookkeeping_bytes limits) v0"
    by (simp add: within_def budget_inv_def v0_def verifier_new_def budget_new_def met_count_def dom_def bt.get_empty)
  then show ?thesis
    using run_walks_returns [OF charges [OF _ targets] assms]
    by (auto simp: run_def v0_def [symmetric] and_then_eq_Inr split: sum.split)
qed

subsection \<open>What a conclusion says\<close>

definition witness_roots :: "ObjectReader \<Rightarrow> WitnessPolicy \<Rightarrow> ProtectedRoot list" where
  "witness_roots reader policy =
     (case retained_roots reader of Inr retained \<Rightarrow> eligible_roots retained policy | Inl _ \<Rightarrow> [])"

text \<open>
  A protected root is preserved when a witness is offered, an eligible retained root of the witness
  reaches its exact object, and everything below that object can be read.
\<close>

definition preserved ::
    "ObjectReader \<Rightarrow> ReadLimits \<Rightarrow> Witness list \<Rightarrow> WitnessPolicy \<Rightarrow> ProtectedRoot \<Rightarrow> bool" where
  "preserved reader rl witnesses policy root \<longleftrightarrow>
     witnesses \<noteq> [] \<and> reached_from reader rl (witness_roots reader policy) (root_oid root) \<and>
     whole reader rl (root_oid root)"

definition covering ::
    "ObjectReader \<Rightarrow> ReadLimits \<Rightarrow> WitnessPolicy \<Rightarrow> RootCoverage \<Rightarrow> bool" where
  "covering reader rl policy c \<longleftrightarrow>
     coverage_witness_root c \<in> set (witness_roots reader policy) \<and>
     reaches reader rl (root_oid (coverage_witness_root c)) (root_oid (coverage_root c))"

definition honest_loss :: "ObjectReader \<Rightarrow> ReadLimits \<Rightarrow> UnpreservedItem \<Rightarrow> bool" where
  "honest_loss reader rl item \<longleftrightarrow>
     (case unpreserved_missing item of
        Some m \<Rightarrow> reaches reader rl (root_oid (unpreserved_root item)) m \<and> absent reader rl m
      | None \<Rightarrow> True)"

lemma conclude_root_decides:
  assumes "settled rd rl eligible (root_oid ` set eligible) v" "root_oid root \<in> ver_targets v"
  shows "case conclude_root v witnesses eligible root of
      Inr c \<Rightarrow> reached_from rd rl eligible (root_oid root) \<and> whole rd rl (root_oid root) \<and>
        coverage_root c = root \<and> coverage_witness_root c \<in> set eligible \<and>
        reaches rd rl (root_oid (coverage_witness_root c)) (root_oid root)
    | Inl item \<Rightarrow> \<not> (reached_from rd rl eligible (root_oid root) \<and> whole rd rl (root_oid root)) \<and>
        unpreserved_root item = root \<and> honest_loss rd rl item"
proof (cases "node v (root_oid root)")
  case None
  then show ?thesis
    using settled_met [OF assms(1), of "root_oid root"] by (simp add: conclude_root_def honest_loss_def)
next
  case (Some s)
  show ?thesis
  proof (cases s)
    case NodeComplete
    then have c: "node v (root_oid root) = Some NodeComplete"
      using Some by simp
    obtain i where "origin v (root_oid root) = Some i" "i < length eligible"
      "reaches rd rl (root_oid (eligible ! i)) (root_oid root)"
      by (rule settled_origin [OF assms c])
    then show ?thesis
      using settled_whole [OF assms(1), of "root_oid root"] c by (simp add: conclude_root_def nth_opt_def)
  next
    case NodeIncomplete
    then show ?thesis
      using settled_incomplete [OF assms(1), of "root_oid root"] Some not_whole
      by (auto simp: conclude_root_def honest_loss_def)
  qed (use settled_decided [OF assms(1), of "root_oid root"] Some in simp)
qed

lemma lefts_rights_decided:
  assumes "\<And>x. x \<in> set xs \<Longrightarrow>
    (case f x of Inr c \<Rightarrow> P x \<and> rc c = x \<and> R c | Inl i \<Rightarrow> \<not> P x \<and> ri i = x \<and> L i)"
  shows "map ri (lefts (map f xs)) = filter (\<lambda>x. \<not> P x) xs \<and> list_all L (lefts (map f xs)) \<and>
    map rc (rights (map f xs)) = filter P xs \<and> list_all R (rights (map f xs))"
  using assms
proof (induction xs)
  case (Cons x xs)
  then have "case f x of Inr c \<Rightarrow> P x \<and> rc c = x \<and> R c | Inl i \<Rightarrow> \<not> P x \<and> ri i = x \<and> L i"
    by simp
  then show ?case
    using Cons by (cases "f x") auto
qed simp

definition history_decided ::
    "ObjectReader \<Rightarrow> ReadLimits \<Rightarrow> Witness list \<Rightarrow> WitnessPolicy \<Rightarrow> ProtectedRoot list \<Rightarrow>
     HistoryOutcome \<Rightarrow> bool" where
  "history_decided reader rl witnesses policy roots outcome \<longleftrightarrow>
     (case outcome of
        Verified coverage \<Rightarrow>
          list_all (preserved reader rl witnesses policy) roots \<and>
          map coverage_root (cov_covered coverage) = roots \<and>
          list_all (covering reader rl policy) (cov_covered coverage)
      | Unpreserved items \<Rightarrow>
          items \<noteq> [] \<and>
          map unpreserved_root items = filter (\<lambda>r. \<not> preserved reader rl witnesses policy r) roots \<and>
          list_all (honest_loss reader rl) items
      | HistoryUnknown reasons \<Rightarrow> reasons \<noteq> [])"

lemma conclude_decides:
  assumes "settled reader rl eligible (root_oid ` set eligible) v"
    and "ver_targets v = root_oid ` set (protected_roots protected)"
    and "eligible = witness_roots reader policy" "witnesses \<noteq> []"
  shows "history_decided reader rl witnesses policy (protected_roots protected)
    (conclude protected witnesses eligible v)"
proof -
  let ?f = "conclude_root v witnesses eligible" and ?roots = "protected_roots protected"
  have all: "map unpreserved_root (lefts (map ?f ?roots)) =
        filter (\<lambda>r. \<not> preserved reader rl witnesses policy r) ?roots \<and>
      list_all (honest_loss reader rl) (lefts (map ?f ?roots)) \<and>
      map coverage_root (rights (map ?f ?roots)) = filter (preserved reader rl witnesses policy) ?roots \<and>
      list_all (covering reader rl policy) (rights (map ?f ?roots))"
  proof (rule lefts_rights_decided)
    fix root assume "root \<in> set ?roots"
    then have "root_oid root \<in> ver_targets v"
      using assms(2) by simp
    from conclude_root_decides [OF assms(1) this, of witnesses] show
      "case ?f root of
         Inr c \<Rightarrow> preserved reader rl witnesses policy root \<and> coverage_root c = root \<and>
           covering reader rl policy c
       | Inl item \<Rightarrow> \<not> preserved reader rl witnesses policy root \<and> unpreserved_root item = root \<and>
           honest_loss reader rl item"
      using assms(3,4) by (auto simp: preserved_def covering_def split: sum.splits)
  qed
  show ?thesis
  proof (cases "lefts (map ?f ?roots) = []")
    case True
    then have kept: "filter (\<lambda>r. \<not> preserved reader rl witnesses policy r) ?roots = []"
      using all by simp
    then have "filter (preserved reader rl witnesses policy) ?roots = ?roots"
      by (auto simp: filter_empty_conv intro: filter_True)
    then show ?thesis
      using True all kept
      by (simp add: conclude_def history_decided_def list_all_iff filter_empty_conv)
  next
    case False
    then show ?thesis
      using all by (simp add: conclude_def history_decided_def)
  qed
qed

lemma no_witness_decided:
  "history_decided reader rl [] policy roots (Unpreserved (map no_witness_item roots))" if "roots \<noteq> []"
  using that
  by (simp add: history_decided_def preserved_def no_witness_item_def comp_def honest_loss_def list_all_iff)

text \<open>
  C4. What the history check answers is decided by the object graph of the witness. Verified means
  that every protected root is preserved, each with an eligible witness root that reaches it.
  Unpreserved lists exactly the protected roots that are not preserved, in order, and a missing object
  it names is one the witness does not hold below that root. The graph must have no cycle, as the
  graph of a Git store has none.
\<close>

theorem history_check_decides:
  assumes "acyclic (graph reader (limit_reads limits))"
    and "check_history_under sz protected witnesses reader limits cancellation policy = Some outcome"
  shows "history_decided reader (limit_reads limits) witnesses policy (protected_roots protected) outcome"
proof -
  let ?rl = "limit_reads limits"
  have verified: "history_decided reader ?rl witnesses policy (protected_roots protected) outcome"
    if ok: "witnesses \<noteq> []" "retained_roots reader = Inr retained"
      "verify_history sz protected witnesses reader limits cancellation (eligible_roots retained policy)
         = Some outcome" for retained
  proof -
    have elig: "eligible_roots retained policy = witness_roots reader policy"
      using ok(2) by (simp add: witness_roots_def)
    obtain r where r: "run protected (eligible_roots retained policy)
        (verifier_new reader cancellation 1 limits sz) = Some r"
      "outcome = (case r of Inl reason \<Rightarrow> HistoryUnknown [reason]
         | Inr v \<Rightarrow> conclude protected witnesses (eligible_roots retained policy) v)"
      using ok(3) by (auto simp: verify_history_def)
    show ?thesis
    proof (cases r)
      case (Inr v)
      then have "settled reader ?rl (eligible_roots retained policy)
          (root_oid ` set (eligible_roots retained policy)) v"
        "ver_targets v = root_oid ` set (protected_roots protected)"
        using run_settled [OF assms(1), of protected "eligible_roots retained policy" cancellation 1 sz v] r(1)
        by simp_all
      from conclude_decides [OF this elig ok(1)] show ?thesis
        using r(2) Inr by simp
    qed (simp add: r(2) history_decided_def)
  qed
  show ?thesis
    using assms(2) verified no_witness_decided [of "protected_roots protected" reader ?rl policy]
    by (auto simp: check_history_under_def Let_def history_decided_def default_coverage_def
        split: if_splits sum.splits)
qed

text \<open>
  C17. The history check always returns, whatever the witness store holds and even if it is infinite or
  cyclic, as long as the bookkeeping limit is below the largest 64-bit count: every object met is charged for
  and the charge is never given back.
\<close>

theorem history_check_returns:
  assumes "max_bookkeeping_bytes limits < u64_max"
  shows "\<exists>outcome. check_history_under sz protected witnesses reader limits cancellation policy = Some outcome"
  using run_returns [OF assms]
  by (auto simp: check_history_under_def verify_history_def Let_def split: sum.split)

definition connectivity_decided ::
    "ObjectReader \<Rightarrow> ReadLimits \<Rightarrow> ProtectedRoots \<Rightarrow> ConnectivityOutcome \<Rightarrow> bool" where
  "connectivity_decided reader rl protected outcome \<longleftrightarrow>
     (case outcome of
        ConnComplete _ \<Rightarrow>
          is_complete protected \<and>
          list_all (\<lambda>r. whole reader rl (root_oid r)) (protected_roots protected)
      | ConnIncomplete missing \<Rightarrow>
          missing \<noteq> [] \<and>
          map missing_root missing =
            filter (\<lambda>r. \<not> whole reader rl (root_oid r)) (protected_roots protected) \<and>
          list_all (\<lambda>m. reaches reader rl (root_oid (missing_root m)) (missing_oid m) \<and>
            absent reader rl (missing_oid m)) missing
      | ConnUnknown reasons \<Rightarrow> reasons \<noteq> [])"

lemma missing_under_decides:
  assumes "settled reader rl eligible (root_oid ` set eligible) v" "set roots \<subseteq> set eligible"
  shows "map missing_root (missing_under v roots) = filter (\<lambda>r. \<not> whole reader rl (root_oid r)) roots \<and>
    list_all (\<lambda>m. reaches reader rl (root_oid (missing_root m)) (missing_oid m) \<and>
      absent reader rl (missing_oid m)) (missing_under v roots)"
  using assms(2)
proof (induction roots)
  case (Cons root roots)
  have reached: "reached_from reader rl eligible (root_oid root)"
    using Cons.prems by (auto simp: reached_from_def intro: bexI [of _ root])
  then obtain s where s: "node v (root_oid root) = Some s"
    using settled_met [OF assms(1), of "root_oid root"] by auto
  show ?case
  proof (cases s)
    case NodeComplete
    then show ?thesis
      using Cons s settled_complete [OF assms(1)] by simp
  next
    case NodeIncomplete
    then show ?thesis
      using Cons s settled_incomplete [OF assms(1), of "root_oid root"] not_whole by auto
  qed (use settled_decided [OF assms(1), of "root_oid root"] s in simp)
qed simp

lemma conclude_connectivity_decides:
  assumes "settled reader rl (protected_roots protected) (root_oid ` set (protected_roots protected)) v"
    and "is_complete protected"
  shows "connectivity_decided reader rl protected (conclude_connectivity protected v)"
proof -
  note under = missing_under_decides [OF assms(1) order_refl]
  show ?thesis
  proof (cases "missing_under v (protected_roots protected) = []")
    case True
    then have "filter (\<lambda>r. \<not> whole reader rl (root_oid r)) (protected_roots protected) = []"
      using under by simp
    then show ?thesis
      using True assms(2)
      by (simp add: conclude_connectivity_def connectivity_decided_def filter_empty_conv list_all_iff)
  next
    case False
    then show ?thesis
      using under by (simp add: conclude_connectivity_def connectivity_decided_def)
  qed
qed

text \<open>
  C29. Connectivity is decided by the object graph of the store: complete means that everything below
  every protected root can be read, incomplete lists exactly the roots for which it cannot, each with
  an object below it that the store does not hold.
\<close>

theorem connectivity_check_decides:
  assumes "acyclic (graph reader (limit_reads limits))"
    and "check_connectivity sz protected reader limits cancellation = Some outcome"
  shows "connectivity_decided reader (limit_reads limits) protected outcome"
proof -
  have "connectivity_decided reader (limit_reads limits) protected
      (case r of Inl reason \<Rightarrow> ConnUnknown [reason] | Inr v \<Rightarrow> conclude_connectivity protected v)"
    if "run protected (protected_roots protected) (verifier_new reader cancellation 1 limits sz) = Some r"
      "is_complete protected" for r
    using run_settled [OF assms(1), of protected "protected_roots protected" cancellation 1 sz] that
      conclude_connectivity_decides
    by (cases r) (auto simp: connectivity_decided_def)
  then show ?thesis
    using assms(2)
    by (auto simp: check_connectivity_def is_complete_def connectivity_decided_def split: if_splits)
qed

text \<open>The connectivity check always returns, under the same bound on its bookkeeping limit.\<close>

theorem connectivity_returns:
  assumes "max_bookkeeping_bytes limits < u64_max"
  shows "\<exists>outcome. check_connectivity sz protected reader limits cancellation = Some outcome"
  using run_returns [OF assms] by (auto simp: check_connectivity_def)

subsection \<open>A small store\<close>

definition sample_oid :: "nat \<Rightarrow> ObjectId" where
  "sample_oid n = ObjectId Sha1 (replicate 20 (of_nat n))"

definition sample_record :: "ObjectId \<Rightarrow> ObjectId list \<Rightarrow> ObjectRecord" where
  "sample_record oid edges =
     \<lparr>record_oid = oid, record_kind = CommitObject, record_size = 100, record_edges = edges\<rparr>"

text \<open>Commit 5 has parent 6; nothing else is held.\<close>

definition sample_reader :: ObjectReader where
  "sample_reader =
     \<lparr>retained_roots = Inr \<lparr>protected_roots = [\<lparr>root_source = SourceHead, root_oid = sample_oid 5\<rparr>],
                            protected_unknown = []\<rparr>,
      read_object = (\<lambda>oid _.
        if oid = sample_oid 5 then Inr (sample_record oid [sample_oid 6])
        else if oid = sample_oid 6 then Inr (sample_record oid [])
        else Inl (ReadMissing oid))\<rparr>"

text \<open>Objects 5 and 6 name each other and 5 also names 7, which is not held.\<close>

definition cyclic_reader :: ObjectReader where
  "cyclic_reader =
     \<lparr>retained_roots = Inr \<lparr>protected_roots = [\<lparr>root_source = SourceHead, root_oid = sample_oid 5\<rparr>],
                            protected_unknown = []\<rparr>,
      read_object = (\<lambda>oid _.
        if oid = sample_oid 5 then Inr (sample_record oid [sample_oid 6, sample_oid 7])
        else if oid = sample_oid 6 then Inr (sample_record oid [sample_oid 5])
        else Inl (ReadMissing oid))\<rparr>"

definition sample_sizes :: TypeSizes where
  "sample_sizes =
     \<lparr>sizeof_ObjectId = 32, sizeof_ProtectedRoot = 88, sizeof_NodeState = 1, sizeof_Frame = 128,
      sizeof_usize = 8\<rparr>"

definition sample_protected :: "nat list \<Rightarrow> ProtectedRoots" where
  "sample_protected ns =
     \<lparr>protected_roots = map (\<lambda>n. \<lparr>root_source = SourceHead, root_oid = sample_oid n\<rparr>) ns,
      protected_unknown = []\<rparr>"

definition sample_witness :: Witness where
  "sample_witness = \<lparr>witness_repository = KeyRoot, witness_label = []\<rparr>"

lemma sample_oid_order:
  "sample_oid 5 < sample_oid 6" "sample_oid 5 < sample_oid 7" "sample_oid 6 < sample_oid 7"
  by code_simp+

lemmas sample_oid_cmp [simp] =
  sample_oid_order sample_oid_order [THEN less_imp_neq] sample_oid_order [THEN less_imp_neq, symmetric]
  sample_oid_order [THEN less_not_sym]

lemma sample_oid_len [simp]: "length (oid_bytes (sample_oid n)) = 20"
  by (simp add: sample_oid_def)

lemmas walk_eval =
  check_history_under_def verify_history_def run_def walk_object_def walk_loop_def open_object_def
  open_present_def open_missing_def record_origin_def ver_charge_def charge_def release_def
  follow_edge_def pop_frame_def node_of_def record_missing_def taint_parent_def taint_def
  verifier_new_def budget_new_def oid_cost_def root_cost_def MAP_ENTRY_OVERHEAD_def
  saturating_add_def saturating_sub_def u64_max_def bt_empty_def bt_get_def Let_def
  unsupported_roots_def unsupported_root_def eligible_roots_def conclude_def conclude_root_def
  nth_opt_def attribution_def

lemmas sample_eval =
  sample_protected_def sample_record_def default_limits_def default_read_limits_def sample_sizes_def

lemma sample_store_verified:
  "\<exists>coverage. check_history_under sample_sizes (sample_protected [6]) [sample_witness] sample_reader
     default_limits (\<lambda>_. False) Durable = Some (Verified coverage)"
  by (simp add: walk_eval sample_eval sample_reader_def while_option_unfold)

lemma sample_graph: "graph sample_reader rl = {(sample_oid 5, sample_oid 6)}"
  by (auto simp: graph_def edges_of_def sample_reader_def sample_record_def split: if_splits)

lemma sample_acyclic: "acyclic (graph sample_reader rl)"
  by (simp add: sample_graph acyclic_def trancl_insert)

theorem history_check_decides_witness:
  "\<exists>coverage. check_history_under sample_sizes (sample_protected [6]) [sample_witness] sample_reader
       default_limits (\<lambda>_. False) Durable = Some (Verified coverage) \<and>
     history_decided sample_reader (limit_reads default_limits) [sample_witness] Durable
       (protected_roots (sample_protected [6])) (Verified coverage)"
  using sample_store_verified history_check_decides [OF sample_acyclic] by blast

theorem history_check_returns_witness:
  "\<exists>outcome. check_history_under sample_sizes (sample_protected [6]) [sample_witness] cyclic_reader
     default_limits (\<lambda>_. False) Durable = Some outcome"
  by (rule history_check_returns) (simp add: default_limits_def u64_max_def)

theorem connectivity_check_decides_witness:
  "\<exists>missing. check_connectivity sample_sizes (sample_protected [5, 7]) sample_reader
       default_limits (\<lambda>_. False) = Some (ConnIncomplete missing) \<and>
     connectivity_decided sample_reader (limit_reads default_limits) (sample_protected [5, 7])
       (ConnIncomplete missing)"
proof -
  have "\<exists>missing. check_connectivity sample_sizes (sample_protected [5, 7]) sample_reader
       default_limits (\<lambda>_. False) = Some (ConnIncomplete missing)"
    by (simp add: check_connectivity_def is_complete_def conclude_connectivity_def walk_eval sample_eval
        sample_reader_def while_option_unfold)
  then show ?thesis
    using connectivity_check_decides [OF sample_acyclic] by blast
qed

theorem connectivity_returns_witness:
  "\<exists>outcome. check_connectivity sample_sizes (sample_protected [5, 7]) cyclic_reader
     default_limits (\<lambda>_. False) = Some outcome"
  by (rule connectivity_returns) (simp add: default_limits_def u64_max_def)

text \<open>
  The graph must not be cyclic: a reader that presents a cycle makes the check answer verified for
  a root that is not preserved, because the walk treats the edge back into the objects it is still
  exploring as if it led to a complete one.
\<close>

theorem cyclic_store_is_misjudged:
  "(\<exists>coverage. check_history_under sample_sizes (sample_protected [6]) [sample_witness] cyclic_reader
      default_limits (\<lambda>_. False) Durable = Some (Verified coverage)) \<and>
   \<not> preserved cyclic_reader (limit_reads default_limits) [sample_witness] Durable
      \<lparr>root_source = SourceHead, root_oid = sample_oid 6\<rparr>"
proof -
  let ?rl = "limit_reads default_limits"
  have "reaches cyclic_reader ?rl (sample_oid 6) (sample_oid 7)"
    by (rule reaches_step [of "sample_oid 5"], simp add: edges_of_def cyclic_reader_def sample_record_def,
        rule reaches_step [of "sample_oid 7"], simp_all add: edges_of_def cyclic_reader_def sample_record_def)
  moreover have "absent cyclic_reader ?rl (sample_oid 7)"
    by (simp add: absent_def cyclic_reader_def)
  ultimately have "\<not> whole cyclic_reader ?rl (sample_oid 6)"
    by (rule not_whole)
  then show ?thesis
    by (simp add: preserved_def) (simp add: walk_eval sample_eval cyclic_reader_def while_option_unfold)
qed

end
