(* ===== verification/Session_Port.thy ===== *)
theory Session_Port
  imports Store_Session
begin

text \<open>
  The session trait of \<open>crates/family-store-contract/src/lib.rs\<close> as a record of operations over a
  world, so that disposal and installation are written against the trait and not against the store,
  and the store's session as an instance of it. The locale \<open>family_session\<close> is the contract that the
  clients rely on; it is interpreted on the store.
\<close>

record 's FamilySession =
  sess_root :: hpath
  sess_reread :: "('s, StoreError, FamilyView option) op"
  sess_found :: "FamilyId \<Rightarrow> AllocationId \<Rightarrow> ('s, StoreError, AppliedChange) op"
  sess_apply :: "FamilyChange \<Rightarrow> ('s, StoreError, AppliedChange) op"
  sess_install_pointer :: "MemberName \<Rightarrow> hpath \<Rightarrow> ('s, StoreError, AppliedChange) op"
  sess_remove_pointer :: "MemberName \<Rightarrow> ('s, StoreError, AppliedChange) op"

definition store_session :: "'b codec \<Rightarrow> LockedFamilySession \<Rightarrow> 'b host FamilySession" where
  "store_session c session =
     \<lparr>sess_root = session_root session,
      sess_reread = reread c (session_root session),
      sess_found = session_found c (session_root session),
      sess_apply = session_apply c (session_root session),
      sess_install_pointer = session_install_pointer c (session_root session),
      sess_remove_pointer = session_remove_pointer c (session_root session)\<rparr>"

subsection \<open>The contract\<close>

text \<open>
  What a client may rely on, about the index the session is open on: rereading tells it truthfully;
  an applied change leaves the old index with an error, or the transition's; removing a member's
  pointer leaves it alone. No operation promises success.
\<close>

locale family_session =
  fixes session :: "'s FamilySession"
    and holds :: "'s \<Rightarrow> FamilyView \<Rightarrow> bool"
  assumes holds_wf: "holds s v \<Longrightarrow> bt_wf (view_members v)"
    and reread_holds: "triple (\<lambda>s. holds s v) (sess_reread session)
      (\<lambda>x s. holds s v \<and> x = Some v) (\<lambda>_ s. holds s v)"
    and apply_holds: "change_typed ch \<Longrightarrow> ch \<noteq> Disband \<Longrightarrow>
      triple (\<lambda>s. holds s v) (sess_apply session ch)
        (\<lambda>_ s. \<exists>vc. validate_transition v ch = Inr vc \<and> holds s (validated_next vc))
        (\<lambda>_ s. holds s v \<or> (\<exists>vc. validate_transition v ch = Inr vc \<and> holds s (validated_next vc)))"
    and remove_holds: "triple (\<lambda>s. holds s v) (sess_remove_pointer session n)
      (\<lambda>_ s. holds s v) (\<lambda>_ s. holds s v)"
begin

text \<open>The same, with the members an accepted change leaves written out.\<close>

lemma apply_effect:
  assumes "change_typed ch" "ch \<noteq> Disband"
  shows "triple (\<lambda>s. holds s v) (sess_apply session ch)
    (\<lambda>_ s. change_guard v ch \<and> holds s (v\<lparr>view_members := change_effect ch (view_members v)\<rparr>))
    (\<lambda>_ s. holds s v \<or>
       (change_guard v ch \<and> holds s (v\<lparr>view_members := change_effect ch (view_members v)\<rparr>)))"
proof (rule tripleI)
  fix s x s' assume s: "holds s v" "sess_apply session ch s = (Inr x, s')"
  from tripleD(1) [OF apply_holds [OF assms] s] show
    "change_guard v ch \<and> holds s' (v\<lparr>view_members := change_effect ch (view_members v)\<rparr>)"
    by (auto simp: validate_transition_Inr [OF holds_wf [OF s(1)]])
next
  fix s e s' assume s: "holds s v" "sess_apply session ch s = (Inl e, s')"
  from tripleD(2) [OF apply_holds [OF assms] s] show "holds s' v \<or>
      (change_guard v ch \<and> holds s' (v\<lparr>view_members := change_effect ch (view_members v)\<rparr>))"
    by (auto simp: validate_transition_Inr [OF holds_wf [OF s(1)]])
qed

end

subsection \<open>The store keeps the contract\<close>

definition store_holds :: "'b codec \<Rightarrow> hpath \<Rightarrow> 'b host \<Rightarrow> FamilyView \<Rightarrow> bool" where
  "store_holds c root h v \<longleftrightarrow> codec_ok c \<and> host_wf h \<and> stored_index c root h = Inr (Some v)"

lemma host_wf_same: "same_host h h' \<Longrightarrow> host_wf h' = host_wf h"
  by (auto simp: same_host_def host_wf_def)

lemma store_holds_same: "same_host h h' \<Longrightarrow> store_holds c root h v \<Longrightarrow> store_holds c root h' v"
  by (simp add: store_holds_def host_wf_same stored_index_tick)

text \<open>Operations that only read keep the index.\<close>

lemma reads_only_triple:
  assumes "reads_only m"
  shows "triple (\<lambda>h. store_holds c root h v) m (\<lambda>_ h. store_holds c root h v) (\<lambda>_ h. store_holds c root h v)"
  using reads_onlyD [OF assms] store_holds_same by (blast intro: tripleI)

lemma session_apply_wf:
  assumes run: "session_apply c root ch h = (r, h')" and st: "stored_index c root h = Inr (Some v)"
    and wf: "host_wf h"
  shows "host_wf h'"
  using session_apply_outcome [OF run st]
proof (elim disjE exE conjE)
  assume "same_host h h'"
  with wf show ?thesis
    by (simp add: host_wf_same)
next
  fix vc h2 r2
  assume h2: "same_host h h2"
    and act: "if ch = Disband
      then remove_index root h2 = (r2, h') \<and>
        r = map_sum id (\<lambda>e. \<lparr>applied_effects = [e], applied_view = None\<rparr>) r2
      else write_index c root (validated_next vc) h2 = (r2, h') \<and>
        r = map_sum id (\<lambda>e. \<lparr>applied_effects = [e], applied_view = Some (validated_next vc)\<rparr>) r2"
  obtain g b where g: "metadata_at h root g" "host_nodes h (g @ [index_name]) = Some (Regular b)"
    using stored_index_found [OF st wf] by blast
  then have g2: "metadata_at h2 root g" "host_nodes h2 (g @ [index_name]) = Some (Regular b)"
    using h2 by (simp_all add: metadata_at_tick same_host_nodes)
  have wf2: "host_wf h2"
    using wf h2 by (simp add: host_wf_same)
  show ?thesis
  proof (cases "ch = Disband")
    case True
    then have "remove_index root h2 = (r2, h')"
      using act by simp
    from remove_index_outcome [OF this g2] show ?thesis
      using wf2 by (auto simp: host_wf_same metadata_at_def)
  next
    case False
    then have "write_index c root (validated_next vc) h2 = (r2, h')"
      using act by simp
    from write_index_outcome [OF this g2] show ?thesis
      by (simp add: metadata_at_def)
  qed
qed

lemma store_holds_apply:
  assumes "change_typed ch" "ch \<noteq> Disband"
  shows "triple (\<lambda>h. store_holds c root h v) (session_apply c root ch)
    (\<lambda>_ h. \<exists>vc. validate_transition v ch = Inr vc \<and> store_holds c root h (validated_next vc))
    (\<lambda>_ h. store_holds c root h v \<or>
       (\<exists>vc. validate_transition v ch = Inr vc \<and> store_holds c root h (validated_next vc)))"
proof (rule tripleI)
  fix h x h' assume h: "store_holds c root h v" and run: "session_apply c root ch h = (Inr x, h')"
  have wf: "codec_ok c" "host_wf h" "stored_index c root h = Inr (Some v)"
    using h by (simp_all add: store_holds_def)
  from session_apply_stored [OF wf(1,2) assms(1) wf(3) run] session_apply_wf [OF run wf(3,2)] assms(2) wf(1)
  show "\<exists>vc. validate_transition v ch = Inr vc \<and> store_holds c root h' (validated_next vc)"
    by (auto simp: store_holds_def)
next
  fix h e h' assume h: "store_holds c root h v" and run: "session_apply c root ch h = (Inl e, h')"
  have wf: "codec_ok c" "host_wf h" "stored_index c root h = Inr (Some v)"
    using h by (simp_all add: store_holds_def)
  from session_apply_stored [OF wf(1,2) assms(1) wf(3) run] session_apply_wf [OF run wf(3,2)] assms(2) wf(1)
  show "store_holds c root h' v \<or>
      (\<exists>vc. validate_transition v ch = Inr vc \<and> store_holds c root h' (validated_next vc))"
    by (auto simp: store_holds_def)
qed

text \<open>A regular file of the workspace's metadata, seen by the last reading.\<close>

definition file_there :: "hpath \<Rightarrow> osname \<Rightarrow> 'b host \<Rightarrow> bool" where
  "file_there w n h \<longleftrightarrow> (\<exists>g b. metadata_at h w g \<and> host_nodes h (g @ [n]) = Some (Regular b))"

lemma file_there_same: "same_host h h' \<Longrightarrow> file_there w n h \<Longrightarrow> file_there w n h'"
  unfolding file_there_def using metadata_at_tick [of h h'] same_host_nodes [of h h'] by auto

lemma read_metadata_there:
  assumes "read_metadata (meta_path w n) operation h = (Inr (Some x), h')" "host_wf h"
  shows "file_there w n h'"
proof -
  obtain r h1 where fs: "file_state (meta_path w n) h = (r, h1)"
    by (cases "file_state (meta_path w n) h")
  have "r = Inr RegularFile"
    using assms(1) fs by (cases r) (auto simp: read_metadata_def op_bind_eq split: FileState.splits)
  with file_state_facts(2) [of w n h RegularFile h1] fs assms(2) have "file_there w n h"
    by (simp add: file_there_def)
  then show ?thesis
    by (rule file_there_same [OF reads_onlyD [OF reads_only_read_metadata assms(1)]])
qed

lemma pointer_of_there:
  "triple (\<lambda>h. store_holds c root h v) (pointer_of c w view)
    (\<lambda>stands h. store_holds c root h v \<and> (stands \<longrightarrow> file_there w pointer_name h)) (\<lambda>_ h. store_holds c root h v)"
proof (rule tripleI)
  fix h x h' assume h: "store_holds c root h v" and run: "pointer_of c w view h = (Inr x, h')"
  have "store_holds c root h' v"
    using reads_onlyD [OF reads_only_pointer_of run] h by (rule store_holds_same)
  moreover have "file_there w pointer_name h'" if x: "x"
  proof -
    obtain y where y: "read_metadata (meta_path w pointer_name) ReadPointer h = (Inr (Some y), h')"
      using run x
      by (cases "read_metadata (meta_path w pointer_name) ReadPointer h")
         (auto simp: pointer_of_def read_pointer_def metadata_paths Let_def op_match_eq op_bind_eq
           split: sum.splits option.splits)
    show ?thesis
      by (rule read_metadata_there [OF y]) (use h store_holds_def in blast)
  qed
  ultimately show "store_holds c root h' v \<and> (x \<longrightarrow> file_there w pointer_name h')"
    by blast
qed (auto simp: pointer_of_def op_match_eq)

lemma marker_of_there:
  "triple (\<lambda>h. store_holds c root h v) (marker_of c w view row)
    (\<lambda>stands h. store_holds c root h v \<and> (stands \<longrightarrow> file_there w marker_name h)) (\<lambda>_ h. store_holds c root h v)"
proof (rule tripleI)
  fix h x h' assume h: "store_holds c root h v" and run: "marker_of c w view row h = (Inr x, h')"
  have "store_holds c root h' v"
    using reads_onlyD [OF reads_only_marker_of run] h by (rule store_holds_same)
  moreover have "file_there w marker_name h'" if x: "x"
  proof -
    obtain y where y: "read_metadata (meta_path w marker_name) ReadMarker h = (Inr (Some y), h')"
      using run x
      by (cases "read_metadata (meta_path w marker_name) ReadMarker h")
         (auto simp: marker_of_def read_marker_def metadata_paths Let_def op_match_eq op_bind_eq
           split: sum.splits option.splits)
    show ?thesis
      by (rule read_metadata_there [OF y]) (use h store_holds_def in blast)
  qed
  ultimately show "store_holds c root h' v \<and> (x \<longrightarrow> file_there w marker_name h')"
    by blast
qed (auto simp: marker_of_def op_match_eq)

text \<open>Removing a regular file that is not the index leaves the index.\<close>

lemma store_holds_drop:
  assumes h: "store_holds c root h v" and m: "metadata_at h w g"
    and n: "host_nodes h (g @ [n]) = Some (Regular b)" and i: "n \<noteq> index_name"
  shows "store_holds c root (put_node (g @ [n]) None h) v"
proof -
  have wf: "codec_ok c" "host_wf h" "stored_index c root h = Inr (Some v)"
    using h by (simp_all add: store_holds_def)
  obtain g0 b0 where g0: "metadata_at h root g0" "host_nodes h (g0 @ [index_name]) = Some (Regular b0)"
    using stored_index_found [OF wf(3,2)] by blast
  have "g @ [n] \<noteq> g0"
    using g0(1) n by (cases g0 rule: rev_cases) (auto simp: metadata_at_def)
  then have m': "metadata_at (put_node (g @ [n]) None h) root g0"
    using g0(1) n by (intro metadata_at_put) (simp_all add: leaf_at_def)
  have n': "host_nodes (put_node (g @ [n]) None h) (g0 @ [index_name]) = Some (Regular b0)"
    using g0(2) i by (simp add: put_node_def)
  have "stored_index c root (put_node (g @ [n]) None h) = Inr (Some v)"
    using wf(3) unfolding stored_index_node [OF g0] stored_index_node [OF m' n'] .
  with m' wf(1) show ?thesis
    by (simp add: store_holds_def metadata_at_def)
qed

lemma publish_remove_holds:
  assumes "n \<noteq> index_name"
  shows "triple (\<lambda>h. store_holds c root h v \<and> file_there w n h) (publish_remove (meta_path w n))
    (\<lambda>_ h. store_holds c root h v) (\<lambda>_ h. store_holds c root h v)"
proof -
  have "store_holds c root (snd (publish_remove (meta_path w n) h)) v"
    if h: "store_holds c root h v" "metadata_at h w g" "host_nodes h (g @ [n]) = Some (Regular b)" for h g b
  proof -
    have look: "host_lookup h False False (meta_path w n) = Inr (g @ [n])"
      using metadata_lookup(1) [OF h(2), of n] h(3) by simp
    define h1 where "h1 = h\<lparr>host_tick := Suc (host_tick h)\<rparr>"
    have h1: "same_host h h1"
      by (auto simp: same_host_def h1_def)
    have "store_holds c root (put_node (g @ [n]) None h1) v"
      by (rule store_holds_drop [OF store_holds_same [OF h1 h(1)] metadata_at_tick [OF h1 h(2)] _ assms])
         (use h(3) h1_def in simp)
    then show ?thesis
      using look h(3) store_holds_same [OF h1 h(1)]
      by (auto simp: publish_remove_def op_match_eq fs_remove_file_def syscall_def node_at_def h1_def
          split: option.split)
  qed
  then show ?thesis
    unfolding file_there_def triple_def by (fastforce split: prod.split sum.split)
qed

lemma names_differ: "pointer_name \<noteq> index_name" "marker_name \<noteq> index_name"
  by (simp_all add: pointer_name_def marker_name_def index_name_def lit_def)

lemma store_holds_remove_pointer:
  "triple (\<lambda>h. store_holds c root h v) (session_remove_pointer c root name)
    (\<lambda>_ h. store_holds c root h v) (\<lambda>_ h. store_holds c root h v)"
proof -
  note remove = publish_remove_holds [OF names_differ(1)] publish_remove_holds [OF names_differ(2)]
  have pointer: "triple (\<lambda>h. store_holds c root h v \<and> (stands \<longrightarrow> file_there w pointer_name h))
      (if stands
       then op_bind (op_map_err e (publish_remove (meta_path w pointer_name))) (\<lambda>_. op_return x)
       else op_return y)
      (\<lambda>_ h. store_holds c root h v) (\<lambda>_ h. store_holds c root h v)" for stands w x y
      and e :: "io_error \<Rightarrow> StoreError"
    by (cases stands) (auto intro!: triple_intros triple_pre [OF remove(1)])
  have marker: "triple (\<lambda>h. store_holds c root h v \<and> (stands \<longrightarrow> file_there w marker_name h))
      (if stands
       then op_bind (op_map_err e (publish_remove (meta_path w marker_name))) (\<lambda>_. op_return x)
       else op_return y)
      (\<lambda>_ h. store_holds c root h v) (\<lambda>_ h. store_holds c root h v)" for stands w x y
      and e :: "io_error \<Rightarrow> StoreError"
    by (cases stands) (auto intro!: triple_intros triple_pre [OF remove(2)])
  have rest: "triple (\<lambda>h. store_holds c root h v)
      (case r of
         Inl _ \<Rightarrow> op_return \<lparr>applied_effects = [], applied_view = Some view\<rparr>
       | Inr resolved \<Rightarrow>
           op_bind (pointer_of c resolved view) (\<lambda>stands.
           op_bind (if stands
               then op_bind (op_map_err (store_io_error RemovePointer (meta_path resolved pointer_name))
                   (publish_remove (meta_path resolved pointer_name))) (\<lambda>_. op_return [PointerRemoved workspace])
               else op_return []) (\<lambda>effects.
           op_bind (marker_of c resolved view row) (\<lambda>marked.
           op_bind (if marked
               then op_bind (op_map_err (partial_or_io RemoveMarker effects (meta_path resolved marker_name))
                   (publish_remove (meta_path resolved marker_name)))
                 (\<lambda>_. op_return (effects @ [MarkerRemoved workspace]))
               else op_return effects) (\<lambda>effects.
             op_return \<lparr>applied_effects = effects, applied_view = Some view\<rparr>)))))
      (\<lambda>_ h. store_holds c root h v) (\<lambda>_ h. store_holds c root h v)"
    for r :: "io_error + hpath" and view row workspace
    by (cases r) (auto intro!: triple_return triple_bind [OF pointer_of_there] triple_bind [OF pointer]
        triple_bind [OF marker_of_there] triple_bind [OF marker])
  show ?thesis
    unfolding session_remove_pointer_def Let_def metadata_paths reread_def
    by (intro triple_bind [OF reads_only_triple [OF reads_only_read_index]]
        triple_bind [where Q = "\<lambda>_ h. store_holds c root h v", OF triple_result]
        triple_match [OF reads_only_triple [OF reads_only_resolve]] rest) simp_all
qed

lemma store_reread_holds:
  "triple (\<lambda>h. store_holds c root h v) (reread c root)
    (\<lambda>x h. store_holds c root h v \<and> x = Some v) (\<lambda>_ h. store_holds c root h v)"
proof (rule tripleI)
  fix h x h' assume h: "store_holds c root h v" and run: "reread c root h = (Inr x, h')"
  then have "store_holds c root h' v"
    using reads_onlyD [OF reads_only_read_index] store_holds_same unfolding reread_def by blast
  moreover have "stored_index c root h = Inr x"
    using run by (intro stored_index_read) (simp add: reread_def)
  ultimately show "store_holds c root h' v \<and> x = Some v"
    using h by (simp add: store_holds_def)
next
  fix h e h' assume "store_holds c root h v" "reread c root h = (Inl e, h')"
  then show "store_holds c root h' v"
    using reads_onlyD [OF reads_only_read_index] store_holds_same unfolding reread_def by blast
qed

interpretation store: family_session "store_session c session" "store_holds c (session_root session)"
  for c :: "'b codec" and session :: LockedFamilySession
proof
  fix h v ch n
  show "bt_wf (view_members v)" if h: "store_holds c (session_root session) h v"
  proof -
    have "host_wf h" "stored_index c (session_root session) h = Inr (Some v)"
      using h by (simp_all add: store_holds_def)
    from stored_index_found [OF this(2,1)] show ?thesis
      by (auto simp: view_typed_def)
  qed
  show "triple (\<lambda>h. store_holds c (session_root session) h v) (sess_reread (store_session c session))
      (\<lambda>x h. store_holds c (session_root session) h v \<and> x = Some v)
      (\<lambda>_ h. store_holds c (session_root session) h v)"
    using store_reread_holds by (simp add: store_session_def)
  show "triple (\<lambda>h. store_holds c (session_root session) h v) (sess_apply (store_session c session) ch)
      (\<lambda>_ h. \<exists>vc. validate_transition v ch = Inr vc \<and> store_holds c (session_root session) h (validated_next vc))
      (\<lambda>_ h. store_holds c (session_root session) h v \<or>
        (\<exists>vc. validate_transition v ch = Inr vc \<and> store_holds c (session_root session) h (validated_next vc)))"
    if "change_typed ch" "ch \<noteq> Disband"
    using store_holds_apply [OF that] by (simp add: store_session_def)
  show "triple (\<lambda>h. store_holds c (session_root session) h v) (sess_remove_pointer (store_session c session) n)
      (\<lambda>_ h. store_holds c (session_root session) h v) (\<lambda>_ h. store_holds c (session_root session) h v)"
    using store_holds_remove_pointer by (simp add: store_session_def)
qed

end
