(* ===== verification/Disposal.thy ===== *)
theory Disposal
  imports Session_Port Work_Detector
begin

text \<open>
  The disposal service of \<open>crates/local-disposal/src\<close>: the hazard vocabulary (\<open>hazard.rs\<close>), requests
  and policies (\<open>policy.rs\<close>), the ports (\<open>ports.rs\<close>), validation (\<open>validate.rs\<close>), inspection
  (\<open>inspect.rs\<close>), the ordered sequence (\<open>run.rs\<close>), errors and reports (\<open>report.rs\<close>) and the entry
  point (\<open>lib.rs\<close>).

  Session and ports act on one world; the ports are arguments. A run threads the world, the effects
  the code reports, and a trace of the calls it makes with their answers. The trace is not part of
  the code: it only records which port was called when, so that the order of calls can be stated.
\<close>

subsection \<open>Hazards\<close>

datatype HazardWaiver = OpenMerge | Dirty | UnpreservedHistory

text \<open>The derived order of the waivers, which orders the findings of a repository.\<close>

fun waiver_rank :: "HazardWaiver \<Rightarrow> nat" where
  "waiver_rank OpenMerge = 0"
| "waiver_rank Dirty = 1"
| "waiver_rank UnpreservedHistory = 2"

instantiation HazardWaiver :: linorder
begin

definition less_eq_HazardWaiver :: "HazardWaiver \<Rightarrow> HazardWaiver \<Rightarrow> bool" where
  "less_eq_HazardWaiver a b = (waiver_rank a \<le> waiver_rank b)"

definition less_HazardWaiver :: "HazardWaiver \<Rightarrow> HazardWaiver \<Rightarrow> bool" where
  "less_HazardWaiver a b = (waiver_rank a < waiver_rank b)"

instance
proof
  fix a b c :: HazardWaiver
  show "a < b \<longleftrightarrow> a \<le> b \<and> \<not> b \<le> a" "a \<le> a" "a \<le> b \<or> b \<le> a"
    by (auto simp: less_eq_HazardWaiver_def less_HazardWaiver_def)
  show "a \<le> b \<Longrightarrow> b \<le> c \<Longrightarrow> a \<le> c"
    by (simp add: less_eq_HazardWaiver_def)
  show "a \<le> b \<Longrightarrow> b \<le> a \<Longrightarrow> a = b"
    by (cases a; cases b) (simp_all add: less_eq_HazardWaiver_def)
qed

end

definition waivers_all :: "HazardWaiver list" where
  "waivers_all = [OpenMerge, Dirty, UnpreservedHistory]"

fun waiver_str :: "HazardWaiver \<Rightarrow> ustr" where
  "waiver_str OpenMerge = lit ''open-merge''"
| "waiver_str Dirty = lit ''dirty''"
| "waiver_str UnpreservedHistory = lit ''unpreserved-history''"

definition parse_waiver :: "ustr \<Rightarrow> HazardWaiver option" where
  "parse_waiver name = List.find (\<lambda>w. waiver_str w = name) waivers_all"

datatype UnknownHazard = UnknownHazard (hazard_name: ustr)

fun parse_all_from :: "HazardWaiver list \<Rightarrow> ustr list \<Rightarrow> UnknownHazard + HazardWaiver list" where
  "parse_all_from waivers [] = Inr waivers"
| "parse_all_from waivers (name # names) =
     (case parse_waiver name of
        None \<Rightarrow> Inl (UnknownHazard name)
      | Some waiver \<Rightarrow>
          if waiver \<in> set waivers then Inl (UnknownHazard (name @ lit '' (repeated)''))
          else parse_all_from (waivers @ [waiver]) names)"

definition parse_all_waivers :: "ustr list \<Rightarrow> UnknownHazard + HazardWaiver list" where
  "parse_all_waivers names = parse_all_from [] names"

definition show_unknown_hazard :: "UnknownHazard \<Rightarrow> ustr" where
  "show_unknown_hazard e =
     lit ''unknown hazard `'' @ hazard_name e @ lit ''`; known hazards: '' @
     str_join (lit '', '') (map waiver_str waivers_all)"

record HazardFinding =
  finding_waiver :: HazardWaiver
  finding_repository :: RepoKey
  finding_hazards :: "Hazard list"
  finding_detail :: "ustr option"

definition finding_refuses :: "HazardFinding \<Rightarrow> bool" where
  "finding_refuses f \<longleftrightarrow>
     finding_detail f \<noteq> None \<or> list_ex (\<lambda>h. refuses (hazard_provenance h)) (finding_hazards f)"

datatype HazardCategory = CatRegenerable | CatUnchangedCopy | CatChangedCopy | CatUnique

definition categories_all :: "HazardCategory list" where
  "categories_all = [CatRegenerable, CatUnchangedCopy, CatChangedCopy, CatUnique]"

fun category_str :: "HazardCategory \<Rightarrow> ustr" where
  "category_str CatRegenerable = lit ''regenerable''"
| "category_str CatUnchangedCopy = lit ''unchanged copy''"
| "category_str CatChangedCopy = lit ''changed copy''"
| "category_str CatUnique = lit ''unique to the lane''"

fun category_of :: "Provenance \<Rightarrow> HazardCategory" where
  "category_of Regenerable = CatRegenerable"
| "category_of UnchangedCopy = CatUnchangedCopy"
| "category_of ChangedCopy = CatChangedCopy"
| "category_of Unique = CatUnique"

fun category_refuses :: "HazardCategory \<Rightarrow> bool" where
  "category_refuses CatUnique = True"
| "category_refuses CatChangedCopy = True"
| "category_refuses CatUnchangedCopy = False"
| "category_refuses CatRegenerable = False"

record CategoryItem =
  item_repository :: RepoKey
  item_path :: "BytePath option"
  item_detail :: ustr

record CategoryReport =
  report_category :: HazardCategory
  report_items :: "CategoryItem list"

definition category_count :: "CategoryReport \<Rightarrow> nat" where
  "category_count r = length (report_items r)"

fun push_item :: "HazardCategory \<Rightarrow> CategoryItem \<Rightarrow> CategoryReport list \<Rightarrow> CategoryReport list" where
  "push_item category item [] = []"
| "push_item category item (r # rs) =
     (if report_category r = category then r\<lparr>report_items := report_items r @ [item]\<rparr> # rs
      else r # push_item category item rs)"

definition hazard_item :: "HazardFinding \<Rightarrow> Hazard \<Rightarrow> CategoryItem" where
  "hazard_item f h =
     \<lparr>item_repository = finding_repository f, item_path = hazard_path h, item_detail = hazard_detail h\<rparr>"

definition push_finding :: "HazardFinding \<Rightarrow> CategoryReport list \<Rightarrow> CategoryReport list" where
  "push_finding f reports =
     (let reports = (case finding_detail f of
            Some detail \<Rightarrow> push_item CatUnique
              \<lparr>item_repository = finding_repository f, item_path = None, item_detail = detail\<rparr> reports
          | None \<Rightarrow> reports)
      in fold (\<lambda>h. push_item (category_of (hazard_provenance h)) (hazard_item f h))
           (finding_hazards f) reports)"

definition categorise :: "HazardFinding list \<Rightarrow> CategoryReport list" where
  "categorise findings =
     fold push_finding findings
       (map (\<lambda>category. \<lparr>report_category = category, report_items = []\<rparr>) categories_all)"

definition required_waivers :: "HazardFinding list \<Rightarrow> HazardWaiver list" where
  "required_waivers findings =
     filter (\<lambda>w. list_ex (\<lambda>f. finding_waiver f = w \<and> finding_refuses f) findings) waivers_all"

subsection \<open>Requests\<close>

datatype DisposePolicy = KeepFiles | Delete "HazardWaiver list"

datatype PolicyError = PolicyUnknownHazard UnknownHazard | KeepWithForce "ustr list"

definition parse_policy :: "bool \<Rightarrow> ustr list \<Rightarrow> PolicyError + DisposePolicy" where
  "parse_policy keep force_hazards =
     (if keep
      then (if force_hazards \<noteq> [] then Inl (KeepWithForce force_hazards) else Inr KeepFiles)
      else and_then (map_err PolicyUnknownHazard (parse_all_waivers force_hazards)) (\<lambda>waivers.
        Inr (Delete waivers)))"

fun show_policy_error :: "PolicyError \<Rightarrow> ustr" where
  "show_policy_error (PolicyUnknownHazard error) = show_unknown_hazard error"
| "show_policy_error (KeepWithForce names) =
     lit ''--keep and --force <hazards> are mutually exclusive; keep removes no file and waives nothing (got `'' @
     str_join (lit '','') names @ lit ''`)''"

record DisposeRequest =
  request_name :: MemberName
  request_policy :: DisposePolicy
  request_root :: hpath
  request_cwd :: hpath

subsection \<open>Ports\<close>

record RepositoryEvidence =
  evidence_key :: RepoKey
  evidence_info :: RepositoryInfo
  evidence_work :: "WorkObservation Observation"
  evidence_gwz :: GwzEvidence
  evidence_history :: "ProtectedRoots Observation"

record CopiedRepository =
  copied_key :: RepoKey
  copied_baseline :: CopyBaseline

record CopyWitness =
  copy_repositories :: "CopiedRepository list"

definition copy_baseline :: "CopyWitness \<Rightarrow> RepoKey \<Rightarrow> CopyBaseline option" where
  "copy_baseline w key =
     map_option copied_baseline (List.find (\<lambda>r. copied_key r = key) (copy_repositories w))"

record TargetEvidence =
  evidence_target :: TargetObservation
  evidence_repositories :: "RepositoryEvidence list"
  evidence_copy :: "CopyWitness option"
  evidence_unknown :: "UnknownReason list"

record HistoryQuery =
  query_target :: RepoKey
  query_protected :: ProtectedRoots

datatype HistoryAnswer =
    HistoryPreserved
  | HistoryUnpreserved ustr
  | HistoryNotKnown "UnknownReason list"

datatype PortError =
    PortEvidence ustr
  | PortRemoval hpath ustr
  | PortUnimplemented ustr

fun show_port_error :: "PortError \<Rightarrow> ustr" where
  "show_port_error (PortEvidence detail) = lit ''evidence: '' @ detail"
| "show_port_error (PortRemoval path detail) = path_display path @ lit '': '' @ detail"
| "show_port_error (PortUnimplemented operation) = operation @ lit '' is not implemented''"

record RemovalFailure =
  removal_error :: PortError
  removal_remaining :: "hpath list"

record 's DisposalPorts =
  port_observe_target :: "hpath \<Rightarrow> ('s, PortError, TargetEvidence) op"
  port_check_history :: "HistoryQuery \<Rightarrow> 's \<Rightarrow> HistoryAnswer \<times> 's"
  port_remove_directory :: "hpath \<Rightarrow> ('s, RemovalFailure, unit) op"

subsection \<open>Reports and errors\<close>

datatype DisposeEffect =
    EffPointerRemoved
  | EffRowDetached
  | EffRowDisposing
  | EffDirectoryRemoved
  | EffRowRemoved

datatype DisposeError =
    DisposeRefused Refusal
  | RootImmutable
  | TargetContainsCwd hpath
  | TargetMismatch hpath ustr
  | UnwaivedHazards "HazardFinding list"
  | UnknownEvidence "UnknownReason list"
  | DisposeStore StoreError
  | DisposePort PortError
  | RemovalStopped "hpath list" ustr
  | DisposeUnimplemented

record DisposeReport =
  dispose_effects :: "DisposeEffect list"
  dispose_waived :: "HazardFinding list"

record DisposeFailure =
  failure_error :: DisposeError
  failure_effects :: "DisposeEffect list"

text \<open>The calls of a run, with their answers, in order.\<close>

datatype DisposeEvent =
    EvReread "StoreError + FamilyView option"
  | EvObserve hpath "PortError + TargetEvidence"
  | EvHistory HistoryQuery HistoryAnswer
  | EvApply FamilyChange "StoreError + AppliedChange"
  | EvRemovePointer MemberName "StoreError + AppliedChange"
  | EvRemoveDirectory hpath "RemovalFailure + unit"

record 's DisposeState =
  ds_world :: 's
  ds_effects :: "DisposeEffect list"
  ds_trace :: "DisposeEvent list"

definition traced ::
    "('e + 'a \<Rightarrow> DisposeEvent) \<Rightarrow> ('s, 'e, 'a) op \<Rightarrow> ('s DisposeState, 'e, 'a) op" where
  "traced ev m s = (case m (ds_world s) of (r, w) \<Rightarrow>
     (r, s\<lparr>ds_world := w, ds_trace := ds_trace s @ [ev r]\<rparr>))"

definition push_effect :: "DisposeEffect \<Rightarrow> ('s DisposeState, 'e, unit) op" where
  "push_effect e s = (Inr (), s\<lparr>ds_effects := ds_effects s @ [e]\<rparr>)"

subsection \<open>Validation\<close>

definition lexical_step :: "component \<Rightarrow> hpath \<Rightarrow> hpath" where
  "lexical_step c resolved = (case c of
     CurDir \<Rightarrow> resolved
   | ParentDir \<Rightarrow>
       (if resolved = [] then resolved @ [ParentDir]
        else case last resolved of
          Normal _ \<Rightarrow> butlast resolved
        | RootDir \<Rightarrow> resolved
        | _ \<Rightarrow> resolved @ [ParentDir])
   | RootDir \<Rightarrow> [RootDir]
   | Normal n \<Rightarrow> resolved @ [Normal n])"

definition lexical_resolve :: "hpath \<Rightarrow> hpath" where
  "lexical_resolve path = fold lexical_step path []"

record Plan =
  plan_row :: MemberRow
  plan_target :: hpath

definition dispose_path_error :: "MemberName \<Rightarrow> PathError \<Rightarrow> DisposeError" where
  "dispose_path_error name error = (case error of
     PathRootItself _ \<Rightarrow> RootImmutable
   | PathContainsRoot _ _ \<Rightarrow> RootImmutable
   | PathNotNormalised path normalised \<Rightarrow> DisposeRefused (PathNotNormalisedRow name path normalised)
   | other \<Rightarrow> DisposeRefused (InvalidRow name (show_path_error other)))"

definition member_path :: "MemberName \<Rightarrow> ustr \<Rightarrow> DisposeError + MemberPath" where
  "member_path name path = map_err (dispose_path_error name) (validate_path path)"

text \<open>The guards on the resolved target, in the order of the code.\<close>

definition check_target :: "hpath \<Rightarrow> hpath \<Rightarrow> hpath \<Rightarrow> ustr \<Rightarrow> DisposeError + unit" where
  "check_target root cwd target path =
     (if target = root \<or> prefix target root then Inl RootImmutable
      else if prefix root target then Inl (DisposeRefused (NestedPath path ROOT_PATH))
      else if prefix target cwd then Inl (TargetContainsCwd target)
      else Inr ())"

definition check_others ::
    "MemberName \<Rightarrow> MemberRow \<Rightarrow> MemberPath \<Rightarrow> (MemberName, MemberRow) btree \<Rightarrow> DisposeError + unit" where
  "check_others name row recorded members =
     for_each (\<lambda>(other_name, other).
       if other_name = name then Inr ()
       else and_then (member_path other_name (row_path other)) (\<lambda>other_path.
         if overlaps (relate recorded other_path)
         then Inl (DisposeRefused (NestedPath (row_path row) (row_path other)))
         else Inr ())) members"

definition plan_of :: "DisposeRequest \<Rightarrow> FamilyView \<Rightarrow> DisposeError + Plan" where
  "plan_of request view =
     and_then (ok_or (DisposeRefused (NotFound (request_name request)))
         (bt_get (view_members view) (request_name request))) (\<lambda>row.
     and_then (member_path (request_name request) (row_path row)) (\<lambda>recorded.
     let root = lexical_resolve (request_root request);
         target = lexical_resolve (path_join_str (request_root request) (path_str recorded)) in
     and_then (check_target root (lexical_resolve (request_cwd request)) target (row_path row)) (\<lambda>_.
     and_then (check_others (request_name request) row recorded (view_members view)) (\<lambda>_.
       Inr \<lparr>plan_row = row, plan_target = target\<rparr>))))"

definition validate ::
    "DisposeRequest \<Rightarrow> 's FamilySession \<Rightarrow> ('s DisposeState, DisposeError, Plan) op" where
  "validate request session =
     (if lexical_resolve (request_root request) \<noteq> lexical_resolve (sess_root session)
      then op_fail (TargetMismatch (request_root request)
        (lit ''the family lock is held on '' @ path_display (sess_root session) @ lit '', not this root''))
      else
        op_bind (op_map_err DisposeStore (traced EvReread (sess_reread session))) (\<lambda>found.
        op_bind (op_result (ok_or (DisposeStore (NoFamily (request_root request))) found)) (\<lambda>view.
          op_result (plan_of request view))))"

subsection \<open>Inspection\<close>

fun debug_work_kind :: "WorkKind \<Rightarrow> ustr" where
  "debug_work_kind Staged = lit ''Staged''"
| "debug_work_kind Unstaged = lit ''Unstaged''"
| "debug_work_kind Untracked = lit ''Untracked''"
| "debug_work_kind Ignored = lit ''Ignored''"
| "debug_work_kind Conflict = lit ''Conflict''"
| "debug_work_kind ModeChange = lit ''ModeChange''"
| "debug_work_kind LinkChange = lit ''LinkChange''"
| "debug_work_kind Renamed = lit ''Renamed''"
| "debug_work_kind Deleted = lit ''Deleted''"

fun debug_hazard_kind :: "HazardKind \<Rightarrow> ustr" where
  "debug_hazard_kind (HazardWork k) = lit ''Work('' @ debug_work_kind k @ lit '')''"
| "debug_hazard_kind HazardSuppressed = lit ''Suppressed''"
| "debug_hazard_kind OpenNativeOperation = lit ''OpenNativeOperation''"
| "debug_hazard_kind OpenGwzMerge = lit ''OpenGwzMerge''"
| "debug_hazard_kind OpenGwzStash = lit ''OpenGwzStash''"
| "debug_hazard_kind UninterpretableEvidence = lit ''UninterpretableEvidence''"
| "debug_hazard_kind NativeStash = lit ''NativeStash''"
| "debug_hazard_kind OpenGwzRecord = lit ''OpenGwzRecord''"

definition no_waiver_reason :: "RepoKey \<Rightarrow> Hazard \<Rightarrow> UnknownReason" where
  "no_waiver_reason key h =
     unknown_reason UnsupportedEvidence
       (lit ''`'' @ show_repo_key key @ lit ''`: '' @ debug_hazard_kind (hazard_kind h) @
        lit '' has no waiver ('' @ hazard_detail h @ lit '')'')"

definition hazard_waiver :: "Hazard \<Rightarrow> HazardWaiver option" where
  "hazard_waiver h = Option.bind (force_name (hazard_kind h)) parse_waiver"

definition group_push ::
    "HazardWaiver \<Rightarrow> Hazard \<Rightarrow> (HazardWaiver, Hazard list) btree \<Rightarrow> (HazardWaiver, Hazard list) btree" where
  "group_push w h m =
     bt_insert w ((case bt_get m w of Some hs \<Rightarrow> hs | None \<Rightarrow> []) @ [h]) m"

fun group_hazards ::
    "RepoKey \<Rightarrow> Hazard list \<Rightarrow> UnknownReason list \<times> (HazardWaiver, Hazard list) btree \<Rightarrow>
     UnknownReason list \<times> (HazardWaiver, Hazard list) btree" where
  "group_hazards key [] (unknown, grouped) = (unknown, grouped)"
| "group_hazards key (h # hs) (unknown, grouped) =
     (case hazard_waiver h of
        Some w \<Rightarrow> group_hazards key hs (unknown, group_push w h grouped)
      | None \<Rightarrow> group_hazards key hs (unknown @ [no_waiver_reason key h], grouped))"

definition repository_paths :: "RepositoryInfo \<Rightarrow> (ustr \<times> hpath) list" where
  "repository_paths info =
     [(lit ''worktree'', repo_path info), (lit ''git directory'', repo_git_dir info),
      (lit ''object store'', repo_common_dir info)]"

definition check_inside :: "Plan \<Rightarrow> RepositoryEvidence \<Rightarrow> DisposeError + unit" where
  "check_inside plan repository =
     for_each (\<lambda>(label, path).
       if \<not> prefix (plan_target plan) (lexical_resolve path)
       then Inl (TargetMismatch (plan_target plan)
         (lit ''the '' @ label @ lit '' of `'' @ show_repo_key (evidence_key repository) @ lit ''` is '' @
          path_display path @ lit '', outside the deletion tree''))
       else Inr ()) (repository_paths (evidence_info repository))"

definition baseline_for :: "TargetEvidence \<Rightarrow> RepoKey \<Rightarrow> CopyBaseline" where
  "baseline_for evidence key =
     (case Option.bind (evidence_copy evidence) (\<lambda>w. copy_baseline w key) of
        Some b \<Rightarrow> b | None \<Rightarrow> default_baseline)"

definition work_report :: "TargetEvidence \<Rightarrow> RepositoryEvidence \<Rightarrow> WorkReport" where
  "work_report evidence repository =
     classify_observed_work_against (evidence_work repository) (evidence_gwz repository)
       (baseline_for evidence (evidence_key repository))"

text \<open>The work half of one turn of the loop: the reasons and findings it adds.\<close>

definition inspect_work ::
    "TargetEvidence \<Rightarrow> RepositoryEvidence \<Rightarrow> UnknownReason list \<times> HazardFinding list" where
  "inspect_work evidence repository =
     (let report = work_report evidence repository;
          unexplained =
            (if report_verdict report = VerdictUnknown \<and> report_unknown report = []
             then [unknown_reason UnimplementedObservation
                     (lit ''`'' @ show_repo_key (evidence_key repository) @
                      lit ''`: an unknown verdict with no reason'')]
             else []);
          (unknown, grouped) = group_hazards (evidence_key repository) (report_hazards report)
            (unexplained @ report_unknown report, bt_empty)
      in (unknown,
          map (\<lambda>(waiver, hazards).
            \<lparr>finding_waiver = waiver, finding_repository = evidence_key repository,
             finding_hazards = hazards, finding_detail = None\<rparr>) grouped))"

definition ask_history ::
    "'s DisposalPorts \<Rightarrow> HistoryQuery \<Rightarrow> ('s DisposeState, 'e, HistoryAnswer) op" where
  "ask_history ports query s =
     (case port_check_history ports query (ds_world s) of (answer, w) \<Rightarrow>
       (Inr answer, s\<lparr>ds_world := w, ds_trace := ds_trace s @ [EvHistory query answer]\<rparr>))"

fun answer_findings :: "RepoKey \<Rightarrow> HistoryAnswer \<Rightarrow> UnknownReason list \<times> HazardFinding list" where
  "answer_findings key HistoryPreserved = ([], [])"
| "answer_findings key (HistoryUnpreserved detail) =
     ([], [\<lparr>finding_waiver = UnpreservedHistory, finding_repository = key, finding_hazards = [],
            finding_detail = Some detail\<rparr>])"
| "answer_findings key (HistoryNotKnown reasons) = (reasons, [])"

definition inspect_history ::
    "'s DisposalPorts \<Rightarrow> RepositoryEvidence \<Rightarrow>
     ('s DisposeState, 'e, UnknownReason list \<times> HazardFinding list) op" where
  "inspect_history ports repository =
     (case evidence_history repository of
        Unknown reasons \<Rightarrow> op_return (reasons, [])
      | Known protected \<Rightarrow>
          op_bind (ask_history ports \<lparr>query_target = evidence_key repository, query_protected = protected\<rparr>)
            (\<lambda>answer. op_return (answer_findings (evidence_key repository) answer)))"

fun inspect_repositories ::
    "Plan \<Rightarrow> TargetEvidence \<Rightarrow> 's DisposalPorts \<Rightarrow> UnknownReason list \<Rightarrow> HazardFinding list \<Rightarrow>
     RepositoryEvidence list \<Rightarrow>
     ('s DisposeState, DisposeError, UnknownReason list \<times> HazardFinding list) op" where
  "inspect_repositories plan evidence ports unknown findings [] = op_return (unknown, findings)"
| "inspect_repositories plan evidence ports unknown findings (repository # repositories) =
     op_bind (op_result (check_inside plan repository)) (\<lambda>_.
     let (work_unknown, work_findings) = inspect_work evidence repository in
     op_bind (inspect_history ports repository) (\<lambda>(history_unknown, history_findings).
       inspect_repositories plan evidence ports
         (unknown @ work_unknown @ history_unknown) (findings @ work_findings @ history_findings)
         repositories))"

definition decide_findings ::
    "HazardWaiver list \<Rightarrow> UnknownReason list \<Rightarrow> HazardFinding list \<Rightarrow> DisposeError + HazardFinding list" where
  "decide_findings waivers unknown findings =
     (if unknown \<noteq> [] then Inl (UnknownEvidence unknown)
      else
        let waived = filter (\<lambda>f. finding_waiver f \<in> set waivers) findings;
            unwaived = filter (\<lambda>f. finding_waiver f \<notin> set waivers) findings
        in if list_ex finding_refuses unwaived then Inl (UnwaivedHazards unwaived) else Inr waived)"

definition inspect ::
    "Plan \<Rightarrow> TargetEvidence \<Rightarrow> HazardWaiver list \<Rightarrow> 's DisposalPorts \<Rightarrow>
     ('s DisposeState, DisposeError, HazardFinding list) op" where
  "inspect plan evidence waivers ports =
     (if evidence_repositories evidence = []
      then op_fail (UnknownEvidence [unknown_reason UnsupportedLayout
        (lit ''no repository was observed in '' @ path_display (plan_target plan) @
         lit ''; the target is not a recognised clone'')])
      else
        op_bind (inspect_repositories plan evidence ports [] [] (evidence_repositories evidence))
          (\<lambda>(unknown, findings). op_result (decide_findings waivers unknown findings)))"

subsection \<open>The sequence\<close>

definition is_pointer_removed :: "MetadataEffect \<Rightarrow> bool" where
  "is_pointer_removed e = (case e of PointerRemoved _ \<Rightarrow> True | _ \<Rightarrow> False)"

definition detach ::
    "DisposeRequest \<Rightarrow> 's FamilySession \<Rightarrow> RemovalReason \<Rightarrow> ('s DisposeState, DisposeError, unit) op" where
  "detach request session reason =
     op_bind (op_map_err DisposeStore (traced (EvRemovePointer (request_name request))
         (sess_remove_pointer session (request_name request)))) (\<lambda>applied.
     op_bind (if list_ex is_pointer_removed (applied_effects applied)
         then push_effect EffPointerRemoved else op_return ()) (\<lambda>_.
     op_bind (op_map_err DisposeStore (traced (EvApply (RemoveRow (request_name request) reason))
         (sess_apply session (RemoveRow (request_name request) reason)))) (\<lambda>_.
       push_effect (if reason = Keep then EffRowDetached else EffRowRemoved))))"

fun debug_marker :: "MarkerObservation \<Rightarrow> ustr" where
  "debug_marker MarkerMatches = lit ''Matches''"
| "debug_marker MarkerAbsent = lit ''Absent''"
| "debug_marker MarkerMismatch = lit ''Mismatch''"
| "debug_marker MarkerMalformed = lit ''Malformed''"

fun debug_list_state :: "ListState \<Rightarrow> ustr" where
  "debug_list_state LsReady = lit ''Ready''"
| "debug_list_state LsIncomplete = lit ''Incomplete''"
| "debug_list_state LsInterruptedDisposal = lit ''InterruptedDisposal''"
| "debug_list_state LsMissing = lit ''Missing''"
| "debug_list_state LsPointerRemoved = lit ''PointerRemoved''"
| "debug_list_state LsMismatched = lit ''Mismatched''"
| "debug_list_state LsMalformed = lit ''Malformed''"
| "debug_list_state LsUnobserved = lit ''Unobserved''"

fun describe :: "ListState \<Rightarrow> TargetObservation \<Rightarrow> ustr" where
  "describe state (TargetMalformed detail) =
     lit ''its family metadata could not be decoded: '' @ detail"
| "describe LsPointerRemoved _ =
     lit ''its family pointer is gone; an interrupted detach left the tree in place''"
| "describe state (TargetPresent pointer marker) =
     lit ''its family pointer or allocation marker does not belong to this row (pointer '' @
     debug_pointer pointer @ lit '', marker '' @ debug_marker marker @ lit '')''"
| "describe state TargetMissing = debug_list_state state @ lit '' for Missing''"

definition stopped :: "RemovalFailure \<Rightarrow> DisposeError" where
  "stopped failure = RemovalStopped (removal_remaining failure) (show_port_error (removal_error failure))"

definition remove_target ::
    "DisposeRequest \<Rightarrow> 's FamilySession \<Rightarrow> 's DisposalPorts \<Rightarrow> Plan \<Rightarrow>
     ('s DisposeState, DisposeError, unit) op" where
  "remove_target request session ports plan =
     (let change = MarkDisposing (request_name request) (row_allocation_id (plan_row plan)) in
      op_bind (op_map_err DisposeStore (traced (EvApply change) (sess_apply session change))) (\<lambda>_.
      op_bind (push_effect EffRowDisposing) (\<lambda>_.
      op_bind (op_map_err stopped (traced (EvRemoveDirectory (plan_target plan))
          (port_remove_directory ports (plan_target plan)))) (\<lambda>_.
      op_bind (push_effect EffDirectoryRemoved) (\<lambda>_.
        detach request session Disposed)))))"

definition dispose_observed ::
    "DisposeRequest \<Rightarrow> 's FamilySession \<Rightarrow> 's DisposalPorts \<Rightarrow> Plan \<Rightarrow> HazardWaiver list \<Rightarrow>
     TargetEvidence \<Rightarrow> ('s DisposeState, DisposeError, HazardFinding list) op" where
  "dispose_observed request session ports plan waivers evidence =
     (if evidence_unknown evidence \<noteq> [] then op_fail (UnknownEvidence (evidence_unknown evidence))
      else case classify_target (plan_row plan) (Some (evidence_target evidence)) of
        LsReady \<Rightarrow>
          op_bind (inspect plan evidence waivers ports) (\<lambda>waived.
          op_bind (remove_target request session ports plan) (\<lambda>_. op_return waived))
      | LsMissing \<Rightarrow>
          (if evidence_repositories evidence \<noteq> []
           then op_fail (TargetMismatch (plan_target plan)
             (lit ''the target is absent, yet '' @ show_nat (length (evidence_repositories evidence)) @
              lit '' repositor(y|ies) were observed in it''))
           else op_bind (detach request session Stale) (\<lambda>_. op_return []))
      | LsIncomplete \<Rightarrow>
          op_fail (DisposeRefused (WrongState (request_name request) Ready (row_state (plan_row plan))))
      | LsInterruptedDisposal \<Rightarrow>
          op_fail (DisposeRefused (WrongState (request_name request) Ready (row_state (plan_row plan))))
      | state \<Rightarrow>
          op_fail (TargetMismatch (plan_target plan) (describe state (evidence_target evidence))))"

definition dispose_run ::
    "DisposeRequest \<Rightarrow> 's FamilySession \<Rightarrow> 's DisposalPorts \<Rightarrow>
     ('s DisposeState, DisposeError, HazardFinding list) op" where
  "dispose_run request session ports =
     (case request_policy request of
        KeepFiles \<Rightarrow>
          op_bind (validate request session) (\<lambda>_.
          op_bind (detach request session Keep) (\<lambda>_. op_return []))
      | Delete waivers \<Rightarrow>
          (if \<not> distinct waivers
           then op_fail (DisposeRefused (InvalidRow (request_name request) (lit ''repeated hazard waiver'')))
           else
             op_bind (validate request session) (\<lambda>plan.
             op_bind (op_map_err DisposePort (traced (EvObserve (plan_target plan))
                 (port_observe_target ports (plan_target plan)))) (\<lambda>evidence.
               dispose_observed request session ports plan waivers evidence))))"

definition dispose ::
    "DisposeRequest \<Rightarrow> 's FamilySession \<Rightarrow> 's DisposalPorts \<Rightarrow> 's \<Rightarrow>
     (DisposeFailure + DisposeReport) \<times> 's DisposeState" where
  "dispose request session ports world =
     (case dispose_run request session ports \<lparr>ds_world = world, ds_effects = [], ds_trace = []\<rparr> of
        (Inr waived, s) \<Rightarrow> (Inr \<lparr>dispose_effects = ds_effects s, dispose_waived = waived\<rparr>, s)
      | (Inl error, s) \<Rightarrow> (Inl \<lparr>failure_error = error, failure_effects = ds_effects s\<rparr>, s))"

end
