(* ===== verification/Disposal_Proofs.thy ===== *)
theory Disposal_Proofs
  imports Disposal
begin

text \<open>
  What the disposal service does with its ports: the guards that stand before the one removal, that
  keep touches no file, that the reported effects are the completed calls, and what the request
  vocabulary and the refusal report say.
\<close>

subsection \<open>Operations that only add to the trace and the effects\<close>

fun event_effects :: "DisposeEvent \<Rightarrow> DisposeEffect list" where
  "event_effects (EvApply (MarkDisposing _ _) (Inr _)) = [EffRowDisposing]"
| "event_effects (EvApply (RemoveRow _ reason) (Inr _)) =
     [if reason = Keep then EffRowDetached else EffRowRemoved]"
| "event_effects (EvRemovePointer _ (Inr applied)) =
     (if list_ex is_pointer_removed (applied_effects applied) then [EffPointerRemoved] else [])"
| "event_effects (EvRemoveDirectory _ (Inr _)) = [EffDirectoryRemoved]"
| "event_effects _ = []"

definition effects_of :: "DisposeEvent list \<Rightarrow> DisposeEffect list" where
  "effects_of evs = concat (map event_effects evs)"

lemma effects_of_simps [simp]:
  "effects_of [] = []" "effects_of (e # es) = event_effects e @ effects_of es"
  "effects_of (es @ es') = effects_of es @ effects_of es'"
  by (simp_all add: effects_of_def)

text \<open>From state \<open>s\<close> the operation made the calls \<open>evs\<close> and reported exactly their effects.\<close>

definition added :: "'s DisposeState \<Rightarrow> DisposeEvent list \<Rightarrow> 's DisposeState \<Rightarrow> bool" where
  "added s evs s' \<longleftrightarrow>
     ds_trace s' = ds_trace s @ evs \<and> ds_effects s' = ds_effects s @ effects_of evs"

lemma added_refl [simp]: "added s [] s"
  by (simp add: added_def)

lemma added_trans: "added s evs s' \<Longrightarrow> added s' evs' s'' \<Longrightarrow> added s (evs @ evs') s''"
  by (simp add: added_def)

lemma traced_run:
  assumes "traced ev m s = (r, s')"
  obtains w where "s' = s\<lparr>ds_world := w, ds_trace := ds_trace s @ [ev r]\<rparr>"
  using assms by (auto simp: traced_def split: prod.splits)

lemma op_bind_cases:
  assumes "op_bind m f s = (r, s')"
  obtains (fail) e where "m s = (Inl e, s')" "r = Inl e"
    | (ok) x s1 where "m s = (Inr x, s1)" "f x s1 = (r, s')"
  using assms by (auto simp: op_bind_def split: prod.splits sum.splits)

lemma op_map_err_run:
  assumes "op_map_err g m s = (r, s')"
  obtains r0 where "m s = (r0, s')" "r = map_err g r0"
  using assms by (auto simp: op_map_err_def split: prod.splits)

subsection \<open>Validation\<close>

lemma validate_run:
  assumes "validate request session s = (r, s')"
  shows "\<exists>evs. added s evs s' \<and> (\<forall>e \<in> set evs. \<exists>x. e = EvReread x) \<and>
    (\<forall>plan. r = Inr plan \<longrightarrow>
       lexical_resolve (request_root request) = lexical_resolve (sess_root session) \<and>
       (\<exists>view. evs = [EvReread (Inr (Some view))] \<and> plan_of request view = Inr plan))"
proof (cases "lexical_resolve (request_root request) = lexical_resolve (sess_root session)")
  case False
  then show ?thesis
    using assms by (auto simp: validate_def intro!: exI [of _ "[]"])
next
  case True
  obtain r1 w where r1: "sess_reread session (ds_world s) = (r1, w)"
    by (cases "sess_reread session (ds_world s)")
  have "added s [EvReread r1] s'" and
    "\<forall>plan. r = Inr plan \<longrightarrow> (\<exists>view. r1 = Inr (Some view) \<and> plan_of request view = Inr plan)"
    using assms True r1
    by (auto simp: validate_def op_bind_eq traced_def added_def op_map_err_def ok_or_def
        split: sum.splits option.splits)
  then show ?thesis
    using True by (intro exI [of _ "[EvReread r1]"]) auto
qed

subsection \<open>Inspection\<close>

lemma group_hazards_unknown:
  "fst (group_hazards key hs (u, g)) = u @ map (no_waiver_reason key) (filter (\<lambda>h. hazard_waiver h = None) hs)"
  by (induction hs arbitrary: u g) (auto split: option.split)

lemma group_push_get:
  "bt_get (group_push w h m) j =
     (if j = w then Some ((case bt_get m w of Some hs \<Rightarrow> hs | None \<Rightarrow> []) @ [h]) else bt_get m j)"
  by (simp add: group_push_def bt.get_insert)

definition held :: "(HazardWaiver, Hazard list) btree \<Rightarrow> HazardWaiver \<Rightarrow> Hazard \<Rightarrow> bool" where
  "held g w h \<longleftrightarrow> (\<exists>hs. bt_get g w = Some hs \<and> h \<in> set hs)"

lemma held_push: "held (group_push w h g) j x \<longleftrightarrow> held g j x \<or> (j = w \<and> x = h)"
  by (cases "bt_get g w") (auto simp: held_def group_push_get)

lemma group_hazards_held:
  "held (snd (group_hazards key hs (u, g))) w h \<longleftrightarrow>
     held g w h \<or> (h \<in> set hs \<and> hazard_waiver h = Some w)"
  by (induction hs arbitrary: u g) (auto simp: held_push split: option.splits)

text \<open>A finding that stands for a hazard.\<close>

definition finds :: "HazardFinding list \<Rightarrow> HazardWaiver \<Rightarrow> Hazard \<Rightarrow> bool" where
  "finds fs w h \<longleftrightarrow> (\<exists>f \<in> set fs. finding_waiver f = w \<and> h \<in> set (finding_hazards f))"

lemma inspect_work_facts:
  assumes "inspect_work evidence repository = ([], fs)" "report = work_report evidence repository"
  shows "report_verdict report \<noteq> VerdictUnknown \<and>
    (\<forall>h \<in> set (report_hazards report). \<exists>w. hazard_waiver h = Some w \<and> finds fs w h)"
proof -
  define key where "key = evidence_key repository"
  define u0 where "u0 = (if report_verdict report = VerdictUnknown \<and> report_unknown report = []
       then [unknown_reason UnimplementedObservation (lit ''`'' @ show_repo_key key @
         lit ''`: an unknown verdict with no reason'')] else []) @ report_unknown report"
  obtain u g where g: "group_hazards key (report_hazards report) (u0, bt_empty) = (u, g)"
    by (cases "group_hazards key (report_hazards report) (u0, bt_empty)")
  have "inspect_work evidence repository = (u, map (\<lambda>(waiver, hazards).
      \<lparr>finding_waiver = waiver, finding_repository = key, finding_hazards = hazards,
       finding_detail = None\<rparr>) g)"
    using g by (simp only: inspect_work_def Let_def key_def u0_def assms(2) prod.case)
  then have run: "u = []" "fs = map (\<lambda>(waiver, hazards). \<lparr>finding_waiver = waiver, finding_repository = key,
      finding_hazards = hazards, finding_detail = None\<rparr>) g"
    using assms(1) by simp_all
  have none: "u0 = []" "filter (\<lambda>h. hazard_waiver h = None) (report_hazards report) = []"
    using group_hazards_unknown [of key "report_hazards report" u0 bt_empty] g run(1) by simp_all
  have "\<exists>w. hazard_waiver h = Some w \<and> finds fs w h" if h: "h \<in> set (report_hazards report)" for h
  proof -
    obtain w where w: "hazard_waiver h = Some w"
      using none(2) h by (auto simp: filter_empty_conv)
    then have "held g w h"
      using group_hazards_held [of key "report_hazards report" u0 bt_empty w h] g h by simp
    then obtain hs where "(w, hs) \<in> set g" "h \<in> set hs"
      by (auto simp: held_def bt_get_def dest: map_of_SomeD)
    then have "finds fs w h"
      unfolding finds_def run(2) by (force intro: bexI)
    with w show ?thesis by blast
  qed
  then show ?thesis
    using none(1) by (auto simp: u0_def split: if_splits)
qed

definition is_history :: "DisposeEvent \<Rightarrow> bool" where
  "is_history e \<longleftrightarrow> (\<exists>q a. e = EvHistory q a)"

lemma effects_of_history: "list_all is_history evs \<Longrightarrow> effects_of evs = []"
  by (induction evs) (auto simp: is_history_def)

text \<open>
  A known history observation with a reason-free answer; an answer that is unknown with no reasons at
  all leaves no trace in the reasons.
\<close>

lemma inspect_history_run:
  assumes "inspect_history ports repository s = (r, s')"
  shows "\<exists>evs u fs. added s evs s' \<and> list_all is_history evs \<and> r = Inr (u, fs) \<and>
    ((evidence_history repository = Unknown u \<and> evs = [] \<and> fs = []) \<or>
     (\<exists>protected answer. evidence_history repository = Known protected \<and>
        evs = [EvHistory \<lparr>query_target = evidence_key repository, query_protected = protected\<rparr> answer] \<and>
        (u, fs) = answer_findings (evidence_key repository) answer))"
proof (cases "evidence_history repository")
  case (Unknown reasons)
  then show ?thesis
    using assms by (auto simp: inspect_history_def intro!: exI [of _ "[]"])
next
  case (Known protected)
  obtain answer w where "port_check_history ports
      \<lparr>query_target = evidence_key repository, query_protected = protected\<rparr> (ds_world s) = (answer, w)"
    by (cases "port_check_history ports
      \<lparr>query_target = evidence_key repository, query_protected = protected\<rparr> (ds_world s)")
  moreover obtain u fs where "answer_findings (evidence_key repository) answer = (u, fs)"
    by (cases "answer_findings (evidence_key repository) answer")
  ultimately show ?thesis
    using assms Known
    by (intro exI [of _ "[EvHistory \<lparr>query_target = evidence_key repository, query_protected = protected\<rparr> answer]"]
        exI [of _ u] exI [of _ fs])
       (auto simp: inspect_history_def op_bind_def ask_history_def added_def is_history_def)
qed

fun answer_found :: "HazardFinding list \<Rightarrow> HistoryAnswer \<Rightarrow> bool" where
  "answer_found fs HistoryPreserved = True"
| "answer_found fs (HistoryUnpreserved detail) =
     list_ex (\<lambda>f. finding_waiver f = UnpreservedHistory \<and> finding_detail f = Some detail) fs"
| "answer_found fs (HistoryNotKnown reasons) = (reasons = [])"

fun answer_cleared :: "HazardWaiver list \<Rightarrow> HistoryAnswer \<Rightarrow> bool" where
  "answer_cleared waivers HistoryPreserved = True"
| "answer_cleared waivers (HistoryUnpreserved _) = (UnpreservedHistory \<in> set waivers)"
| "answer_cleared waivers (HistoryNotKnown reasons) = (reasons = [])"

lemma answer_findings_found: "([], fs) = answer_findings key answer \<Longrightarrow> answer_found fs answer"
  by (cases answer) auto

lemma answer_found_mono: "answer_found fs answer \<Longrightarrow> set fs \<subseteq> set fs' \<Longrightarrow> answer_found fs' answer"
  by (cases answer) (auto simp: list_ex_iff)

lemma answer_found_cleared:
  "answer_found fs answer \<Longrightarrow> \<forall>f \<in> set fs. finding_refuses f \<longrightarrow> finding_waiver f \<in> set waivers \<Longrightarrow>
   answer_cleared waivers answer"
  by (cases answer) (auto simp: list_ex_iff finding_refuses_def)

text \<open>
  What is established about one repository once the loop is over without an open reason. The history
  port was asked, unless the inventory itself was reported unknown without a reason.
\<close>

definition history_found :: "HazardFinding list \<Rightarrow> RepositoryEvidence \<Rightarrow> DisposeEvent list \<Rightarrow> bool" where
  "history_found fs repository evs \<longleftrightarrow>
     (evidence_history repository = Unknown [] \<and> evs = []) \<or>
     (\<exists>protected answer. evidence_history repository = Known protected \<and>
        evs = [EvHistory \<lparr>query_target = evidence_key repository, query_protected = protected\<rparr> answer] \<and>
        answer_found fs answer)"

definition repository_found ::
    "Plan \<Rightarrow> TargetEvidence \<Rightarrow> HazardFinding list \<Rightarrow> RepositoryEvidence \<Rightarrow> DisposeEvent list \<Rightarrow> bool" where
  "repository_found plan evidence fs repository evs \<longleftrightarrow>
     check_inside plan repository = Inr () \<and>
     report_verdict (work_report evidence repository) \<noteq> VerdictUnknown \<and>
     (\<forall>h \<in> set (report_hazards (work_report evidence repository)).
        \<exists>w. hazard_waiver h = Some w \<and> finds fs w h) \<and>
     history_found fs repository evs"

lemma finds_mono: "finds fs w h \<Longrightarrow> set fs \<subseteq> set fs' \<Longrightarrow> finds fs' w h"
  by (auto simp: finds_def)

lemma inspect_repositories_run:
  assumes "inspect_repositories plan evidence ports unknown findings repositories s = (r, s')"
  shows "\<exists>evss. added s (concat evss) s' \<and> list_all is_history (concat evss) \<and>
    (\<forall>u fs. r = Inr (u, fs) \<longrightarrow>
       set findings \<subseteq> set fs \<and>
       (u = [] \<longrightarrow> unknown = [] \<and> list_all2 (repository_found plan evidence fs) repositories evss))"
  using assms
proof (induction repositories arbitrary: unknown findings s)
  case Nil
  then show ?case
    by (intro exI [of _ "[]"]) auto
next
  case (Cons repository repositories)
  obtain wu wf where w: "inspect_work evidence repository = (wu, wf)"
    by (cases "inspect_work evidence repository")
  obtain r1 s1 where h: "(inspect_history ports repository ::
      ('a DisposeState, DisposeError, UnknownReason list \<times> HazardFinding list) op) s = (r1, s1)"
    by (cases "(inspect_history ports repository ::
      ('a DisposeState, DisposeError, UnknownReason list \<times> HazardFinding list) op) s")
  from inspect_history_run [OF h] obtain evs hu hf where evs: "added s evs s1" "list_all is_history evs"
    "r1 = Inr (hu, hf)"
    and hist: "(evidence_history repository = Unknown hu \<and> evs = [] \<and> hf = []) \<or>
     (\<exists>protected answer. evidence_history repository = Known protected \<and>
        evs = [EvHistory \<lparr>query_target = evidence_key repository, query_protected = protected\<rparr> answer] \<and>
        (hu, hf) = answer_findings (evidence_key repository) answer)"
    by blast
  show ?case
  proof (cases "check_inside plan repository")
    case (Inl e)
    then show ?thesis
      using Cons.prems by (intro exI [of _ "[]"]) (auto simp: op_bind_def)
  next
    case (Inr u)
    then have "inspect_repositories plan evidence ports (unknown @ wu @ hu) (findings @ wf @ hf)
        repositories s1 = (r, s')"
      using Cons.prems w h evs(3) by (simp add: op_bind_def)
    from Cons.IH [OF this] obtain evss where IH: "added s1 (concat evss) s'"
      "list_all is_history (concat evss)"
      and ok: "\<And>u fs. r = Inr (u, fs) \<Longrightarrow> set (findings @ wf @ hf) \<subseteq> set fs \<and>
        (u = [] \<longrightarrow> unknown @ wu @ hu = [] \<and> list_all2 (repository_found plan evidence fs) repositories evss)"
      by blast
    have this_one: "repository_found plan evidence fs repository evs"
      if "r = Inr ([], fs)" for fs
    proof -
      have none: "wu = []" "hu = []" and sub: "set (wf @ hf) \<subseteq> set fs"
        using ok [OF that] by auto
      have "history_found hf repository evs"
        using hist answer_findings_found unfolding history_found_def none(2) by blast
      then have hist': "history_found fs repository evs"
        using answer_found_mono sub unfolding history_found_def by (metis le_sup_iff set_append)
      have "finds wf x h \<Longrightarrow> finds fs x h" for x h
        using finds_mono sub by (metis le_sup_iff set_append)
      then show ?thesis
        using inspect_work_facts [OF w [unfolded none] refl] Inr hist'
        unfolding repository_found_def by (metis old.unit.exhaust)
    qed
    show ?thesis
      using added_trans [OF evs(1) IH(1)] evs(2) IH(2) ok this_one
      by (intro exI [of _ "evs # evss"]) auto
  qed
qed

text \<open>
  Everything the code requires of the evidence before it may delete. A history inventory, or an answer
  about it, that is unknown and yet gives no reason is let through: it adds nothing to the reasons.
\<close>

definition history_cleared :: "HazardWaiver list \<Rightarrow> RepositoryEvidence \<Rightarrow> DisposeEvent list \<Rightarrow> bool" where
  "history_cleared waivers repository evs \<longleftrightarrow>
     (evidence_history repository = Unknown [] \<and> evs = []) \<or>
     (\<exists>protected answer. evidence_history repository = Known protected \<and>
        evs = [EvHistory \<lparr>query_target = evidence_key repository, query_protected = protected\<rparr> answer] \<and>
        answer_cleared waivers answer)"

definition repository_cleared ::
    "Plan \<Rightarrow> TargetEvidence \<Rightarrow> HazardWaiver list \<Rightarrow> RepositoryEvidence \<Rightarrow> DisposeEvent list \<Rightarrow> bool" where
  "repository_cleared plan evidence waivers repository evs \<longleftrightarrow>
     (let info = evidence_info repository in
      list_all (\<lambda>path. prefix (plan_target plan) (lexical_resolve path))
        [repo_path info, repo_git_dir info, repo_common_dir info]) \<and>
     report_verdict (work_report evidence repository) \<noteq> VerdictUnknown \<and>
     list_all (\<lambda>h. refuses (hazard_provenance h) \<longrightarrow>
         (\<exists>w. hazard_waiver h = Some w \<and> w \<in> set waivers))
       (report_hazards (work_report evidence repository)) \<and>
     history_cleared waivers repository evs"

lemma decide_findings_ok:
  assumes "decide_findings waivers u fs = Inr waived"
  shows "u = [] \<and> (\<forall>f \<in> set fs. finding_refuses f \<longrightarrow> finding_waiver f \<in> set waivers)"
  using assms by (auto simp: decide_findings_def Let_def list_ex_iff split: if_splits)

lemma check_inside_ok:
  assumes "check_inside plan repository = Inr ()"
  shows "let info = evidence_info repository in
    list_all (\<lambda>path. prefix (plan_target plan) (lexical_resolve path))
      [repo_path info, repo_git_dir info, repo_common_dir info]"
  using assms by (simp add: check_inside_def for_each_ok repository_paths_def Let_def split: if_splits)

lemma repository_found_cleared:
  assumes "repository_found plan evidence fs repository evs"
    and "\<forall>f \<in> set fs. finding_refuses f \<longrightarrow> finding_waiver f \<in> set waivers"
  shows "repository_cleared plan evidence waivers repository evs"
proof -
  have "w \<in> set waivers" if "finds fs w h" "refuses (hazard_provenance h)" for w h
    using that assms(2) by (auto simp: finds_def finding_refuses_def list_ex_iff)
  moreover have "history_cleared waivers repository evs"
    using assms answer_found_cleared unfolding repository_found_def history_found_def history_cleared_def
    by blast
  moreover have "check_inside plan repository = Inr ()"
    using assms(1) by (simp add: repository_found_def)
  note check_inside_ok [OF this]
  ultimately show ?thesis
    using assms(1) unfolding repository_found_def repository_cleared_def by (fastforce simp: list_all_iff)
qed

lemma inspect_run:
  assumes "inspect plan evidence waivers ports s = (r, s')"
  shows "\<exists>evss. added s (concat evss) s' \<and> list_all is_history (concat evss) \<and>
    (\<forall>waived. r = Inr waived \<longrightarrow>
       evidence_repositories evidence \<noteq> [] \<and>
       list_all2 (repository_cleared plan evidence waivers) (evidence_repositories evidence) evss)"
proof (cases "evidence_repositories evidence = []")
  case True
  then show ?thesis
    using assms by (intro exI [of _ "[]"]) (auto simp: inspect_def)
next
  case False
  obtain r1 where run: "inspect_repositories plan evidence ports [] [] (evidence_repositories evidence) s = (r1, s')"
    and r: "r = and_then r1 (\<lambda>(u, fs). decide_findings waivers u fs)"
    using assms False by (auto simp: inspect_def op_bind_def split: prod.splits sum.splits)
  from inspect_repositories_run [OF run] obtain evss where evss: "added s (concat evss) s'"
    "list_all is_history (concat evss)"
    "\<And>u fs. r1 = Inr (u, fs) \<Longrightarrow> u = [] \<Longrightarrow>
       list_all2 (repository_found plan evidence fs) (evidence_repositories evidence) evss"
    by blast
  have "list_all2 (repository_cleared plan evidence waivers) (evidence_repositories evidence) evss"
    if w: "r = Inr waived" for waived
  proof -
    obtain u fs where r1: "r1 = Inr (u, fs)" and d: "decide_findings waivers u fs = Inr waived"
      using r w by (cases r1) auto
    show ?thesis
      by (rule list_all2_mono [OF evss(3) [OF r1]]) (use decide_findings_ok [OF d] repository_found_cleared in blast)+
  qed
  then show ?thesis
    using False evss(1,2) by blast
qed

subsection \<open>Detaching and removing\<close>

lemma detach_run:
  assumes "detach request session reason s = (r, s')"
  shows "\<exists>evs. added s evs s' \<and>
    (\<forall>e \<in> set evs. (\<exists>x. e = EvRemovePointer (request_name request) x) \<or>
       (\<exists>x. e = EvApply (RemoveRow (request_name request) reason) x)) \<and>
    (r = Inr () \<longrightarrow> (\<exists>p a. evs = [EvRemovePointer (request_name request) (Inr p),
       EvApply (RemoveRow (request_name request) reason) (Inr a)]))"
proof -
  obtain rp w where rp: "sess_remove_pointer session (request_name request) (ds_world s) = (rp, w)"
    by (cases "sess_remove_pointer session (request_name request) (ds_world s)")
  show ?thesis
  proof (cases rp)
    case (Inl e)
    then show ?thesis
      using assms rp
      by (intro exI [of _ "[EvRemovePointer (request_name request) rp]"])
         (auto simp: detach_def op_bind_eq traced_def op_map_err_def added_def)
  next
    case (Inr p)
    obtain ra w' where ra: "sess_apply session (RemoveRow (request_name request) reason) w = (ra, w')"
      by (cases "sess_apply session (RemoveRow (request_name request) reason) w")
    show ?thesis
      using assms rp ra Inr
      by (intro exI [of _ "[EvRemovePointer (request_name request) rp,
            EvApply (RemoveRow (request_name request) reason) ra]"])
         (cases ra; auto simp: detach_def op_bind_eq traced_def op_map_err_def added_def push_effect_def
           split: if_splits)
  qed
qed

definition is_detach :: "MemberName \<Rightarrow> RemovalReason \<Rightarrow> DisposeEvent \<Rightarrow> bool" where
  "is_detach name reason e \<longleftrightarrow>
     (\<exists>x. e = EvRemovePointer name x) \<or> (\<exists>x. e = EvApply (RemoveRow name reason) x)"

text \<open>The calls of the removal: the row is marked first, and only then the directory is removed.\<close>

definition removal_calls :: "MemberName \<Rightarrow> Plan \<Rightarrow> DisposeEvent list \<Rightarrow> bool" where
  "removal_calls name plan evs \<longleftrightarrow>
     (let mark = MarkDisposing name (row_allocation_id (plan_row plan)) in
      (\<exists>e. evs = [EvApply mark (Inl e)]) \<or>
      (\<exists>a res rest. evs = EvApply mark (Inr a) # EvRemoveDirectory (plan_target plan) res # rest \<and>
         list_all (is_detach name Disposed) rest \<and> (\<forall>x. res = Inl x \<longrightarrow> rest = [])))"

lemma remove_target_run:
  assumes "remove_target request session ports plan s = (r, s')"
  shows "\<exists>evs. added s evs s' \<and> removal_calls (request_name request) plan evs"
proof -
  define mark where "mark = MarkDisposing (request_name request) (row_allocation_id (plan_row plan))"
  obtain ra w where ra: "sess_apply session mark (ds_world s) = (ra, w)"
    by (cases "sess_apply session mark (ds_world s)")
  show ?thesis
  proof (cases ra)
    case (Inl e)
    then show ?thesis
      using assms ra
      by (intro exI [of _ "[EvApply mark ra]"])
         (auto simp: remove_target_def Let_def mark_def op_bind_eq traced_def op_map_err_def added_def
           removal_calls_def)
  next
    case (Inr a)
    obtain rd w' where rd: "port_remove_directory ports (plan_target plan) w = (rd, w')"
      by (cases "port_remove_directory ports (plan_target plan) w")
    define s1 where "s1 = s\<lparr>ds_world := w', ds_effects := ds_effects s @ [EffRowDisposing],
      ds_trace := ds_trace s @ [EvApply mark ra, EvRemoveDirectory (plan_target plan) rd]\<rparr>"
    show ?thesis
    proof (cases rd)
      case (Inl e)
      then have "s' = s1"
        using assms ra Inr rd
        by (auto simp: remove_target_def Let_def mark_def s1_def op_bind_eq traced_def op_map_err_def push_effect_def)
      then show ?thesis
        using Inr Inl
        by (intro exI [of _ "[EvApply mark ra, EvRemoveDirectory (plan_target plan) rd]"])
           (auto simp: added_def s1_def mark_def removal_calls_def)
    next
      case ok: (Inr u)
      define s2 where "s2 = s1\<lparr>ds_effects := ds_effects s1 @ [EffDirectoryRemoved]\<rparr>"
      have "detach request session Disposed s2 = (r, s')"
        using assms ra Inr rd ok
        by (auto simp: remove_target_def Let_def mark_def s1_def s2_def op_bind_eq traced_def op_map_err_def
            push_effect_def)
      from detach_run [OF this] obtain rest where rest: "added s2 rest s'"
        "list_all (is_detach (request_name request) Disposed) rest"
        by (auto simp: list_all_iff is_detach_def)
      have "added s [EvApply mark ra, EvRemoveDirectory (plan_target plan) rd] s2"
        using Inr ok by (simp add: added_def s1_def s2_def mark_def)
      from added_trans [OF this rest(1)] show ?thesis
        using rest(2) Inr ok unfolding removal_calls_def mark_def Let_def by auto
    qed
  qed
qed

text \<open>
  What validation establishes of the target: it is where the index records the name, it neither contains
  the root nor the working directory, does not lie inside the root, and overlaps no other member.
\<close>

definition deletable :: "DisposeRequest \<Rightarrow> FamilyView \<Rightarrow> Plan \<Rightarrow> bool" where
  "deletable request view plan \<longleftrightarrow>
     bt_get (view_members view) (request_name request) = Some (plan_row plan) \<and>
     (\<exists>recorded. validate_path (row_path (plan_row plan)) = Inr recorded \<and>
        plan_target plan = lexical_resolve (path_join_str (request_root request) (path_str recorded)) \<and>
        (\<forall>(other_name, other)\<in>set (view_members view). other_name \<noteq> request_name request \<longrightarrow>
           (\<exists>other_path. validate_path (row_path other) = Inr other_path \<and>
              \<not> overlaps (relate recorded other_path)))) \<and>
     \<not> prefix (plan_target plan) (lexical_resolve (request_root request)) \<and>
     \<not> prefix (lexical_resolve (request_root request)) (plan_target plan) \<and>
     \<not> prefix (plan_target plan) (lexical_resolve (request_cwd request))"

lemma member_path_ok: "member_path name path = Inr recorded \<longleftrightarrow> validate_path path = Inr recorded"
  by (cases "validate_path path") (simp_all add: member_path_def)

lemma check_others_ok:
  assumes "check_others name row recorded members = Inr ()" "(other_name, other) \<in> set members" "other_name \<noteq> name"
  shows "\<exists>other_path. validate_path (row_path other) = Inr other_path \<and> \<not> overlaps (relate recorded other_path)"
  using assms by (fastforce simp: check_others_def for_each_ok and_then_eq_Inr member_path_ok split: if_splits)

lemma plan_of_deletable:
  assumes "plan_of request view = Inr plan"
  shows "deletable request view plan"
proof -
  obtain row recorded where plan:
    "bt_get (view_members view) (request_name request) = Some row" "validate_path (row_path row) = Inr recorded"
    "check_target (lexical_resolve (request_root request)) (lexical_resolve (request_cwd request))
       (lexical_resolve (path_join_str (request_root request) (path_str recorded))) (row_path row) = Inr ()"
    "check_others (request_name request) row recorded (view_members view) = Inr ()"
    "plan = \<lparr>plan_row = row,
       plan_target = lexical_resolve (path_join_str (request_root request) (path_str recorded))\<rparr>"
    using assms
    by (auto simp: plan_of_def ok_or_def and_then_eq_Inr member_path_ok Let_def split: option.splits)
  show ?thesis
    using plan(1-3) check_others_ok [OF plan(4)] unfolding deletable_def plan(5)
    by (auto simp: check_target_def split: if_splits)
qed

text \<open>One run of the service: the calls it makes, stage by stage.\<close>

definition deletion_calls ::
    "DisposeRequest \<Rightarrow> 's FamilySession \<Rightarrow> HazardWaiver list \<Rightarrow> DisposeEvent list \<Rightarrow> bool" where
  "deletion_calls request session waivers evs \<longleftrightarrow>
     distinct waivers \<and>
     lexical_resolve (request_root request) = lexical_resolve (sess_root session) \<and>
     (\<exists>view plan evidence evss calls.
        evs = [EvReread (Inr (Some view)), EvObserve (plan_target plan) (Inr evidence)] @ concat evss @ calls \<and>
        deletable request view plan \<and>
        evidence_unknown evidence = [] \<and>
        row_state (plan_row plan) = Ready \<and>
        evidence_target evidence = TargetPresent PointerMatches MarkerMatches \<and>
        evidence_repositories evidence \<noteq> [] \<and>
        list_all2 (repository_cleared plan evidence waivers) (evidence_repositories evidence) evss \<and>
        list_all is_history (concat evss) \<and>
        removal_calls (request_name request) plan calls)"

definition is_removal :: "DisposeEvent \<Rightarrow> bool" where
  "is_removal e = (case e of EvRemoveDirectory _ _ \<Rightarrow> True | _ \<Rightarrow> False)"

definition is_reread :: "DisposeEvent \<Rightarrow> bool" where
  "is_reread e = (case e of EvReread _ \<Rightarrow> True | _ \<Rightarrow> False)"

lemma is_reread_simp [simp]: "is_reread (EvReread x)"
  by (simp add: is_reread_def)

lemma not_removal [simp]:
  "\<not> is_removal (EvReread x)" "\<not> is_removal (EvObserve t o')" "is_history e \<Longrightarrow> \<not> is_removal e"
  "is_detach name reason e \<Longrightarrow> \<not> is_removal e" "\<not> is_removal (EvApply ch a)"
  by (auto simp: is_removal_def is_history_def is_detach_def split: DisposeEvent.splits)

lemma detach_quiet:
  assumes "detach request session reason s = (r, s')"
  shows "\<exists>evs. added s evs s' \<and> list_all (is_detach (request_name request) reason) evs \<and>
    \<not> list_ex is_removal evs"
proof -
  from detach_run [OF assms] obtain evs where evs: "added s evs s'"
    "\<forall>e \<in> set evs. is_detach (request_name request) reason e"
    unfolding is_detach_def by (elim exE conjE)
  have "\<not> list_ex is_removal evs"
    using bspec [OF evs(2)] not_removal(4) by (metis list_ex_iff)
  with evs show ?thesis
    by (intro exI conjI) (simp_all add: list_all_iff)
qed

lemma dispose_observed_run:
  assumes "dispose_observed request session ports plan waivers evidence s = (r, s')"
  shows "\<exists>evs. added s evs s' \<and>
    (list_ex is_removal evs \<longrightarrow>
      (\<exists>evss calls. evs = concat evss @ calls \<and> evidence_unknown evidence = [] \<and>
        classify_target (plan_row plan) (Some (evidence_target evidence)) = LsReady \<and>
        evidence_repositories evidence \<noteq> [] \<and>
        list_all2 (repository_cleared plan evidence waivers) (evidence_repositories evidence) evss \<and>
        list_all is_history (concat evss) \<and> removal_calls (request_name request) plan calls))"
proof (cases "evidence_unknown evidence = [] \<and>
    classify_target (plan_row plan) (Some (evidence_target evidence)) = LsReady")
  case True
  then obtain r1 s1 where i: "inspect plan evidence waivers ports s = (r1, s1)"
    and rest: "(case r1 of Inl e \<Rightarrow> r = Inl e \<and> s' = s1
      | Inr waived \<Rightarrow> \<exists>r2. remove_target request session ports plan s1 = (r2, s'))"
    using assms
    by (cases "inspect plan evidence waivers ports s")
       (auto simp: dispose_observed_def op_bind_def split: prod.splits sum.splits)
  from inspect_run [OF i] obtain evss where evss: "added s (concat evss) s1" "list_all is_history (concat evss)"
    and ok: "\<And>waived. r1 = Inr waived \<Longrightarrow> evidence_repositories evidence \<noteq> [] \<and>
      list_all2 (repository_cleared plan evidence waivers) (evidence_repositories evidence) evss"
    by blast
  show ?thesis
  proof (cases r1)
    case (Inl e)
    then show ?thesis
      using evss rest by (intro exI [of _ "concat evss"]) (auto simp: list_ex_iff list_all_iff)
  next
    case (Inr waived)
    then obtain r2 where "remove_target request session ports plan s1 = (r2, s')"
      using rest by auto
    from remove_target_run [OF this] obtain calls where
      "added s1 calls s'" "removal_calls (request_name request) plan calls"
      by blast
    then show ?thesis
      using added_trans [OF evss(1)] evss(2) ok [OF Inr] True
      by (intro exI [of _ "concat evss @ calls"]) blast
  qed
next
  case False
  have "\<exists>evs. added s evs s' \<and> \<not> list_ex is_removal evs"
  proof (cases "evidence_unknown evidence = [] \<and> evidence_repositories evidence = [] \<and>
      classify_target (plan_row plan) (Some (evidence_target evidence)) = LsMissing")
    case True
    then obtain r1 where "detach request session Stale s = (r1, s')"
      using assms by (auto simp: dispose_observed_def op_bind_def split: prod.splits sum.splits)
    from detach_quiet [OF this] show ?thesis
      by (elim exE conjE) (intro exI conjI)
  next
    case stop: False
    then have "s' = s"
      using assms False
      by (auto simp: dispose_observed_def split: ListState.splits if_splits)
    then show ?thesis
      by (intro exI [of _ "[]"]) simp
  qed
  then show ?thesis
    by blast
qed

lemma validate_quiet:
  assumes "validate request session s = (r, s')"
  shows "\<exists>evs. added s evs s' \<and> \<not> list_ex is_removal evs"
proof -
  from validate_run [OF assms] obtain evs where evs: "added s evs s'" "\<forall>e \<in> set evs. \<exists>x. e = EvReread x"
    by (elim exE conjE)
  have "\<not> is_removal e" if e: "e \<in> set evs" for e
  proof -
    obtain x where "e = EvReread x"
      using bspec [OF evs(2) e] by (rule exE)
    then show ?thesis
      by simp
  qed
  then have "\<not> list_ex is_removal evs"
    by (simp add: list_ex_iff)
  with evs(1) show ?thesis
    by (intro exI conjI)
qed

lemma validate_ok:
  assumes "validate request session s = (Inr plan, s')"
  shows "lexical_resolve (request_root request) = lexical_resolve (sess_root session) \<and>
    (\<exists>view. added s [EvReread (Inr (Some view))] s' \<and> plan_of request view = Inr plan)"
proof -
  from validate_run [OF assms] obtain evs where evs: "added s evs s'"
    "\<forall>plan'. (Inr plan :: DisposeError + Plan) = Inr plan' \<longrightarrow>
       lexical_resolve (request_root request) = lexical_resolve (sess_root session) \<and>
       (\<exists>view. evs = [EvReread (Inr (Some view))] \<and> plan_of request view = Inr plan')"
    by (elim exE conjE)
  obtain view where "lexical_resolve (request_root request) = lexical_resolve (sess_root session)"
    "evs = [EvReread (Inr (Some view))]" "plan_of request view = Inr plan"
    using mp [OF spec [OF evs(2), of plan] refl] by (elim exE conjE)
  with evs(1) show ?thesis
    by (intro conjI exI [of _ view]) simp_all
qed

lemma keep_run_calls:
  assumes "request_policy request = KeepFiles" "dispose_run request session ports s = (r, s')"
  shows "\<exists>evs. added s evs s' \<and> \<not> list_ex is_removal evs"
proof -
  have run: "op_bind (validate request session) (\<lambda>_.
      op_bind (detach request session Keep) (\<lambda>_. op_return [])) s = (r, s')"
    using assms by (simp add: dispose_run_def)
  then show ?thesis
  proof (cases rule: op_bind_cases)
    case (fail e)
    from validate_quiet [OF fail(1)] show ?thesis
      by blast
  next
    case (ok plan s1)
    obtain r2 where d: "detach request session Keep s1 = (r2, s')"
      using ok(2) by (cases rule: op_bind_cases) auto
    from validate_quiet [OF ok(1)] obtain evs where
      evs: "added s evs s1" "\<not> list_ex is_removal evs"
      by (elim exE conjE)
    from detach_quiet [OF d] obtain evs' where evs': "added s1 evs' s'" "\<not> list_ex is_removal evs'"
      by (elim exE conjE)
    have "\<not> list_ex is_removal (evs @ evs')"
      using evs(2) evs'(2) by simp
    with added_trans [OF evs(1) evs'(1)] show ?thesis
      by blast
  qed
qed

lemma classify_ready_target:
  "classify_target row (Some target) = LsReady \<longleftrightarrow>
     row_state row = Ready \<and> target = TargetPresent PointerMatches MarkerMatches"
  using classify_endpoint [of row "Some target"] by (simp add: is_family_endpoint_def)

lemma observed_run_calls:
  assumes "added s [EvReread (Inr (Some view)), EvObserve (plan_target plan) (Inr evidence)] s2"
    and "plan_of request view = Inr plan" "distinct waivers"
      "lexical_resolve (request_root request) = lexical_resolve (sess_root session)"
    and "dispose_observed request session ports plan waivers evidence s2 = (r, s')"
  shows "\<exists>evs. added s evs s' \<and> (list_ex is_removal evs \<longrightarrow> deletion_calls request session waivers evs)"
proof -
  from dispose_observed_run [OF assms(5)] obtain calls where calls: "added s2 calls s'"
    "list_ex is_removal calls \<longrightarrow>
      (\<exists>evss calls'. calls = concat evss @ calls' \<and> evidence_unknown evidence = [] \<and>
        classify_target (plan_row plan) (Some (evidence_target evidence)) = LsReady \<and>
        evidence_repositories evidence \<noteq> [] \<and>
        list_all2 (repository_cleared plan evidence waivers) (evidence_repositories evidence) evss \<and>
        list_all is_history (concat evss) \<and> removal_calls (request_name request) plan calls')"
    by blast
  define evs where "evs = [EvReread (Inr (Some view)), EvObserve (plan_target plan) (Inr evidence)] @ calls"
  have "added s evs s'"
    unfolding evs_def by (rule added_trans [OF assms(1) calls(1)])
  moreover have "deletion_calls request session waivers evs" if "list_ex is_removal evs"
  proof -
    have "list_ex is_removal calls"
      using that by (simp add: evs_def)
    then show ?thesis
      using calls(2) assms(3,4) plan_of_deletable [OF assms(2)]
      unfolding deletion_calls_def evs_def classify_ready_target by blast
  qed
  ultimately show ?thesis
    by blast
qed

lemma delete_run_calls:
  assumes "request_policy request = Delete waivers" "dispose_run request session ports s = (r, s')"
  shows "\<exists>evs. added s evs s' \<and> (list_ex is_removal evs \<longrightarrow> deletion_calls request session waivers evs)"
proof (cases "distinct waivers")
  case False
  then show ?thesis
    using assms by (intro exI [of _ "[]"]) (simp add: dispose_run_def)
next
  case True
  have run: "op_bind (validate request session) (\<lambda>plan.
      op_bind (op_map_err DisposePort (traced (EvObserve (plan_target plan))
        (port_observe_target ports (plan_target plan)))) (\<lambda>evidence.
        dispose_observed request session ports plan waivers evidence)) s = (r, s')"
    using assms True by (simp add: dispose_run_def)
  then show ?thesis
  proof (cases rule: op_bind_cases)
    case (fail e)
    from validate_quiet [OF fail(1)] obtain evs where "added s evs s'" "\<not> list_ex is_removal evs"
      by (elim exE conjE)
    then show ?thesis
      by (intro exI [of _ evs]) simp
  next
    case (ok plan s1)
    from validate_ok [OF ok(1)] obtain view where
      view: "added s [EvReread (Inr (Some view))] s1" "plan_of request view = Inr plan"
        "lexical_resolve (request_root request) = lexical_resolve (sess_root session)"
      by (elim exE conjE)
    from ok(2) show ?thesis
    proof (cases rule: op_bind_cases)
      case (fail e)
      then obtain r0 where "traced (EvObserve (plan_target plan))
          (port_observe_target ports (plan_target plan)) s1 = (r0, s')"
        by (auto elim: op_map_err_run)
      then obtain w where "s' = s1\<lparr>ds_world := w, ds_trace := ds_trace s1 @ [EvObserve (plan_target plan) r0]\<rparr>"
        by (rule traced_run)
      then show ?thesis
        using view(1)
        by (intro exI [of _ "[EvReread (Inr (Some view)), EvObserve (plan_target plan) r0]"])
           (simp add: added_def)
    next
      case obs: (ok evidence s2)
      then obtain r0 where r0: "traced (EvObserve (plan_target plan))
          (port_observe_target ports (plan_target plan)) s1 = (r0, s2)" "Inr evidence = map_err DisposePort r0"
        by (auto elim: op_map_err_run)
      then have "r0 = Inr evidence"
        by (cases r0) auto
      moreover obtain w where "s2 = s1\<lparr>ds_world := w, ds_trace := ds_trace s1 @ [EvObserve (plan_target plan) r0]\<rparr>"
        using r0(1) by (rule traced_run)
      ultimately have "added s [EvReread (Inr (Some view)), EvObserve (plan_target plan) (Inr evidence)] s2"
        using view(1) by (simp add: added_def)
      then show ?thesis
        by (rule observed_run_calls [OF _ view(2) True view(3) obs(2)])
    qed
  qed
qed

lemma dispose_run_calls:
  assumes "dispose_run request session ports s = (r, s')"
  shows "\<exists>evs. added s evs s' \<and>
    (list_ex is_removal evs \<longrightarrow>
      (\<exists>waivers. request_policy request = Delete waivers \<and> deletion_calls request session waivers evs))"
proof (cases "request_policy request")
  case KeepFiles
  with keep_run_calls [OF this assms] show ?thesis
    by blast
next
  case (Delete waivers)
  with delete_run_calls [OF this assms] show ?thesis
    by blast
qed

lemma dispose_is_run:
  assumes "dispose request session ports world = (r, s)"
  obtains r1 where "dispose_run request session ports \<lparr>ds_world = world, ds_effects = [], ds_trace = []\<rparr> = (r1, s)"
    "case r of Inr report \<Rightarrow> dispose_effects report = ds_effects s \<and> (\<exists>w. r1 = Inr w)
     | Inl failure \<Rightarrow> failure_effects failure = ds_effects s \<and> r1 = Inl (failure_error failure)"
  using assms by (auto simp: dispose_def split: prod.splits sum.splits)

lemma dispose_calls:
  assumes "dispose request session ports world = (r, s)"
  shows "ds_effects s = effects_of (ds_trace s) \<and>
    (list_ex is_removal (ds_trace s) \<longrightarrow>
      (\<exists>waivers. request_policy request = Delete waivers \<and> deletion_calls request session waivers (ds_trace s)))"
proof -
  obtain r1 where run: "dispose_run request session ports \<lparr>ds_world = world, ds_effects = [], ds_trace = []\<rparr> = (r1, s)"
    by (rule dispose_is_run [OF assms])
  from dispose_run_calls [OF run] obtain evs where
    "added \<lparr>ds_world = world, ds_effects = [], ds_trace = []\<rparr> evs s"
    "list_ex is_removal evs \<longrightarrow>
      (\<exists>waivers. request_policy request = Delete waivers \<and> deletion_calls request session waivers evs)"
    by blast
  then show ?thesis
    by (simp add: added_def)
qed

lemma removal_calls_once: "removal_calls name plan calls \<Longrightarrow> length (filter is_removal calls) \<le> 1"
proof -
  have "filter is_removal rest = []" if "list_all (is_detach name Disposed) rest" for rest
    using that by (auto simp: filter_empty_conv list_all_iff)
  then show "removal_calls name plan calls \<Longrightarrow> length (filter is_removal calls) \<le> 1"
    by (auto simp: removal_calls_def Let_def)
qed

subsection \<open>Properties\<close>

text \<open>
  C2. A directory is removed only after every guard passed, and at most once. If a run calls the
  removal port, then its request asks to delete, with waivers that are named once each, and names the
  root the lock is held on; its first calls reread the index and observe the recorded target; the target
  is the one the request's name is recorded at, contains neither the root nor the working directory, is
  not inside the root and overlaps no other member; the observation has no open reason, the row is ready
  and the target is there with matching pointer and marker; every repository has its worktree, git
  directory and object store inside the target, a known work verdict, no refusing hazard but under a
  named waiver, and a history that was asked about and is preserved or waived. The one history that
  passes unasked or unanswered is an unknown one that gives no reason. The row was marked disposing,
  successfully, right before the removal.
\<close>

theorem removal_is_guarded:
  assumes "dispose request session ports world = (r, s)" "list_ex is_removal (ds_trace s)"
  shows "(\<exists>waivers. request_policy request = Delete waivers \<and> deletion_calls request session waivers (ds_trace s)) \<and>
    length (filter is_removal (ds_trace s)) = 1"
proof -
  obtain waivers where w: "request_policy request = Delete waivers" "deletion_calls request session waivers (ds_trace s)"
    using dispose_calls [OF assms(1)] assms(2) by blast
  from w(2) obtain view plan evidence evss calls where
    t: "ds_trace s = [EvReread (Inr (Some view)), EvObserve (plan_target plan) (Inr evidence)] @ concat evss @ calls"
    and h: "list_all is_history (concat evss)" and c: "removal_calls (request_name request) plan calls"
    unfolding deletion_calls_def by blast
  have "filter is_removal (concat evss) = []"
    using h by (auto simp: filter_empty_conv list_all_iff)
  then have "length (filter is_removal (ds_trace s)) \<le> 1"
    using removal_calls_once [OF c] by (simp add: t)
  moreover have "filter is_removal (ds_trace s) \<noteq> []"
    using assms(2) by (auto simp: list_ex_iff filter_empty_conv)
  ultimately have "length (filter is_removal (ds_trace s)) = 1"
    by (metis One_nat_def le_antisym length_greater_0_conv Suc_leI)
  with w show ?thesis
    by blast
qed

definition sample_family_session :: "unit FamilySession" where
  "sample_family_session =
     \<lparr>sess_root = sample_root, sess_reread = op_return (Some sample_view),
      sess_found = (\<lambda>_ _. op_fail StorePanic),
      sess_apply = (\<lambda>_. op_return \<lparr>applied_effects = [], applied_view = None\<rparr>),
      sess_install_pointer = (\<lambda>_ _. op_fail StorePanic),
      sess_remove_pointer = (\<lambda>_. op_return \<lparr>applied_effects = [PointerRemoved []], applied_view = None\<rparr>)\<rparr>"

definition sample_target :: hpath where
  "sample_target = [RootDir, Normal (Utf8 (lit ''a''))]"

definition sample_repository :: RepositoryEvidence where
  "sample_repository =
     \<lparr>evidence_key = KeyRoot,
      evidence_info = \<lparr>repo_path = sample_target, repo_git_dir = sample_target @ [Normal (Utf8 (lit ''.git''))],
        repo_common_dir = sample_target @ [Normal (Utf8 (lit ''.git''))], repo_bare = False,
        repo_object_format = Sha1, repo_head = HeadUnborn (lit ''main'')\<rparr>,
      evidence_work = Known sample_work,
      evidence_gwz = \<lparr>evidence_merge = EvNone, evidence_stash = EvNone, evidence_other = []\<rparr>,
      evidence_history = Known \<lparr>protected_roots = [], protected_unknown = []\<rparr>\<rparr>"

definition sample_evidence :: TargetEvidence where
  "sample_evidence =
     \<lparr>evidence_target = TargetPresent PointerMatches MarkerMatches,
      evidence_repositories = [sample_repository], evidence_copy = None, evidence_unknown = []\<rparr>"

definition sample_ports :: "unit DisposalPorts" where
  "sample_ports =
     \<lparr>port_observe_target = (\<lambda>_. op_return sample_evidence),
      port_check_history = (\<lambda>_ w. (HistoryUnpreserved (lit ''main is not preserved''), w)),
      port_remove_directory = (\<lambda>_. op_return ())\<rparr>"

definition sample_request :: "HazardWaiver list \<Rightarrow> DisposeRequest" where
  "sample_request waivers =
     \<lparr>request_name = MemberName (lit ''a''), request_policy = Delete waivers,
      request_root = sample_root, request_cwd = sample_root\<rparr>"

definition sample_plan :: Plan where
  "sample_plan = \<lparr>plan_row = sample_row, plan_target = sample_target\<rparr>"

lemma sample_steps:
  "plan_of (sample_request waivers) sample_view = Inr sample_plan"
  "check_inside sample_plan sample_repository = Inr ()"
  "classify_target (plan_row sample_plan) (Some (evidence_target sample_evidence)) = LsReady"
  "inspect_work sample_evidence sample_repository =
     ([], [\<lparr>finding_waiver = Dirty, finding_repository = KeyRoot,
            finding_hazards = report_hazards (work_report sample_evidence sample_repository),
            finding_detail = None\<rparr>])"
proof -
  have "plan_of (sample_request []) sample_view = Inr sample_plan"
    by code_simp
  then show "plan_of (sample_request waivers) sample_view = Inr sample_plan"
    by (simp add: plan_of_def sample_request_def)
qed code_simp+

lemmas sample_run_eval =
  dispose_def dispose_run_def validate_def dispose_observed_def inspect_def inspect_history_def ask_history_def
  remove_target_def detach_def traced_def push_effect_def op_bind_eq ok_or_def decide_findings_def Let_def
  sample_family_session_def sample_ports_def

lemma sample_run_fields:
  "request_policy (sample_request waivers) = Delete waivers"
  "request_root (sample_request waivers) = sample_root"
  "evidence_unknown sample_evidence = []" "evidence_repositories sample_evidence = [sample_repository]"
  "evidence_history sample_repository = Known \<lparr>protected_roots = [], protected_unknown = []\<rparr>"
  by (simp_all add: sample_request_def sample_evidence_def sample_repository_def)

theorem removal_is_guarded_witness:
  "length (filter is_removal (ds_trace (snd (dispose (sample_request [Dirty, UnpreservedHistory])
     sample_family_session sample_ports ())))) = 1"
proof -
  let ?run = "dispose (sample_request [Dirty, UnpreservedHistory]) sample_family_session sample_ports ()"
  have "list_ex is_removal (ds_trace (snd ?run))"
    by (simp add: sample_run_eval sample_run_fields sample_steps is_removal_def)
  from removal_is_guarded [OF prod.collapse [symmetric] this] show ?thesis
    by simp
qed

text \<open>
  C38. The effects a disposal reports, in success and in failure, are exactly the effects of the calls
  that completed, in their order.
\<close>

theorem dispose_reports_completed_effects:
  assumes "dispose request session ports world = (r, s)"
  shows "(case r of Inr report \<Rightarrow> dispose_effects report | Inl failure \<Rightarrow> failure_effects failure) =
    effects_of (ds_trace s)"
  using dispose_calls [OF assms] assms
  by (auto simp: dispose_def split: prod.splits sum.splits)

theorem dispose_reports_completed_effects_witness:
  "effects_of (ds_trace (snd (dispose (sample_request [UnpreservedHistory, Dirty]) sample_family_session
     sample_ports ()))) = [EffRowDisposing, EffDirectoryRemoved, EffPointerRemoved, EffRowRemoved]"
proof -
  let ?run = "dispose (sample_request [UnpreservedHistory, Dirty]) sample_family_session sample_ports ()"
  have "(case fst ?run of Inr report \<Rightarrow> dispose_effects report | Inl failure \<Rightarrow> failure_effects failure) =
      [EffRowDisposing, EffDirectoryRemoved, EffPointerRemoved, EffRowRemoved]"
    by (simp add: sample_run_eval sample_run_fields sample_steps is_pointer_removed_def)
  then show ?thesis
    using dispose_reports_completed_effects [of "sample_request [UnpreservedHistory, Dirty]"
        sample_family_session sample_ports "()" "fst ?run" "snd ?run"]
    by simp
qed

text \<open>
  Keeping the files touches none: a run that keeps makes no call but the reading of the index,
  the removal of the member's own pointer and the removal of its row with the reason keep. Where it
  succeeds it made exactly these three, in this order, on a plan that passed validation.
\<close>

theorem keep_only_detaches:
  assumes "request_policy request = KeepFiles" "dispose request session ports world = (r, s)"
  shows "list_all (\<lambda>e. is_reread e \<or> is_detach (request_name request) Keep e) (ds_trace s) \<and>
    (\<forall>report. r = Inr report \<longrightarrow>
      (\<exists>view plan p a. plan_of request view = Inr plan \<and>
         ds_trace s = [EvReread (Inr (Some view)), EvRemovePointer (request_name request) (Inr p),
           EvApply (RemoveRow (request_name request) Keep) (Inr a)]))"
proof -
  define s0 where "s0 = \<lparr>ds_world = world, ds_effects = [], ds_trace = []\<rparr>"
  obtain r1 where run: "dispose_run request session ports s0 = (r1, s)"
    and split: "case r of Inr report \<Rightarrow> dispose_effects report = ds_effects s \<and> (\<exists>w. r1 = Inr w)
     | Inl failure \<Rightarrow> failure_effects failure = ds_effects s \<and> r1 = Inl (failure_error failure)"
    unfolding s0_def by (rule dispose_is_run [OF assms(2)])
  have r1: "\<exists>w. r1 = Inr w" if "r = Inr report" for report
    using split that by simp
  have "op_bind (validate request session) (\<lambda>_.
      op_bind (detach request session Keep) (\<lambda>_. op_return [])) s0 = (r1, s)"
    using run assms(1) by (simp add: dispose_run_def)
  then show ?thesis
  proof (cases rule: op_bind_cases)
    case (fail e)
    from validate_run [OF fail(1)] obtain evs where
      evs: "added s0 evs s" "\<forall>e \<in> set evs. \<exists>x. e = EvReread x"
      by (elim exE conjE)
    have "list_all is_reread (ds_trace s)"
      using evs by (auto simp: added_def s0_def list_all_iff)
    with r1 fail(2) show ?thesis
      by (auto simp: list_all_iff)
  next
    case (ok plan s1)
    from validate_ok [OF ok(1)] obtain view where view: "added s0 [EvReread (Inr (Some view))] s1"
      "plan_of request view = Inr plan"
      by (elim exE conjE)
    obtain r2 where d: "detach request session Keep s1 = (r2, s)" "\<And>w. r1 = Inr w \<Longrightarrow> r2 = Inr ()"
      using ok(2) by (cases rule: op_bind_cases) auto
    from detach_run [OF d(1)] obtain evs where evs: "added s1 evs s"
      "\<forall>e \<in> set evs. is_detach (request_name request) Keep e"
      "r2 = Inr () \<longrightarrow> (\<exists>p a. evs = [EvRemovePointer (request_name request) (Inr p),
         EvApply (RemoveRow (request_name request) Keep) (Inr a)])"
      unfolding is_detach_def by (elim exE conjE)
    have tr: "ds_trace s = EvReread (Inr (Some view)) # evs"
      using added_trans [OF view(1) evs(1)] by (simp add: added_def s0_def)
    then have all: "list_all (\<lambda>e. is_reread e \<or> is_detach (request_name request) Keep e) (ds_trace s)"
      using evs(2) by (simp add: list_all_iff)
    have "\<exists>p a. evs = [EvRemovePointer (request_name request) (Inr p),
        EvApply (RemoveRow (request_name request) Keep) (Inr a)]" if "r = Inr report" for report
      using r1 [OF that] d(2) evs(3) by blast
    with all tr view(2) show ?thesis
      by simp
  qed
qed

theorem keep_only_detaches_witness:
  "list_all (\<lambda>e. is_reread e \<or> is_detach (MemberName (lit ''a'')) Keep e)
     (ds_trace (snd (dispose ((sample_request [])\<lparr>request_policy := KeepFiles\<rparr>) sample_family_session
       sample_ports ())))"
proof -
  let ?q = "(sample_request [])\<lparr>request_policy := KeepFiles\<rparr>"
  have "request_policy ?q = KeepFiles" "request_name ?q = MemberName (lit ''a'')"
    by (simp_all add: sample_request_def)
  with keep_only_detaches [of ?q sample_family_session sample_ports "()" "fst (dispose ?q sample_family_session sample_ports ())"]
  show ?thesis
    by (metis prod.collapse)
qed

text \<open>
  Unknown history does not always stop a disposal: with the inventory of protected roots reported
  unknown and no reason given, and no waiver for unpreserved history, the target is removed without
  the history port being asked. An unknown work verdict without a reason, in contrast, is refused.
\<close>

theorem unexplained_history_is_not_refused:
  "\<exists>session ports :: unit DisposalPorts. \<exists>report s.
     dispose (sample_request [Dirty]) session ports () = (Inr report, s) \<and>
     list_ex is_removal (ds_trace s) \<and> \<not> list_ex is_history (ds_trace s) \<and>
     port_observe_target ports sample_target () = (Inr (sample_evidence\<lparr>evidence_repositories :=
       [sample_repository\<lparr>evidence_history := Unknown []\<rparr>]\<rparr>), ())"
proof -
  let ?repository = "sample_repository\<lparr>evidence_history := Unknown []\<rparr>"
  let ?evidence = "sample_evidence\<lparr>evidence_repositories := [?repository]\<rparr>"
  let ?ports = "sample_ports\<lparr>port_observe_target := \<lambda>_. op_return ?evidence\<rparr>"
  have steps: "check_inside sample_plan ?repository = Inr ()"
    "inspect_work ?evidence ?repository = inspect_work sample_evidence sample_repository"
    "evidence_target ?evidence = evidence_target sample_evidence" "evidence_unknown ?evidence = []"
    using sample_steps(2) sample_run_fields(3)
    by (simp_all add: check_inside_def inspect_work_def Let_def work_report_def baseline_for_def cong: if_cong)
  have "\<exists>report s. dispose (sample_request [Dirty]) sample_family_session ?ports () = (Inr report, s) \<and>
      list_ex is_removal (ds_trace s) \<and> \<not> list_ex is_history (ds_trace s)"
    by (simp add: sample_run_eval sample_run_fields sample_steps steps is_removal_def is_history_def)
  moreover have "port_observe_target ?ports sample_target () = (Inr ?evidence, ())"
    by simp
  ultimately show ?thesis
    by blast
qed

end
