(* ===== verification/Disposal_Index.thy ===== *)
theory Disposal_Index
  imports Disposal_Proofs
begin

text \<open>
  Disposal over the session's contract: what a run leaves in the index, for every outcome of every
  call. The client lemmas are proved once in the locale \<open>family_session\<close>; the property at the end is
  about the store's own session.
\<close>

subsection \<open>What a run may leave in the index\<close>

definition members_of :: "FamilyView \<Rightarrow> MemberName \<Rightarrow> MemberRow option" where
  "members_of v n = bt_get (view_members v) n"

text \<open>The index differs from the first one at most in the row of the disposed name.\<close>

definition others_kept :: "MemberName \<Rightarrow> FamilyView \<Rightarrow> FamilyView \<Rightarrow> bool" where
  "others_kept name v v' \<longleftrightarrow>
     view_family_id v' = view_family_id v \<and> view_root v' = view_root v \<and>
     (\<forall>n. n \<noteq> name \<longrightarrow> members_of v' n = members_of v n)"

definition marked :: "MemberRow option \<Rightarrow> MemberRow option" where
  "marked = map_option (\<lambda>row. row\<lparr>row_state := Disposing\<rparr>)"

lemma others_kept_refl [simp]: "others_kept name v v"
  by (simp add: others_kept_def)

lemma change_members:
  "members_of (v\<lparr>view_members := change_effect (RemoveRow name reason) (view_members v)\<rparr>) n =
     (if n = name then None else members_of v n)"
  "members_of (v\<lparr>view_members := change_effect (MarkDisposing name a) (view_members v)\<rparr>) n =
     (if n = name then marked (members_of v n) else members_of v n)"
  by (simp_all add: members_of_def marked_def bt.get_remove bt.get_modify)

lemma others_kept_change:
  "others_kept name v v' \<Longrightarrow>
   others_kept name v (v'\<lparr>view_members := change_effect (RemoveRow name reason) (view_members v')\<rparr>)"
  "others_kept name v v' \<Longrightarrow>
   others_kept name v (v'\<lparr>view_members := change_effect (MarkDisposing name a) (view_members v')\<rparr>)"
  by (simp_all add: others_kept_def change_members del: change_effect.simps)

lemma change_typed_row: "change_typed (RemoveRow n reason)" "change_typed (MarkDisposing n a)"
  by (simp_all add: change_typed_def)

text \<open>
  The ports keep the index: observing and checking history do not touch it, and removing a
  directory does not when the directory does not contain the family's root.
\<close>

definition ports_keep :: "('s \<Rightarrow> FamilyView \<Rightarrow> bool) \<Rightarrow> hpath \<Rightarrow> 's DisposalPorts \<Rightarrow> bool" where
  "ports_keep holds root ports \<longleftrightarrow>
     (\<forall>v t. triple (\<lambda>w. holds w v) (port_observe_target ports t) (\<lambda>_ w. holds w v) (\<lambda>_ w. holds w v)) \<and>
     (\<forall>v q w. holds w v \<longrightarrow> holds (snd (port_check_history ports q w)) v) \<and>
     (\<forall>v t. \<not> prefix t (lexical_resolve root) \<longrightarrow>
        triple (\<lambda>w. holds w v) (port_remove_directory ports t) (\<lambda>_ w. holds w v) (\<lambda>_ w. holds w v))"

subsection \<open>Contracts of the bookkeeping\<close>

lemma triple_step:
  "triple P m Q (\<lambda>_. E) \<Longrightarrow> (\<And>x. triple (Q x) (f x) R (\<lambda>_. E)) \<Longrightarrow>
   triple P (op_bind (op_map_err g m) f) R (\<lambda>_. E)"
  by (rule triple_bind, rule triple_map_err)

lemma triple_traced:
  assumes "\<And>tr. triple (\<lambda>w. P w tr) m (\<lambda>x w. Q x w (tr @ [ev (Inr x)])) (\<lambda>e w. E e w (tr @ [ev (Inl e)]))"
  shows "triple (\<lambda>s. P (ds_world s) (ds_trace s)) (traced ev m)
    (\<lambda>x s. Q x (ds_world s) (ds_trace s)) (\<lambda>e s. E e (ds_world s) (ds_trace s))"
  using assms unfolding triple_def traced_def by (fastforce split: prod.splits sum.splits)

lemma triple_push_effect: "triple (\<lambda>s. P (ds_world s) (ds_trace s)) (push_effect e)
    (\<lambda>_ s. P (ds_world s) (ds_trace s)) E"
  by (simp add: triple_def push_effect_def)

lemma plan_of_target:
  assumes "plan_of request view = Inr plan"
  shows "\<not> prefix (plan_target plan) (lexical_resolve (request_root request)) \<and>
    bt_get (view_members view) (request_name request) = Some (plan_row plan)"
  using assms
  by (auto simp: plan_of_def and_then_eq_Inr ok_or_def check_target_def Let_def split: option.splits if_splits)

text \<open>The stages of the index during a run, as predicates of the world and the calls made so far.\<close>

definition index_stage ::
    "('s \<Rightarrow> FamilyView \<Rightarrow> bool) \<Rightarrow> MemberName \<Rightarrow> FamilyView \<Rightarrow> 's \<Rightarrow> DisposeEvent list \<Rightarrow> bool" where
  "index_stage holds name v w tr \<longleftrightarrow>
     (\<exists>v'. holds w v' \<and> others_kept name v v' \<and>
        (members_of v' name = None \<or> members_of v' name = marked (members_of v name) \<or>
         (members_of v' name = members_of v name \<and> \<not> list_ex is_removal tr)))"

definition index_gone :: "('s \<Rightarrow> FamilyView \<Rightarrow> bool) \<Rightarrow> MemberName \<Rightarrow> FamilyView \<Rightarrow> 's \<Rightarrow> bool" where
  "index_gone holds name v w \<longleftrightarrow>
     (\<exists>v'. holds w v' \<and> others_kept name v v' \<and> members_of v' name = None)"

definition index_marked :: "('s \<Rightarrow> FamilyView \<Rightarrow> bool) \<Rightarrow> MemberName \<Rightarrow> FamilyView \<Rightarrow> 's \<Rightarrow> bool" where
  "index_marked holds name v w \<longleftrightarrow>
     (\<exists>v'. holds w v' \<and> others_kept name v v' \<and> members_of v' name = marked (members_of v name))"

lemma index_stageI:
  "holds w v \<Longrightarrow> \<not> list_ex is_removal tr \<Longrightarrow> index_stage holds name v w tr"
  "index_gone holds name v w \<Longrightarrow> index_stage holds name v w tr"
  "index_marked holds name v w \<Longrightarrow> index_stage holds name v w tr"
  by (auto simp: index_stage_def index_gone_def index_marked_def)

lemma index_stage_quiet: "\<not> is_removal e \<Longrightarrow> index_stage holds name v w (tr @ [e]) = index_stage holds name v w tr"
  by (simp add: index_stage_def)

subsection \<open>A run over any session that keeps the contract\<close>

context family_session
begin

lemma stage_keeps:
  assumes "\<And>v'. triple (\<lambda>w. holds w v') m (\<lambda>_ w. holds w v') (\<lambda>_ w. holds w v')"
    and "\<And>r. \<not> is_removal (ev r)"
  shows "triple (\<lambda>s. index_stage holds name v (ds_world s) (ds_trace s)) (traced ev m)
    (\<lambda>_ s. index_stage holds name v (ds_world s) (ds_trace s))
    (\<lambda>_ s. index_stage holds name v (ds_world s) (ds_trace s))"
proof (rule triple_traced)
  fix tr
  show "triple (\<lambda>w. index_stage holds name v w tr) m
      (\<lambda>x w. index_stage holds name v w (tr @ [ev (Inr x)])) (\<lambda>e w. index_stage holds name v w (tr @ [ev (Inl e)]))"
    unfolding index_stage_quiet [OF assms(2)]
    by (rule tripleI; unfold index_stage_def; blast dest: tripleD [OF assms(1)])
qed

lemma stage_remove_row:
  "triple (\<lambda>s. index_stage holds name v (ds_world s) (ds_trace s))
    (traced (EvApply (RemoveRow name reason)) (sess_apply session (RemoveRow name reason)))
    (\<lambda>_ s. index_gone holds name v (ds_world s))
    (\<lambda>_ s. index_stage holds name v (ds_world s) (ds_trace s))"
proof (rule triple_traced)
  fix tr
  let ?ch = "RemoveRow name reason"
  have gone: "index_gone holds name v w"
    if "holds w (v'\<lparr>view_members := change_effect ?ch (view_members v')\<rparr>)" "others_kept name v v'" for w v'
    using that others_kept_change(1) change_members(1) unfolding index_gone_def by metis
  have quiet: "index_stage holds name v w (tr @ [EvApply ?ch r]) = index_stage holds name v w tr" for w r
    by (rule index_stage_quiet) simp
  note effect = tripleD [OF apply_effect [OF change_typed_row(1), of name reason]]
  show "triple (\<lambda>w. index_stage holds name v w tr) (sess_apply session ?ch)
      (\<lambda>_ w. index_gone holds name v w) (\<lambda>e w. index_stage holds name v w (tr @ [EvApply ?ch (Inl e)]))"
    unfolding quiet
  proof (rule tripleI)
    fix s x s' assume s: "index_stage holds name v s tr" "sess_apply session ?ch s = (Inr x, s')"
    then obtain v' where v': "holds s v'" "others_kept name v v'"
      unfolding index_stage_def by blast
    from effect(1) [OF _ v'(1) s(2)] show "index_gone holds name v s'"
      using gone [OF _ v'(2)] by simp
  next
    fix s e s' assume s: "index_stage holds name v s tr" "sess_apply session ?ch s = (Inl e, s')"
    then obtain v' where v': "holds s v'" "others_kept name v v'"
      "members_of v' name = None \<or> members_of v' name = marked (members_of v name) \<or>
         (members_of v' name = members_of v name \<and> \<not> list_ex is_removal tr)"
      unfolding index_stage_def by (elim exE conjE)
    from effect(2) [OF _ v'(1) s(2)] consider "holds s' v'"
      | "holds s' (v'\<lparr>view_members := change_effect ?ch (view_members v')\<rparr>)"
      by fastforce
    then show "index_stage holds name v s' tr"
    proof cases
      case 1
      with v'(2,3) show ?thesis
        unfolding index_stage_def by (intro exI [of _ v'] conjI)
    next
      case 2
      show ?thesis
        by (rule index_stageI(2) [OF gone [OF 2 v'(2)]])
    qed
  qed
qed

lemma stage_detach:
  "triple (\<lambda>s. index_stage holds (request_name request) v (ds_world s) (ds_trace s))
    (detach request session reason)
    (\<lambda>_ s. index_gone holds (request_name request) v (ds_world s))
    (\<lambda>_ s. index_stage holds (request_name request) v (ds_world s) (ds_trace s))"
  unfolding detach_def
proof (rule triple_step [OF stage_keeps [OF remove_holds]])
  let ?stage = "\<lambda>s. index_stage holds (request_name request) v (ds_world s) (ds_trace s)"
  let ?gone = "\<lambda>s. index_gone holds (request_name request) v (ds_world s)"
  show "\<not> is_removal (EvRemovePointer (request_name request) r)" for r
    by (simp add: is_removal_def)
  have push: "triple ?gone (push_effect e) (\<lambda>_. ?gone) (\<lambda>_. ?stage)" for e
    by (simp add: triple_def push_effect_def)
  have note_pointer: "triple ?stage (if b then push_effect e else op_return ()) (\<lambda>_. ?stage) (\<lambda>_. ?stage)" for b e
    by (simp add: triple_def push_effect_def)
  show "triple ?stage
      (op_bind (if list_ex is_pointer_removed (applied_effects x)
         then push_effect EffPointerRemoved else op_return ()) (\<lambda>_.
       op_bind (op_map_err DisposeStore (traced (EvApply (RemoveRow (request_name request) reason))
         (sess_apply session (RemoveRow (request_name request) reason)))) (\<lambda>_.
       push_effect (if reason = Keep then EffRowDetached else EffRowRemoved))))
      (\<lambda>_. ?gone) (\<lambda>_. ?stage)" for x
    by (rule triple_bind [OF note_pointer], rule triple_step [OF stage_remove_row push])
qed

text \<open>The index of the first reading still stands, and nothing was removed.\<close>

definition untouched :: "FamilyView \<Rightarrow> 's \<Rightarrow> DisposeEvent list \<Rightarrow> bool" where
  "untouched v w tr \<longleftrightarrow> holds w v \<and> \<not> list_ex is_removal tr"

lemma untouched_stage: "untouched v w tr \<Longrightarrow> index_stage holds name v w tr"
  unfolding untouched_def by (elim conjE) (rule index_stageI(1))

lemma untouched_keeps:
  assumes "triple (\<lambda>w. holds w v) m (\<lambda>x w. holds w v \<and> Q x) (\<lambda>_ w. holds w v)"
    and "\<And>r. \<not> is_removal (ev r)"
  shows "triple (\<lambda>s. untouched v (ds_world s) (ds_trace s)) (traced ev m)
    (\<lambda>x s. untouched v (ds_world s) (ds_trace s) \<and> Q x)
    (\<lambda>_ s. untouched v (ds_world s) (ds_trace s))"
proof (rule triple_traced [where Q = "\<lambda>x w tr. untouched v w tr \<and> Q x"])
  fix tr
  show "triple (\<lambda>w. untouched v w tr) m (\<lambda>x w. untouched v w (tr @ [ev (Inr x)]) \<and> Q x)
      (\<lambda>e w. untouched v w (tr @ [ev (Inl e)]))"
    unfolding untouched_def list_ex_append
    using triple_conj [OF assms(1), of "\<not> list_ex is_removal tr"]
    by (rule triple_conseq) (simp_all add: assms(2))
qed

lemma stage_mark:
  "triple (\<lambda>s. untouched v (ds_world s) (ds_trace s))
    (traced (EvApply (MarkDisposing name a)) (sess_apply session (MarkDisposing name a)))
    (\<lambda>_ s. index_marked holds name v (ds_world s))
    (\<lambda>_ s. index_stage holds name v (ds_world s) (ds_trace s))"
proof (rule triple_traced)
  fix tr
  let ?ch = "MarkDisposing name a"
  let ?v = "v\<lparr>view_members := change_effect ?ch (view_members v)\<rparr>"
  have "others_kept name v ?v" "members_of ?v name = marked (members_of v name)"
    by (rule others_kept_change(2), simp, simp add: change_members del: change_effect.simps)
  then have mark: "index_marked holds name v w" if "holds w ?v" for w
    using that unfolding index_marked_def by (intro exI [of _ ?v] conjI)
  note effect = tripleD [OF apply_effect [OF change_typed_row(2), of name a]]
  show "triple (\<lambda>w. untouched v w tr) (sess_apply session ?ch) (\<lambda>_ w. index_marked holds name v w)
      (\<lambda>e w. index_stage holds name v w (tr @ [EvApply ?ch (Inl e)]))"
  proof (rule tripleI)
    fix s x s' assume s: "untouched v s tr" "sess_apply session ?ch s = (Inr x, s')"
    from effect(1) [OF _ _ s(2), of v] s(1) show "index_marked holds name v s'"
      by (intro mark) (simp add: untouched_def)
  next
    fix s e s' assume s: "untouched v s tr" "sess_apply session ?ch s = (Inl e, s')"
    from effect(2) [OF _ _ s(2), of v] s(1) consider "holds s' v" | "holds s' ?v"
      unfolding untouched_def by fastforce
    then show "index_stage holds name v s' (tr @ [EvApply ?ch (Inl e)])"
    proof cases
      case 1
      with s(1) show ?thesis
        by (intro index_stageI(1)) (simp_all add: untouched_def)
    qed (rule index_stageI(3) [OF mark])
  qed
qed

lemma stage_remove_directory:
  assumes "ports_keep holds root ports" and "\<not> prefix target (lexical_resolve root)"
  shows "triple (\<lambda>s. index_marked holds name v (ds_world s))
    (traced (EvRemoveDirectory target) (port_remove_directory ports target))
    (\<lambda>_ s. index_stage holds name v (ds_world s) (ds_trace s))
    (\<lambda>_ s. index_stage holds name v (ds_world s) (ds_trace s))"
proof (rule triple_traced [where P = "\<lambda>w _. index_marked holds name v w"])
  fix tr
  have keep: "triple (\<lambda>w. holds w v') (port_remove_directory ports target)
      (\<lambda>_ w. holds w v') (\<lambda>_ w. holds w v')" for v'
    using assms by (simp add: ports_keep_def)
  have "triple (\<lambda>w. index_marked holds name v w) (port_remove_directory ports target)
      (\<lambda>_ w. index_marked holds name v w) (\<lambda>_ w. index_marked holds name v w)"
    unfolding index_marked_def by (rule triple_ex, rule triple_conj [OF keep])
  then show "triple (\<lambda>w. index_marked holds name v w) (port_remove_directory ports target)
      (\<lambda>x w. index_stage holds name v w (tr @ [EvRemoveDirectory target (Inr x)]))
      (\<lambda>e w. index_stage holds name v w (tr @ [EvRemoveDirectory target (Inl e)]))"
    by (rule triple_conseq) (assumption | rule index_stageI(3))+
qed

lemma stage_remove_target:
  assumes "ports_keep holds root ports" and "\<not> prefix (plan_target plan) (lexical_resolve root)"
  shows "triple (\<lambda>s. untouched v (ds_world s) (ds_trace s)) (remove_target request session ports plan)
    (\<lambda>_ s. index_gone holds (request_name request) v (ds_world s))
    (\<lambda>_ s. index_stage holds (request_name request) v (ds_world s) (ds_trace s))"
proof -
  let ?name = "request_name request"
  let ?stage = "\<lambda>s. index_stage holds ?name v (ds_world s) (ds_trace s)"
  have push: "triple (\<lambda>s. index_marked holds ?name v (ds_world s)) (push_effect e)
      (\<lambda>_ s. index_marked holds ?name v (ds_world s)) (\<lambda>_. ?stage)"
    for e by (rule triple_push_effect)
  have push': "triple ?stage (push_effect e) (\<lambda>_. ?stage) (\<lambda>_. ?stage)" for e
    by (rule triple_push_effect)
  show ?thesis
    unfolding remove_target_def Let_def
    by (rule triple_step [OF stage_mark], rule triple_bind [OF push],
        rule triple_step [OF stage_remove_directory [OF assms]], rule triple_bind [OF push'], rule stage_detach)
qed

lemma untouched_validate:
  "triple (\<lambda>s. untouched v (ds_world s) (ds_trace s)) (validate request session)
    (\<lambda>plan s. untouched v (ds_world s) (ds_trace s) \<and> plan_of request v = Inr plan \<and>
       lexical_resolve (request_root request) = lexical_resolve (sess_root session))
    (\<lambda>_ s. untouched v (ds_world s) (ds_trace s))"
proof (cases "lexical_resolve (request_root request) = lexical_resolve (sess_root session)")
  case True
  have quiet: "\<not> is_removal (EvReread r)" for r
    by simp
  have rest: "triple (\<lambda>s. untouched v (ds_world s) (ds_trace s) \<and> found = Some v)
      (op_bind (op_result (ok_or (DisposeStore (NoFamily (request_root request))) found))
        (\<lambda>view. op_result (plan_of request view)))
      (\<lambda>plan s. untouched v (ds_world s) (ds_trace s) \<and> plan_of request v = Inr plan \<and>
        lexical_resolve (request_root request) = lexical_resolve (sess_root session))
      (\<lambda>_ s. untouched v (ds_world s) (ds_trace s))" for found
    by (rule tripleI) (auto simp: ok_or_def True)
  have "validate request session =
      op_bind (op_map_err DisposeStore (traced EvReread (sess_reread session))) (\<lambda>found.
      op_bind (op_result (ok_or (DisposeStore (NoFamily (request_root request))) found))
        (\<lambda>view. op_result (plan_of request view)))"
    by (simp add: validate_def True)
  then show ?thesis
    by (simp only: triple_step [OF untouched_keeps [OF reread_holds quiet] rest])
next
  case False
  then show ?thesis
    by (simp add: validate_def triple_def)
qed

lemma untouched_inspect_repositories:
  assumes "ports_keep holds root ports"
  shows "triple (\<lambda>s. untouched v (ds_world s) (ds_trace s))
    (inspect_repositories plan evidence ports unknown findings repositories)
    (\<lambda>_ s. untouched v (ds_world s) (ds_trace s)) (\<lambda>_ s. untouched v (ds_world s) (ds_trace s))"
proof (induction repositories arbitrary: unknown findings)
  case Nil
  show ?case
    by (simp add: triple_def)
next
  case (Cons repository repositories)
  have ask: "triple (\<lambda>s. untouched v (ds_world s) (ds_trace s)) (inspect_history ports repository)
      (\<lambda>_ s. untouched v (ds_world s) (ds_trace s)) (\<lambda>_ s. untouched v (ds_world s) (ds_trace s))"
  proof (rule tripleI)
    fix s x s' assume s: "untouched v (ds_world s) (ds_trace s)" "inspect_history ports repository s = (Inr x, s')"
    have keep: "holds w v" if q: "port_check_history ports q (ds_world s) = (a, w)" for q a w
    proof -
      have "holds (snd (port_check_history ports q (ds_world s))) v"
        using assms s(1) by (simp add: ports_keep_def untouched_def)
      with q show ?thesis
        by simp
    qed
    show "untouched v (ds_world s') (ds_trace s')"
      using s
      by (cases "evidence_history repository")
         (auto simp: inspect_history_def op_bind_eq ask_history_def untouched_def is_removal_def
           split: prod.splits dest: keep)
  next
    fix s e s' assume "inspect_history ports repository s = (Inl e, s')"
    then show "untouched v (ds_world s') (ds_trace s')"
      by (auto simp: inspect_history_def op_bind_eq ask_history_def split: Observation.splits prod.splits)
  qed
  have turn: "triple (\<lambda>s. untouched v (ds_world s) (ds_trace s))
      (op_bind (inspect_history ports repository) (\<lambda>(history_unknown, history_findings).
         inspect_repositories plan evidence ports
           (unknown @ work_unknown @ history_unknown) (findings @ work_findings @ history_findings)
           repositories))
      (\<lambda>_ s. untouched v (ds_world s) (ds_trace s)) (\<lambda>_ s. untouched v (ds_world s) (ds_trace s))"
    for work_unknown work_findings
    by (rule triple_bind [OF ask]) (auto split: prod.split intro: Cons.IH)
  show ?case
    unfolding inspect_repositories.simps Let_def
    by (rule triple_bind [where Q = "\<lambda>_ s. untouched v (ds_world s) (ds_trace s)", OF triple_result])
       (auto split: prod.split intro: turn)
qed

lemma untouched_inspect:
  assumes "ports_keep holds root ports"
  shows "triple (\<lambda>s. untouched v (ds_world s) (ds_trace s)) (inspect plan evidence waivers ports)
    (\<lambda>_ s. untouched v (ds_world s) (ds_trace s)) (\<lambda>_ s. untouched v (ds_world s) (ds_trace s))"
proof -
  have decide: "triple (\<lambda>s. untouched v (ds_world s) (ds_trace s))
      (case x of (unknown, findings) \<Rightarrow> op_result (decide_findings waivers unknown findings))
      (\<lambda>_ s. untouched v (ds_world s) (ds_trace s)) (\<lambda>_ s. untouched v (ds_world s) (ds_trace s))" for x
    by (cases x) (auto intro: triple_result)
  show ?thesis
    unfolding inspect_def
    by (intro triple_if triple_fail triple_bind [OF untouched_inspect_repositories [OF assms] decide])
qed

lemma stage_observed:
  assumes ports: "ports_keep holds root ports" and plan: "\<not> prefix (plan_target plan) (lexical_resolve root)"
  shows "triple (\<lambda>s. untouched v (ds_world s) (ds_trace s))
    (dispose_observed request session ports plan waivers evidence)
    (\<lambda>_ s. index_gone holds (request_name request) v (ds_world s))
    (\<lambda>_ s. index_stage holds (request_name request) v (ds_world s) (ds_trace s))"
proof -
  let ?name = "request_name request"
  let ?start = "\<lambda>s. untouched v (ds_world s) (ds_trace s)"
  let ?gone = "\<lambda>s. index_gone holds ?name v (ds_world s)"
  let ?stage = "\<lambda>s. index_stage holds ?name v (ds_world s) (ds_trace s)"
  have fails: "triple ?start (op_fail e) (\<lambda>_. ?gone) (\<lambda>_. ?stage)" for e
    by (rule triple_fail) (rule untouched_stage)
  have returns: "triple ?gone (op_return x) (\<lambda>_. ?gone) (\<lambda>_. ?stage)" for x
    by (rule triple_return)
  have ready: "triple ?start (op_bind (inspect plan evidence waivers ports) (\<lambda>waived.
      op_bind (remove_target request session ports plan) (\<lambda>_. op_return waived))) (\<lambda>_. ?gone) (\<lambda>_. ?stage)"
    by (rule triple_bind [OF triple_conseq [OF untouched_inspect [OF ports]]
        triple_bind [OF stage_remove_target [OF ports plan] returns]]) (assumption | rule untouched_stage)+
  have stale: "triple ?start (op_bind (detach request session Stale) (\<lambda>_. op_return [])) (\<lambda>_. ?gone) (\<lambda>_. ?stage)"
    by (rule triple_bind [OF triple_pre [OF stage_detach] returns]) (rule untouched_stage)
  show ?thesis
    unfolding dispose_observed_def
    by (rule triple_if [OF fails]; cases "classify_target (plan_row plan) (Some (evidence_target evidence))")
       (simp_all add: ready stale fails)
qed

lemma stage_run:
  assumes ports: "ports_keep holds (sess_root session) ports"
  shows "triple (\<lambda>s. untouched v (ds_world s) (ds_trace s)) (dispose_run request session ports)
    (\<lambda>_ s. index_gone holds (request_name request) v (ds_world s))
    (\<lambda>_ s. index_stage holds (request_name request) v (ds_world s) (ds_trace s))"
proof -
  let ?name = "request_name request"
  let ?start = "\<lambda>s. untouched v (ds_world s) (ds_trace s)"
  let ?planned = "\<lambda>plan s. ?start s \<and> plan_of request v = Inr plan \<and>
    lexical_resolve (request_root request) = lexical_resolve (sess_root session)"
  let ?gone = "\<lambda>s. index_gone holds ?name v (ds_world s)"
  let ?stage = "\<lambda>s. index_stage holds ?name v (ds_world s) (ds_trace s)"
  have valid: "triple ?start (validate request session) ?planned (\<lambda>_. ?stage)"
    by (rule triple_conseq [OF untouched_validate]) (assumption | rule untouched_stage)+
  have returns: "triple ?gone (op_return x) (\<lambda>_. ?gone) (\<lambda>_. ?stage)" for x
    by (rule triple_return)
  have keep: "triple (?planned plan) (op_bind (detach request session Keep) (\<lambda>_. op_return [])) (\<lambda>_. ?gone) (\<lambda>_. ?stage)"
    for plan
    by (rule triple_bind [OF triple_pre [OF stage_detach] returns]) (erule conjE, rule untouched_stage)
  have quiet: "\<not> is_removal (EvObserve t r)" for t r
    by simp
  have seen: "triple ?start (op_map_err DisposePort (traced (EvObserve (plan_target plan))
      (port_observe_target ports (plan_target plan)))) (\<lambda>_. ?start) (\<lambda>_. ?stage)" for plan
  proof (rule triple_map_err, rule triple_conseq)
    show "triple ?start (traced (EvObserve (plan_target plan)) (port_observe_target ports (plan_target plan)))
        (\<lambda>x s. ?start s \<and> True) (\<lambda>_. ?start)"
      by (rule untouched_keeps [OF _ quiet]) (use ports in \<open>simp add: ports_keep_def\<close>)
  qed (simp_all add: untouched_stage)
  have delete: "triple (?planned plan) (op_bind (op_map_err DisposePort (traced (EvObserve (plan_target plan))
      (port_observe_target ports (plan_target plan)))) (\<lambda>evidence.
        dispose_observed request session ports plan waivers evidence)) (\<lambda>_. ?gone) (\<lambda>_. ?stage)" for plan waivers
  proof (cases "plan_of request v = Inr plan \<and>
      lexical_resolve (request_root request) = lexical_resolve (sess_root session)")
    case True
    then have "\<not> prefix (plan_target plan) (lexical_resolve (sess_root session))"
      using plan_of_target by metis
    from triple_bind [OF seen stage_observed [OF ports this]] show ?thesis
      by (rule triple_pre) simp
  next
    case False
    then show ?thesis
      unfolding triple_def by blast
  qed
  have fails: "triple ?start (op_fail e) (\<lambda>_. ?gone) (\<lambda>_. ?stage)" for e
    by (rule triple_fail) (rule untouched_stage)
  show ?thesis
  proof (cases "request_policy request")
    case KeepFiles
    with triple_bind [OF valid keep] show ?thesis
      by (simp add: dispose_run_def)
  next
    case (Delete waivers)
    then show ?thesis
      unfolding dispose_run_def
      by (simp only: DisposePolicy.case) (rule triple_if [OF fails triple_bind [OF valid delete]])
  qed
qed

lemma stage_dispose:
  assumes ports: "ports_keep holds (sess_root session) ports" and start: "holds world v"
    and run: "dispose request session ports world = (r, s)"
  shows "index_stage holds (request_name request) v (ds_world s) (ds_trace s) \<and>
    (\<forall>report. r = Inr report \<longrightarrow> index_gone holds (request_name request) v (ds_world s))"
proof -
  define s0 where "s0 = \<lparr>ds_world = world, ds_effects = [], ds_trace = []\<rparr>"
  have s0: "untouched v (ds_world s0) (ds_trace s0)"
    using start by (simp add: untouched_def s0_def)
  obtain r1 s1 where r1: "dispose_run request session ports s0 = (r1, s1)"
    by (cases "dispose_run request session ports s0")
  have s: "s = s1" "\<forall>e. r1 = Inl e \<longrightarrow> (\<exists>f. r = Inl f)"
    using run r1 by (auto simp: dispose_def s0_def split: sum.splits)
  note stage = tripleD [OF stage_run [OF ports, of v request] s0]
  show ?thesis
  proof (cases r1)
    case (Inl e)
    with stage(2) [of e s1] r1 s show ?thesis
      by auto
  next
    case (Inr x)
    with stage(1) [of x s1] r1 s index_stageI(2) show ?thesis
      by auto
  qed
qed

end

subsection \<open>Properties\<close>

text \<open>
  C6. What a disposal leaves in the store. Over the family store's own session, on a host that may
  fail any system call, and with ports that leave the index alone (removing a directory, when it does
  not contain the family's root), every disposal ends with a valid stored index that differs from the
  one before at most in the disposed member's row. That row is gone, or it is marked disposing, or it
  is as before and then no directory was removed: after an interrupted removal no index lists the
  member as ready. A reported success means the row is gone.
\<close>

theorem disposal_keeps_the_index_honest:
  assumes "codec_ok c" "host_wf h" "stored_index c (session_root session) h = Inr (Some v)"
    and "ports_keep (store_holds c (session_root session)) (session_root session) ports"
    and "dispose request (store_session c session) ports h = (r, s)"
  shows "\<exists>v'. stored_index c (session_root session) (ds_world s) = Inr (Some v') \<and>
    others_kept (request_name request) v v' \<and>
    (members_of v' (request_name request) = None \<or>
     members_of v' (request_name request) = marked (members_of v (request_name request)) \<or>
     (members_of v' (request_name request) = members_of v (request_name request) \<and>
      \<not> list_ex is_removal (ds_trace s))) \<and>
    (\<forall>report. r = Inr report \<longrightarrow> members_of v' (request_name request) = None)"
proof -
  let ?holds = "store_holds c (session_root session)"
  let ?name = "request_name request"
  have ports: "ports_keep ?holds (sess_root (store_session c session)) ports"
    using assms(4) by (simp add: store_session_def)
  have "?holds h v"
    using assms(1-3) by (simp add: store_holds_def)
  from store.stage_dispose [OF ports this assms(5)]
  have stage: "index_stage ?holds ?name v (ds_world s) (ds_trace s)"
    "\<And>report. r = Inr report \<Longrightarrow> index_gone ?holds ?name v (ds_world s)"
    by simp_all
  have same: "v1 = v2" if "?holds w v1" "?holds w v2" for w v1 v2
    using that by (simp add: store_holds_def)
  from stage(1) obtain v' where v': "?holds (ds_world s) v'" "others_kept ?name v v'"
    "members_of v' ?name = None \<or> members_of v' ?name = marked (members_of v ?name) \<or>
     (members_of v' ?name = members_of v ?name \<and> \<not> list_ex is_removal (ds_trace s))"
    unfolding index_stage_def by (elim exE conjE)
  have "members_of v' ?name = None" if "r = Inr report" for report
    using stage(2) [OF that] same [OF v'(1)] unfolding index_gone_def by blast
  with v' show ?thesis
    by (intro exI [of _ v']) (simp add: store_holds_def)
qed

definition idle_ports :: "'s DisposalPorts" where
  "idle_ports =
     \<lparr>port_observe_target = (\<lambda>_. op_fail (PortUnimplemented (lit ''observe''))),
      port_check_history = (\<lambda>_ w. (HistoryPreserved, w)),
      port_remove_directory = (\<lambda>_. op_return ())\<rparr>"

theorem disposal_keeps_the_index_honest_witness:
  "\<exists>r s v'. dispose \<lparr>request_name = MemberName (lit ''a''), request_policy = KeepFiles,
       request_root = sample_root, request_cwd = sample_root\<rparr>
       (store_session value_codec \<lparr>session_root = sample_root, session_lock = []\<rparr>) idle_ports (sample_store (Some 5)) = (r, s) \<and>
     stored_index value_codec sample_root (ds_world s) = Inr (Some v')"
proof -
  let ?q = "\<lparr>request_name = MemberName (lit ''a''), request_policy = KeepFiles,
       request_root = sample_root, request_cwd = sample_root\<rparr>"
  let ?session = "\<lparr>session_root = sample_root, session_lock = []\<rparr>"
  obtain r s where run: "dispose ?q (store_session value_codec ?session) idle_ports (sample_store (Some 5)) = (r, s)"
    by (cases "dispose ?q (store_session value_codec ?session) idle_ports (sample_store (Some 5))")
  have "ports_keep (store_holds value_codec (session_root ?session)) (session_root ?session) idle_ports"
    by (simp add: ports_keep_def idle_ports_def triple_def)
  from disposal_keeps_the_index_honest [OF value_codec_ok sample_store_metadata(1) _ this run] run
  show ?thesis
    by (auto simp: sample_store_index)
qed

end
