(* ===== verification/Disposal_Requests.thy ===== *)
theory Disposal_Requests
  imports Disposal
begin

text \<open>
  The request vocabulary and the refusal report of \<open>crates/local-disposal/src\<close> (\<open>hazard.rs\<close>,
  \<open>policy.rs\<close>): which command lines parse, what the categories of a report hold, and which waivers a
  refused run asks for.
\<close>

lemma waiver_str_inj: "waiver_str v = waiver_str w \<longleftrightarrow> v = w"
  by (cases v; cases w) (simp_all add: lit_def)

lemma parse_waiver_Some: "parse_waiver name = Some w \<longleftrightarrow> name = waiver_str w"
proof
  show "parse_waiver name = Some w \<Longrightarrow> name = waiver_str w"
    by (auto simp: parse_waiver_def find_Some_iff)
  show "name = waiver_str w \<Longrightarrow> parse_waiver name = Some w"
    by (cases w) (simp_all only: parse_waiver_def waivers_all_def find.simps waiver_str_inj, simp_all)
qed

lemma parse_all_from_Inr:
  assumes "distinct ws"
  shows "parse_all_from ws names = Inr vs \<longleftrightarrow>
    (\<exists>us. vs = ws @ us \<and> names = map waiver_str us \<and> distinct vs)"
  using assms
proof (induction names arbitrary: ws)
  case Nil
  then show ?case
    by auto
next
  case (Cons name names)
  show ?case
  proof (cases "parse_waiver name")
    case None
    then have "name \<noteq> waiver_str w" for w
      using parse_waiver_Some [of name w] by simp
    then show ?thesis
      using None by (auto simp: Cons_eq_map_conv)
  next
    case (Some w)
    have name: "name = waiver_str u \<longleftrightarrow> u = w" for u
      using Some parse_waiver_Some [of name u] by auto
    show ?thesis
    proof (cases "w \<in> set ws")
      case True
      then show ?thesis
        using Some name by (auto simp: Cons_eq_map_conv)
    next
      case False
      then have "distinct (ws @ [w])"
        using Cons.prems by simp
      from Cons.IH [OF this] show ?thesis
        using Some False name by (auto simp: Cons_eq_map_conv)
    qed
  qed
qed

lemma parse_all_waivers_Inr: "parse_all_waivers names = Inr ws \<longleftrightarrow> names = map waiver_str ws \<and> distinct ws"
  by (auto simp: parse_all_waivers_def parse_all_from_Inr)

text \<open>The items a finding contributes to a category.\<close>

definition finding_items :: "HazardCategory \<Rightarrow> HazardFinding \<Rightarrow> CategoryItem list" where
  "finding_items category f =
     (case finding_detail f of
        Some detail \<Rightarrow> if category = CatUnique
          then [\<lparr>item_repository = finding_repository f, item_path = None, item_detail = detail\<rparr>] else []
      | None \<Rightarrow> []) @
     map (hazard_item f) (filter (\<lambda>h. category_of (hazard_provenance h) = category) (finding_hazards f))"

definition category_table :: "(HazardCategory \<Rightarrow> CategoryItem list) \<Rightarrow> CategoryReport list" where
  "category_table items = map (\<lambda>category. \<lparr>report_category = category, report_items = items category\<rparr>) categories_all"

lemma push_item_table:
  "push_item category item (category_table items) = category_table (items(category := items category @ [item]))"
  by (cases category) (simp_all add: category_table_def categories_all_def)

lemma push_hazards_table:
  "fold (\<lambda>h. push_item (category_of (hazard_provenance h)) (hazard_item f h)) hs (category_table items) =
   category_table (\<lambda>category. items category @
     map (hazard_item f) (filter (\<lambda>h. category_of (hazard_provenance h) = category) hs))"
proof (induction hs arbitrary: items)
  case (Cons h hs)
  have "(\<lambda>category. (items(category_of (hazard_provenance h) :=
        items (category_of (hazard_provenance h)) @ [hazard_item f h])) category @
      map (hazard_item f) (filter (\<lambda>h. category_of (hazard_provenance h) = category) hs)) =
    (\<lambda>category. items category @
      map (hazard_item f) (filter (\<lambda>h. category_of (hazard_provenance h) = category) (h # hs)))"
    by auto
  with Cons.IH show ?case
    by (simp only: fold_simps push_item_table o_apply)
qed simp

lemma push_finding_table:
  "push_finding f (category_table items) = category_table (\<lambda>category. items category @ finding_items category f)"
proof (cases "finding_detail f")
  case None
  then show ?thesis
    by (simp add: push_finding_def push_hazards_table finding_items_def)
next
  case (Some detail)
  let ?item = "\<lparr>item_repository = finding_repository f, item_path = None, item_detail = detail\<rparr>"
  have "(\<lambda>category. (items(CatUnique := items CatUnique @ [?item])) category @
      map (hazard_item f) (filter (\<lambda>h. category_of (hazard_provenance h) = category) (finding_hazards f))) =
    (\<lambda>category. items category @ finding_items category f)"
    using Some by (auto simp: finding_items_def)
  with Some show ?thesis
    by (simp only: push_finding_def push_hazards_table push_item_table Let_def option.case)
qed

lemma categorise_table:
  "categorise findings = category_table (\<lambda>category. concat (map (finding_items category) findings))"
proof -
  have "fold push_finding fs (category_table items) =
      category_table (\<lambda>category. items category @ concat (map (finding_items category) fs))" for fs items
    by (induction fs arbitrary: items) (simp_all add: push_finding_table)
  from this [of findings "\<lambda>_. []"] show ?thesis
    by (simp add: categorise_def category_table_def)
qed

subsection \<open>Properties\<close>

text \<open>
  C40. The force flag parses exactly the known hazard names, each once: a policy is read from the
  command line if and only if it is what its own names spell, keeping takes no name, and a deletion's
  waivers are distinct, so that the repetition check of the run never fires on a parsed policy.
\<close>

theorem parse_policy_spells_the_policy:
  "parse_policy keep names = Inr policy \<longleftrightarrow>
    (case policy of
       KeepFiles \<Rightarrow> keep \<and> names = []
     | Delete waivers \<Rightarrow> \<not> keep \<and> names = map waiver_str waivers \<and> distinct waivers)"
  by (cases policy) (auto simp: parse_policy_def and_then_eq_Inr parse_all_waivers_Inr split: if_splits)

text \<open>
  The categories of a refusal report: always the four of them, in their order, each holding
  exactly the items of its provenance over all findings, in the order of the findings (a finding's
  own detail first, as unique). A category that refuses has an item exactly when some finding refuses.
\<close>

theorem categorise_reports_every_item:
  "map report_category (categorise findings) = categories_all \<and>
   map report_items (categorise findings) =
     map (\<lambda>category. concat (map (finding_items category) findings)) categories_all \<and>
   (list_ex (\<lambda>r. category_refuses (report_category r) \<and> 0 < category_count r) (categorise findings) \<longleftrightarrow>
    list_ex finding_refuses findings)"
proof (intro conjI)
  show "map report_category (categorise findings) = categories_all"
    "map report_items (categorise findings) =
     map (\<lambda>category. concat (map (finding_items category) findings)) categories_all"
    by (simp_all add: categorise_table category_table_def o_def)
  have one: "finding_refuses f \<longleftrightarrow> finding_items CatUnique f \<noteq> [] \<or> finding_items CatChangedCopy f \<noteq> []" for f
  proof -
    have "refuses p \<longleftrightarrow> category_of p = CatUnique \<or> category_of p = CatChangedCopy" for p
      by (cases p) simp_all
    then show ?thesis
      by (auto simp: finding_refuses_def finding_items_def list_ex_iff filter_empty_conv split: option.splits)
  qed
  show "list_ex (\<lambda>r. category_refuses (report_category r) \<and> 0 < category_count r) (categorise findings) \<longleftrightarrow>
    list_ex finding_refuses findings"
    by (auto simp: categorise_table category_table_def categories_all_def category_count_def list_ex_iff one)
qed

text \<open>
  C39. The waivers a refusal asks for are exactly those that decide it: with no open reason, a run
  passes the findings if and only if it names every waiver the report requires.
\<close>

theorem required_waivers_decide:
  "(\<exists>waived. decide_findings waivers [] findings = Inr waived) \<longleftrightarrow>
   set (required_waivers findings) \<subseteq> set waivers"
proof -
  have "w \<in> set waivers_all" for w
    by (cases w) (simp_all add: waivers_all_def)
  then show ?thesis
    by (auto simp: decide_findings_def required_waivers_def list_ex_iff Let_def)
qed

end
