(* ===== verification/Install.thy ===== *)
theory Install
  imports Session_Port Repo_Contract
begin

text \<open>
  Installation of a local clone destination: the values of the tree-copy contract
  (\<open>crates/copy-contract/src/lib.rs\<close>) and the service of \<open>crates/workspace-install/src\<close>: requests
  (\<open>request.rs\<close>, \<open>destination.rs\<close>), the ports (\<open>ports.rs\<close>), admission and completion (\<open>admit.rs\<close>),
  refusals (\<open>refusal.rs\<close>), progress (\<open>report.rs\<close>) and the ordered sequence (\<open>install.rs\<close>).

  Session, copier, cancellation and ports act on one world and are arguments, as in the code. A run
  threads the world, the progress the code keeps, and a trace of the calls with their answers; the
  trace is not part of the code, it only records what was called when.
\<close>

subsection \<open>The tree-copy contract\<close>

datatype CopyMode = CopyAuto | OrdinaryOnly

datatype Exclusion = RelativePath hpath

fun exclusion_matches :: "Exclusion \<Rightarrow> hpath \<Rightarrow> bool" where
  "exclusion_matches (RelativePath excluded) relative = prefix excluded relative"

record CopyRequest =
  copy_source :: hpath
  copy_destination :: hpath
  copy_exclusions :: "Exclusion list"
  copy_mode :: CopyMode

definition is_excluded :: "CopyRequest \<Rightarrow> hpath \<Rightarrow> bool" where
  "is_excluded request relative = list_ex (\<lambda>e. exclusion_matches e relative) (copy_exclusions request)"

datatype CopyWarningKind = NativeUnsupportedFellBack | NativeUnavailable | AncillaryMetadataUnsupported

record CopyWarning =
  warning_path :: hpath
  warning_kind :: CopyWarningKind
  warning_detail :: ustr

record CopyReport =
  native_files :: "64 word"
  ordinary_files :: "64 word"
  copied_directories :: "64 word"
  copied_symlinks :: "64 word"
  logical_bytes :: "64 word"
  copy_warnings :: "CopyWarning list"

definition default_copy_report :: CopyReport where
  "default_copy_report =
     \<lparr>native_files = 0, ordinary_files = 0, copied_directories = 0, copied_symlinks = 0,
      logical_bytes = 0, copy_warnings = []\<rparr>"

text \<open>The sum wraps, as the release build's does.\<close>

definition copy_files :: "CopyReport \<Rightarrow> 64 word" where
  "copy_files report = native_files report + ordinary_files report"

datatype CopyErrorCategory =
    CopyCancelled
  | SourceMissing
  | SourceUnreadable
  | CopyDestinationNotEmpty
  | DestinationUnwritable
  | UnsupportedEntry
  | ShortWrite
  | MetadataFailed
  | CopyIo
  | CopyUnimplemented

fun debug_copy_category :: "CopyErrorCategory \<Rightarrow> ustr" where
  "debug_copy_category CopyCancelled = lit ''Cancelled''"
| "debug_copy_category SourceMissing = lit ''SourceMissing''"
| "debug_copy_category SourceUnreadable = lit ''SourceUnreadable''"
| "debug_copy_category CopyDestinationNotEmpty = lit ''DestinationNotEmpty''"
| "debug_copy_category DestinationUnwritable = lit ''DestinationUnwritable''"
| "debug_copy_category UnsupportedEntry = lit ''UnsupportedEntry''"
| "debug_copy_category ShortWrite = lit ''ShortWrite''"
| "debug_copy_category MetadataFailed = lit ''MetadataFailed''"
| "debug_copy_category CopyIo = lit ''Io''"
| "debug_copy_category CopyUnimplemented = lit ''Unimplemented''"

record CopyError =
  failed_path :: hpath
  copy_category :: CopyErrorCategory
  copy_detail :: ustr
  copy_partial :: CopyReport

definition refused_with :: "hpath \<Rightarrow> CopyErrorCategory \<Rightarrow> ustr \<Rightarrow> CopyReport \<Rightarrow> CopyError" where
  "refused_with path category detail partial =
     \<lparr>failed_path = path, copy_category = category, copy_detail = detail, copy_partial = partial\<rparr>"

definition copy_refused :: "hpath \<Rightarrow> CopyErrorCategory \<Rightarrow> ustr \<Rightarrow> CopyError" where
  "copy_refused path category detail = refused_with path category detail default_copy_report"

definition show_copy_error :: "CopyError \<Rightarrow> ustr" where
  "show_copy_error e =
     lit ''copy failed at '' @ path_display (failed_path e) @ lit '': '' @
     debug_copy_category (copy_category e) @ lit '': '' @ copy_detail e"

subsection \<open>Requests\<close>

record InstallRequest =
  install_name :: MemberName
  install_root :: hpath
  install_source :: hpath
  install_destination :: hpath
  install_path :: MemberPath
  install_source_path :: "MemberPath option"
  install_allocation :: AllocationId
  install_mode :: CloneMode
  install_branch :: "ustr option"
  install_exclusions :: "Exclusion list"
  install_copy_mode :: CopyMode
  install_owner :: "OwnerToken option"

definition request_row :: "InstallRequest \<Rightarrow> MemberRow" where
  "request_row request =
     \<lparr>row_path = path_str (install_path request),
      row_kind = (case install_mode request of ModeBare \<Rightarrow> Bare | Verbatim \<Rightarrow> Checkout | Clean \<Rightarrow> Checkout),
      row_state = Creating,
      row_allocation_id = install_allocation request,
      row_source_path = (case install_source_path request of None \<Rightarrow> ROOT_PATH | Some path \<Rightarrow> path_str path),
      row_mode = install_mode request,
      row_last_error = None,
      row_owner = install_owner request\<rparr>"

definition copies_the_tree :: "InstallRequest \<Rightarrow> bool" where
  "copies_the_tree request \<longleftrightarrow> install_mode request = Verbatim"

record CapturedRepository =
  captured_key :: RepoKey
  captured_info :: RepositoryInfo
  captured_head :: "ObjectId option"
  captured_branches :: "ustr list"
  captured_remotes :: "ustr list"

record SourceSnapshot =
  snapshot_repositories :: "CapturedRepository list"
  configuration_digest :: ustr
  open_gwz_merge :: "ustr option"

definition captured :: "SourceSnapshot \<Rightarrow> RepoKey \<Rightarrow> bool" where
  "captured snapshot key = list_ex (\<lambda>repo. captured_key repo = key) (snapshot_repositories snapshot)"

record DestinationObservation =
  dest_exists :: bool
  dest_nonempty :: bool
  dest_is_workspace :: bool
  dest_family_index :: bool
  dest_pointer :: PointerObservation
  dest_merge_store :: bool
  dest_residual :: "hpath list"
  dest_dependencies :: "ustr list"

definition absent_destination :: DestinationObservation where
  "absent_destination =
     \<lparr>dest_exists = False, dest_nonempty = False, dest_is_workspace = False, dest_family_index = False,
      dest_pointer = PointerAbsent, dest_merge_store = False, dest_residual = [], dest_dependencies = []\<rparr>"

definition complete_destination :: DestinationObservation where
  "complete_destination = absent_destination
     \<lparr>dest_exists := True, dest_nonempty := True, dest_is_workspace := True, dest_pointer := PointerMatches\<rparr>"

record ConstructionRequest =
  construct_mode :: CloneMode
  construct_branch :: "ustr option"
  construct_snapshot :: SourceSnapshot
  construct_destination :: hpath

subsection \<open>Ports\<close>

record ConfigurationPlan =
  plan_destination :: hpath
  plan_mode :: CloneMode
  plan_branch :: "ustr option"
  plan_snapshot :: SourceSnapshot

record ConfigurationReport =
  lock_recaptured :: bool
  generated_changes :: "hpath list"

record CopyRecordReceipt =
  receipt_repositories :: "64 word"
  receipt_roots :: "64 word"
  receipt_entries :: "64 word"

record ManifestReceipt =
  marker_regenerated :: bool

record GitInstallReport =
  removed_remotes :: "ustr list"

datatype InstallPortError =
    PortLayout LayoutError
  | PortDrift ustr
  | PortConstruction ustr
  | PortConfiguration ustr
  | PortDestination hpath ustr
  | InstallPortUnimplemented ustr

text \<open>
  The text of an unsupported layout prints its hazards with the derived debug form of paths, which
  escapes them; that rendering is an argument.
\<close>

fun show_layout_error :: "(LayoutHazard list \<Rightarrow> ustr) \<Rightarrow> LayoutError \<Rightarrow> ustr" where
  "show_layout_error debug_hazards (NotARepository path) = path_display path @ lit '' is not a repository''"
| "show_layout_error debug_hazards (UnsupportedLayoutOf path hazards) =
     path_display path @ lit '' has an unsupported layout: '' @ debug_hazards hazards"
| "show_layout_error debug_hazards (LayoutReadFailed path detail) = path_display path @ lit '': '' @ detail"
| "show_layout_error debug_hazards (LayoutUnimplemented operation) = operation @ lit '' is not implemented''"

fun show_install_port_error :: "(LayoutHazard list \<Rightarrow> ustr) \<Rightarrow> InstallPortError \<Rightarrow> ustr" where
  "show_install_port_error dbg (PortLayout error) = show_layout_error dbg error"
| "show_install_port_error dbg (PortDrift detail) = lit ''source drift: '' @ detail"
| "show_install_port_error dbg (PortConstruction detail) = lit ''construction: '' @ detail"
| "show_install_port_error dbg (PortConfiguration detail) = lit ''configuration: '' @ detail"
| "show_install_port_error dbg (PortDestination path detail) = path_display path @ lit '': '' @ detail"
| "show_install_port_error dbg (InstallPortUnimplemented operation) = operation @ lit '' is not implemented''"

record 's InstallPorts =
  snapshot_source :: "hpath \<Rightarrow> ('s, InstallPortError, SourceSnapshot) op"
  observe_destination :: "hpath \<Rightarrow> ('s, InstallPortError, DestinationObservation) op"
  allocate_destination :: "hpath \<Rightarrow> ('s, InstallPortError, unit) op"
  construct_repositories :: "ConstructionRequest \<Rightarrow> ('s, InstallPortError, unit) op"
  install_destination_git :: "hpath \<Rightarrow> ('s, InstallPortError, GitInstallReport) op"
  record_copy :: "hpath \<Rightarrow> ('s, InstallPortError, CopyRecordReceipt) op"
  recheck_source :: "SourceSnapshot \<Rightarrow> ('s, InstallPortError, unit) op"
  recapture_configuration :: "ConfigurationPlan \<Rightarrow> ('s, InstallPortError, ConfigurationReport) op"
  publish_manifest :: "ConfigurationPlan \<Rightarrow> ('s, InstallPortError, ManifestReceipt) op"

text \<open>The copier, and the cancellation flag, which any poll may find set.\<close>

type_synonym 's cancellation = "'s \<Rightarrow> bool \<times> 's"
type_synonym 's tree_copier = "CopyRequest \<Rightarrow> 's cancellation \<Rightarrow> ('s, CopyError, CopyReport) op"

definition never_cancelled :: "'s cancellation" where
  "never_cancelled w = (False, w)"

subsection \<open>Refusals, faults and errors\<close>

datatype InstallRefusal =
    RefusedByFamily Refusal
  | SourceLayout LayoutError
  | NameIsRemote RemoteNameCollision
  | DestinationNotEmpty hpath
  | DestinationIsWorkspace hpath
  | SourceOpenMerge ustr
  | RootNotCaptured
  | BranchExists ustr RepoKey
  | BranchNotSupported ustr CloneMode

definition show_remote_collision :: "RemoteNameCollision \<Rightarrow> ustr" where
  "show_remote_collision c =
     lit ''`'' @ collision_name c @ lit ''` is already a git remote in '' @ collision_member c"

fun show_install_refusal :: "(LayoutHazard list \<Rightarrow> ustr) \<Rightarrow> InstallRefusal \<Rightarrow> ustr" where
  "show_install_refusal dbg (RefusedByFamily refusal) = show_refusal refusal"
| "show_install_refusal dbg (SourceLayout error) = show_layout_error dbg error"
| "show_install_refusal dbg (NameIsRemote collision) = show_remote_collision collision"
| "show_install_refusal dbg (DestinationNotEmpty destination) =
     path_display destination @ lit '' is not empty''"
| "show_install_refusal dbg (DestinationIsWorkspace destination) =
     path_display destination @ lit '' is already a workspace''"
| "show_install_refusal dbg (SourceOpenMerge detail) =
     lit ''source has an open gwz merge ('' @ detail @ lit ''); abort it or use --clean''"
| "show_install_refusal dbg RootNotCaptured =
     lit ''the captured freeze vector does not include the root repository''"
| "show_install_refusal dbg (BranchExists branch member) =
     lit ''branch `'' @ branch @ lit ''` already exists in '' @ show_repo_key member"
| "show_install_refusal dbg (BranchNotSupported branch mode) =
     lit ''`-b '' @ branch @ lit ''` is not supported by --'' @ mode_str mode @ lit '' clones''"

datatype CompletionFault =
    FamilyIndexPresent
  | ConflictingDestination
  | PointerMissing
  | PointerInvalid PointerObservation
  | MergeStorePresent
  | ResidualPath hpath
  | NotIndependent ustr
  | LockNotRecaptured
  | MarkerNotRegenerated

fun show_completion_fault :: "CompletionFault \<Rightarrow> ustr" where
  "show_completion_fault FamilyIndexPresent = lit ''the destination holds a family index''"
| "show_completion_fault ConflictingDestination =
     lit ''the destination holds both a family index and a family pointer''"
| "show_completion_fault PointerMissing = lit ''the destination has no family pointer''"
| "show_completion_fault (PointerInvalid observed) =
     lit ''the destination'' @ [39] @ lit ''s family pointer is '' @ debug_pointer observed"
| "show_completion_fault MergeStorePresent = lit ''the destination has a `.gwz/merge/` store''"
| "show_completion_fault (ResidualPath path) = path_display path @ lit '' must be absent at ready''"
| "show_completion_fault (NotIndependent detail) = lit ''not independent: '' @ detail"
| "show_completion_fault LockNotRecaptured =
     lit ''the destination lock was not recaptured to the destination HEAD''"
| "show_completion_fault MarkerNotRegenerated =
     lit ''the conf-integrity marker was not regenerated for the final manifest and lock bytes''"

datatype InstallError =
    InstallRefused "InstallRefusal list"
  | InstallSource InstallPortError
  | InstallCopy CopyError
  | InstallStore StoreError
  | InstallPort InstallPortError
  | Incomplete "CompletionFault list"
  | InstallCancelled

fun show_install_error :: "(LayoutHazard list \<Rightarrow> ustr) \<Rightarrow> InstallError \<Rightarrow> ustr" where
  "show_install_error dbg (InstallRefused refusals) =
     lit ''refused: '' @ str_join (lit ''; '') (map (show_install_refusal dbg) refusals)"
| "show_install_error dbg (InstallSource error) = show_install_port_error dbg error"
| "show_install_error dbg (InstallPort error) = show_install_port_error dbg error"
| "show_install_error dbg (InstallCopy error) = show_copy_error error"
| "show_install_error dbg (InstallStore error) = show_store_error error"
| "show_install_error dbg (Incomplete faults) =
     lit ''destination is incomplete: '' @ str_join (lit ''; '') (map show_completion_fault faults)"
| "show_install_error dbg InstallCancelled = lit ''install cancelled''"

subsection \<open>Steps, effects and progress\<close>

datatype InstallStep =
    InventorySource
  | ObserveDestination
  | Reserve
  | AllocateDestination
  | CopyTree
  | ConstructRepositories
  | InstallDestinationGit
  | RecordCopy
  | InstallPointer
  | CheckDestination
  | RecheckSource
  | RecaptureConfiguration
  | PublishManifest
  | MarkReadyStep

fun step_str :: "InstallStep \<Rightarrow> ustr" where
  "step_str InventorySource = lit ''inventory source''"
| "step_str ObserveDestination = lit ''observe destination''"
| "step_str Reserve = lit ''reserve''"
| "step_str AllocateDestination = lit ''allocate destination''"
| "step_str CopyTree = lit ''copy tree''"
| "step_str ConstructRepositories = lit ''construct repositories''"
| "step_str InstallDestinationGit = lit ''install destination git configuration''"
| "step_str RecordCopy = lit ''record what was copied''"
| "step_str InstallPointer = lit ''install pointer''"
| "step_str CheckDestination = lit ''check destination''"
| "step_str RecheckSource = lit ''recheck source''"
| "step_str RecaptureConfiguration = lit ''recapture configuration''"
| "step_str PublishManifest = lit ''publish manifest''"
| "step_str MarkReadyStep = lit ''mark ready''"

datatype InstallEffect =
    DidRowAllocated
  | DidDestinationAllocated
  | DidTreeCopied
  | DidRepositoriesConstructed
  | DidDestinationGitInstalled
  | DidCopyRecorded
  | DidPointerInstalled
  | DidConfigurationInstalled
  | DidManifestPublished
  | DidErrorRecorded
  | DidRowReady

record InstallReport =
  install_copy :: "CopyReport option"
  install_git :: "GitInstallReport option"
  install_record :: "CopyRecordReceipt option"
  install_configuration :: "ConfigurationReport option"
  install_effects :: "InstallEffect list"

record InstallFailure =
  failed_step :: InstallStep
  failed_error :: InstallError
  failed_effects :: "InstallEffect list"

definition show_install_failure :: "(LayoutHazard list \<Rightarrow> ustr) \<Rightarrow> InstallFailure \<Rightarrow> ustr" where
  "show_install_failure dbg failure =
     step_str (failed_step failure) @ lit '' failed: '' @ show_install_error dbg (failed_error failure)"

record Progress =
  progress_effects :: "InstallEffect list"
  progress_copy :: "CopyReport option"
  progress_git :: "GitInstallReport option"
  progress_record :: "CopyRecordReceipt option"
  progress_configuration :: "ConfigurationReport option"

definition default_progress :: Progress where
  "default_progress =
     \<lparr>progress_effects = [], progress_copy = None, progress_git = None, progress_record = None,
      progress_configuration = None\<rparr>"

text \<open>The calls of a run, with their answers, in order.\<close>

datatype InstallEvent =
    CallSnapshot hpath "InstallPortError + SourceSnapshot"
  | CallObserve hpath "InstallPortError + DestinationObservation"
  | CallReread "StoreError + FamilyView option"
  | CallPoll bool
  | CallApply FamilyChange "StoreError + AppliedChange"
  | CallAllocate hpath "InstallPortError + unit"
  | CallCopy CopyRequest "CopyError + CopyReport"
  | CallConstruct ConstructionRequest "InstallPortError + unit"
  | CallGit hpath "InstallPortError + GitInstallReport"
  | CallRecord hpath "InstallPortError + CopyRecordReceipt"
  | CallPointer MemberName hpath "StoreError + AppliedChange"
  | CallRecheck SourceSnapshot "InstallPortError + unit"
  | CallRecapture ConfigurationPlan "InstallPortError + ConfigurationReport"
  | CallPublish ConfigurationPlan "InstallPortError + ManifestReceipt"

record 's InstallState =
  is_world :: 's
  is_progress :: Progress
  is_trace :: "InstallEvent list"

definition calling ::
    "('e + 'a \<Rightarrow> InstallEvent) \<Rightarrow> ('s, 'e, 'a) op \<Rightarrow> ('s InstallState, 'e, 'a) op" where
  "calling ev m s = (case m (is_world s) of (r, w) \<Rightarrow>
     (r, s\<lparr>is_world := w, is_trace := is_trace s @ [ev r]\<rparr>))"

definition progressing :: "(Progress \<Rightarrow> Progress) \<Rightarrow> ('s InstallState, 'e, unit) op" where
  "progressing f s = (Inr (), s\<lparr>is_progress := f (is_progress s)\<rparr>)"

definition did :: "InstallEffect \<Rightarrow> Progress \<Rightarrow> Progress" where
  "did effect p = p\<lparr>progress_effects := progress_effects p @ [effect]\<rparr>"

subsection \<open>Admission and completion\<close>

definition source_refusals :: "InstallRequest \<Rightarrow> SourceSnapshot \<Rightarrow> InstallRefusal list" where
  "source_refusals request snapshot =
     (let remotes = concat (map (\<lambda>repo. map (\<lambda>remote. (show_repo_key (captured_key repo), remote))
            (captured_remotes repo)) (snapshot_repositories snapshot))
      in (case check_name_free_of_remotes (install_name request) remotes of
            Inl collision \<Rightarrow> [NameIsRemote collision] | Inr _ \<Rightarrow> []) @
         (if install_mode request = Verbatim
          then (case open_gwz_merge snapshot of Some detail \<Rightarrow> [SourceOpenMerge detail] | None \<Rightarrow> [])
          else []) @
         (if \<not> copies_the_tree request \<and> \<not> captured snapshot KeyRoot then [RootNotCaptured] else []) @
         (case install_branch request of
            None \<Rightarrow> []
          | Some branch \<Rightarrow>
              (if copies_the_tree request then [BranchNotSupported branch (install_mode request)]
               else map (\<lambda>repo. BranchExists branch (captured_key repo))
                 (filter (\<lambda>repo. branch \<in> set (captured_branches repo)) (snapshot_repositories snapshot)))))"

definition destination_refusals :: "InstallRequest \<Rightarrow> DestinationObservation \<Rightarrow> InstallRefusal list" where
  "destination_refusals request observed =
     (if dest_nonempty observed then [DestinationNotEmpty (install_destination request)] else []) @
     (if dest_is_workspace observed then [DestinationIsWorkspace (install_destination request)] else [])"

definition refusal_of :: "Refusal + unit \<Rightarrow> InstallRefusal list" where
  "refusal_of r = (case r of Inl refusal \<Rightarrow> [RefusedByFamily refusal] | Inr _ \<Rightarrow> [])"

definition family_refusals :: "InstallRequest \<Rightarrow> FamilyView option \<Rightarrow> InstallRefusal list" where
  "family_refusals request found =
     (case found of
        None \<Rightarrow> []
      | Some view \<Rightarrow>
          refusal_of (check_name_available view (install_name request)) @
          refusal_of (check_path_available view (install_path request)) @
          refusal_of (check_allocation_available view (install_name request) (install_allocation request)))"

definition decide_admission ::
    "InstallRequest \<Rightarrow> InstallRefusal list \<Rightarrow> SourceSnapshot option \<Rightarrow>
     (InstallStep \<times> InstallError) + SourceSnapshot" where
  "decide_admission request refusals found =
     (let refusals = refusals @ (case found of Some snapshot \<Rightarrow> source_refusals request snapshot | None \<Rightarrow> [])
      in case found of
           None \<Rightarrow> Inl (InventorySource, InstallRefused refusals)
         | Some snapshot \<Rightarrow>
             (if refusals \<noteq> [] then Inl (Reserve, InstallRefused refusals) else Inr snapshot))"

definition admit_observed ::
    "InstallRequest \<Rightarrow> 's FamilySession \<Rightarrow> 's InstallPorts \<Rightarrow> InstallRefusal list \<Rightarrow> SourceSnapshot option \<Rightarrow>
     ('s InstallState, InstallStep \<times> InstallError, SourceSnapshot) op" where
  "admit_observed request session ports refusals found =
     op_bind (op_map_err (\<lambda>error. (ObserveDestination, InstallPort error))
         (calling (CallObserve (install_destination request))
           (observe_destination ports (install_destination request)))) (\<lambda>observed.
     op_bind (op_map_err (\<lambda>error. (Reserve, InstallStore error))
         (calling CallReread (sess_reread session))) (\<lambda>view.
       op_result (decide_admission request
         (refusals @ destination_refusals request observed @ family_refusals request view) found)))"

definition admit ::
    "InstallRequest \<Rightarrow> 's FamilySession \<Rightarrow> 's InstallPorts \<Rightarrow>
     ('s InstallState, InstallStep \<times> InstallError, SourceSnapshot) op" where
  "admit request session ports =
     op_match (calling (CallSnapshot (install_source request)) (snapshot_source ports (install_source request)))
       (\<lambda>r. case r of
          Inr snapshot \<Rightarrow> admit_observed request session ports [] (Some snapshot)
        | Inl error \<Rightarrow> (case error of
            PortLayout layout \<Rightarrow> admit_observed request session ports [SourceLayout layout] None
          | _ \<Rightarrow> op_fail (InventorySource, InstallSource error)))"

definition completion_faults :: "DestinationObservation \<Rightarrow> CompletionFault list" where
  "completion_faults observed =
     (case (dest_family_index observed, dest_pointer observed) of
        (True, PointerAbsent) \<Rightarrow> [FamilyIndexPresent]
      | (True, _) \<Rightarrow> [ConflictingDestination]
      | (False, PointerMatches) \<Rightarrow> []
      | (False, PointerAbsent) \<Rightarrow> [PointerMissing]
      | (False, pointer) \<Rightarrow> [PointerInvalid pointer]) @
     (if dest_merge_store observed then [MergeStorePresent] else []) @
     map ResidualPath (dest_residual observed) @
     map NotIndependent (dest_dependencies observed)"

subsection \<open>The sequence\<close>

definition copy_request :: "InstallRequest \<Rightarrow> CopyRequest" where
  "copy_request request =
     \<lparr>copy_source = install_source request, copy_destination = install_destination request,
      copy_exclusions = install_exclusions request, copy_mode = install_copy_mode request\<rparr>"

text \<open>An attempted call stops the run with its step; a checkpoint stops it when cancelled.\<close>

definition attempt ::
    "InstallStep \<Rightarrow> ('e \<Rightarrow> InstallError) \<Rightarrow> ('s, 'e, 'a) op \<Rightarrow> ('s, InstallStep \<times> InstallError, 'a) op" where
  "attempt step wrap m = op_map_err (\<lambda>error. (step, wrap error)) m"

text \<open>An attempted call whose success is noted in the progress.\<close>

definition perform ::
    "InstallStep \<Rightarrow> ('e \<Rightarrow> InstallError) \<Rightarrow> ('e + 'a \<Rightarrow> InstallEvent) \<Rightarrow> ('s, 'e, 'a) op \<Rightarrow>
     ('a \<Rightarrow> Progress \<Rightarrow> Progress) \<Rightarrow> ('s InstallState, InstallStep \<times> InstallError, 'a) op" where
  "perform step wrap ev m note =
     op_bind (attempt step wrap (calling ev m)) (\<lambda>x.
     op_bind (progressing (note x)) (\<lambda>_. op_return x))"

definition poll :: "'s cancellation \<Rightarrow> ('s, unit, bool) op" where
  "poll cancellation w = (case cancellation w of (b, w') \<Rightarrow> (Inr b, w'))"

definition poll_event :: "unit + bool \<Rightarrow> InstallEvent" where
  "poll_event r = CallPoll (case r of Inr b \<Rightarrow> b | Inl _ \<Rightarrow> False)"

definition checkpoint ::
    "'s cancellation \<Rightarrow> InstallStep \<Rightarrow> ('s InstallState, InstallStep \<times> InstallError, unit) op" where
  "checkpoint cancellation step =
     op_bind (attempt step (\<lambda>_. InstallCancelled) (calling poll_event (poll cancellation)))
       (\<lambda>b. if b then op_fail (step, InstallCancelled) else op_return ())"

definition reserve ::
    "InstallRequest \<Rightarrow> 's FamilySession \<Rightarrow> 's InstallPorts \<Rightarrow> 's cancellation \<Rightarrow>
     ('s InstallState, InstallStep \<times> InstallError, unit) op" where
  "reserve request session ports cancellation =
     (let change = Allocate (install_name request) (request_row request);
          destination = install_destination request in
      op_bind (checkpoint cancellation Reserve) (\<lambda>_.
      op_bind (perform Reserve InstallStore (CallApply change) (sess_apply session change)
        (\<lambda>_. did DidRowAllocated)) (\<lambda>_.
        perform AllocateDestination InstallPort (CallAllocate destination)
          (allocate_destination ports destination) (\<lambda>_. did DidDestinationAllocated))))"

definition construction_request :: "InstallRequest \<Rightarrow> SourceSnapshot \<Rightarrow> ConstructionRequest" where
  "construction_request request snapshot =
     \<lparr>construct_mode = install_mode request, construct_branch = install_branch request,
      construct_snapshot = snapshot, construct_destination = install_destination request\<rparr>"

definition build_tree ::
    "InstallRequest \<Rightarrow> 's tree_copier \<Rightarrow> 's InstallPorts \<Rightarrow> 's cancellation \<Rightarrow> SourceSnapshot \<Rightarrow>
     ('s InstallState, InstallStep \<times> InstallError, unit) op" where
  "build_tree request copier ports cancellation snapshot =
     (if copies_the_tree request
      then
        op_bind (checkpoint cancellation CopyTree) (\<lambda>_.
        op_bind (perform CopyTree InstallCopy (CallCopy (copy_request request)) (copier (copy_request request) cancellation)
          (\<lambda>report p. did DidTreeCopied (p\<lparr>progress_copy := Some report\<rparr>))) (\<lambda>_. op_return ()))
      else
        op_bind (checkpoint cancellation ConstructRepositories) (\<lambda>_.
          perform ConstructRepositories InstallPort (CallConstruct (construction_request request snapshot))
            (construct_repositories ports (construction_request request snapshot))
            (\<lambda>_. did DidRepositoriesConstructed)))"

definition install_metadata ::
    "InstallRequest \<Rightarrow> 's FamilySession \<Rightarrow> 's InstallPorts \<Rightarrow>
     ('s InstallState, InstallStep \<times> InstallError, unit) op" where
  "install_metadata request session ports =
     (let destination = install_destination request; name = install_name request in
      op_bind (perform InstallDestinationGit InstallPort (CallGit destination)
        (install_destination_git ports destination)
        (\<lambda>git p. did DidDestinationGitInstalled (p\<lparr>progress_git := Some git\<rparr>))) (\<lambda>_.
      op_bind (perform RecordCopy InstallPort (CallRecord destination) (record_copy ports destination)
        (\<lambda>record p. did DidCopyRecorded (p\<lparr>progress_record := Some record\<rparr>))) (\<lambda>_.
      op_bind (perform InstallPointer InstallStore (CallPointer name destination)
        (sess_install_pointer session name destination) (\<lambda>_. did DidPointerInstalled)) (\<lambda>_.
        op_return ()))))"

definition check_destination ::
    "InstallRequest \<Rightarrow> 's InstallPorts \<Rightarrow> SourceSnapshot \<Rightarrow>
     ('s InstallState, InstallStep \<times> InstallError, unit) op" where
  "check_destination request ports snapshot =
     op_bind (attempt CheckDestination InstallPort (calling (CallObserve (install_destination request))
         (observe_destination ports (install_destination request)))) (\<lambda>observed.
     if completion_faults observed \<noteq> []
     then op_fail (CheckDestination, Incomplete (completion_faults observed))
     else attempt RecheckSource InstallSource
       (calling (CallRecheck snapshot) (recheck_source ports snapshot)))"

definition configuration_plan :: "InstallRequest \<Rightarrow> SourceSnapshot \<Rightarrow> ConfigurationPlan" where
  "configuration_plan request snapshot =
     \<lparr>plan_destination = install_destination request, plan_mode = install_mode request,
      plan_branch = install_branch request, plan_snapshot = snapshot\<rparr>"

definition recapture ::
    "InstallRequest \<Rightarrow> 's InstallPorts \<Rightarrow> ConfigurationPlan \<Rightarrow>
     ('s InstallState, InstallStep \<times> InstallError, unit) op" where
  "recapture request ports plan =
     op_bind (perform RecaptureConfiguration InstallPort (CallRecapture plan) (recapture_configuration ports plan)
       (\<lambda>configuration p. did DidConfigurationInstalled
         (p\<lparr>progress_configuration := Some configuration\<rparr>))) (\<lambda>configuration.
     if install_mode request \<noteq> Verbatim \<and> \<not> lock_recaptured configuration
     then op_fail (RecaptureConfiguration, Incomplete [LockNotRecaptured])
     else op_return ())"

definition publish_destination ::
    "InstallRequest \<Rightarrow> 's FamilySession \<Rightarrow> 's InstallPorts \<Rightarrow> 's cancellation \<Rightarrow> ConfigurationPlan \<Rightarrow>
     ('s InstallState, InstallStep \<times> InstallError, unit) op" where
  "publish_destination request session ports cancellation plan =
     (let change = MarkReady (install_name request) (install_allocation request) in
      op_bind (checkpoint cancellation PublishManifest) (\<lambda>_.
      op_bind (perform PublishManifest InstallPort (CallPublish plan) (publish_manifest ports plan)
        (\<lambda>_. did DidManifestPublished)) (\<lambda>receipt.
      if \<not> marker_regenerated receipt
      then op_fail (PublishManifest, Incomplete [MarkerNotRegenerated])
      else
        op_bind (perform MarkReadyStep InstallStore (CallApply change) (sess_apply session change)
          (\<lambda>_. did DidRowReady)) (\<lambda>_. op_return ()))))"

definition install_run ::
    "InstallRequest \<Rightarrow> 's FamilySession \<Rightarrow> 's tree_copier \<Rightarrow> 's InstallPorts \<Rightarrow> 's cancellation \<Rightarrow>
     ('s InstallState, InstallStep \<times> InstallError, unit) op" where
  "install_run request session copier ports cancellation =
     op_bind (admit request session ports) (\<lambda>snapshot.
     op_bind (reserve request session ports cancellation) (\<lambda>_.
     op_bind (build_tree request copier ports cancellation snapshot) (\<lambda>_.
     op_bind (install_metadata request session ports) (\<lambda>_.
     op_bind (check_destination request ports snapshot) (\<lambda>_.
     op_bind (recapture request ports (configuration_plan request snapshot)) (\<lambda>_.
       publish_destination request session ports cancellation (configuration_plan request snapshot)))))))"

text \<open>The diagnostic on the retained row: the only thing a failure does.\<close>

definition stop ::
    "(LayoutHazard list \<Rightarrow> ustr) \<Rightarrow> 's FamilySession \<Rightarrow> MemberName \<Rightarrow> InstallStep \<Rightarrow> InstallError \<Rightarrow>
     's InstallState \<Rightarrow> InstallFailure \<times> 's InstallState" where
  "stop dbg session name step error s =
     (let effects = progress_effects (is_progress s);
          change = RecordError name (step_str step @ lit '': '' @ show_install_error dbg error) in
      if DidRowAllocated \<in> set effects \<and> DidRowReady \<notin> set effects
      then (case calling (CallApply change) (sess_apply session change) s of
              (r, s) \<Rightarrow>
                (\<lparr>failed_step = step, failed_error = error,
                  failed_effects = (if is_ok r then effects @ [DidErrorRecorded] else effects)\<rparr>, s))
      else (\<lparr>failed_step = step, failed_error = error, failed_effects = effects\<rparr>, s))"

definition install ::
    "(LayoutHazard list \<Rightarrow> ustr) \<Rightarrow> InstallRequest \<Rightarrow> 's FamilySession \<Rightarrow> 's tree_copier \<Rightarrow>
     's InstallPorts \<Rightarrow> 's cancellation \<Rightarrow> 's \<Rightarrow>
     (InstallFailure + InstallReport) \<times> 's InstallState" where
  "install dbg request session copier ports cancellation world =
     (case install_run request session copier ports cancellation
        \<lparr>is_world = world, is_progress = default_progress, is_trace = []\<rparr> of
        (Inr _, s) \<Rightarrow>
          (Inr \<lparr>install_copy = progress_copy (is_progress s), install_git = progress_git (is_progress s),
             install_record = progress_record (is_progress s),
             install_configuration = progress_configuration (is_progress s),
             install_effects = progress_effects (is_progress s)\<rparr>, s)
      | (Inl (step, error), s) \<Rightarrow>
          (case stop dbg session (install_name request) step error s of (failure, s) \<Rightarrow> (Inl failure, s)))"

end
