(* ===== verification/Install_Proofs.thy ===== *)
theory Install_Proofs
  imports Install
begin

text \<open>
  The order of an installation: the calls it makes, what each must answer before the next is made,
  that the row is marked ready last and only after every check, and that the reported effects are the
  completed calls.
\<close>

subsection \<open>The script\<close>

text \<open>The calls in their order, whatever they answer.\<close>

definition install_calls :: "InstallRequest \<Rightarrow> SourceSnapshot \<Rightarrow> (InstallEvent \<Rightarrow> bool) list" where
  "install_calls request snap =
     (let destination = install_destination request; name = install_name request;
          plan = configuration_plan request snap in
      [\<lambda>e. \<exists>r. e = CallSnapshot (install_source request) r,
       \<lambda>e. \<exists>r. e = CallObserve destination r,
       \<lambda>e. \<exists>r. e = CallReread r,
       \<lambda>e. \<exists>b. e = CallPoll b,
       \<lambda>e. \<exists>r. e = CallApply (Allocate name (request_row request)) r,
       \<lambda>e. \<exists>r. e = CallAllocate destination r,
       \<lambda>e. \<exists>b. e = CallPoll b,
       \<lambda>e. if copies_the_tree request then \<exists>r. e = CallCopy (copy_request request) r
           else \<exists>r. e = CallConstruct (construction_request request snap) r,
       \<lambda>e. \<exists>r. e = CallGit destination r,
       \<lambda>e. \<exists>r. e = CallRecord destination r,
       \<lambda>e. \<exists>r. e = CallPointer name destination r,
       \<lambda>e. \<exists>r. e = CallObserve destination r,
       \<lambda>e. \<exists>r. e = CallRecheck snap r,
       \<lambda>e. \<exists>r. e = CallRecapture plan r,
       \<lambda>e. \<exists>b. e = CallPoll b,
       \<lambda>e. \<exists>r. e = CallPublish plan r,
       \<lambda>e. \<exists>r. e = CallApply (MarkReady name (install_allocation request)) r])"

text \<open>What the admission and the completion check require.\<close>

definition source_admitted :: "InstallRequest \<Rightarrow> SourceSnapshot \<Rightarrow> bool" where
  "source_admitted request snap \<longleftrightarrow>
     is_ok (check_name_free_of_remotes (install_name request)
       [(show_repo_key (captured_key repo), remote). repo \<leftarrow> snapshot_repositories snap, remote \<leftarrow> captured_remotes repo]) \<and>
     (install_mode request = Verbatim \<longrightarrow> open_gwz_merge snap = None) \<and>
     (copies_the_tree request \<or> captured snap KeyRoot) \<and>
     (\<forall>branch. install_branch request = Some branch \<longrightarrow>
        \<not> copies_the_tree request \<and>
        list_all (\<lambda>repo. branch \<notin> set (captured_branches repo)) (snapshot_repositories snap))"

definition destination_free :: "DestinationObservation \<Rightarrow> bool" where
  "destination_free observed \<longleftrightarrow> \<not> dest_nonempty observed \<and> \<not> dest_is_workspace observed"

definition family_free :: "InstallRequest \<Rightarrow> FamilyView option \<Rightarrow> bool" where
  "family_free request found \<longleftrightarrow>
     (\<forall>view. found = Some view \<longrightarrow>
        is_ok (check_name_available view (install_name request)) \<and>
        is_ok (check_path_available view (install_path request)) \<and>
        is_ok (check_allocation_available view (install_name request) (install_allocation request)))"

definition destination_complete :: "DestinationObservation \<Rightarrow> bool" where
  "destination_complete observed \<longleftrightarrow>
     \<not> dest_family_index observed \<and> dest_pointer observed = PointerMatches \<and> \<not> dest_merge_store observed \<and>
     dest_residual observed = [] \<and> dest_dependencies observed = []"

lemma destination_refusals_Nil [simp]: "destination_refusals request observed = [] \<longleftrightarrow> destination_free observed"
  by (simp add: destination_refusals_def destination_free_def)

lemma family_refusals_Nil [simp]: "family_refusals request found = [] \<longleftrightarrow> family_free request found"
  by (auto simp: family_refusals_def family_free_def refusal_of_def is_ok_def split: option.splits sum.splits)

lemma completion_faults_Nil [simp]: "completion_faults observed = [] \<longleftrightarrow> destination_complete observed"
  by (cases "dest_pointer observed"; cases "dest_family_index observed")
    (auto simp: completion_faults_def destination_complete_def)

lemma source_refusals_Nil [simp]: "source_refusals request snap = [] \<longleftrightarrow> source_admitted request snap"
  by (auto simp: source_refusals_def source_admitted_def Let_def is_ok_def list_all_iff filter_empty_conv
      split: option.splits sum.splits)

text \<open>What a call must have answered for the run to go on.\<close>

fun call_passes :: "InstallRequest \<Rightarrow> SourceSnapshot \<Rightarrow> bool \<Rightarrow> InstallEvent \<Rightarrow> bool" where
  "call_passes request snap built (CallSnapshot _ r) = (r = Inr snap)"
| "call_passes request snap built (CallObserve _ r) =
     (case r of Inl _ \<Rightarrow> False
      | Inr observed \<Rightarrow> if built then destination_complete observed else destination_free observed)"
| "call_passes request snap built (CallReread r) =
     (case r of Inl _ \<Rightarrow> False | Inr found \<Rightarrow> family_free request found)"
| "call_passes request snap built (CallPoll b) = (\<not> b)"
| "call_passes request snap built (CallApply _ r) = is_ok r"
| "call_passes request snap built (CallAllocate _ r) = is_ok r"
| "call_passes request snap built (CallCopy _ r) = is_ok r"
| "call_passes request snap built (CallConstruct _ r) = is_ok r"
| "call_passes request snap built (CallGit _ r) = is_ok r"
| "call_passes request snap built (CallRecord _ r) = is_ok r"
| "call_passes request snap built (CallPointer _ _ r) = is_ok r"
| "call_passes request snap built (CallRecheck _ r) = is_ok r"
| "call_passes request snap built (CallRecapture _ r) =
     (case r of Inl _ \<Rightarrow> False
      | Inr configuration \<Rightarrow> install_mode request = Verbatim \<or> lock_recaptured configuration)"
| "call_passes request snap built (CallPublish _ r) =
     (case r of Inl _ \<Rightarrow> False | Inr receipt \<Rightarrow> marker_regenerated receipt)"

text \<open>The second observation, the twelfth call, is the completion check.\<close>

definition install_script :: "InstallRequest \<Rightarrow> SourceSnapshot \<Rightarrow> (InstallEvent \<Rightarrow> bool) list" where
  "install_script request snap =
     map2 (\<lambda>i p e. p e \<and> call_passes request snap (2 < i) e) [0..<17] (install_calls request snap)"

text \<open>The step a failure at each call is reported under.\<close>

definition install_steps :: "InstallRequest \<Rightarrow> InstallStep list" where
  "install_steps request =
     (let build = if copies_the_tree request then CopyTree else ConstructRepositories in
      [InventorySource, ObserveDestination, Reserve, Reserve, Reserve, AllocateDestination, build, build,
       InstallDestinationGit, RecordCopy, InstallPointer, CheckDestination, RecheckSource,
       RecaptureConfiguration, PublishManifest, PublishManifest, MarkReadyStep])"

fun call_effects :: "InstallEvent \<Rightarrow> InstallEffect list" where
  "call_effects (CallApply (Allocate _ _) (Inr _)) = [DidRowAllocated]"
| "call_effects (CallApply (MarkReady _ _) (Inr _)) = [DidRowReady]"
| "call_effects (CallApply (RecordError _ _) (Inr _)) = [DidErrorRecorded]"
| "call_effects (CallAllocate _ (Inr _)) = [DidDestinationAllocated]"
| "call_effects (CallCopy _ (Inr _)) = [DidTreeCopied]"
| "call_effects (CallConstruct _ (Inr _)) = [DidRepositoriesConstructed]"
| "call_effects (CallGit _ (Inr _)) = [DidDestinationGitInstalled]"
| "call_effects (CallRecord _ (Inr _)) = [DidCopyRecorded]"
| "call_effects (CallPointer _ _ (Inr _)) = [DidPointerInstalled]"
| "call_effects (CallRecapture _ (Inr _)) = [DidConfigurationInstalled]"
| "call_effects (CallPublish _ (Inr _)) = [DidManifestPublished]"
| "call_effects _ = []"

definition effects_of_calls :: "InstallEvent list \<Rightarrow> InstallEffect list" where
  "effects_of_calls evs = concat (map call_effects evs)"

lemma effects_of_calls_simps [simp]:
  "effects_of_calls [] = []" "effects_of_calls (e # es) = call_effects e @ effects_of_calls es"
  "effects_of_calls (es @ es') = effects_of_calls es @ effects_of_calls es'"
  by (simp_all add: effects_of_calls_def)

lemma script_length [simp]: "length (install_calls request snap) = 17" "length (install_script request snap) = 17"
  by (simp_all add: install_calls_def install_script_def Let_def)

lemma script_nth:
  "n < 17 \<Longrightarrow> (install_script request snap ! n) e \<longleftrightarrow>
     (install_calls request snap ! n) e \<and> call_passes request snap (2 < n) e"
  by (simp add: install_script_def)

subsection \<open>Stages\<close>

definition follows :: "(InstallEvent \<Rightarrow> bool) list \<Rightarrow> InstallEvent list \<Rightarrow> bool" where
  "follows ps evs = list_all2 (\<lambda>p e. p e) ps evs"

lemma follows_snoc: "n < length ps \<Longrightarrow> follows (take n ps) tr \<Longrightarrow> (ps ! n) e \<Longrightarrow> follows (take (Suc n) ps) (tr @ [e])"
  by (simp add: follows_def take_Suc_conv_app_nth list_all2_appendI)

lemma follows_calls:
  assumes "follows (take n (install_script request snap)) tr" "n \<le> 17"
  shows "follows (take n (install_calls request snap)) tr"
  using assms by (auto simp: follows_def list_all2_conv_all_nth script_nth)

text \<open>
  The first \<open>n\<close> calls were made and passed; the effects \<open>d\<close> of the last one are still to be reported.
\<close>

definition stage :: "InstallRequest \<Rightarrow> SourceSnapshot \<Rightarrow> nat \<Rightarrow> InstallEffect list \<Rightarrow> 's InstallState \<Rightarrow> bool" where
  "stage request snap n d s \<longleftrightarrow>
     follows (take n (install_script request snap)) (is_trace s) \<and>
     progress_effects (is_progress s) @ d = effects_of_calls (is_trace s)"

text \<open>The first \<open>n\<close> calls passed, and the next one, made, is \<open>e\<close>.\<close>

definition midway ::
    "InstallRequest \<Rightarrow> SourceSnapshot \<Rightarrow> nat \<Rightarrow> InstallEvent \<Rightarrow> InstallEffect list \<Rightarrow> 's InstallState \<Rightarrow> bool" where
  "midway request snap n e d s \<longleftrightarrow>
     (\<exists>tr. is_trace s = tr @ [e] \<and> follows (take n (install_script request snap)) tr) \<and>
     (install_calls request snap ! n) e \<and>
     progress_effects (is_progress s) @ d = effects_of_calls (is_trace s)"

text \<open>A call after the admission did not pass, and nothing was called since.\<close>

definition stopped_at :: "InstallRequest \<Rightarrow> SourceSnapshot \<Rightarrow> InstallStep \<Rightarrow> 's InstallState \<Rightarrow> bool" where
  "stopped_at request snap step s \<longleftrightarrow>
     (\<exists>n e. 3 \<le> n \<and> n < 17 \<and> install_steps request ! n = step \<and> \<not> call_passes request snap (2 < n) e \<and>
        midway request snap n e [] s)"

lemma midway_stage:
  "midway request snap n e d s \<Longrightarrow> n < 17 \<Longrightarrow> call_passes request snap (2 < n) e \<Longrightarrow> stage request snap (Suc n) d s"
  by (auto simp: midway_def stage_def script_nth intro!: follows_snoc)

lemma midway_stopped:
  "midway request snap n e [] s \<Longrightarrow> 3 \<le> n \<Longrightarrow> n < 17 \<Longrightarrow> install_steps request ! n = step \<Longrightarrow>
   \<not> call_passes request snap (2 < n) e \<Longrightarrow> stopped_at request snap step s"
  unfolding stopped_at_def by blast

lemma triple_calling:
  assumes "\<And>r. (install_calls request snap ! n) (ev r)" "\<And>e. call_effects (ev (Inl e)) = [] \<and> \<not> call_passes request snap (2 < n) (ev (Inl e))"
      "3 \<le> n" "n < 17" "install_steps request ! n = step"
  shows "triple (stage request snap n []) (attempt step wrap (calling ev m))
    (\<lambda>x. midway request snap n (ev (Inr x)) (call_effects (ev (Inr x)))) (\<lambda>e. stopped_at request snap (fst e))"
proof -
  have made: "midway request snap n (ev r) (call_effects (ev r))
      (s\<lparr>is_world := w, is_trace := is_trace s @ [ev r]\<rparr>)" if "stage request snap n [] s" for r s w
    using that assms(1) [of r] by (simp add: midway_def stage_def)
  have failed: "stopped_at request snap step (s\<lparr>is_world := w, is_trace := is_trace s @ [ev (Inl e)]\<rparr>)"
    if "stage request snap n [] s" for e s w
  proof (rule midway_stopped [OF _ assms(3-5)])
    show "midway request snap n (ev (Inl e)) [] (s\<lparr>is_world := w, is_trace := is_trace s @ [ev (Inl e)]\<rparr>)"
      using made [OF that, of "Inl e" w] assms(2) [of e] by simp
  qed (rule conjunct2 [OF assms(2)])
  show ?thesis
    unfolding attempt_def
    by (rule triple_map_err) (auto simp: triple_def calling_def made failed split: prod.split sum.split)
qed

lemma triple_progressing:
  assumes "\<And>p. progress_effects (f p) = progress_effects p @ [d]"
  shows "triple (midway request snap n e [d]) (progressing f) (\<lambda>_. midway request snap n e []) E"
  by (simp add: triple_def progressing_def midway_def assms)

lemma triple_perform:
  assumes "\<And>r. (install_calls request snap ! n) (ev r)" "\<And>e. call_effects (ev (Inl e)) = [] \<and> \<not> call_passes request snap (2 < n) (ev (Inl e))"
      "3 \<le> n" "n < 17" "install_steps request ! n = step"
    and "\<And>x. call_effects (ev (Inr x)) = [d]" "\<And>x p. progress_effects (note x p) = progress_effects p @ [d]"
  shows "triple (stage request snap n []) (perform step wrap ev m note)
    (\<lambda>x. midway request snap n (ev (Inr x)) []) (\<lambda>e. stopped_at request snap (fst e))"
  unfolding perform_def
proof (rule triple_bind [OF triple_calling [where ev = ev, OF assms(1-5)]])
  fix x
  show "triple (midway request snap n (ev (Inr x)) (call_effects (ev (Inr x))))
      (op_bind (progressing (note x)) (\<lambda>_. op_return x))
      (\<lambda>x. midway request snap n (ev (Inr x)) []) (\<lambda>e. stopped_at request snap (fst e))"
    unfolding assms(6) by (rule triple_bind [OF triple_progressing [OF assms(7)] triple_return])
qed

text \<open>A performed call that passes whatever it answers.\<close>

lemma triple_passing:
  assumes "\<And>r. (install_calls request snap ! n) (ev r)" "\<And>e. call_effects (ev (Inl e)) = [] \<and> \<not> call_passes request snap (2 < n) (ev (Inl e))"
      "3 \<le> n" "n < 17" "install_steps request ! n = step"
    and "\<And>x. call_effects (ev (Inr x)) = [d]" "\<And>x p. progress_effects (note x p) = progress_effects p @ [d]"
    and "\<And>x. call_passes request snap (2 < n) (ev (Inr x))"
  shows "triple (stage request snap n []) (perform step wrap ev m note)
    (\<lambda>_. stage request snap (Suc n) []) (\<lambda>e. stopped_at request snap (fst e))"
  by (rule triple_conseq [OF triple_perform [where ev = ev, OF assms(1-7)]])
     (assumption | rule midway_stage [OF _ assms(4) assms(8)])+

lemma triple_checkpoint:
  assumes "install_calls request snap ! n = (\<lambda>e. \<exists>b. e = CallPoll b)" "3 \<le> n" "n < 17" "install_steps request ! n = step"
  shows "triple (stage request snap n []) (checkpoint cancellation step)
    (\<lambda>_. stage request snap (Suc n) []) (\<lambda>e. stopped_at request snap (fst e))"
proof -
  have made: "midway request snap n (CallPoll b) [] (s\<lparr>is_world := w, is_trace := is_trace s @ [CallPoll b]\<rparr>)"
    if "stage request snap n [] s" for s b w
    using that assms(1) by (simp add: midway_def stage_def)
  have "stage request snap (Suc n) [] (s\<lparr>is_world := w, is_trace := is_trace s @ [CallPoll False]\<rparr>)"
    "stopped_at request snap step (s\<lparr>is_world := w, is_trace := is_trace s @ [CallPoll True]\<rparr>)"
    if "stage request snap n [] s" for s w
    using midway_stage [OF made [OF that, of False] assms(3)] midway_stopped [OF made [OF that, of True] assms(2-4)]
    by simp_all
  then show ?thesis
    by (auto simp: triple_def checkpoint_def op_bind_def attempt_def op_map_err_def calling_def poll_def poll_event_def
        split: prod.splits)
qed

lemmas calls_eval = install_calls_def install_steps_def Let_def did_def

lemma reserve_stage:
  "triple (stage request snap 3 []) (reserve request session ports cancellation)
    (\<lambda>_. stage request snap 6 []) (\<lambda>e. stopped_at request snap (fst e))"
proof -
  have "triple (stage request snap 3 []) (checkpoint cancellation Reserve)
      (\<lambda>_. stage request snap 4 []) (\<lambda>e. stopped_at request snap (fst e))"
    using triple_checkpoint [of request snap 3 Reserve] by (simp add: calls_eval)
  moreover have "triple (stage request snap 4 [])
      (perform Reserve InstallStore (CallApply (Allocate (install_name request) (request_row request)))
        m (\<lambda>_. did DidRowAllocated))
      (\<lambda>_. stage request snap 5 []) (\<lambda>e. stopped_at request snap (fst e))" for m
    using triple_passing [of request snap 4 "CallApply (Allocate (install_name request) (request_row request))" Reserve
        DidRowAllocated "\<lambda>_. did DidRowAllocated"]
    by (simp add: calls_eval)
  moreover have "triple (stage request snap 5 [])
      (perform AllocateDestination InstallPort (CallAllocate (install_destination request))
        m (\<lambda>_. did DidDestinationAllocated))
      (\<lambda>_. stage request snap 6 []) (\<lambda>e. stopped_at request snap (fst e))" for m
    using triple_passing [of request snap 5 "CallAllocate (install_destination request)" AllocateDestination
        DidDestinationAllocated "\<lambda>_. did DidDestinationAllocated"]
    by (simp add: calls_eval)
  ultimately show ?thesis
    unfolding reserve_def Let_def by (intro triple_bind)
qed

lemma build_stage:
  "triple (stage request snap 6 []) (build_tree request copier ports cancellation snap)
    (\<lambda>_. stage request snap 8 []) (\<lambda>e. stopped_at request snap (fst e))"
proof -
  have poll: "triple (stage request snap 6 []) (checkpoint cancellation step)
      (\<lambda>_. stage request snap 7 []) (\<lambda>e. stopped_at request snap (fst e))"
    if "step = (if copies_the_tree request then CopyTree else ConstructRepositories)" for step
    using triple_checkpoint [of request snap 6 step cancellation] that by (simp add: calls_eval)
  have copy: "triple (stage request snap 7 [])
      (perform CopyTree InstallCopy (CallCopy (copy_request request)) m
        (\<lambda>report p. did DidTreeCopied (p\<lparr>progress_copy := Some report\<rparr>)))
      (\<lambda>_. stage request snap 8 []) (\<lambda>e. stopped_at request snap (fst e))" if "copies_the_tree request" for m
    using triple_passing [of request snap 7 "CallCopy (copy_request request)" CopyTree DidTreeCopied
        "\<lambda>report p. did DidTreeCopied (p\<lparr>progress_copy := Some report\<rparr>)"] that
    by (simp add: calls_eval)
  have construct: "triple (stage request snap 7 [])
      (perform ConstructRepositories InstallPort (CallConstruct (construction_request request snap)) m
        (\<lambda>_. did DidRepositoriesConstructed))
      (\<lambda>_. stage request snap 8 []) (\<lambda>e. stopped_at request snap (fst e))" if "\<not> copies_the_tree request" for m
    using triple_passing [of request snap 7 "CallConstruct (construction_request request snap)" ConstructRepositories
        DidRepositoriesConstructed "\<lambda>_. did DidRepositoriesConstructed"] that
    by (simp add: calls_eval)
  show ?thesis
    unfolding build_tree_def
    by (rule triple_if; rule triple_bind [OF poll]; (rule triple_bind [OF copy triple_return] | rule construct)?; simp)
qed

lemma metadata_stage:
  "triple (stage request snap 8 []) (install_metadata request session ports)
    (\<lambda>_. stage request snap 11 []) (\<lambda>e. stopped_at request snap (fst e))"
proof -
  have git: "triple (stage request snap 8 [])
      (perform InstallDestinationGit InstallPort (CallGit (install_destination request)) m
        (\<lambda>git p. did DidDestinationGitInstalled (p\<lparr>progress_git := Some git\<rparr>)))
      (\<lambda>_. stage request snap 9 []) (\<lambda>e. stopped_at request snap (fst e))" for m
    using triple_passing [of request snap 8 "CallGit (install_destination request)" InstallDestinationGit DidDestinationGitInstalled
        "\<lambda>git p. did DidDestinationGitInstalled (p\<lparr>progress_git := Some git\<rparr>)"]
    by (simp add: calls_eval)
  have "record": "triple (stage request snap 9 [])
      (perform RecordCopy InstallPort (CallRecord (install_destination request)) m
        (\<lambda>receipt p. did DidCopyRecorded (p\<lparr>progress_record := Some receipt\<rparr>)))
      (\<lambda>_. stage request snap 10 []) (\<lambda>e. stopped_at request snap (fst e))" for m
    using triple_passing [of request snap 9 "CallRecord (install_destination request)" RecordCopy DidCopyRecorded
        "\<lambda>receipt p. did DidCopyRecorded (p\<lparr>progress_record := Some receipt\<rparr>)"]
    by (simp add: calls_eval)
  have pointer: "triple (stage request snap 10 [])
      (perform InstallPointer InstallStore (CallPointer (install_name request) (install_destination request)) m
        (\<lambda>_. did DidPointerInstalled))
      (\<lambda>_. stage request snap 11 []) (\<lambda>e. stopped_at request snap (fst e))" for m
    using triple_passing [of request snap 10 "CallPointer (install_name request) (install_destination request)" InstallPointer
        DidPointerInstalled "\<lambda>_. did DidPointerInstalled"]
    by (simp add: calls_eval)
  show ?thesis
    unfolding install_metadata_def Let_def
    by (rule triple_bind [OF git], rule triple_bind [OF "record"], rule triple_bind [OF pointer triple_return])
qed

lemma check_stage:
  "triple (stage request snap 11 []) (check_destination request ports snap)
    (\<lambda>_. stage request snap 13 []) (\<lambda>e. stopped_at request snap (fst e))"
  unfolding check_destination_def
proof (rule triple_bind [OF triple_calling [where n = 11]])
  fix observed
  have recheck: "triple (stage request snap 12 [])
      (attempt RecheckSource InstallSource (calling (CallRecheck snap) (recheck_source ports snap)))
      (\<lambda>x. midway request snap 12 (CallRecheck snap (Inr x)) []) (\<lambda>e. stopped_at request snap (fst e))"
    using triple_calling [of request snap 12 "CallRecheck snap" RecheckSource] by (simp add: calls_eval)
  have recheck': "triple (stage request snap 12 [])
      (attempt RecheckSource InstallSource (calling (CallRecheck snap) (recheck_source ports snap)))
      (\<lambda>_. stage request snap 13 []) (\<lambda>e. stopped_at request snap (fst e))"
    using midway_stage [of request snap 12 "CallRecheck snap (Inr ())" "[]"]
    by (intro triple_conseq [OF recheck]) simp_all
  show "triple (midway request snap 11 (CallObserve (install_destination request) (Inr observed))
        (call_effects (CallObserve (install_destination request) (Inr observed))))
      (if completion_faults observed \<noteq> []
       then op_fail (CheckDestination, Incomplete (completion_faults observed))
       else attempt RecheckSource InstallSource (calling (CallRecheck snap) (recheck_source ports snap)))
      (\<lambda>_. stage request snap 13 []) (\<lambda>e. stopped_at request snap (fst e))"
  proof (rule triple_if)
    show "triple (midway request snap 11 (CallObserve (install_destination request) (Inr observed))
        (call_effects (CallObserve (install_destination request) (Inr observed))))
      (op_fail (CheckDestination, Incomplete (completion_faults observed)))
      (\<lambda>_. stage request snap 13 []) (\<lambda>e. stopped_at request snap (fst e))" if "completion_faults observed \<noteq> []"
      using midway_stopped [of request snap 11 "CallObserve (install_destination request) (Inr observed)" _ CheckDestination]
        that by (intro triple_fail) (simp add: calls_eval)
  next
    assume "\<not> completion_faults observed \<noteq> []"
    then show "triple (midway request snap 11 (CallObserve (install_destination request) (Inr observed))
        (call_effects (CallObserve (install_destination request) (Inr observed))))
      (attempt RecheckSource InstallSource (calling (CallRecheck snap) (recheck_source ports snap)))
      (\<lambda>_. stage request snap 13 []) (\<lambda>e. stopped_at request snap (fst e))"
      using midway_stage [of request snap 11 "CallObserve (install_destination request) (Inr observed)" "[]"]
      by (intro triple_pre [OF recheck']) simp
  qed
qed (simp_all add: calls_eval)

lemma recapture_stage:
  "triple (stage request snap 13 []) (recapture request ports (configuration_plan request snap))
    (\<lambda>_. stage request snap 14 []) (\<lambda>e. stopped_at request snap (fst e))"
  unfolding recapture_def
proof (rule triple_bind [OF triple_perform [where n = 13 and d = DidConfigurationInstalled]])
  fix configuration
  let ?e = "CallRecapture (configuration_plan request snap) (Inr configuration)"
  show "triple (midway request snap 13 ?e [])
      (if install_mode request \<noteq> Verbatim \<and> \<not> lock_recaptured configuration
       then op_fail (RecaptureConfiguration, Incomplete [LockNotRecaptured]) else op_return ())
      (\<lambda>_. stage request snap 14 []) (\<lambda>e. stopped_at request snap (fst e))"
    using midway_stopped [of request snap 13 ?e _ RecaptureConfiguration] midway_stage [of request snap 13 ?e "[]"]
    by (intro triple_if triple_fail triple_return) (auto simp: calls_eval)
qed (simp_all add: calls_eval)

lemma publish_stage:
  "triple (stage request snap 14 [])
    (publish_destination request session ports cancellation (configuration_plan request snap))
    (\<lambda>_. stage request snap 17 []) (\<lambda>e. stopped_at request snap (fst e))"
proof -
  let ?plan = "configuration_plan request snap"
  have poll: "triple (stage request snap 14 []) (checkpoint cancellation PublishManifest)
      (\<lambda>_. stage request snap 15 []) (\<lambda>e. stopped_at request snap (fst e))"
    using triple_checkpoint [of request snap 14 PublishManifest] by (simp add: calls_eval)
  have manifest: "triple (stage request snap 15 [])
      (perform PublishManifest InstallPort (CallPublish ?plan) m (\<lambda>_. did DidManifestPublished))
      (\<lambda>x. midway request snap 15 (CallPublish ?plan (Inr x)) []) (\<lambda>e. stopped_at request snap (fst e))" for m
    using triple_perform [of request snap 15 "CallPublish ?plan" PublishManifest DidManifestPublished "\<lambda>_. did DidManifestPublished"]
    by (simp add: calls_eval)
  have ready: "triple (stage request snap 16 [])
      (op_bind (perform MarkReadyStep InstallStore
        (CallApply (MarkReady (install_name request) (install_allocation request))) m
        (\<lambda>_. did DidRowReady)) (\<lambda>_. op_return ()))
      (\<lambda>_. stage request snap 17 []) (\<lambda>e. stopped_at request snap (fst e))" for m
    using triple_passing [of request snap 16 "CallApply (MarkReady (install_name request) (install_allocation request))" MarkReadyStep
        DidRowReady "\<lambda>_. did DidRowReady"]
    by (intro triple_bind [OF _ triple_return]) (simp_all add: calls_eval)
  have rest: "triple (midway request snap 15 (CallPublish ?plan (Inr receipt)) [])
      (if \<not> marker_regenerated receipt
       then op_fail (PublishManifest, Incomplete [MarkerNotRegenerated])
       else op_bind (perform MarkReadyStep InstallStore
        (CallApply (MarkReady (install_name request) (install_allocation request))) m
        (\<lambda>_. did DidRowReady)) (\<lambda>_. op_return ()))
      (\<lambda>_. stage request snap 17 []) (\<lambda>e. stopped_at request snap (fst e))" for receipt m
    using midway_stopped [of request snap 15 "CallPublish ?plan (Inr receipt)" _ PublishManifest]
      midway_stage [of request snap 15 "CallPublish ?plan (Inr receipt)" "[]"]
    by (intro triple_if triple_fail triple_pre [OF ready]) (simp_all add: calls_eval)
  show ?thesis
    unfolding publish_destination_def Let_def
    by (rule triple_bind [OF poll triple_bind [OF manifest rest]])
qed

subsection \<open>Admission\<close>

definition unstarted :: "'s InstallState \<Rightarrow> bool" where
  "unstarted s \<longleftrightarrow> is_trace s = [] \<and> progress_effects (is_progress s) = []"

text \<open>
  Stopped before anything was reserved. The source, the destination and the family are asked in this
  order; a call that gives no answer stops the run, but for a source layout that cannot be cloned, which
  counts as a refusal; the refusals of all three are reported together.
\<close>

definition admission_stopped :: "InstallRequest \<Rightarrow> InstallEvent list \<Rightarrow> InstallStep \<Rightarrow> InstallError \<Rightarrow> bool" where
  "admission_stopped request calls step error \<longleftrightarrow>
     (let source = CallSnapshot (install_source request); destination = CallObserve (install_destination request) in
      (\<exists>e. calls = [source (Inl e)] \<and> (\<forall>layout. e \<noteq> PortLayout layout) \<and>
         step = InventorySource \<and> error = InstallSource e) \<or>
      (\<exists>answer. (\<forall>e. answer = Inl e \<longrightarrow> (\<exists>layout. e = PortLayout layout)) \<and>
        ((\<exists>e. calls = [source answer, destination (Inl e)] \<and> step = ObserveDestination \<and> error = InstallPort e) \<or>
         (\<exists>observed e. calls = [source answer, destination (Inr observed), CallReread (Inl e)] \<and>
            step = Reserve \<and> error = InstallStore e) \<or>
         (\<exists>observed found. calls = [source answer, destination (Inr observed), CallReread (Inr found)] \<and>
            (let others = destination_refusals request observed @ family_refusals request found in
             case answer of
               Inl e \<Rightarrow> step = InventorySource \<and>
                 (\<exists>layout. e = PortLayout layout \<and> error = InstallRefused (SourceLayout layout # others))
             | Inr snap \<Rightarrow> others @ source_refusals request snap \<noteq> [] \<and> step = Reserve \<and>
                 error = InstallRefused (others @ source_refusals request snap))))))"

definition refused_early :: "InstallRequest \<Rightarrow> InstallStep \<times> InstallError \<Rightarrow> 's InstallState \<Rightarrow> bool" where
  "refused_early request e s \<longleftrightarrow>
     admission_stopped request (is_trace s) (fst e) (snd e) \<and> progress_effects (is_progress s) = []"

lemma decide_admission_Inr:
  "decide_admission request refusals found = Inr snap \<longleftrightarrow>
     found = Some snap \<and> refusals = [] \<and> source_admitted request snap"
  by (auto simp: decide_admission_def Let_def split: option.splits if_splits)

lemma admit_observed_run:
  assumes run: "admit_observed request session ports refusals found s = (r, s')"
    and s: "is_trace s = [CallSnapshot (install_source request) r0]" "progress_effects (is_progress s) = []"
    and found: "case r0 of Inr snap \<Rightarrow> refusals = [] \<and> found = Some snap
      | Inl e \<Rightarrow> \<exists>layout. e = PortLayout layout \<and> refusals = [SourceLayout layout] \<and> found = None"
  shows "case r of Inl e \<Rightarrow> refused_early request e s'
    | Inr snap \<Rightarrow> stage request snap 3 [] s' \<and> source_admitted request snap"
proof -
  obtain ro w where ro: "observe_destination ports (install_destination request) (is_world s) = (ro, w)"
    by (cases "observe_destination ports (install_destination request) (is_world s)")
  obtain rr w' where rr: "sess_reread session w = (rr, w')"
    by (cases "sess_reread session w")
  have answer: "\<forall>e. r0 = Inl e \<longrightarrow> (\<exists>layout. e = PortLayout layout)"
    using found by (auto split: sum.splits)
  show ?thesis
  proof (cases "\<exists>observed found'. ro = Inr observed \<and> rr = Inr found'")
    case False
    then show ?thesis
      using run s ro rr answer
      by (cases ro; cases rr)
        (auto simp: admit_observed_def op_bind_eq calling_def refused_early_def admission_stopped_def Let_def)
  next
    case True
    then obtain observed found' where ok: "ro = Inr observed" "rr = Inr found'"
      by blast
    have s': "is_trace s' = [CallSnapshot (install_source request) r0,
          CallObserve (install_destination request) (Inr observed), CallReread (Inr found')]"
      "progress_effects (is_progress s') = []"
      and r: "r = decide_admission request
        (refusals @ destination_refusals request observed @ family_refusals request found') found"
      using run s ro rr ok by (auto simp: admit_observed_def op_bind_eq calling_def)
    show ?thesis
    proof (cases r)
      case (Inl e)
      then show ?thesis
        using s' r found answer
        by (cases r0) (auto simp: refused_early_def admission_stopped_def Let_def decide_admission_def split: if_splits)
    next
      case (Inr snap)
      with r have "decide_admission request
          (refusals @ destination_refusals request observed @ family_refusals request found') found = Inr snap"
        by simp
      with found have adm: "r0 = Inr snap" "destination_refusals request observed = []"
        "family_refusals request found' = []" "source_admitted request snap"
        by (auto simp: decide_admission_Inr split: sum.splits)
      have "stage request snap 3 [] s'"
        using s' adm
        by (simp add: stage_def follows_def install_script_def calls_eval upt_rec numeral_eq_Suc)
      with Inr adm show ?thesis
        by simp
    qed
  qed
qed

lemma admit_stage:
  "triple unstarted (admit request session ports)
    (\<lambda>snap s. stage request snap 3 [] s \<and> source_admitted request snap) (refused_early request)"
proof -
  have "case r of Inl e \<Rightarrow> refused_early request e s'
      | Inr snap \<Rightarrow> stage request snap 3 [] s' \<and> source_admitted request snap"
    if s: "unstarted s" and run: "admit request session ports s = (r, s')" for s r s'
  proof -
    obtain r0 w where r0: "snapshot_source ports (install_source request) (is_world s) = (r0, w)"
      by (cases "snapshot_source ports (install_source request) (is_world s)")
    define s1 where "s1 = s\<lparr>is_world := w, is_trace := [CallSnapshot (install_source request) r0]\<rparr>"
    have s1: "calling (CallSnapshot (install_source request)) (snapshot_source ports (install_source request)) s = (r0, s1)"
      using s r0 by (simp add: calling_def s1_def unstarted_def)
    have t: "is_trace s1 = [CallSnapshot (install_source request) r0]" "progress_effects (is_progress s1) = []"
      using s by (simp_all add: s1_def unstarted_def)
    show ?thesis
    proof (cases "\<exists>e. r0 = Inl e \<and> (\<forall>layout. e \<noteq> PortLayout layout)")
      case True
      then obtain e where e: "r0 = Inl e" "\<forall>layout. e \<noteq> PortLayout layout"
        by blast
      then have "(r, s') = (Inl (InventorySource, InstallSource e), s1)"
        using run s1 by (cases e) (simp_all add: admit_def op_match_eq)
      then show ?thesis
        using t e by (simp add: refused_early_def admission_stopped_def)
    next
      case False
      then obtain refusals found where "admit_observed request session ports refusals found s1 = (r, s')"
        "case r0 of Inr snap \<Rightarrow> refusals = [] \<and> found = Some snap
         | Inl e \<Rightarrow> \<exists>layout. e = PortLayout layout \<and> refusals = [SourceLayout layout] \<and> found = None"
        using run s1 by (cases r0) (auto simp: admit_def op_match_eq)
      from admit_observed_run [OF this(1) t this(2)] show ?thesis .
    qed
  qed
  then show ?thesis
    unfolding triple_def by (fastforce split: prod.splits sum.splits)
qed

subsection \<open>The whole run\<close>

definition ended :: "InstallRequest \<Rightarrow> InstallStep \<times> InstallError \<Rightarrow> 's InstallState \<Rightarrow> bool" where
  "ended request e s \<longleftrightarrow>
     refused_early request e s \<or> (\<exists>snap. source_admitted request snap \<and> stopped_at request snap (fst e) s)"

lemma run_stage:
  "triple unstarted (install_run request session copier ports cancellation)
    (\<lambda>_ s. \<exists>snap. source_admitted request snap \<and> stage request snap 17 [] s) (ended request)"
proof -
  have rest: "triple (\<lambda>s. stage request snap 3 [] s \<and> source_admitted request snap)
      (op_bind (reserve request session ports cancellation) (\<lambda>_.
       op_bind (build_tree request copier ports cancellation snap) (\<lambda>_.
       op_bind (install_metadata request session ports) (\<lambda>_.
       op_bind (check_destination request ports snap) (\<lambda>_.
       op_bind (recapture request ports (configuration_plan request snap)) (\<lambda>_.
         publish_destination request session ports cancellation (configuration_plan request snap)))))))
      (\<lambda>_ s. \<exists>snap. source_admitted request snap \<and> stage request snap 17 [] s) (ended request)" for snap
  proof (cases "source_admitted request snap")
    case True
    have "triple (stage request snap 3 [])
      (op_bind (reserve request session ports cancellation) (\<lambda>_.
       op_bind (build_tree request copier ports cancellation snap) (\<lambda>_.
       op_bind (install_metadata request session ports) (\<lambda>_.
       op_bind (check_destination request ports snap) (\<lambda>_.
       op_bind (recapture request ports (configuration_plan request snap)) (\<lambda>_.
         publish_destination request session ports cancellation (configuration_plan request snap)))))))
      (\<lambda>_. stage request snap 17 []) (\<lambda>e. stopped_at request snap (fst e))"
      by (rule triple_bind [OF reserve_stage], rule triple_bind [OF build_stage], rule triple_bind [OF metadata_stage],
          rule triple_bind [OF check_stage], rule triple_bind [OF recapture_stage], rule publish_stage)
    then show ?thesis
      by (rule triple_conseq) (use True in \<open>auto simp: ended_def\<close>)
  next
    case False
    then show ?thesis
      by (simp add: triple_def)
  qed
  have admitted: "triple unstarted (admit request session ports)
      (\<lambda>snap s. stage request snap 3 [] s \<and> source_admitted request snap) (ended request)"
    by (rule triple_conseq [OF admit_stage]) (simp_all add: ended_def)
  show ?thesis
    unfolding install_run_def by (rule triple_bind [OF admitted rest])
qed

lemma calls_before_ready:
  assumes "(install_calls request snap ! i) e" "i < 16"
  shows "DidRowReady \<notin> set (call_effects e)"
proof -
  have not_ready: "DidRowReady \<in> set (call_effects e) \<Longrightarrow> \<exists>n a r. e = CallApply (MarkReady n a) (Inr r)"
    by (cases e rule: call_effects.cases) auto
  have "i \<in> set [0, 1, 2, 3, 4, 5, 6, 7, 8, 9, 10, 11, 12, 13, 14, 15]"
    using assms(2) by simp presburger
  then show ?thesis
    using assms(1) not_ready by (auto simp: calls_eval split: if_splits)
qed

lemma script_before_ready:
  assumes "follows (take n (install_script request snap)) tr" "n \<le> 16"
  shows "DidRowReady \<notin> set (effects_of_calls tr)"
proof -
  have "DidRowReady \<notin> set (call_effects e)" if "e \<in> set tr" for e
  proof -
    obtain i where i: "i < length tr" "tr ! i = e"
      using \<open>e \<in> set tr\<close> by (auto simp: in_set_conv_nth)
    with assms have "(install_calls request snap ! i) e" "i < 16"
      by (auto simp: follows_def list_all2_conv_all_nth script_nth)
    then show ?thesis
      by (rule calls_before_ready)
  qed
  then show ?thesis
    by (auto simp: effects_of_calls_def)
qed

text \<open>
  What a failed run did: it was stopped in the admission, or every call passed up to the one that stopped
  it, which did not pass, and under whose step the failure is reported.
\<close>

definition stopped_calls :: "InstallRequest \<Rightarrow> InstallEvent list \<Rightarrow> InstallStep \<Rightarrow> InstallError \<Rightarrow> bool" where
  "stopped_calls request calls step error \<longleftrightarrow>
     admission_stopped request calls step error \<or>
     (\<exists>snap n passed e. source_admitted request snap \<and> 3 \<le> n \<and> n < 17 \<and> calls = passed @ [e] \<and>
        follows (take n (install_script request snap)) passed \<and> (install_calls request snap ! n) e \<and>
        \<not> call_passes request snap True e \<and> install_steps request ! n = step)"

lemma ready_needs_pass:
  assumes "(install_calls request snap ! n) e" "n < 17" "\<not> call_passes request snap True e"
  shows "DidRowReady \<notin> set (call_effects e)"
proof (cases "n < 16")
  case True
  with assms(1) show ?thesis by (rule calls_before_ready)
next
  case False
  then have "n = 16"
    using assms(2) by simp
  with assms(1,3) show ?thesis
    by (auto simp: calls_eval is_ok_def split: sum.splits)
qed

lemma ended_calls:
  assumes "ended request e s"
  shows "stopped_calls request (is_trace s) (fst e) (snd e) \<and> DidRowReady \<notin> set (effects_of_calls (is_trace s)) \<and>
    progress_effects (is_progress s) = effects_of_calls (is_trace s)"
  using assms unfolding ended_def
proof (elim disjE exE conjE)
  assume early: "refused_early request e s"
  then have "effects_of_calls (is_trace s) = []"
    by (auto simp: refused_early_def admission_stopped_def Let_def)
  with early show ?thesis
    by (simp add: stopped_calls_def refused_early_def)
next
  fix snap assume ok: "source_admitted request snap" and "stopped_at request snap (fst e) s"
  then obtain n c tr where n: "3 \<le> n" "n < 17" "install_steps request ! n = fst e" "\<not> call_passes request snap True c"
    "is_trace s = tr @ [c]" "follows (take n (install_script request snap)) tr" "(install_calls request snap ! n) c"
    "progress_effects (is_progress s) = effects_of_calls (is_trace s)"
    by (auto simp: stopped_at_def midway_def)
  then have "stopped_calls request (is_trace s) (fst e) (snd e)"
    using ok unfolding stopped_calls_def by blast
  then show ?thesis
    using n script_before_ready [OF n(6)] ready_needs_pass [OF n(7,2,4)] by simp
qed

lemma stop_run:
  assumes "stop dbg session name step error s = (failure, s')"
    and "progress_effects (is_progress s) = effects_of_calls (is_trace s)"
    and "DidRowReady \<notin> set (effects_of_calls (is_trace s))"
  shows "failed_step failure = step \<and> failed_error failure = error \<and> (\<exists>tail. is_trace s' = is_trace s @ tail \<and>
    failed_effects failure = effects_of_calls (is_trace s @ tail) \<and>
    (if DidRowAllocated \<in> set (effects_of_calls (is_trace s))
     then \<exists>answer. tail = [CallApply (RecordError name
       (step_str (failed_step failure) @ lit '': '' @ show_install_error dbg (failed_error failure))) answer]
     else tail = []))"
proof (cases "DidRowAllocated \<in> set (effects_of_calls (is_trace s))")
  case True
  let ?change = "RecordError name (step_str step @ lit '': '' @ show_install_error dbg error)"
  obtain answer w where "sess_apply session ?change (is_world s) = (answer, w)"
    by (cases "sess_apply session ?change (is_world s)")
  then show ?thesis
    using assms True
    by (intro conjI exI [of _ "[CallApply ?change answer]"]; cases answer)
       (auto simp: stop_def Let_def calling_def)
next
  case False
  then show ?thesis
    using assms by (auto simp: stop_def Let_def)
qed

subsection \<open>Properties\<close>

text \<open>
  C7. An installation asks about source, destination and family, and then makes its calls in the
  documented order, each only after every earlier one answered what it must. It succeeds only with the
  whole script: the source admitted, destination and family free of refusals, no poll cancelled, the row
  allocated, the tree built, the pointer installed, the destination complete, the source unchanged, the
  lock recaptured (but for a verbatim copy), the marker regenerated, and the row marked ready as the last
  call. It fails only in the admission, with a call that gave no answer or with all refusals it found, or
  at a call that did not pass, and names the step of that call; so a run whose calls all pass succeeds.
  The only sequel of a failure, once the row was allocated, is the record of the diagnostic on that row.
  The reported effects are those of the completed calls.
\<close>

theorem install_follows_the_order:
  assumes "install dbg request session copier ports cancellation world = (r, s)"
  shows "\<exists>calls tail. is_trace s = calls @ tail \<and>
    (case r of
       Inr report \<Rightarrow> tail = [] \<and> install_effects report = effects_of_calls calls \<and>
         (\<exists>snap. source_admitted request snap \<and> follows (install_script request snap) calls)
     | Inl failure \<Rightarrow> stopped_calls request calls (failed_step failure) (failed_error failure) \<and>
         failed_effects failure = effects_of_calls (calls @ tail) \<and>
         (if DidRowAllocated \<in> set (effects_of_calls calls)
          then \<exists>answer. tail = [CallApply (RecordError (install_name request)
            (step_str (failed_step failure) @ lit '': '' @ show_install_error dbg (failed_error failure))) answer]
          else tail = []))"
proof -
  define s0 where "s0 = \<lparr>is_world = world, is_progress = default_progress, is_trace = []\<rparr>"
  have s0: "unstarted s0"
    by (simp add: s0_def unstarted_def default_progress_def)
  obtain r1 s1 where run: "install_run request session copier ports cancellation s0 = (r1, s1)"
    by (cases "install_run request session copier ports cancellation s0")
  show ?thesis
  proof (cases r1)
    case (Inr x)
    from tripleD(1) [OF run_stage s0 run [unfolded Inr]] obtain snap where
      snap: "source_admitted request snap" "stage request snap 17 [] s1"
      by blast
    have "s = s1" "\<exists>report. r = Inr report \<and> install_effects report = progress_effects (is_progress s1)"
      using assms run Inr by (auto simp: install_def s0_def)
    then show ?thesis
      using snap by (intro exI [of _ "is_trace s1"] exI [of _ "[]"]) (auto simp: stage_def)
  next
    case (Inl e)
    obtain step error where e: "e = (step, error)"
      by (cases e)
    have "ended request e s1"
      using tripleD(2) [OF run_stage s0 run [unfolded Inl]] .
    note calls = ended_calls [OF this]
    obtain failure s2 where f: "stop dbg session (install_name request) step error s1 = (failure, s2)"
      by (cases "stop dbg session (install_name request) step error s1")
    then have r: "r = Inl failure" "s = s2"
      using assms run Inl e by (auto simp: install_def s0_def)
    from stop_run [OF f] calls obtain tail where "failed_step failure = step" "failed_error failure = error"
      "is_trace s2 = is_trace s1 @ tail"
      "failed_effects failure = effects_of_calls (is_trace s1 @ tail)"
      "if DidRowAllocated \<in> set (effects_of_calls (is_trace s1))
       then \<exists>answer. tail = [CallApply (RecordError (install_name request)
         (step_str (failed_step failure) @ lit '': '' @ show_install_error dbg (failed_error failure))) answer]
       else tail = []"
      by blast
    with calls r e show ?thesis
      by (intro exI [of _ "is_trace s1"] exI [of _ tail]) simp
  qed
qed

text \<open>A world that only knows whether the pointer was installed, in which every call succeeds.\<close>

definition sample_install_session :: "bool FamilySession" where
  "sample_install_session =
     (let applied = \<lparr>applied_effects = [], applied_view = None\<rparr> in
      \<lparr>sess_root = [], sess_reread = op_return None, sess_found = (\<lambda>_ _. op_return applied),
       sess_apply = (\<lambda>_. op_return applied), sess_install_pointer = (\<lambda>_ _ _. (Inr applied, True)),
       sess_remove_pointer = (\<lambda>_. op_return applied)\<rparr>)"

definition sample_install_ports :: "bool InstallPorts" where
  "sample_install_ports =
     \<lparr>snapshot_source = (\<lambda>_. op_return \<lparr>snapshot_repositories = [], configuration_digest = [], open_gwz_merge = None\<rparr>),
      observe_destination = (\<lambda>_ w. (Inr (if w then complete_destination else absent_destination), w)),
      allocate_destination = (\<lambda>_. op_return ()), construct_repositories = (\<lambda>_. op_return ()),
      install_destination_git = (\<lambda>_. op_return \<lparr>removed_remotes = []\<rparr>),
      record_copy = (\<lambda>_. op_return \<lparr>receipt_repositories = 1, receipt_roots = 1, receipt_entries = 1\<rparr>),
      recheck_source = (\<lambda>_. op_return ()),
      recapture_configuration = (\<lambda>_. op_return \<lparr>lock_recaptured = False, generated_changes = []\<rparr>),
      publish_manifest = (\<lambda>_. op_return \<lparr>marker_regenerated = True\<rparr>)\<rparr>"

definition sample_install_request :: InstallRequest where
  "sample_install_request =
     \<lparr>install_name = MemberName (lit ''b''), install_root = [], install_source = [], install_destination = [],
      install_path = MemberPath (lit ''b''), install_source_path = None,
      install_allocation = AllocationId (lit ''x''), install_mode = Verbatim, install_branch = None,
      install_exclusions = [], install_copy_mode = CopyAuto, install_owner = None\<rparr>"

lemmas sample_install_eval =
  sample_install_session_def sample_install_ports_def sample_install_request_def install_def install_run_def
  admit_def admit_observed_def decide_admission_def source_refusals_def destination_refusals_def
  family_refusals_def reserve_def build_tree_def install_metadata_def check_destination_def recapture_def
  publish_destination_def checkpoint_def perform_def attempt_def progressing_def calling_def poll_def
  copies_the_tree_def completion_faults_def absent_destination_def complete_destination_def
  never_cancelled_def op_bind_eq op_match_eq Let_def

theorem install_follows_the_order_witness:
  "\<exists>report s snap. install (\<lambda>_. []) sample_install_request sample_install_session
       (\<lambda>_ _. op_return default_copy_report) sample_install_ports never_cancelled False = (Inr report, s) \<and>
     follows (install_script sample_install_request snap) (is_trace s)"
proof -
  let ?run = "install (\<lambda>_. []) sample_install_request sample_install_session
    (\<lambda>_ _. op_return default_copy_report) sample_install_ports never_cancelled False"
  obtain r s where run: "?run = (r, s)"
    by (cases ?run)
  moreover have "\<exists>report. fst ?run = Inr report"
    by (simp add: sample_install_eval)
  ultimately obtain report where "?run = (Inr report, s)"
    by auto
  with install_follows_the_order [OF this] show ?thesis
    by auto
qed

end
