(* ===== verification/Session_Pointer.thy ===== *)
theory Session_Pointer
  imports Session_Port
begin

text \<open>
  Installing a member's marker and pointer through the store's session leaves the family's index
  alone, when the session's root is spelled canonically: its directories are then no links, so no
  file the store writes can redirect it. The locale \<open>installing_session\<close> adds this law to the session
  contract, for the clients that install.
\<close>

locale installing_session = family_session +
  assumes install_holds: "triple (\<lambda>s. holds s v) (sess_install_pointer session n destination)
    (\<lambda>_ s. holds s v) (\<lambda>_ s. holds s v)"

subsection \<open>Hosts whose directories and indexes stay\<close>

definition keeps_dirs :: "'b host \<Rightarrow> 'b host \<Rightarrow> bool" where
  "keeps_dirs h h' \<longleftrightarrow> host_cwd h' = host_cwd h \<and>
     (\<forall>q. host_nodes h q = Some Directory \<longrightarrow> host_nodes h' q = Some Directory)"

definition keeps_indexes :: "'b host \<Rightarrow> 'b host \<Rightarrow> bool" where
  "keeps_indexes h h' \<longleftrightarrow>
     (\<forall>g b. host_nodes h (g @ [index_name]) = Some (Regular b) \<longrightarrow>
        host_nodes h' (g @ [index_name]) = Some (Regular b))"

lemma keeps_same_files: "same_files h h' \<Longrightarrow> keeps_dirs h h' \<and> keeps_indexes h h'"
  by (simp add: keeps_dirs_def keeps_indexes_def same_files_def)

lemma keeps_dirs_put:
  "host_nodes h x \<noteq> Some Directory \<Longrightarrow> same_files (put_node x v h) h' \<Longrightarrow> keeps_dirs h h'"
  by (auto simp: keeps_dirs_def same_files_def put_node_def)

lemma keeps_indexes_put:
  assumes "host_nodes h x = None \<or> last x \<noteq> index_name" "same_files (put_node x v h) h'"
  shows "keeps_indexes h h'"
  using assms by (auto simp: keeps_indexes_def same_files_def put_node_def)

lemma keeps_dirs_trans: "keeps_dirs h h' \<Longrightarrow> keeps_dirs h' h'' \<Longrightarrow> keeps_dirs h h''"
  by (simp add: keeps_dirs_def)

lemma keeps_dirs_dir: "keeps_dirs h h' \<Longrightarrow> dir_at (host_nodes h) d \<Longrightarrow> dir_at (host_nodes h') d"
  by (simp add: keeps_dirs_def dir_at_def)

lemma keeps_dirs_wf: "keeps_dirs h h' \<Longrightarrow> host_wf h \<Longrightarrow> host_wf h'"
  using keeps_dirs_dir [of h h' "host_cwd h"] by (simp add: host_wf_def keeps_dirs_def)

text \<open>The metadata directory of a canonically spelled root.\<close>

definition canonical_root :: "'b host \<Rightarrow> hpath \<Rightarrow> bool" where
  "canonical_root h root \<longleftrightarrow> (\<exists>d. root = canonical d \<and> dir_at (host_nodes h) (d @ [gwz_name]))"

lemma canonical_root_metadata:
  assumes "root = canonical d" "dir_at (host_nodes h) (d @ [gwz_name])" "host_wf h"
  shows "metadata_at h root (d @ [gwz_name])"
proof -
  have "lookup_path (host_nodes h) True False SYMLINK_LIMIT (host_cwd h) (canonical d @ [Normal gwz_name]) =
      lookup_path (host_nodes h) True False SYMLINK_LIMIT [] (map Normal (d @ [gwz_name]) @ [])"
    by (simp add: canonical_def)
  also have "\<dots> = Inr (d @ [gwz_name])"
    using assms(2) by (subst lookup_path_append_dirs) simp_all
  finally show ?thesis
    using assms by (simp add: metadata_at_def)
qed

lemma canonical_root_keeps: "keeps_dirs h h' \<Longrightarrow> canonical_root h root \<Longrightarrow> canonical_root h' root"
  unfolding canonical_root_def using keeps_dirs_dir by blast

definition store_at :: "'b codec \<Rightarrow> hpath \<Rightarrow> 'b host \<Rightarrow> FamilyView \<Rightarrow> bool" where
  "store_at c root h v \<longleftrightarrow> store_holds c root h v \<and> canonical_root h root"

lemma store_at_keeps:
  assumes "store_at c root h v" "keeps_dirs h h'" "keeps_indexes h h'"
  shows "store_at c root h' v"
proof -
  have h: "codec_ok c" "host_wf h" "stored_index c root h = Inr (Some v)"
    using assms(1) by (simp_all add: store_at_def store_holds_def)
  obtain d where d: "root = canonical d" "dir_at (host_nodes h) (d @ [gwz_name])"
    using assms(1) by (auto simp: store_at_def canonical_root_def)
  obtain g b where g: "metadata_at h root g" "host_nodes h (g @ [index_name]) = Some (Regular b)"
    using stored_index_found [OF h(3,2)] by blast
  have "g = d @ [gwz_name]"
    using metadata_at_unique [OF g(1) canonical_root_metadata [OF d h(2)]] .
  then have m: "metadata_at h' root g"
    using canonical_root_metadata [OF d(1)] keeps_dirs_dir [OF assms(2) d(2)] keeps_dirs_wf [OF assms(2) h(2)]
    by blast
  have n: "host_nodes h' (g @ [index_name]) = Some (Regular b)"
    using assms(3) g(2) by (simp add: keeps_indexes_def)
  have "stored_index c root h' = Inr (Some v)"
    using h(3) unfolding stored_index_node [OF g] stored_index_node [OF m n] .
  with h keeps_dirs_wf [OF assms(2) h(2)] canonical_root_keeps [OF assms(2)] assms(1) show ?thesis
    by (simp add: store_at_def store_holds_def)
qed

lemma store_at_same_files: "same_files h h' \<Longrightarrow> store_at c root h v \<Longrightarrow> store_at c root h' v"
  using store_at_keeps keeps_same_files by blast

lemma reads_only_at:
  assumes "reads_only m"
  shows "triple (\<lambda>h. store_at c root h v) m (\<lambda>_ h. store_at c root h v) (\<lambda>_ h. store_at c root h v)"
  using reads_onlyD [OF assms] store_at_same_files same_host_files by (blast intro: tripleI)

subsection \<open>The writing operations\<close>

lemma ensure_keeps_dirs:
  assumes "ensure_metadata_directory (w @ [Normal gwz_name]) h = (r, h')" "host_wf h"
  shows "keeps_dirs h h' \<and> keeps_indexes h h'"
proof -
  have new: "keeps_dirs h h' \<and> keeps_indexes h h'"
    if "host_nodes h (d @ [gwz_name]) = None" "same_files (put_node (d @ [gwz_name]) (Some Directory) h) h'" for d
    using keeps_dirs_put [OF _ that(2)] keeps_indexes_put [OF _ that(2)] that(1) by simp
  from ensure_result [OF assms] show ?thesis
    using new keeps_same_files by (auto split: sum.splits)
qed

lemma publish_keeps_dirs:
  assumes run: "publish blank (meta_path w n) contents h = (r, h')" and wf: "host_wf h"
    and n: "n = Utf8 s" "47 \<notin> set s"
  shows "keeps_dirs h h' \<and> (n \<noteq> index_name \<longrightarrow> keeps_indexes h h')"
  using publish_meta [OF run wf n]
proof (elim disjE exE conjE)
  fix g assume g: "host_nodes h (g @ [n]) \<noteq> Some Directory"
    "same_files (put_node (g @ [n]) (Some (Regular contents)) h) h'"
  then show ?thesis
    using keeps_dirs_put [OF g] keeps_indexes_put [OF _ g(2)] by simp
next
  assume "same_files h h'"
  then show ?thesis
    using keeps_same_files by blast
next
  assume "stray_temporary (w @ [Normal gwz_name]) s h h'"
  then obtain d u y where d: "host_nodes h (d @ [Utf8 (tmp_name s u)]) = None"
    "same_files (put_node (d @ [Utf8 (tmp_name s u)]) (Some (Regular y)) h) h'"
    by (auto simp: stray_temporary_def with_temporary_def)
  then show ?thesis
    using keeps_dirs_put [OF _ d(2)] keeps_indexes_put [OF _ d(2)] by simp
qed


subsection \<open>Predicates an operation keeps\<close>

definition preserves :: "('s \<Rightarrow> bool) \<Rightarrow> ('s, 'e, 'a) op \<Rightarrow> bool" where
  "preserves P m \<longleftrightarrow> triple P m (\<lambda>_. P) (\<lambda>_. P)"

named_theorems preserves_intros \<open>operations that keep a predicate\<close>

lemma preservesI: "(\<And>s r s'. P s \<Longrightarrow> m s = (r, s') \<Longrightarrow> P s') \<Longrightarrow> preserves P m"
  unfolding preserves_def by (rule tripleI)

lemma preserves_combinators [preserves_intros]:
  "preserves P (op_return x)" "preserves P (op_fail e)" "preserves P (op_result r)"
  "preserves P m \<Longrightarrow> preserves P (op_map_err g m)"
  by (auto simp: preserves_def intro!: triple_intros)

lemma preserves_bind [preserves_intros]:
  "preserves P m \<Longrightarrow> (\<And>x. preserves P (f x)) \<Longrightarrow> preserves P (op_bind m f)"
  unfolding preserves_def by (rule triple_bind)

lemma preserves_match [preserves_intros]:
  "preserves P m \<Longrightarrow> (\<And>r. preserves P (f r)) \<Longrightarrow> preserves P (op_match m f)"
  unfolding preserves_def by (rule triple_match)

lemma preserves_branches [preserves_intros]:
  "preserves P m \<Longrightarrow> preserves P m' \<Longrightarrow> preserves P (if b then m else m')"
  "preserves P m \<Longrightarrow> (\<And>x. preserves P (f x)) \<Longrightarrow> preserves P (case o' of None \<Rightarrow> m | Some x \<Rightarrow> f x)"
  "(\<And>e. preserves P (g e)) \<Longrightarrow> (\<And>x. preserves P (f x)) \<Longrightarrow>
    preserves P (case r of Inl e \<Rightarrow> g e | Inr x \<Rightarrow> f x)"
  "(\<And>x y. preserves P (k x y)) \<Longrightarrow> preserves P (case q of (x, y) \<Rightarrow> k x y)"
  by (auto split: option.split sum.split prod.split)

text \<open>The root's directories are kept by every operation of the session.\<close>

definition rooted :: "hpath \<Rightarrow> 'b host \<Rightarrow> bool" where
  "rooted root h \<longleftrightarrow> host_wf h \<and> canonical_root h root"

lemma rooted_keeps: "keeps_dirs h h' \<Longrightarrow> rooted root h \<Longrightarrow> rooted root h'"
  by (simp add: rooted_def keeps_dirs_wf canonical_root_keeps)

lemma rooted_reads [preserves_intros]: "reads_only m \<Longrightarrow> preserves (rooted root) m"
  by (rule preservesI) (metis reads_onlyD same_host_files keeps_same_files rooted_keeps)

lemma rooted_ensure [preserves_intros]:
  "preserves (rooted root) (ensure_metadata_directory (w @ [Normal gwz_name]))"
  by (rule preservesI) (metis ensure_keeps_dirs rooted_def rooted_keeps)

lemma rooted_publish:
  assumes "n = Utf8 s" "47 \<notin> set s"
  shows "preserves (rooted root) (publish blank (meta_path w n) contents)"
  by (rule preservesI) (metis publish_keeps_dirs [OF _ _ assms] rooted_def rooted_keeps)

lemma remove_keeps_dirs:
  assumes "publish_remove p h = (r, h')"
  shows "keeps_dirs h h'"
  using assms
  by (auto simp: publish_remove_def op_match_eq fs_remove_file_def syscall_def keeps_dirs_def put_node_def
      node_at_def split: option.splits sum.splits if_splits)

lemma rooted_remove [preserves_intros]: "preserves (rooted root) (publish_remove p)"
  by (rule preservesI) (metis remove_keeps_dirs rooted_keeps)

lemma rooted_apply: "preserves (rooted root) (session_apply c w ch)"
  unfolding session_apply_def reread_def write_index_def remove_index_def Let_def metadata_paths
  by (intro preserves_intros reads_only_read_index reads_only_stranded_by rooted_publish [OF name_slashes(1,2)])

lemma rooted_remove_pointer: "preserves (rooted root) (session_remove_pointer c w n)"
  unfolding session_remove_pointer_def reread_def Let_def metadata_paths
  by (intro preserves_intros reads_only_read_index reads_only_resolve reads_only_pointer_of reads_only_marker_of)

text \<open>Installing a pointer keeps the index as well: it writes only the marker and the pointer.\<close>

lemma at_reads [preserves_intros]: "reads_only m \<Longrightarrow> preserves (\<lambda>h. store_at c root h v) m"
  unfolding preserves_def by (rule reads_only_at)

lemma at_ensure [preserves_intros]:
  "preserves (\<lambda>h. store_at c root h v) (ensure_metadata_directory (w @ [Normal gwz_name]))"
  by (rule preservesI) (metis ensure_keeps_dirs store_at_keeps store_at_def store_holds_def)

lemma at_publish:
  assumes "n = Utf8 s" "47 \<notin> set s" "n \<noteq> index_name"
  shows "preserves (\<lambda>h. store_at c root h v) (publish blank (meta_path w n) contents)"
  by (rule preservesI)
     (metis publish_keeps_dirs [OF _ _ assms(1,2)] assms(3) store_at_keeps store_at_def store_holds_def)

lemma reads_only_encode_pointer: "reads_only (session_encode_pointer c root f p)"
  unfolding session_encode_pointer_def Let_def by (intro reads_only_intros reads_only_resolve)

lemma at_install_pointer: "preserves (\<lambda>h. store_at c root h v) (session_install_pointer c w n destination)"
  unfolding session_install_pointer_def reread_def Let_def metadata_paths
  by (intro preserves_intros reads_only_read_index reads_only_resolve reads_only_index_state
      reads_only_read_destination_pointer reads_only_encode_pointer
      at_publish [OF name_slashes(3,4) names_differ(1)] at_publish [OF name_slashes(5,6) names_differ(2)])

lemma triple_preserves:
  assumes "triple P m Q E" "preserves R m"
  shows "triple (\<lambda>s. P s \<and> R s) m (\<lambda>x s. Q x s \<and> R s) (\<lambda>e s. E e s \<and> R s)"
  using assms unfolding preserves_def triple_def by (fastforce split: prod.splits sum.splits)

lemma store_at_rooted: "store_at c root h v \<longleftrightarrow> store_holds c root h v \<and> rooted root h"
  by (auto simp: store_at_def rooted_def store_holds_def)

interpretation root: installing_session "store_session c session" "store_at c (session_root session)"
  for c :: "'b codec" and session :: LockedFamilySession
proof
  let ?at = "store_at c (session_root session)"
  fix h v ch n destination
  show "bt_wf (view_members v)" if "?at h v"
    using that store.holds_wf by (auto simp: store_at_def)
  show "triple (\<lambda>h. ?at h v) (sess_reread (store_session c session))
      (\<lambda>x h. ?at h v \<and> x = Some v) (\<lambda>_ h. ?at h v)"
    unfolding store_at_rooted
    by (rule triple_conseq [OF triple_preserves [OF store.reread_holds, of "rooted (session_root session)"]])
       (auto simp: store_session_def reread_def intro!: preserves_intros reads_only_read_index)
  show "triple (\<lambda>h. ?at h v) (sess_apply (store_session c session) ch)
      (\<lambda>_ h. \<exists>vc. validate_transition v ch = Inr vc \<and> ?at h (validated_next vc))
      (\<lambda>_ h. ?at h v \<or> (\<exists>vc. validate_transition v ch = Inr vc \<and> ?at h (validated_next vc)))"
    if "change_typed ch" "ch \<noteq> Disband"
    unfolding store_at_rooted
    by (rule triple_conseq [OF triple_preserves [OF store.apply_holds [OF that], of "rooted (session_root session)"]])
       (auto simp: store_session_def rooted_apply)
  show "triple (\<lambda>h. ?at h v) (sess_remove_pointer (store_session c session) n)
      (\<lambda>_ h. ?at h v) (\<lambda>_ h. ?at h v)"
    unfolding store_at_rooted
    by (rule triple_conseq [OF triple_preserves [OF store.remove_holds, of "rooted (session_root session)"]])
       (auto simp: store_session_def rooted_remove_pointer)
  show "triple (\<lambda>h. ?at h v) (sess_install_pointer (store_session c session) n destination)
      (\<lambda>_ h. ?at h v) (\<lambda>_ h. ?at h v)"
    using at_install_pointer by (simp add: store_session_def preserves_def)
qed

end
