(* ===== verification/Install_Index.thy ===== *)
theory Install_Index
  imports Install_Proofs Session_Pointer
begin

text \<open>
  What an installation leaves in the family's index, over any session that keeps the contract
  \<open>installing_session\<close>, and then over the store: whatever fails, the index differs from the one before
  at most in the new member's row, and the row is listed as ready only when the run got as far as
  marking it.
\<close>

subsection \<open>The new row\<close>

definition with_row :: "FamilyView \<Rightarrow> MemberName \<Rightarrow> MemberRow \<Rightarrow> FamilyView" where
  "with_row v n row = v\<lparr>view_members := bt_insert n row (view_members v)\<rparr>"

definition ready_row :: "InstallRequest \<Rightarrow> MemberRow" where
  "ready_row request = (request_row request)\<lparr>row_state := Ready\<rparr>"

definition diagnosed_row :: "InstallRequest \<Rightarrow> ustr \<Rightarrow> MemberRow" where
  "diagnosed_row request text = (request_row request)\<lparr>row_last_error := Some text\<rparr>"

text \<open>The index before, with the given row added, which was free to add.\<close>

definition index_with ::
    "('s \<Rightarrow> FamilyView \<Rightarrow> bool) \<Rightarrow> InstallRequest \<Rightarrow> FamilyView \<Rightarrow> MemberRow \<Rightarrow> 's \<Rightarrow> bool" where
  "index_with holds request v row w \<longleftrightarrow>
     change_guard v (Allocate (install_name request) (request_row request)) \<and>
     holds w (with_row v (install_name request) row)"

text \<open>Ports, copier and cancellation leave the index alone: they work on the source and the destination.\<close>

definition install_ports_keep ::
    "('s \<Rightarrow> FamilyView \<Rightarrow> bool) \<Rightarrow> 's tree_copier \<Rightarrow> 's InstallPorts \<Rightarrow> 's cancellation \<Rightarrow> bool" where
  "install_ports_keep holds copier ports cancellation \<longleftrightarrow>
     (\<forall>v.
       (\<forall>q. preserves (\<lambda>w. holds w v) (copier q cancellation)) \<and>
       (\<forall>p. preserves (\<lambda>w. holds w v) (snapshot_source ports p)) \<and>
       (\<forall>p. preserves (\<lambda>w. holds w v) (observe_destination ports p)) \<and>
       (\<forall>p. preserves (\<lambda>w. holds w v) (allocate_destination ports p)) \<and>
       (\<forall>q. preserves (\<lambda>w. holds w v) (construct_repositories ports q)) \<and>
       (\<forall>p. preserves (\<lambda>w. holds w v) (install_destination_git ports p)) \<and>
       (\<forall>p. preserves (\<lambda>w. holds w v) (record_copy ports p)) \<and>
       (\<forall>q. preserves (\<lambda>w. holds w v) (recheck_source ports q)) \<and>
       (\<forall>q. preserves (\<lambda>w. holds w v) (recapture_configuration ports q)) \<and>
       (\<forall>q. preserves (\<lambda>w. holds w v) (publish_manifest ports q)) \<and>
       (\<forall>w. holds w v \<longrightarrow> holds (snd (cancellation w)) v))"

lemma modify_with_row:
  assumes "bt_wf (view_members v)"
  shows "(with_row v n row)\<lparr>view_members := bt_modify n f (view_members (with_row v n row))\<rparr> = with_row v n (f row)"
proof -
  have "bt_modify n f (bt_insert n row (view_members v)) = bt_insert n (f row) (view_members v)"
    using assms by (intro bt.wf_ext) (auto simp: bt.get_simps bt.wf_intros)
  then show ?thesis
    by (simp add: with_row_def)
qed

lemma get_with_row: "bt_get (view_members (with_row v n row)) n = Some row"
  by (simp add: with_row_def bt.get_simps)

subsection \<open>Contracts of calls, over the world and the effects\<close>

definition at_state :: "('s \<Rightarrow> InstallEffect list \<Rightarrow> bool) \<Rightarrow> 's InstallState \<Rightarrow> bool" where
  "at_state P s \<longleftrightarrow> P (is_world s) (progress_effects (is_progress s))"

lemma calling_world:
  assumes "\<And>d. triple (\<lambda>w. P w d) m (\<lambda>x w. Q x w d) (\<lambda>e w. E e w d)"
  shows "triple (at_state P) (calling ev m) (\<lambda>x. at_state (Q x)) (\<lambda>e. at_state (E e))"
proof (rule tripleI)
  fix s x s' assume s: "at_state P s" "calling ev m s = (Inr x, s')"
  then show "at_state (Q x) s'"
    using tripleD(1) [OF assms [of "progress_effects (is_progress s)"], of "is_world s" x]
    by (auto simp: at_state_def calling_def split: prod.splits)
next
  fix s e s' assume s: "at_state P s" "calling ev m s = (Inl e, s')"
  then show "at_state (E e) s'"
    using tripleD(2) [OF assms [of "progress_effects (is_progress s)"], of "is_world s" e]
    by (auto simp: at_state_def calling_def split: prod.splits)
qed

lemma called:
  assumes "\<And>d. triple (\<lambda>w. P w d) m (\<lambda>x w. Q x w d) (\<lambda>e w. E (step, wrap e) w d)"
  shows "triple (at_state P) (attempt step wrap (calling ev m)) (\<lambda>x. at_state (Q x)) (\<lambda>e. at_state (E e))"
  unfolding attempt_def by (rule triple_map_err, rule calling_world, rule assms)

lemma performed:
  assumes "\<And>d. triple (\<lambda>w. P w d) m (\<lambda>x w. Q x w (d @ [effect])) (\<lambda>e w. E (step, wrap e) w d)"
    and "\<And>x p. progress_effects (note x p) = progress_effects p @ [effect]"
  shows "triple (at_state P) (perform step wrap ev m note) (\<lambda>x. at_state (Q x)) (\<lambda>e. at_state (E e))"
  unfolding perform_def
proof (rule triple_bind [OF called [where Q = "\<lambda>x w d. Q x w (d @ [effect])", OF assms(1)]])
  fix x
  show "triple (at_state (\<lambda>w d. Q x w (d @ [effect]))) (op_bind (progressing (note x)) (\<lambda>_. op_return x))
      (\<lambda>x. at_state (Q x)) (\<lambda>e. at_state (E e))"
    by (simp add: triple_def op_bind_def progressing_def at_state_def assms(2))
qed

subsection \<open>Stages of the index\<close>

definition index_before :: "('s \<Rightarrow> FamilyView \<Rightarrow> bool) \<Rightarrow> FamilyView \<Rightarrow> 's \<Rightarrow> InstallEffect list \<Rightarrow> bool" where
  "index_before holds v w d \<longleftrightarrow> holds w v \<and> d = []"

text \<open>The row was allocated, and neither marked ready nor given a diagnostic.\<close>

definition row_pending :: "InstallEffect list \<Rightarrow> bool" where
  "row_pending d \<longleftrightarrow> DidRowAllocated \<in> set d \<and> DidRowReady \<notin> set d \<and> DidErrorRecorded \<notin> set d"

definition index_creating ::
    "('s \<Rightarrow> FamilyView \<Rightarrow> bool) \<Rightarrow> InstallRequest \<Rightarrow> FamilyView \<Rightarrow> 's \<Rightarrow> InstallEffect list \<Rightarrow> bool" where
  "index_creating holds request v w d \<longleftrightarrow>
     index_with holds request v (request_row request) w \<and> row_pending d"

definition index_failing ::
    "('s \<Rightarrow> FamilyView \<Rightarrow> bool) \<Rightarrow> InstallRequest \<Rightarrow> FamilyView \<Rightarrow> InstallStep \<times> InstallError \<Rightarrow> 's \<Rightarrow>
     InstallEffect list \<Rightarrow> bool" where
  "index_failing holds request v e w d \<longleftrightarrow>
     (d = [] \<and> (holds w v \<or> (fst e = Reserve \<and> index_with holds request v (request_row request) w))) \<or>
     (row_pending d \<and>
       (index_with holds request v (request_row request) w \<or>
        (fst e = MarkReadyStep \<and> index_with holds request v (ready_row request) w)))"

text \<open>What a failed installation leaves, by the effects it reports.\<close>

definition index_after_failure ::
    "('s \<Rightarrow> FamilyView \<Rightarrow> bool) \<Rightarrow> (LayoutHazard list \<Rightarrow> ustr) \<Rightarrow> InstallRequest \<Rightarrow> FamilyView \<Rightarrow>
     InstallFailure \<Rightarrow> 's \<Rightarrow> bool" where
  "index_after_failure holds dbg request v failure w \<longleftrightarrow>
     (let effects = failed_effects failure; creating = request_row request;
          diagnosed = diagnosed_row request
            (step_str (failed_step failure) @ lit '': '' @ show_install_error dbg (failed_error failure)) in
      if effects = []
      then holds w v \<or> (failed_step failure = Reserve \<and> index_with holds request v creating w)
      else DidRowAllocated \<in> set effects \<and> DidRowReady \<notin> set effects \<and>
        (if DidErrorRecorded \<in> set effects
         then index_with holds request v diagnosed w
         else index_with holds request v creating w \<or> index_with holds request v diagnosed w \<or>
           (failed_step failure = MarkReadyStep \<and> index_with holds request v (ready_row request) w)))"

lemma failing_before: "index_before holds v w d \<Longrightarrow> index_failing holds request v e w d"
  by (simp add: index_before_def index_failing_def)

lemma failing_creating: "index_creating holds request v w d \<Longrightarrow> index_failing holds request v e w d"
  by (simp add: index_creating_def index_failing_def)

lemma keeps_creating:
  assumes "\<And>v. preserves (\<lambda>w. holds w v) m"
  shows "triple (\<lambda>w. index_creating holds request v w d) m
    (\<lambda>_ w. index_creating holds request v w d) (\<lambda>e w. index_failing holds request v (f e) w d)"
  using assms [of "with_row v (install_name request) (request_row request)"]
  unfolding preserves_def index_creating_def index_failing_def index_with_def
  by (rule triple_conseq [OF triple_conj [where R = "change_guard v (Allocate (install_name request) (request_row request)) \<and>
      row_pending d"]]) simp_all

lemma keeps_before:
  assumes "\<And>v. preserves (\<lambda>w. holds w v) m"
  shows "triple (\<lambda>w. index_before holds v w d) m
    (\<lambda>_ w. index_before holds v w d) (\<lambda>_ w. index_before holds v w d)"
  using assms [of v] unfolding preserves_def index_before_def by (rule triple_conj)

lemma called_creating:
  assumes "\<And>v. preserves (\<lambda>w. holds w v) m"
  shows "triple (at_state (index_creating holds request v)) (attempt step wrap (calling ev m))
    (\<lambda>_. at_state (index_creating holds request v)) (\<lambda>e. at_state (index_failing holds request v e))"
  by (rule called, rule keeps_creating [OF assms])

lemma called_before:
  assumes "\<And>v. preserves (\<lambda>w. holds w v) m"
  shows "triple (at_state (index_before holds v)) (calling ev m)
    (\<lambda>_. at_state (index_before holds v)) (\<lambda>_. at_state (index_before holds v))"
  by (rule calling_world, rule keeps_before [OF assms])

lemma performed_creating:
  assumes "\<And>v. preserves (\<lambda>w. holds w v) m" "effect \<notin> {DidRowReady, DidErrorRecorded}"
    and "\<And>x p. progress_effects (note x p) = progress_effects p @ [effect]"
  shows "triple (at_state (index_creating holds request v)) (perform step wrap ev m note)
    (\<lambda>_. at_state (index_creating holds request v)) (\<lambda>e. at_state (index_failing holds request v e))"
  by (rule performed [OF triple_conseq [OF keeps_creating [OF assms(1)]] assms(3)])
     (use assms(2) in \<open>auto simp: index_creating_def row_pending_def\<close>)

lemma preserves_poll: "(\<And>w. P w \<Longrightarrow> P (snd (cancellation w))) \<Longrightarrow> preserves P (poll cancellation)"
  by (rule preservesI) (metis poll_def prod.case_eq_if snd_conv)

lemma checkpoint_creating:
  assumes "\<And>v. preserves (\<lambda>w. holds w v) (poll cancellation)"
  shows "triple (at_state (index_creating holds request v)) (checkpoint cancellation step)
    (\<lambda>_. at_state (index_creating holds request v)) (\<lambda>e. at_state (index_failing holds request v e))"
  unfolding checkpoint_def
  by (rule triple_bind [OF called_creating [OF assms]], rule triple_if, rule triple_fail)
     (auto simp: at_state_def failing_creating intro: triple_return)

lemma install_ports_keepD:
  assumes "install_ports_keep holds copier ports cancellation"
  shows "preserves (\<lambda>w. holds w v) (copier q cancellation)" "preserves (\<lambda>w. holds w v) (snapshot_source ports p)"
    "preserves (\<lambda>w. holds w v) (observe_destination ports p)"
    "preserves (\<lambda>w. holds w v) (allocate_destination ports p)"
    "preserves (\<lambda>w. holds w v) (construct_repositories ports qc)"
    "preserves (\<lambda>w. holds w v) (install_destination_git ports p)"
    "preserves (\<lambda>w. holds w v) (record_copy ports p)"
    "preserves (\<lambda>w. holds w v) (recheck_source ports snap)"
    "preserves (\<lambda>w. holds w v) (recapture_configuration ports plan)"
    "preserves (\<lambda>w. holds w v) (publish_manifest ports plan)"
    "preserves (\<lambda>w. holds w v) (poll cancellation)"
  using assms preserves_poll [of "\<lambda>w. holds w v" cancellation] unfolding install_ports_keep_def by blast+

context installing_session
begin

lemma reread_preserves: "preserves (\<lambda>w. holds w v) (sess_reread session)"
  unfolding preserves_def by (rule triple_conseq [OF reread_holds]) simp_all

lemma admit_index:
  assumes ports: "install_ports_keep holds copier ports cancellation"
  shows "triple (at_state (index_before holds v)) (admit request session ports)
    (\<lambda>_. at_state (index_before holds v)) (\<lambda>e. at_state (index_failing holds request v e))"
proof -
  let ?before = "at_state (index_before holds v)" and ?failing = "\<lambda>e. at_state (index_failing holds request v e)"
  have fails: "triple ?before (op_fail e) (\<lambda>_. ?before) ?failing" for e
    by (rule triple_fail) (simp add: at_state_def failing_before)
  have result: "triple ?before (op_result r) (\<lambda>_. ?before) ?failing" for r
    by (rule triple_result) (simp_all add: at_state_def failing_before)
  have call: "triple ?before (op_map_err f (calling ev m)) (\<lambda>_. ?before) ?failing"
    if "\<And>v. preserves (\<lambda>w. holds w v) m" for f ev m
    by (rule triple_map_err [OF triple_conseq [OF called_before [where v = v, OF that]]])
       (auto simp: at_state_def intro: failing_before)
  have observed: "triple ?before (admit_observed request session ports refusals found) (\<lambda>_. ?before) ?failing"
    for refusals found
    unfolding admit_observed_def
    by (rule triple_bind [OF call [OF install_ports_keepD(3) [OF ports]]], rule triple_bind [OF call [OF reread_preserves]],
        rule result)
  have next': "triple ?before (case r of
        Inr snapshot \<Rightarrow> admit_observed request session ports [] (Some snapshot)
      | Inl error \<Rightarrow> (case error of
          PortLayout layout \<Rightarrow> admit_observed request session ports [SourceLayout layout] None
        | _ \<Rightarrow> op_fail (InventorySource, InstallSource error))) (\<lambda>_. ?before) ?failing" for r
    by (auto intro: observed fails split: sum.split InstallPortError.split)
  show ?thesis
    unfolding admit_def by (rule triple_match [OF called_before [OF install_ports_keepD(2) [OF ports]] next'])
qed

lemma reserve_index:
  assumes ports: "install_ports_keep holds copier ports cancellation"
    and typed: "change_typed (Allocate (install_name request) (request_row request))"
  shows "triple (at_state (index_before holds v)) (reserve request session ports cancellation)
    (\<lambda>_. at_state (index_creating holds request v)) (\<lambda>e. at_state (index_failing holds request v e))"
proof -
  let ?change = "Allocate (install_name request) (request_row request)"
  let ?before = "at_state (index_before holds v)" and ?failing = "\<lambda>e. at_state (index_failing holds request v e)"
  have poll: "triple ?before (checkpoint cancellation Reserve) (\<lambda>_. ?before) ?failing"
    unfolding checkpoint_def attempt_def
    by (rule triple_bind [OF triple_map_err [OF triple_conseq [OF called_before [OF install_ports_keepD(11) [OF ports]]]]],
        assumption, assumption)
       (auto simp: at_state_def failing_before intro!: triple_intros)
  have "triple (\<lambda>w. index_before holds v w d) (sess_apply session ?change)
      (\<lambda>_ w. index_creating holds request v w (d @ [DidRowAllocated]))
      (\<lambda>e w. index_failing holds request v (Reserve, InstallStore e) w d)" for d
    using triple_conj [OF apply_effect [OF typed], of v "d = []"]
    by (rule triple_conseq)
       (auto simp: index_before_def index_creating_def index_failing_def index_with_def with_row_def row_pending_def)
  from performed [where P = "index_before holds v" and Q = "\<lambda>_. index_creating holds request v"
      and E = "index_failing holds request v" and effect = DidRowAllocated, OF this] have apply': "triple ?before
      (perform Reserve InstallStore (CallApply ?change) (sess_apply session ?change) (\<lambda>_. did DidRowAllocated))
      (\<lambda>_. at_state (index_creating holds request v)) ?failing"
    by (simp add: did_def)
  have allocate: "triple (at_state (index_creating holds request v))
      (perform AllocateDestination InstallPort ev (allocate_destination ports p) (\<lambda>_. did DidDestinationAllocated))
      (\<lambda>_. at_state (index_creating holds request v)) ?failing" for ev p
    by (rule performed_creating [OF install_ports_keepD(4) [OF ports]]) (simp_all add: did_def)
  show ?thesis
    unfolding reserve_def Let_def
    by (rule triple_bind [OF poll], rule triple_bind [OF apply'], rule allocate)
qed

lemma build_index:
  assumes ports: "install_ports_keep holds copier ports cancellation"
  shows "triple (at_state (index_creating holds request v)) (build_tree request copier ports cancellation snap)
    (\<lambda>_. at_state (index_creating holds request v)) (\<lambda>e. at_state (index_failing holds request v e))"
proof -
  let ?creating = "at_state (index_creating holds request v)"
    and ?failing = "\<lambda>e. at_state (index_failing holds request v e)"
  note poll = checkpoint_creating [OF install_ports_keepD(11) [OF ports]]
  have copy: "triple ?creating (perform CopyTree InstallCopy ev (copier q cancellation)
      (\<lambda>report p. did DidTreeCopied (p\<lparr>progress_copy := Some report\<rparr>))) (\<lambda>_. ?creating) ?failing" for ev q
    by (rule performed_creating [OF install_ports_keepD(1) [OF ports]]) (simp_all add: did_def)
  have construct: "triple ?creating (perform ConstructRepositories InstallPort ev (construct_repositories ports q)
      (\<lambda>_. did DidRepositoriesConstructed)) (\<lambda>_. ?creating) ?failing" for ev q
    by (rule performed_creating [OF install_ports_keepD(5) [OF ports]]) (simp_all add: did_def)
  show ?thesis
    unfolding build_tree_def
    by (rule triple_if; rule triple_bind [OF poll]; (rule triple_bind [OF copy triple_return] | rule construct))
qed

lemma install_pointer_preserves: "preserves (\<lambda>w. holds w v) (sess_install_pointer session n p)"
  unfolding preserves_def by (rule install_holds)

lemma metadata_index:
  assumes ports: "install_ports_keep holds copier ports cancellation"
  shows "triple (at_state (index_creating holds request v)) (install_metadata request session ports)
    (\<lambda>_. at_state (index_creating holds request v)) (\<lambda>e. at_state (index_failing holds request v e))"
proof -
  let ?creating = "at_state (index_creating holds request v)"
    and ?failing = "\<lambda>e. at_state (index_failing holds request v e)"
  have git: "triple ?creating (perform InstallDestinationGit InstallPort ev (install_destination_git ports q)
      (\<lambda>git p. did DidDestinationGitInstalled (p\<lparr>progress_git := Some git\<rparr>))) (\<lambda>_. ?creating) ?failing" for ev q
    by (rule performed_creating [OF install_ports_keepD(6) [OF ports]]) (simp_all add: did_def)
  have receipt: "triple ?creating (perform RecordCopy InstallPort ev (record_copy ports q)
      (\<lambda>r p. did DidCopyRecorded (p\<lparr>progress_record := Some r\<rparr>))) (\<lambda>_. ?creating) ?failing" for ev q
    by (rule performed_creating [OF install_ports_keepD(7) [OF ports]]) (simp_all add: did_def)
  have pointer: "triple ?creating (perform InstallPointer InstallStore ev (sess_install_pointer session n q)
      (\<lambda>_. did DidPointerInstalled)) (\<lambda>_. ?creating) ?failing" for ev n q
    by (rule performed_creating [OF install_pointer_preserves]) (simp_all add: did_def)
  show ?thesis
    unfolding install_metadata_def Let_def
    by (rule triple_bind [OF git], rule triple_bind [OF receipt], rule triple_bind [OF pointer triple_return])
qed

lemma check_index:
  assumes ports: "install_ports_keep holds copier ports cancellation"
  shows "triple (at_state (index_creating holds request v)) (check_destination request ports snap)
    (\<lambda>_. at_state (index_creating holds request v)) (\<lambda>e. at_state (index_failing holds request v e))"
  unfolding check_destination_def
  by (rule triple_bind [OF called_creating [OF install_ports_keepD(3) [OF ports]]],
      rule triple_if [OF triple_fail called_creating [OF install_ports_keepD(8) [OF ports]]])
     (simp add: at_state_def failing_creating)

lemma recapture_index:
  assumes ports: "install_ports_keep holds copier ports cancellation"
  shows "triple (at_state (index_creating holds request v)) (recapture request ports plan)
    (\<lambda>_. at_state (index_creating holds request v)) (\<lambda>e. at_state (index_failing holds request v e))"
proof -
  let ?creating = "at_state (index_creating holds request v)"
    and ?failing = "\<lambda>e. at_state (index_failing holds request v e)"
  have call: "triple ?creating (perform RecaptureConfiguration InstallPort ev (recapture_configuration ports plan)
      (\<lambda>c p. did DidConfigurationInstalled (p\<lparr>progress_configuration := Some c\<rparr>))) (\<lambda>_. ?creating) ?failing" for ev
    by (rule performed_creating [OF install_ports_keepD(9) [OF ports]]) (simp_all add: did_def)
  show ?thesis
    unfolding recapture_def
    by (rule triple_bind [OF call], rule triple_if [OF triple_fail triple_return])
       (simp_all add: at_state_def failing_creating)
qed

lemma mark_ready_index:
  assumes "bt_wf (view_members v)"
  shows "triple (at_state (index_creating holds request v))
    (perform MarkReadyStep InstallStore ev
      (sess_apply session (MarkReady (install_name request) (install_allocation request))) (\<lambda>_. did DidRowReady))
    (\<lambda>_. at_state (\<lambda>w d. index_with holds request v (ready_row request) w))
    (\<lambda>e. at_state (index_failing holds request v e))"
proof -
  let ?n = "install_name request"
  let ?change = "MarkReady ?n (install_allocation request)"
  let ?v1 = "with_row v ?n (request_row request)"
  have "triple (\<lambda>w. index_creating holds request v w d) (sess_apply session ?change)
      (\<lambda>_ w. index_with holds request v (ready_row request) w)
      (\<lambda>e w. index_failing holds request v (MarkReadyStep, InstallStore e) w d)" for d
  proof -
    have next': "?v1\<lparr>view_members := change_effect ?change (view_members ?v1)\<rparr> = with_row v ?n (ready_row request)"
      using assms by (simp add: modify_with_row) (simp add: ready_row_def request_row_def)
    from triple_conj [OF apply_effect [of ?change ?v1, unfolded next'],
        of "change_guard v (Allocate ?n (request_row request)) \<and> row_pending d"]
    show ?thesis
      by (rule triple_conseq)
         (auto simp: change_typed_def index_creating_def index_failing_def index_with_def simp del: change_guard.simps)
  qed
  from performed [where P = "index_creating holds request v" and E = "index_failing holds request v"
      and Q = "\<lambda>_ w d. index_with holds request v (ready_row request) w" and effect = DidRowReady, OF this]
  show ?thesis
    by (simp add: did_def)
qed

lemma publish_index:
  assumes ports: "install_ports_keep holds copier ports cancellation" and wf: "bt_wf (view_members v)"
  shows "triple (at_state (index_creating holds request v))
    (publish_destination request session ports cancellation plan)
    (\<lambda>_. at_state (\<lambda>w d. index_with holds request v (ready_row request) w))
    (\<lambda>e. at_state (index_failing holds request v e))"
proof -
  let ?creating = "at_state (index_creating holds request v)"
    and ?failing = "\<lambda>e. at_state (index_failing holds request v e)"
  have call: "triple ?creating (perform PublishManifest InstallPort ev (publish_manifest ports plan)
      (\<lambda>_. did DidManifestPublished)) (\<lambda>_. ?creating) ?failing" for ev
    by (rule performed_creating [OF install_ports_keepD(10) [OF ports]]) (simp_all add: did_def)
  show ?thesis
    unfolding publish_destination_def Let_def
    by (rule triple_bind [OF checkpoint_creating [OF install_ports_keepD(11) [OF ports]]], rule triple_bind [OF call],
        rule triple_if [OF triple_fail triple_bind [OF mark_ready_index [OF wf] triple_return]])
       (simp_all add: at_state_def failing_creating)
qed

lemma run_index:
  assumes ports: "install_ports_keep holds copier ports cancellation" and wf: "bt_wf (view_members v)"
    and typed: "change_typed (Allocate (install_name request) (request_row request))"
  shows "triple (at_state (index_before holds v)) (install_run request session copier ports cancellation)
    (\<lambda>_. at_state (\<lambda>w d. index_with holds request v (ready_row request) w))
    (\<lambda>e. at_state (index_failing holds request v e))"
  unfolding install_run_def
  by (rule triple_bind [OF admit_index [OF ports]], rule triple_bind [OF reserve_index [OF ports typed]],
      rule triple_bind [OF build_index [OF ports]], rule triple_bind [OF metadata_index [OF ports]],
      rule triple_bind [OF check_index [OF ports]], rule triple_bind [OF recapture_index [OF ports]],
      rule publish_index [OF ports wf])

text \<open>Recording the diagnostic on the row of a stopped run.\<close>

lemma record_index:
  assumes wf: "bt_wf (view_members v)"
  shows "triple (index_with holds request v (request_row request))
    (sess_apply session (RecordError (install_name request) text))
    (\<lambda>_. index_with holds request v (diagnosed_row request text))
    (\<lambda>_ w. index_with holds request v (request_row request) w \<or>
       index_with holds request v (diagnosed_row request text) w)"
proof -
  let ?n = "install_name request"
  let ?v1 = "with_row v ?n (request_row request)"
  have next': "?v1\<lparr>view_members := change_effect (RecordError ?n text) (view_members ?v1)\<rparr> =
      with_row v ?n (diagnosed_row request text)"
    using wf by (simp add: modify_with_row) (simp add: diagnosed_row_def)
  from triple_conj [OF apply_effect [of "RecordError ?n text" ?v1, unfolded next'],
      of "change_guard v (Allocate ?n (request_row request))"]
  show ?thesis
    by (rule triple_conseq) (auto simp: change_typed_def index_with_def simp del: change_guard.simps)
qed

lemma record_ready:
  "triple (index_with holds request v (ready_row request))
    (sess_apply session (RecordError (install_name request) text))
    (\<lambda>_ _. False) (\<lambda>_. index_with holds request v (ready_row request))"
proof -
  let ?n = "install_name request"
  let ?v1 = "with_row v ?n (ready_row request)"
  have no: "\<not> change_guard ?v1 (RecordError ?n text)"
    by (simp add: get_with_row ready_row_def)
  from triple_conj [OF apply_effect [of "RecordError ?n text" ?v1], of "change_guard v (Allocate ?n (request_row request))"]
  show ?thesis
    by (rule triple_conseq) (use no in \<open>auto simp: change_typed_def index_with_def simp del: change_guard.simps\<close>)
qed

lemma stop_index:
  assumes wf: "bt_wf (view_members v)"
    and at: "at_state (index_failing holds request v (step, error)) s"
    and run: "stop dbg session (install_name request) step error s = (failure, s')"
  shows "index_after_failure holds dbg request v failure (is_world s')"
proof (cases "row_pending (progress_effects (is_progress s))")
  case False
  then show ?thesis
    using at run by (auto simp: at_state_def index_failing_def index_after_failure_def stop_def Let_def)
next
  case True
  let ?d = "progress_effects (is_progress s)"
  let ?text = "step_str step @ lit '': '' @ show_install_error dbg error"
  obtain r w where r: "sess_apply session (RecordError (install_name request) ?text) (is_world s) = (r, w)"
    by (cases "sess_apply session (RecordError (install_name request) ?text) (is_world s)")
  have d: "?d \<noteq> []" "DidRowAllocated \<in> set ?d" "DidRowReady \<notin> set ?d" "DidErrorRecorded \<notin> set ?d"
    using True by (auto simp: row_pending_def)
  have failure: "failure = \<lparr>failed_step = step, failed_error = error,
      failed_effects = (if is_ok r then ?d @ [DidErrorRecorded] else ?d)\<rparr>" "is_world s' = w"
    using run r d by (auto simp: stop_def Let_def calling_def)
  from at True d(1) consider "index_with holds request v (request_row request) (is_world s)"
    | "step = MarkReadyStep" "index_with holds request v (ready_row request) (is_world s)"
    by (auto simp: at_state_def index_failing_def)
  then show ?thesis
  proof cases
    case 1
    note apply' = tripleD [OF record_index [OF wf] 1, of ?text]
    show ?thesis
      using apply'(1) [of _ w] apply'(2) [of _ w] r d failure
      by (cases r) (auto simp: index_after_failure_def Let_def)
  next
    case 2
    note apply' = tripleD [OF record_ready 2(2), of ?text]
    show ?thesis
      using apply'(1) [of _ w] apply'(2) [of _ w] r d failure 2(1)
      by (cases r) (auto simp: index_after_failure_def Let_def)
  qed
qed

lemma install_index:
  assumes ports: "install_ports_keep holds copier ports cancellation" and start: "holds world v"
    and typed: "change_typed (Allocate (install_name request) (request_row request))"
    and run: "install dbg request session copier ports cancellation world = (r, s)"
  shows "case r of
      Inr report \<Rightarrow> index_with holds request v (ready_row request) (is_world s)
    | Inl failure \<Rightarrow> index_after_failure holds dbg request v failure (is_world s)"
proof -
  define s0 where "s0 = \<lparr>is_world = world, is_progress = default_progress, is_trace = []\<rparr>"
  have s0: "at_state (index_before holds v) s0"
    using start by (simp add: s0_def at_state_def index_before_def default_progress_def)
  have wf: "bt_wf (view_members v)"
    using start by (rule holds_wf)
  obtain r1 s1 where r1: "install_run request session copier ports cancellation s0 = (r1, s1)"
    by (cases "install_run request session copier ports cancellation s0")
  note after = tripleD [OF run_index [OF ports wf typed] s0]
  show ?thesis
  proof (cases r1)
    case (Inr x)
    with after(1) [of x s1] run r1 show ?thesis
      by (auto simp: install_def s0_def at_state_def)
  next
    case (Inl e)
    obtain step error where e: "e = (step, error)"
      by (cases e)
    obtain failure s2 where f: "stop dbg session (install_name request) step error s1 = (failure, s2)"
      by (cases "stop dbg session (install_name request) step error s1")
    from stop_index [OF wf _ f] after(2) [of e s1] r1 Inl e run f show ?thesis
      by (auto simp: install_def s0_def)
  qed
qed

end

subsection \<open>Properties\<close>

lemma index_with_mono:
  "(\<And>v. holds w v \<Longrightarrow> holds' w v) \<Longrightarrow> index_with holds request v row w \<Longrightarrow> index_with holds' request v row w"
  unfolding index_with_def by blast

lemma index_after_failure_mono:
  assumes "\<And>v. holds w v \<Longrightarrow> holds' w v" "index_after_failure holds dbg request v failure w"
  shows "index_after_failure holds' dbg request v failure w"
  using assms(2) assms(1) [of v] index_with_mono [of holds w holds', OF assms(1)]
  unfolding index_after_failure_def Let_def by (simp split: if_splits) blast+

text \<open>
  C5. What an installation leaves in the store. Over the family store's own session, opened on a
  canonically spelled root of a host that may fail any system call, and with ports and a copier that
  leave the index alone, every installation ends with a valid stored index that differs from the one
  before at most in the new member's row. After a reported success the row is the requested one,
  ready. After a failure that reports no effect the index is as before (or, when writing the
  reservation failed late, has the creating row); after any other failure the row is listed as
  creating, with the failed step and error as its diagnostic when that was reported recorded. It can
  be listed as ready only if the failed step was the marking itself.
\<close>

theorem install_keeps_the_index_honest:
  assumes "codec_ok c" "host_wf h" "stored_index c (session_root session) h = Inr (Some v)"
    and "canonical_root h (session_root session)"
    and "install_ports_keep (store_at c (session_root session)) copier ports cancellation"
    and "change_typed (Allocate (install_name request) (request_row request))"
    and "install dbg request (store_session c session) copier ports cancellation h = (r, s)"
  shows "case r of
      Inr report \<Rightarrow>
        index_with (\<lambda>w v'. stored_index c (session_root session) w = Inr (Some v')) request v
          (ready_row request) (is_world s)
    | Inl failure \<Rightarrow>
        index_after_failure (\<lambda>w v'. stored_index c (session_root session) w = Inr (Some v')) dbg request v
          failure (is_world s)"
proof -
  let ?at = "store_at c (session_root session)"
  let ?stored = "\<lambda>w v'. stored_index c (session_root session) w = Inr (Some v')"
  have "?at h v"
    using assms(1-4) by (simp add: store_at_def store_holds_def)
  note after = root.install_index [OF assms(5) this assms(6,7)]
  have stored: "?at w v' \<Longrightarrow> ?stored w v'" for w v'
    by (simp add: store_at_def store_holds_def)
  show ?thesis
    using after index_with_mono [of ?at "is_world s" ?stored, OF stored]
      index_after_failure_mono [of ?at "is_world s" ?stored, OF stored]
    by (cases r) simp_all
qed

definition idle_install_ports :: "'s InstallPorts" where
  "idle_install_ports =
     \<lparr>snapshot_source = (\<lambda>_. op_return \<lparr>snapshot_repositories = [], configuration_digest = [], open_gwz_merge = None\<rparr>),
      observe_destination = (\<lambda>_. op_return absent_destination),
      allocate_destination = (\<lambda>_. op_return ()), construct_repositories = (\<lambda>_. op_return ()),
      install_destination_git = (\<lambda>_. op_return \<lparr>removed_remotes = []\<rparr>),
      record_copy = (\<lambda>_. op_return \<lparr>receipt_repositories = 1, receipt_roots = 1, receipt_entries = 1\<rparr>),
      recheck_source = (\<lambda>_. op_return ()),
      recapture_configuration = (\<lambda>_. op_return \<lparr>lock_recaptured = True, generated_changes = []\<rparr>),
      publish_manifest = (\<lambda>_. op_return \<lparr>marker_regenerated = True\<rparr>)\<rparr>"

theorem install_keeps_the_index_honest_witness:
  "\<exists>r s. install (\<lambda>_. []) sample_install_request
       (store_session value_codec \<lparr>session_root = sample_root, session_lock = []\<rparr>)
       (\<lambda>_ _. op_return default_copy_report) idle_install_ports never_cancelled (sample_store (Some 9)) = (r, s) \<and>
     (case r of
        Inr report \<Rightarrow>
          index_with (\<lambda>w v'. stored_index value_codec sample_root w = Inr (Some v')) sample_install_request sample_view
            (ready_row sample_install_request) (is_world s)
      | Inl failure \<Rightarrow>
          index_after_failure (\<lambda>w v'. stored_index value_codec sample_root w = Inr (Some v')) (\<lambda>_. [])
            sample_install_request sample_view failure (is_world s))"
proof -
  let ?session = "\<lparr>session_root = sample_root, session_lock = []\<rparr>"
  let ?copier = "\<lambda>_ _. op_return default_copy_report"
  let ?run = "install (\<lambda>_. []) sample_install_request (store_session value_codec ?session) ?copier
    idle_install_ports never_cancelled (sample_store (Some 9))"
  obtain r s where run: "?run = (r, s)"
    by (cases ?run)
  have keep: "install_ports_keep (store_at value_codec (session_root ?session)) ?copier idle_install_ports never_cancelled"
    by (simp add: install_ports_keep_def idle_install_ports_def preserves_combinators never_cancelled_def)
  have typed: "change_typed (Allocate (install_name sample_install_request) (request_row sample_install_request))"
    by (simp add: change_typed_def row_typed_def sample_install_request_def request_row_def name_ok_def id_ok_def lit_def
      is_whitespace_def is_control_def)
  have "dir_at (host_nodes (sample_store (Some 9))) ([Utf8 (lit ''w'')] @ [gwz_name])"
    using sample_store_metadata(2) [of "Some 9"] unfolding metadata_at_def append.simps by blast
  then have root: "canonical_root (sample_store (Some 9)) (session_root ?session)"
    unfolding canonical_root_def
    by (intro exI [of _ "[Utf8 (lit ''w'')]"] conjI) (simp add: canonical_def sample_root_def, assumption)
  have stored: "stored_index value_codec (session_root ?session) (sample_store (Some 9)) = Inr (Some sample_view)"
    by (simp add: sample_store_index)
  from install_keeps_the_index_honest [OF value_codec_ok sample_store_metadata(1) stored root keep typed run] run
  show ?thesis
    unfolding LockedFamilySession.select_convs by blast
qed

end
