(* ===== verification/Repo_Factory.thy ===== *)
theory Repo_Factory
  imports Repo_Contract "HOL-Library.Multiset"
begin

text \<open>
  Construction of a destination's repositories from a captured vector,
  \<open>crates/repo-factory/src/lib.rs\<close>: validation, the questions asked of the sources before anything is
  created, and the construction of each repository, root first. The builder is a port: a record of
  operations on a world. The statements are about the same functions over a port that records its
  calls and answers.
\<close>

subsection \<open>Values\<close>

datatype FactoryMode = FactoryClean "ustr option" | FactoryBare

fun requested_branch :: "FactoryMode \<Rightarrow> ustr option" where
  "requested_branch (FactoryClean branch) = branch"
| "requested_branch FactoryBare = None"

fun mode_is_bare :: "FactoryMode \<Rightarrow> bool" where
  "mode_is_bare FactoryBare = True"
| "mode_is_bare (FactoryClean _) = False"

record CapturedRepo =
  captured_key :: RepoKey
  captured_source :: hpath
  captured_destination :: hpath
  captured_format :: ObjectFormat
  captured_head :: ObjectId
  captured_branch :: "ustr option"
  captured_origin :: "ustr option"

record FactoryRequest =
  factory_mode :: FactoryMode
  factory_vector :: "CapturedRepo list"

record BuiltRepo =
  built_key :: RepoKey
  built_destination :: hpath
  built_git_dir :: hpath
  built_bare :: bool
  built_head :: HeadState
  built_branches :: "ustr list"
  built_origin :: "ustr option"
  built_dropped_origin :: "ustr option"

datatype InstallerFollowUp =
    RecaptureDesiredBranches ustr
  | RecaptureLock
  | WriteFamilyRoot
  | WriteManifestLast

record FactoryReport =
  factory_built :: "RepoKey list"
  factory_repositories :: "BuiltRepo list"
  factory_follow_ups :: "InstallerFollowUp list"

definition factory_is_complete :: "FactoryReport \<Rightarrow> FactoryRequest \<Rightarrow> bool" where
  "factory_is_complete report request =
     (let built = remdups (factory_built report) in
      length (factory_built report) = length built \<and>
      length (factory_vector request) = length built \<and>
      list_all (\<lambda>repo. captured_key repo \<in> set built) (factory_vector request))"

datatype BuildError = BuildRepository hpath ustr | BuildFailed ustr

fun show_build_error :: "BuildError \<Rightarrow> ustr" where
  "show_build_error (BuildRepository path detail) = path_display path @ lit '': '' @ detail"
| "show_build_error (BuildFailed detail) = detail"

datatype FactoryError =
    FactoryInvalid ustr
  | BranchExists "(RepoKey \<times> ustr) list"
  | FactoryObjectMissing "(RepoKey \<times> ObjectId) list"
  | FactoryRefMissing RepoKey ustr
  | FactoryBuild RepoKey BuildError "RepoKey list"
  | FactoryUnimplemented

text \<open>The builder port. No method removes anything.\<close>

record 'w RepoBuildPort =
  build_ref_exists :: "hpath \<Rightarrow> ustr \<Rightarrow> ('w, BuildError, bool) op"
  build_object_exists :: "hpath \<Rightarrow> ObjectId \<Rightarrow> ('w, BuildError, bool) op"
  build_init :: "hpath \<Rightarrow> bool \<Rightarrow> ObjectFormat \<Rightarrow> ('w, BuildError, unit) op"
  build_transfer :: "hpath \<Rightarrow> hpath \<Rightarrow> ustr list \<Rightarrow> ('w, BuildError, unit) op"
  build_set_head :: "hpath \<Rightarrow> ustr \<Rightarrow> ObjectId \<Rightarrow> bool \<Rightarrow> ('w, BuildError, unit) op"
  build_set_detached :: "hpath \<Rightarrow> ObjectId \<Rightarrow> bool \<Rightarrow> ('w, BuildError, unit) op"
  build_set_origin :: "hpath \<Rightarrow> ustr \<Rightarrow> ('w, BuildError, unit) op"

subsection \<open>Which origins are kept\<close>

definition to_ascii_lowercase :: "uchar \<Rightarrow> uchar" where
  "to_ascii_lowercase c = (if 65 \<le> c \<and> c \<le> 90 then c + 32 else c)"

fun drive_path :: "ustr \<Rightarrow> bool" where
  "drive_path (drive # colon # separator # _) =
     (colon = 58 \<and> is_ascii_alphabetic drive \<and> (separator = 92 \<or> separator = 47))"
| "drive_path _ = False"

definition is_filesystem_url :: "ustr \<Rightarrow> bool" where
  "is_filesystem_url url =
     (if map to_ascii_lowercase (take 5 url) = lit ''file:'' then True
      else if prefix [47] url \<or> prefix [92] url \<or> prefix [126] url \<or> prefix (lit ''./'') url \<or> prefix (lit ''../'') url
      then True
      else if drive_path url then True
      else \<not> sublist (lit ''://'') url \<and> 58 \<notin> set url)"

definition url_authority :: "ustr \<Rightarrow> ustr" where
  "url_authority rest = takeWhile (\<lambda>c. c \<noteq> 47 \<and> c \<noteq> 63 \<and> c \<noteq> 35) rest"

definition userinfo :: "ustr \<Rightarrow> ustr option" where
  "userinfo authority =
     (if 64 \<in> set authority then Some (rev (tl (dropWhile (\<lambda>c. c \<noteq> 64) (rev authority)))) else None)"

definition carries_credentials :: "ustr \<Rightarrow> bool" where
  "carries_credentials url =
     (case str_split_once (lit ''://'') url of
        None \<Rightarrow> False
      | Some (_, rest) \<Rightarrow>
          (case userinfo (url_authority rest) of None \<Rightarrow> False | Some info \<Rightarrow> 58 \<in> set info))"

definition origin_is_kept :: "ustr \<Rightarrow> bool" where
  "origin_is_kept url \<longleftrightarrow> \<not> (is_filesystem_url url \<or> carries_credentials url)"

subsection \<open>Validation\<close>

definition validate_branch_name :: "ustr \<Rightarrow> ustr \<Rightarrow> FactoryError + unit" where
  "validate_branch_name name what =
     (if str_trim name = [] then Inl (FactoryInvalid (what @ lit '' is empty''))
      else if prefix (lit ''refs/'') name
      then Inl (FactoryInvalid (what @ lit '' is a full ref name ('' @ name @ lit ''); a plain branch name is required''))
      else Inr ())"

fun validate_vector :: "RepoKey list \<Rightarrow> hpath list \<Rightarrow> CapturedRepo list \<Rightarrow> FactoryError + RepoKey list" where
  "validate_vector keys destinations [] = Inr keys"
| "validate_vector keys destinations (repo # repos) =
     (if captured_key repo \<in> set keys
      then Inl (FactoryInvalid (show_repo_key (captured_key repo) @ lit '' appears twice in the captured vector''))
      else if captured_destination repo \<in> set destinations
      then Inl (FactoryInvalid (show_repo_key (captured_key repo) @
        lit '' and another repository share the destination '' @ path_display (captured_destination repo)))
      else if oid_format (captured_head repo) \<noteq> captured_format repo
      then Inl (FactoryInvalid (show_repo_key (captured_key repo) @ lit '': the frozen commit is '' @
        format_name (oid_format (captured_head repo)) @ lit '' but the repository is '' @ format_name (captured_format repo)))
      else
        and_then (case captured_branch repo of
            None \<Rightarrow> Inr ()
          | Some branch \<Rightarrow>
              validate_branch_name branch (show_repo_key (captured_key repo) @ [39] @ lit ''s captured branch'')) (\<lambda>_.
          validate_vector (captured_key repo # keys) (captured_destination repo # destinations) repos))"

definition validate_factory :: "FactoryRequest \<Rightarrow> FactoryError + CapturedRepo list" where
  "validate_factory request =
     (if factory_vector request = []
      then Inl (FactoryInvalid (lit ''a factory request needs at least one repository''))
      else
        and_then (case requested_branch (factory_mode request) of
            None \<Rightarrow> Inr () | Some branch \<Rightarrow> validate_branch_name branch (lit ''the requested branch'')) (\<lambda>_.
        and_then (validate_vector [] [] (factory_vector request)) (\<lambda>keys.
          if KeyRoot \<notin> set keys
          then Inl (FactoryInvalid (lit ''the captured vector must include the workspace root''))
          else Inr (filter (\<lambda>repo. captured_key repo = KeyRoot) (factory_vector request) @
                    filter (\<lambda>repo. captured_key repo \<noteq> KeyRoot) (factory_vector request)))))"

subsection \<open>Construction\<close>

definition branch_ref :: "ustr \<Rightarrow> ustr" where
  "branch_ref branch = lit ''refs/heads/'' @ branch"

fun preflight_repos ::
    "'w RepoBuildPort \<Rightarrow> ustr option \<Rightarrow> (RepoKey \<times> ObjectId) list \<Rightarrow> (RepoKey \<times> ustr) list \<Rightarrow> CapturedRepo list \<Rightarrow>
     ('w, FactoryError, (RepoKey \<times> ObjectId) list \<times> (RepoKey \<times> ustr) list) op" where
  "preflight_repos port requested missing conflicts [] = op_return (missing, conflicts)"
| "preflight_repos port requested missing conflicts (repo # repos) =
     op_bind (op_map_err (\<lambda>error. FactoryBuild (captured_key repo) error [])
         (build_object_exists port (captured_source repo) (captured_head repo))) (\<lambda>present.
     let missing = (if present then missing else missing @ [(captured_key repo, captured_head repo)]) in
     case requested of
       None \<Rightarrow> preflight_repos port requested missing conflicts repos
     | Some branch \<Rightarrow>
         op_bind (op_map_err (\<lambda>error. FactoryBuild (captured_key repo) error [])
             (build_ref_exists port (captured_source repo) (branch_ref branch))) (\<lambda>exists.
           preflight_repos port requested missing
             (if exists then conflicts @ [(captured_key repo, branch)] else conflicts) repos))"

definition preflight :: "'w RepoBuildPort \<Rightarrow> FactoryRequest \<Rightarrow> CapturedRepo list \<Rightarrow> ('w, FactoryError, unit) op" where
  "preflight port request order =
     op_bind (preflight_repos port (requested_branch (factory_mode request)) [] [] order) (\<lambda>(missing, conflicts).
       if conflicts \<noteq> [] then op_fail (BranchExists conflicts)
       else if missing \<noteq> [] then op_fail (FactoryObjectMissing missing)
       else op_return ())"

definition git_dir_of :: "CapturedRepo \<Rightarrow> hpath" where
  "git_dir_of repo = path_join_str (captured_destination repo) (lit ''.git'')"

definition build_path :: "FactoryMode \<Rightarrow> CapturedRepo \<Rightarrow> hpath" where
  "build_path mode repo = (if mode_is_bare mode then git_dir_of repo else captured_destination repo)"

text \<open>\<open>-b\<close> wins; without it the destination takes the frozen branch.\<close>

definition attach_branch :: "FactoryMode \<Rightarrow> CapturedRepo \<Rightarrow> ustr option" where
  "attach_branch mode repo =
     (case requested_branch mode of Some branch \<Rightarrow> Some branch | None \<Rightarrow> captured_branch repo)"

definition build_repo ::
    "'w RepoBuildPort \<Rightarrow> FactoryMode \<Rightarrow> RepoKey list \<Rightarrow> CapturedRepo \<Rightarrow> ('w, FactoryError, BuiltRepo) op" where
  "build_repo port mode built repo =
     (let bare = mode_is_bare mode; path = build_path mode repo;
          failure = (\<lambda>error. FactoryBuild (captured_key repo) error built) in
      op_bind (op_map_err failure (build_init port path bare (captured_format repo))) (\<lambda>_.
      op_bind (op_map_err failure
          (build_transfer port (captured_source repo) path [to_hex (captured_head repo)])) (\<lambda>_.
      op_bind (case attach_branch mode repo of
          Some branch \<Rightarrow>
            op_bind (op_map_err failure (build_set_head port path branch (captured_head repo) (\<not> bare)))
              (\<lambda>_. op_return (HeadAttached branch (captured_head repo), [branch]))
        | None \<Rightarrow>
            op_bind (op_map_err failure (build_set_detached port path (captured_head repo) (\<not> bare)))
              (\<lambda>_. op_return (HeadDetached (captured_head repo), []))) (\<lambda>(head, branches).
      op_bind (case captured_origin repo of
          Some url \<Rightarrow>
            if origin_is_kept url
            then op_bind (op_map_err failure (build_set_origin port path url)) (\<lambda>_. op_return (Some url, None))
            else op_return (None, Some url)
        | None \<Rightarrow> op_return (None, None)) (\<lambda>(origin, dropped).
        op_return \<lparr>built_key = captured_key repo, built_destination = captured_destination repo,
          built_git_dir = git_dir_of repo, built_bare = bare, built_head = head, built_branches = branches,
          built_origin = origin, built_dropped_origin = dropped\<rparr>)))))"

fun build_repos ::
    "'w RepoBuildPort \<Rightarrow> FactoryMode \<Rightarrow> FactoryReport \<Rightarrow> CapturedRepo list \<Rightarrow> ('w, FactoryError, FactoryReport) op" where
  "build_repos port mode report [] = op_return report"
| "build_repos port mode report (repo # repos) =
     op_bind (build_repo port mode (factory_built report) repo) (\<lambda>built.
       build_repos port mode
         (report\<lparr>factory_built := factory_built report @ [captured_key repo],
            factory_repositories := factory_repositories report @ [built]\<rparr>) repos)"

definition follow_ups :: "FactoryMode \<Rightarrow> InstallerFollowUp list" where
  "follow_ups mode =
     (case requested_branch mode of Some branch \<Rightarrow> [RecaptureDesiredBranches branch] | None \<Rightarrow> []) @
     [RecaptureLock, WriteFamilyRoot, WriteManifestLast]"

definition build :: "'w RepoBuildPort \<Rightarrow> FactoryRequest \<Rightarrow> CapturedRepo list \<Rightarrow> ('w, FactoryError, FactoryReport) op" where
  "build port request order =
     op_bind (build_repos port (factory_mode request)
         \<lparr>factory_built = [], factory_repositories = [], factory_follow_ups = []\<rparr> order) (\<lambda>report.
       op_return (report\<lparr>factory_follow_ups := follow_ups (factory_mode request)\<rparr>))"

definition construct :: "'w RepoBuildPort \<Rightarrow> FactoryRequest \<Rightarrow> ('w, FactoryError, FactoryReport) op" where
  "construct port request =
     op_bind (op_result (validate_factory request)) (\<lambda>order.
     op_bind (preflight port request order) (\<lambda>_.
       build port request order))"

subsection \<open>Recorded calls\<close>

datatype BuildEvent =
    EvRefExists hpath ustr "BuildError + bool"
  | EvObjectExists hpath ObjectId "BuildError + bool"
  | EvInit hpath bool ObjectFormat "BuildError + unit"
  | EvTransfer hpath hpath "ustr list" "BuildError + unit"
  | EvSetHead hpath ustr ObjectId bool "BuildError + unit"
  | EvSetDetached hpath ObjectId bool "BuildError + unit"
  | EvSetOrigin hpath ustr "BuildError + unit"

definition recorded :: "('w, 'e, 'a) op \<Rightarrow> ('e + 'a \<Rightarrow> 'v) \<Rightarrow> ('w \<times> 'v list, 'e, 'a) op" where
  "recorded m event s = (case m (fst s) of (r, w) \<Rightarrow> (r, (w, snd s @ [event r])))"

definition recording :: "'w RepoBuildPort \<Rightarrow> ('w \<times> BuildEvent list) RepoBuildPort" where
  "recording port =
     \<lparr>build_ref_exists = \<lambda>path name. recorded (build_ref_exists port path name) (EvRefExists path name),
      build_object_exists = \<lambda>path oid. recorded (build_object_exists port path oid) (EvObjectExists path oid),
      build_init = \<lambda>path bare format. recorded (build_init port path bare format) (EvInit path bare format),
      build_transfer = \<lambda>source path refs. recorded (build_transfer port source path refs) (EvTransfer source path refs),
      build_set_head = \<lambda>path branch oid checkout.
        recorded (build_set_head port path branch oid checkout) (EvSetHead path branch oid checkout),
      build_set_detached = \<lambda>path oid checkout.
        recorded (build_set_detached port path oid checkout) (EvSetDetached path oid checkout),
      build_set_origin = \<lambda>path url. recorded (build_set_origin port path url) (EvSetOrigin path url)\<rparr>"

text \<open>The questions asked of a source, with the answers: is the commit there, is the branch.\<close>

definition asked :: "FactoryMode \<Rightarrow> CapturedRepo \<Rightarrow> bool \<times> bool \<Rightarrow> BuildEvent list" where
  "asked mode repo answer =
     EvObjectExists (captured_source repo) (captured_head repo) (Inr (fst answer)) #
     (case requested_branch mode of
        None \<Rightarrow> []
      | Some branch \<Rightarrow> [EvRefExists (captured_source repo) (branch_ref branch) (Inr (snd answer))])"

text \<open>The answers that let the construction go on.\<close>

definition questions :: "FactoryMode \<Rightarrow> CapturedRepo \<Rightarrow> BuildEvent list" where
  "questions mode repo = asked mode repo (True, False)"

definition asked_all :: "FactoryMode \<Rightarrow> CapturedRepo list \<Rightarrow> (bool \<times> bool) list \<Rightarrow> BuildEvent list" where
  "asked_all mode order answers = concat (map2 (asked mode) order answers)"

text \<open>The repositories whose commit is missing, and those that have the requested branch.\<close>

definition missing_of :: "CapturedRepo list \<Rightarrow> (bool \<times> bool) list \<Rightarrow> (RepoKey \<times> ObjectId) list" where
  "missing_of order answers =
     map (\<lambda>(repo, _). (captured_key repo, captured_head repo)) (filter (\<lambda>(_, present, _). \<not> present) (zip order answers))"

definition conflicts_of :: "FactoryMode \<Rightarrow> CapturedRepo list \<Rightarrow> (bool \<times> bool) list \<Rightarrow> (RepoKey \<times> ustr) list" where
  "conflicts_of mode order answers =
     (case requested_branch mode of
        None \<Rightarrow> []
      | Some branch \<Rightarrow>
          map (\<lambda>(repo, _). (captured_key repo, branch)) (filter (\<lambda>(_, _, there). there) (zip order answers)))"

text \<open>One of the questions about a repository gets no answer.\<close>

definition question_fails :: "FactoryMode \<Rightarrow> CapturedRepo \<Rightarrow> BuildError \<Rightarrow> BuildEvent list \<Rightarrow> bool" where
  "question_fails mode repo error final \<longleftrightarrow>
     (let object = EvObjectExists (captured_source repo) (captured_head repo) in
      final = [object (Inl error)] \<or>
      (\<exists>present branch. requested_branch mode = Some branch \<and>
         final = [object (Inr present), EvRefExists (captured_source repo) (branch_ref branch) (Inl error)]))"

text \<open>The calls that create one repository, all with success.\<close>

definition head_call :: "FactoryMode \<Rightarrow> CapturedRepo \<Rightarrow> BuildEvent" where
  "head_call mode repo =
     (case attach_branch mode repo of
        Some branch \<Rightarrow> EvSetHead (build_path mode repo) branch (captured_head repo) (\<not> mode_is_bare mode) (Inr ())
      | None \<Rightarrow> EvSetDetached (build_path mode repo) (captured_head repo) (\<not> mode_is_bare mode) (Inr ()))"

definition kept_origin :: "CapturedRepo \<Rightarrow> ustr option" where
  "kept_origin repo =
     (case captured_origin repo of Some url \<Rightarrow> if origin_is_kept url then Some url else None | None \<Rightarrow> None)"

definition build_calls :: "FactoryMode \<Rightarrow> CapturedRepo \<Rightarrow> BuildEvent list" where
  "build_calls mode repo =
     [EvInit (build_path mode repo) (mode_is_bare mode) (captured_format repo) (Inr ()),
      EvTransfer (captured_source repo) (build_path mode repo) [to_hex (captured_head repo)] (Inr ()),
      head_call mode repo] @
     (case kept_origin repo of Some url \<Rightarrow> [EvSetOrigin (build_path mode repo) url (Inr ())] | None \<Rightarrow> [])"

text \<open>The same call, refused.\<close>

fun call_fails :: "BuildError \<Rightarrow> BuildEvent \<Rightarrow> BuildEvent" where
  "call_fails error (EvRefExists path name _) = EvRefExists path name (Inl error)"
| "call_fails error (EvObjectExists path oid _) = EvObjectExists path oid (Inl error)"
| "call_fails error (EvInit path bare format _) = EvInit path bare format (Inl error)"
| "call_fails error (EvTransfer source path refs _) = EvTransfer source path refs (Inl error)"
| "call_fails error (EvSetHead path branch oid checkout _) = EvSetHead path branch oid checkout (Inl error)"
| "call_fails error (EvSetDetached path oid checkout _) = EvSetDetached path oid checkout (Inl error)"
| "call_fails error (EvSetOrigin path url _) = EvSetOrigin path url (Inl error)"

text \<open>What the report says of a repository.\<close>

definition built_as :: "FactoryMode \<Rightarrow> CapturedRepo \<Rightarrow> BuiltRepo" where
  "built_as mode repo =
     \<lparr>built_key = captured_key repo, built_destination = captured_destination repo, built_git_dir = git_dir_of repo,
      built_bare = mode_is_bare mode,
      built_head = (case attach_branch mode repo of
         Some branch \<Rightarrow> HeadAttached branch (captured_head repo) | None \<Rightarrow> HeadDetached (captured_head repo)),
      built_branches = (case attach_branch mode repo of Some branch \<Rightarrow> [branch] | None \<Rightarrow> []),
      built_origin = kept_origin repo,
      built_dropped_origin = (if kept_origin repo = None then captured_origin repo else None)\<rparr>"

text \<open>
  What the report must say of a repository. How the head spells its branch is left open: the branches of
  the report are the plain names.
\<close>

definition reported :: "FactoryMode \<Rightarrow> CapturedRepo \<Rightarrow> BuiltRepo \<Rightarrow> bool" where
  "reported mode repo built \<longleftrightarrow>
     built_key built = captured_key repo \<and> built_destination built = captured_destination repo \<and>
     built_git_dir built = git_dir_of repo \<and> built_bare built = mode_is_bare mode \<and>
     (case attach_branch mode repo of
        None \<Rightarrow> built_head built = HeadDetached (captured_head repo) \<and> built_branches built = []
      | Some branch \<Rightarrow> (\<exists>name. built_head built = HeadAttached name (captured_head repo)) \<and> built_branches built = [branch]) \<and>
     (case captured_origin repo of
        None \<Rightarrow> built_origin built = None \<and> built_dropped_origin built = None
      | Some url \<Rightarrow>
          if origin_is_kept url then built_origin built = Some url \<and> built_dropped_origin built = None
          else built_origin built = None \<and> built_dropped_origin built = Some url)"

lemma built_as_reported: "reported mode repo (built_as mode repo)"
  by (auto simp: reported_def built_as_def kept_origin_def split: option.splits)

text \<open>Calls made in order up to the first that fails.\<close>

definition stops_in :: "BuildEvent list \<Rightarrow> BuildError \<Rightarrow> BuildEvent list \<Rightarrow> bool" where
  "stops_in calls error evs \<longleftrightarrow> (\<exists>k < length calls. evs = take k calls @ [call_fails error (calls ! k)])"

lemma stops_in_append:
  "stops_in cs error evs \<Longrightarrow> stops_in (cs @ ds) error evs"
  "stops_in ds error evs \<Longrightarrow> stops_in (cs @ ds) error (cs @ evs)"
proof -
  assume "stops_in cs error evs"
  then show "stops_in (cs @ ds) error evs"
    unfolding stops_in_def by (auto simp: nth_append)
next
  assume "stops_in ds error evs"
  then obtain k where "k < length ds" "evs = take k ds @ [call_fails error (ds ! k)]"
    unfolding stops_in_def by blast
  then show "stops_in (cs @ ds) error (cs @ evs)"
    unfolding stops_in_def by (intro exI [of _ "length cs + k"]) (simp add: nth_append)
qed

text \<open>An operation that makes the calls and returns \<open>x\<close>, or fails as the first call that fails.\<close>

definition performs :: "BuildEvent list \<Rightarrow> (BuildError \<Rightarrow> 'e) \<Rightarrow> 'a \<Rightarrow> ('w \<times> BuildEvent list, 'e, 'a) op \<Rightarrow> bool" where
  "performs calls failure x m \<longleftrightarrow>
     (\<forall>w tr. case m (w, tr) of
        (Inr y, (w', tr')) \<Rightarrow> y = x \<and> tr' = tr @ calls
      | (Inl e, (w', tr')) \<Rightarrow> \<exists>error evs. e = failure error \<and> stops_in calls error evs \<and> tr' = tr @ evs)"

lemma performsD:
  assumes "performs calls failure x m" "m (w, tr) = (r, w', tr')"
  shows "r = Inr y \<Longrightarrow> y = x \<and> tr' = tr @ calls"
    "r = Inl e \<Longrightarrow> \<exists>error evs. e = failure error \<and> stops_in calls error evs \<and> tr' = tr @ evs"
  using assms unfolding performs_def by (fastforce dest!: spec [of _ w] spec [of _ tr])+

lemma performs_return: "performs [] failure x (op_return x)"
  by (simp add: performs_def)

lemma performs_call:
  assumes "\<And>error. call_fails error (event (Inr ())) = event (Inl error)"
  shows "performs [event (Inr ())] failure () (op_map_err failure (recorded m event))"
proof -
  have "stops_in [event (Inr ())] error [event (Inl error)]" for error
    unfolding stops_in_def by (rule exI [of _ 0]) (simp add: assms)
  then show ?thesis
    unfolding performs_def by (auto simp: op_map_err_def recorded_def map_err_eq_Inl split: prod.split sum.split)
qed

lemma performs_bind:
  assumes m: "performs cs failure x m" and f: "performs ds failure y (f x)"
  shows "performs (cs @ ds) failure y (op_bind m f)"
  unfolding performs_def
proof (intro allI)
  fix w tr
  obtain r w1 tr1 where r: "m (w, tr) = (r, w1, tr1)"
    by (cases "m (w, tr)") auto
  show "case op_bind m f (w, tr) of
        (Inr z, (w', tr')) \<Rightarrow> z = y \<and> tr' = tr @ cs @ ds
      | (Inl e, (w', tr')) \<Rightarrow> \<exists>error evs. e = failure error \<and> stops_in (cs @ ds) error evs \<and> tr' = tr @ evs"
  proof (cases r)
    case (Inl e)
    with r performsD(2) [OF m r] show ?thesis
      by (auto simp: op_bind_def dest: stops_in_append(1))
  next
    case (Inr x')
    have x': "x' = x" "tr1 = tr @ cs"
      using performsD(1) [OF m r Inr] by simp_all
    obtain r2 w2 tr2 where r2: "f x (w1, tr1) = (r2, w2, tr2)"
      by (cases "f x (w1, tr1)") auto
    have run: "op_bind m f (w, tr) = (r2, w2, tr2)"
      using r r2 Inr x'(1) by (simp add: op_bind_def)
    show ?thesis
    proof (cases r2)
      case (Inl e)
      then obtain error evs where "e = failure error" "stops_in ds error evs" "tr2 = tr1 @ evs"
        using performsD(2) [OF f r2] by blast
      with Inl run x'(2) stops_in_append(2) [of ds error evs cs] show ?thesis
        by auto
    next
      case (Inr z)
      with performsD(1) [OF f r2] run x'(2) show ?thesis
        by simp
    qed
  qed
qed

lemma performs_then_return:
  assumes "\<And>error. call_fails error (event (Inr ())) = event (Inl error)"
  shows "performs [event (Inr ())] failure y (op_bind (op_map_err failure (recorded m event)) (\<lambda>_. op_return y))"
  using performs_bind [where f = "\<lambda>_. op_return y", OF performs_call [OF assms] performs_return] by simp

lemma build_repo_performs:
  "performs (build_calls mode repo) (\<lambda>error. FactoryBuild (captured_key repo) error built) (built_as mode repo)
     (build_repo (recording port) mode built repo)"
proof -
  let ?failure = "\<lambda>error. FactoryBuild (captured_key repo) error built"
  let ?head = "(case attach_branch mode repo of
         Some branch \<Rightarrow> HeadAttached branch (captured_head repo) | None \<Rightarrow> HeadDetached (captured_head repo),
       case attach_branch mode repo of Some branch \<Rightarrow> [branch] | None \<Rightarrow> [])"
  let ?origin = "(kept_origin repo, if kept_origin repo = None then captured_origin repo else None)"
  have head: "performs [head_call mode repo] ?failure ?head (case attach_branch mode repo of
          Some branch \<Rightarrow>
            op_bind (op_map_err ?failure (build_set_head (recording port) (build_path mode repo) branch (captured_head repo) (\<not> mode_is_bare mode)))
              (\<lambda>_. op_return (HeadAttached branch (captured_head repo), [branch]))
        | None \<Rightarrow>
            op_bind (op_map_err ?failure (build_set_detached (recording port) (build_path mode repo) (captured_head repo) (\<not> mode_is_bare mode)))
              (\<lambda>_. op_return (HeadDetached (captured_head repo), [])))"
    by (cases "attach_branch mode repo") (simp_all add: head_call_def recording_def, (rule performs_then_return, simp)+)
  have origin: "performs (case kept_origin repo of Some url \<Rightarrow> [EvSetOrigin (build_path mode repo) url (Inr ())] | None \<Rightarrow> [])
      ?failure ?origin (case captured_origin repo of
          Some url \<Rightarrow>
            if origin_is_kept url
            then op_bind (op_map_err ?failure (build_set_origin (recording port) (build_path mode repo) url)) (\<lambda>_. op_return (Some url, None))
            else op_return (None, Some url)
        | None \<Rightarrow> op_return (None, None))"
    by (cases "captured_origin repo") (simp_all add: kept_origin_def recording_def performs_return, (intro impI, rule performs_then_return, simp))
  have calls: "build_calls mode repo =
      [EvInit (build_path mode repo) (mode_is_bare mode) (captured_format repo) (Inr ())] @
      [EvTransfer (captured_source repo) (build_path mode repo) [to_hex (captured_head repo)] (Inr ())] @
      [head_call mode repo] @
      (case kept_origin repo of Some url \<Rightarrow> [EvSetOrigin (build_path mode repo) url (Inr ())] | None \<Rightarrow> []) @ []"
    by (simp add: build_calls_def)
  show ?thesis
    unfolding build_repo_def Let_def calls
    by (rule performs_bind [where x = "()"], simp add: recording_def performs_call,
        rule performs_bind [where x = "()"], simp add: recording_def performs_call,
        rule performs_bind [OF head], simp only: prod.case,
        rule performs_bind [OF origin], simp only: prod.case,
        simp only: built_as_def performs_return)
qed

text \<open>All repositories built in order, or up to the one that failed.\<close>

definition build_outcome ::
    "FactoryMode \<Rightarrow> FactoryReport \<Rightarrow> CapturedRepo list \<Rightarrow> FactoryError + FactoryReport \<Rightarrow> BuildEvent list \<Rightarrow> bool" where
  "build_outcome mode report order r evs \<longleftrightarrow>
     (case r of
        Inr report' \<Rightarrow>
          report' = report\<lparr>factory_built := factory_built report @ map captured_key order,
            factory_repositories := factory_repositories report @ map (built_as mode) order\<rparr> \<and>
          evs = concat (map (build_calls mode) order)
      | Inl e \<Rightarrow> \<exists>done repo rest error final. order = done @ repo # rest \<and>
          e = FactoryBuild (captured_key repo) error (factory_built report @ map captured_key done) \<and>
          stops_in (build_calls mode repo) error final \<and> evs = concat (map (build_calls mode) done) @ final)"

lemma build_outcome_fails:
  assumes "stops_in (build_calls mode repo) error final"
  shows "build_outcome mode report (repo # order) (Inl (FactoryBuild (captured_key repo) error (factory_built report))) final"
proof -
  have "repo # order = [] @ repo # order \<and>
      FactoryBuild (captured_key repo) error (factory_built report) =
        FactoryBuild (captured_key repo) error (factory_built report @ map captured_key []) \<and>
      stops_in (build_calls mode repo) error final \<and> final = concat (map (build_calls mode) []) @ final"
    using assms by simp
  then show ?thesis
    unfolding build_outcome_def sum.case by blast
qed

lemma build_outcome_Cons:
  assumes "build_outcome mode (report\<lparr>factory_built := factory_built report @ [captured_key repo],
      factory_repositories := factory_repositories report @ [built_as mode repo]\<rparr>) order r evs"
  shows "build_outcome mode report (repo # order) r (build_calls mode repo @ evs)"
proof (cases r)
  case (Inr report')
  with assms show ?thesis
    by (simp add: build_outcome_def)
next
  case (Inl e)
  then obtain d x rest error final where "order = d @ x # rest"
    "e = FactoryBuild (captured_key x) error ((factory_built report @ [captured_key repo]) @ map captured_key d)"
    "stops_in (build_calls mode x) error final" "evs = concat (map (build_calls mode) d) @ final"
    using assms unfolding build_outcome_def by auto
  then have "repo # order = (repo # d) @ x # rest \<and>
      e = FactoryBuild (captured_key x) error (factory_built report @ map captured_key (repo # d)) \<and>
      stops_in (build_calls mode x) error final \<and>
      build_calls mode repo @ evs = concat (map (build_calls mode) (repo # d)) @ final"
    by simp
  then show ?thesis
    unfolding build_outcome_def Inl sum.case by blast
qed

lemma build_repos_recorded:
  assumes "build_repos (recording port) mode report order (w, tr) = (r, w', tr')"
  shows "\<exists>evs. tr' = tr @ evs \<and> build_outcome mode report order r evs"
  using assms
proof (induction order arbitrary: report w tr)
  case Nil
  then show ?case
    by (auto simp: build_outcome_def)
next
  case (Cons repo order)
  obtain r1 w1 tr1 where one: "build_repo (recording port) mode (factory_built report) repo (w, tr) = (r1, w1, tr1)"
    by (cases "build_repo (recording port) mode (factory_built report) repo (w, tr)") auto
  note step = performsD [OF build_repo_performs one]
  show ?case
  proof (cases r1)
    case (Inl e)
    then obtain error evs where "e = FactoryBuild (captured_key repo) error (factory_built report)"
      "stops_in (build_calls mode repo) error evs" "tr1 = tr @ evs"
      using step(2) by blast
    moreover have "r = Inl e" "tr' = tr1"
      using Cons.prems one Inl by (simp_all add: op_bind_def)
    ultimately show ?thesis
      using build_outcome_fails by blast
  next
    case (Inr b)
    with step(1) have b: "b = built_as mode repo" "tr1 = tr @ build_calls mode repo"
      by simp_all
    let ?report = "report\<lparr>factory_built := factory_built report @ [captured_key repo],
          factory_repositories := factory_repositories report @ [built_as mode repo]\<rparr>"
    have "build_repos (recording port) mode ?report order (w1, tr1) = (r, w', tr')"
      using Cons.prems one Inr b(1) by (simp add: op_bind_def)
    from Cons.IH [OF this] obtain evs where evs: "tr' = tr1 @ evs" "build_outcome mode ?report order r evs"
      by blast
    from build_outcome_Cons [OF evs(2)] evs(1) b(2) show ?thesis
      by (intro exI [of _ "build_calls mode repo @ evs"]) simp
  qed
qed

subsection \<open>What is asked first\<close>

lemma bind_recorded:
  assumes "m w = (r, w')"
  shows "op_bind (op_map_err failure (recorded m event)) f (w, tr) =
     (case r of Inl error \<Rightarrow> (Inl (failure error), w', tr @ [event r]) | Inr x \<Rightarrow> f x (w', tr @ [event r]))"
  using assms by (auto simp: op_bind_def op_map_err_def recorded_def split: sum.split)

text \<open>
  What asking comes to: every question answered, with what the answers say is missing or in the way, or a
  question that got no answer.
\<close>

definition asking_stopped :: "FactoryMode \<Rightarrow> CapturedRepo list \<Rightarrow> FactoryError \<Rightarrow> BuildEvent list \<Rightarrow> bool" where
  "asking_stopped mode order e evs \<longleftrightarrow>
     (\<exists>before repo after answers error final. order = before @ repo # after \<and> length answers = length before \<and>
        question_fails mode repo error final \<and> evs = asked_all mode before answers @ final \<and>
        e = FactoryBuild (captured_key repo) error [])"

definition asking_outcome ::
    "FactoryMode \<Rightarrow> (RepoKey \<times> ObjectId) list \<Rightarrow> (RepoKey \<times> ustr) list \<Rightarrow> CapturedRepo list \<Rightarrow>
     FactoryError + (RepoKey \<times> ObjectId) list \<times> (RepoKey \<times> ustr) list \<Rightarrow> BuildEvent list \<Rightarrow> bool" where
  "asking_outcome mode missing conflicts order r evs \<longleftrightarrow>
     (case r of
        Inl e \<Rightarrow> asking_stopped mode order e evs
      | Inr (missing', conflicts') \<Rightarrow> \<exists>answers. length answers = length order \<and> evs = asked_all mode order answers \<and>
          missing' = missing @ missing_of order answers \<and> conflicts' = conflicts @ conflicts_of mode order answers)"

lemma asked_all_simps:
  "asked_all mode [] [] = []" "missing_of [] [] = []" "conflicts_of mode [] [] = []"
  "asked_all mode (repo # order) (a # answers) = asked mode repo a @ asked_all mode order answers"
  "missing_of (repo # order) (a # answers) =
     (if fst a then [] else [(captured_key repo, captured_head repo)]) @ missing_of order answers"
  "conflicts_of mode (repo # order) (a # answers) =
     (case requested_branch mode of None \<Rightarrow> [] | Some branch \<Rightarrow> if snd a then [(captured_key repo, branch)] else []) @
     conflicts_of mode order answers"
  by (auto simp: asked_all_def missing_of_def conflicts_of_def split: option.splits)

lemma asking_stops:
  assumes "question_fails mode repo error final"
  shows "asking_outcome mode missing conflicts (repo # order) (Inl (FactoryBuild (captured_key repo) error [])) final"
proof -
  have "repo # order = [] @ repo # order \<and> length [] = length ([] :: CapturedRepo list) \<and>
      question_fails mode repo error final \<and> final = asked_all mode [] [] @ final \<and>
      FactoryBuild (captured_key repo) error [] = FactoryBuild (captured_key repo) error []"
    using assms by (simp add: asked_all_simps)
  then show ?thesis
    unfolding asking_outcome_def asking_stopped_def sum.case by blast
qed

lemma asking_outcome_Cons:
  assumes "asking_outcome mode (missing @ (if fst a then [] else [(captured_key repo, captured_head repo)]))
      (conflicts @ (case requested_branch mode of None \<Rightarrow> [] | Some branch \<Rightarrow> if snd a then [(captured_key repo, branch)] else []))
      order r evs"
  shows "asking_outcome mode missing conflicts (repo # order) r (asked mode repo a @ evs)"
proof (cases r)
  case (Inl e)
  with assms obtain before x after answers error final where "order = before @ x # after" "length answers = length before"
    "question_fails mode x error final" "evs = asked_all mode before answers @ final"
    "e = FactoryBuild (captured_key x) error []"
    by (auto simp: asking_outcome_def asking_stopped_def)
  then have "repo # order = (repo # before) @ x # after \<and> length (a # answers) = length (repo # before) \<and>
      question_fails mode x error final \<and> asked mode repo a @ evs = asked_all mode (repo # before) (a # answers) @ final \<and>
      e = FactoryBuild (captured_key x) error []"
    by (simp add: asked_all_simps)
  then show ?thesis
    unfolding asking_outcome_def asking_stopped_def Inl sum.case by blast
next
  case (Inr found)
  with assms obtain answers where "length answers = length order" "evs = asked_all mode order answers"
    "fst found = (missing @ (if fst a then [] else [(captured_key repo, captured_head repo)])) @ missing_of order answers"
    "snd found = (conflicts @ (case requested_branch mode of None \<Rightarrow> [] | Some branch \<Rightarrow>
       if snd a then [(captured_key repo, branch)] else [])) @ conflicts_of mode order answers"
    by (auto simp: asking_outcome_def)
  then show ?thesis
    using Inr by (cases found) (auto simp: asking_outcome_def asked_all_simps intro!: exI [of _ "a # answers"])
qed

lemma preflight_repos_recorded:
  assumes "preflight_repos (recording port) (requested_branch mode) missing conflicts order (w, tr) = (r, w', tr')"
  shows "\<exists>evs. tr' = tr @ evs \<and> asking_outcome mode missing conflicts order r evs"
  using assms
proof (induction order arbitrary: missing conflicts w tr)
  case Nil
  then show ?case
    by (auto simp: asking_outcome_def asked_all_simps intro!: exI [of _ "[]"])
next
  case (Cons repo order)
  let ?src = "captured_source repo" and ?head = "captured_head repo"
  obtain r1 w1 where r1: "build_object_exists port ?src ?head w = (r1, w1)"
    by fastforce
  note ask1 = bind_recorded [of "build_object_exists port ?src ?head" w, OF r1]
  show ?case
  proof (cases r1)
    case (Inl error)
    have "question_fails mode repo error [EvObjectExists ?src ?head (Inl error)]"
      by (simp add: question_fails_def Let_def)
    from asking_stops [OF this] show ?thesis
      using Cons.prems Inl by (auto simp: recording_def ask1)
  next
    case (Inr present)
    let ?missing = "if present then missing else missing @ [(captured_key repo, ?head)]"
    let ?tr1 = "tr @ [EvObjectExists ?src ?head (Inr present)]"
    show ?thesis
    proof (cases "requested_branch mode")
      case None
      then have "preflight_repos (recording port) (requested_branch mode) ?missing conflicts order (w1, ?tr1) = (r, w', tr')"
        using Cons.prems Inr by (simp add: recording_def ask1 Let_def)
      from Cons.IH [OF this] obtain evs where evs: "tr' = ?tr1 @ evs" "asking_outcome mode ?missing conflicts order r evs"
        by blast
      with None asking_outcome_Cons [of mode missing "(present, False)" repo conflicts order r evs] show ?thesis
        by (intro exI [of _ "asked mode repo (present, False) @ evs"]) (cases present; simp add: asked_def)
    next
      case (Some branch)
      obtain r2 w2 where r2: "build_ref_exists port ?src (branch_ref branch) w1 = (r2, w2)"
        by fastforce
      note ask2 = bind_recorded [of "build_ref_exists port ?src (branch_ref branch)" w1, OF r2]
      show ?thesis
      proof (cases r2)
        case (Inl error)
        have "question_fails mode repo error [EvObjectExists ?src ?head (Inr present),
            EvRefExists ?src (branch_ref branch) (Inl error)]"
          using Some by (simp add: question_fails_def Let_def)
        from asking_stops [OF this] show ?thesis
          using Cons.prems Inr Some Inl by (auto simp: recording_def ask1 ask2 Let_def)
      next
        case r2': (Inr exist)
        let ?conflicts = "if exist then conflicts @ [(captured_key repo, branch)] else conflicts"
        let ?tr2 = "?tr1 @ [EvRefExists ?src (branch_ref branch) (Inr exist)]"
        have "preflight_repos (recording port) (requested_branch mode) ?missing ?conflicts order (w2, ?tr2) = (r, w', tr')"
          using Cons.prems Inr Some r2' by (simp add: recording_def ask1 ask2 Let_def)
        from Cons.IH [OF this] obtain evs where "tr' = ?tr2 @ evs" "asking_outcome mode ?missing ?conflicts order r evs"
          by blast
        with Some asking_outcome_Cons [of mode missing "(present, exist)" repo conflicts order r evs] show ?thesis
          by (intro exI [of _ "asked mode repo (present, exist) @ evs"]) (cases present; cases exist; simp add: asked_def)
      qed
    qed
  qed
qed

text \<open>Every question was answered, and the answers refuse the construction, together.\<close>

definition answers_refuse :: "FactoryMode \<Rightarrow> CapturedRepo list \<Rightarrow> FactoryError \<Rightarrow> BuildEvent list \<Rightarrow> bool" where
  "answers_refuse mode order e evs \<longleftrightarrow>
     (\<exists>answers. length answers = length order \<and> evs = asked_all mode order answers \<and>
        (let conflicts = conflicts_of mode order answers; missing = missing_of order answers in
         if conflicts \<noteq> [] then e = BranchExists conflicts
         else missing \<noteq> [] \<and> e = FactoryObjectMissing missing))"

lemma good_answers:
  assumes "length answers = length order" "missing_of order answers = []" "conflicts_of mode order answers = []"
  shows "asked_all mode order answers = concat (map (questions mode) order)"
  using assms
proof (induction answers order rule: list_induct2)
  case (Cons a answers repo order)
  then show ?case
    by (cases a; cases "requested_branch mode") (auto simp: asked_all_simps asked_def questions_def split: if_splits)
qed (simp add: asked_all_simps)

lemma preflight_recorded:
  assumes "preflight (recording port) request order (w, []) = (r, w', evs)" "mode = factory_mode request"
  shows "case r of Inr _ \<Rightarrow> evs = concat (map (questions mode) order)
    | Inl e \<Rightarrow> asking_stopped mode order e evs \<or> answers_refuse mode order e evs"
proof -
  let ?all = "preflight_repos (recording port) (requested_branch mode) [] [] order"
  obtain r1 w1 tr1 where all: "?all (w, []) = (r1, w1, tr1)"
    by (cases "?all (w, [])") auto
  have out: "asking_outcome mode [] [] order r1 tr1"
    using preflight_repos_recorded [OF all] by simp
  show ?thesis
  proof (cases r1)
    case (Inl e)
    then have "r = Inl e" "evs = tr1"
      using assms all by (auto simp: preflight_def op_bind_def)
    with out Inl show ?thesis
      by (simp add: asking_outcome_def)
  next
    case (Inr found)
    with out obtain answers where answers: "length answers = length order" "tr1 = asked_all mode order answers"
      "found = (missing_of order answers, conflicts_of mode order answers)"
      by (cases found) (auto simp: asking_outcome_def)
    have "evs = tr1" "r = (if conflicts_of mode order answers \<noteq> [] then Inl (BranchExists (conflicts_of mode order answers))
        else if missing_of order answers \<noteq> [] then Inl (FactoryObjectMissing (missing_of order answers)) else Inr ())"
      using assms all Inr answers(3) by (auto simp: preflight_def op_bind_def split: if_splits)
    then show ?thesis
      using answers(1,2) good_answers [OF answers(1), of mode] by (auto simp: answers_refuse_def Let_def)
  qed
qed

subsection \<open>The order\<close>

definition root_first :: "CapturedRepo list \<Rightarrow> CapturedRepo list" where
  "root_first repos = filter (\<lambda>repo. captured_key repo = KeyRoot) repos @ filter (\<lambda>repo. captured_key repo \<noteq> KeyRoot) repos"

definition plain_branch :: "ustr \<Rightarrow> bool" where
  "plain_branch name \<longleftrightarrow> str_trim name \<noteq> [] \<and> \<not> prefix (lit ''refs/'') name"

text \<open>Requests that describe a destination.\<close>

definition describes_destination :: "FactoryRequest \<Rightarrow> bool" where
  "describes_destination request \<longleftrightarrow>
     (\<forall>branch. requested_branch (factory_mode request) = Some branch \<longrightarrow> plain_branch branch) \<and>
     distinct (map captured_key (factory_vector request)) \<and>
     distinct (map captured_destination (factory_vector request)) \<and>
     list_all (\<lambda>repo. oid_format (captured_head repo) = captured_format repo \<and>
       (\<forall>branch. captured_branch repo = Some branch \<longrightarrow> plain_branch branch)) (factory_vector request) \<and>
     KeyRoot \<in> captured_key ` set (factory_vector request)"

lemma validate_branch_name_ok: "validate_branch_name name what = Inr () \<longleftrightarrow> plain_branch name"
  by (simp add: validate_branch_name_def plain_branch_def)

lemma validate_branch_name_err: "validate_branch_name name what = Inl e \<Longrightarrow> \<exists>detail. e = FactoryInvalid detail"
  by (auto simp: validate_branch_name_def split: if_splits)

lemma validate_vector_Inr:
  "(\<exists>keys'. validate_vector keys destinations repos = Inr keys') \<longleftrightarrow>
     distinct (map captured_key repos) \<and> set keys \<inter> captured_key ` set repos = {} \<and>
     distinct (map captured_destination repos) \<and> set destinations \<inter> captured_destination ` set repos = {} \<and>
     list_all (\<lambda>repo. oid_format (captured_head repo) = captured_format repo \<and>
       (\<forall>branch. captured_branch repo = Some branch \<longrightarrow> plain_branch branch)) repos"
proof (induction repos arbitrary: keys destinations)
  case (Cons repo repos)
  have branch: "(case captured_branch repo of None \<Rightarrow> Inr ()
      | Some branch \<Rightarrow> validate_branch_name branch what) = Inr () \<longleftrightarrow>
      (\<forall>branch. captured_branch repo = Some branch \<longrightarrow> plain_branch branch)" for what
    by (auto simp: validate_branch_name_ok split: option.split)
  show ?case
    by (simp add: and_then_eq_Inr branch Cons.IH) blast
qed simp

lemma validate_vector_keys:
  "validate_vector keys destinations repos = Inr keys' \<Longrightarrow> set keys' = set keys \<union> captured_key ` set repos"
proof (induction repos arbitrary: keys destinations)
  case (Cons repo repos)
  then show ?case
    by (fastforce simp: and_then_eq_Inr split: if_splits)
qed simp

lemma validate_vector_err:
  "validate_vector keys destinations repos = Inl e \<Longrightarrow> \<exists>detail. e = FactoryInvalid detail"
proof (induction repos arbitrary: keys destinations)
  case (Cons repo repos)
  then show ?case
    by (fastforce simp: and_then_eq_Inl dest: validate_branch_name_err split: if_splits option.splits)
qed simp

lemma root_first_permutes: "mset (root_first repos) = mset repos"
  by (simp add: root_first_def)

lemma validate_factory_Inr:
  "validate_factory request = Inr order \<longleftrightarrow> describes_destination request \<and> order = root_first (factory_vector request)"
proof -
  have branch: "(case requested_branch (factory_mode request) of None \<Rightarrow> Inr ()
      | Some branch \<Rightarrow> validate_branch_name branch what) = Inr () \<longleftrightarrow>
      (\<forall>branch. requested_branch (factory_mode request) = Some branch \<longrightarrow> plain_branch branch)" for what
    by (auto simp: validate_branch_name_ok split: option.split)
  have vector: "(\<exists>keys. validate_vector [] [] (factory_vector request) = Inr keys \<and> KeyRoot \<in> set keys) \<longleftrightarrow>
      (\<exists>keys. validate_vector [] [] (factory_vector request) = Inr keys) \<and>
      KeyRoot \<in> captured_key ` set (factory_vector request)"
    using validate_vector_keys [of "[]" "[]" "factory_vector request"] by fastforce
  have "validate_factory request = Inr order \<longleftrightarrow> factory_vector request \<noteq> [] \<and>
      (\<forall>branch. requested_branch (factory_mode request) = Some branch \<longrightarrow> plain_branch branch) \<and>
      (\<exists>keys. validate_vector [] [] (factory_vector request) = Inr keys \<and> KeyRoot \<in> set keys) \<and>
      order = root_first (factory_vector request)"
    by (auto simp: validate_factory_def and_then_eq_Inr branch root_first_def)
  then show ?thesis
    unfolding vector validate_vector_Inr describes_destination_def by auto
qed

lemma validate_factory_err: "validate_factory request = Inl e \<Longrightarrow> \<exists>detail. e = FactoryInvalid detail"
  by (auto simp: validate_factory_def and_then_eq_Inl dest: validate_branch_name_err validate_vector_err
      split: if_splits option.splits)

lemma root_first_hd:
  assumes "describes_destination request"
  shows "captured_key (hd (root_first (factory_vector request))) = KeyRoot"
proof -
  let ?roots = "filter (\<lambda>repo. captured_key repo = KeyRoot) (factory_vector request)"
  have "?roots \<noteq> []"
    using assms by (force simp: describes_destination_def filter_empty_conv)
  then have "hd ?roots \<in> set ?roots"
    by (rule hd_in_set)
  with \<open>?roots \<noteq> []\<close> show ?thesis
    by (simp add: root_first_def)
qed

lemma complete_report:
  assumes "distinct (map captured_key (factory_vector request))"
    "factory_built report = map captured_key (root_first (factory_vector request))"
  shows "factory_is_complete report request"
proof -
  have mset: "mset (factory_built report) = mset (map captured_key (factory_vector request))"
    by (simp add: assms(2) root_first_permutes)
  then have "distinct (factory_built report)" "set (factory_built report) = captured_key ` set (factory_vector request)"
    "length (factory_built report) = length (factory_vector request)"
    using assms(1) by (metis mset_eq_imp_distinct_iff, metis mset_eq_setD set_map, metis length_map size_mset)
  then show ?thesis
    by (simp add: factory_is_complete_def Let_def distinct_remdups_id list_all_iff)
qed

text \<open>The questions were all answered well, some repositories were built whole, and a call on the next one failed.\<close>

definition build_stopped :: "FactoryMode \<Rightarrow> CapturedRepo list \<Rightarrow> FactoryError \<Rightarrow> BuildEvent list \<Rightarrow> bool" where
  "build_stopped mode order e evs \<longleftrightarrow>
     (\<exists>before repo after error final. order = before @ repo # after \<and>
        e = FactoryBuild (captured_key repo) error (map captured_key before) \<and>
        stops_in (build_calls mode repo) error final \<and>
        evs = concat (map (questions mode) order) @ concat (map (build_calls mode) before) @ final)"

text \<open>
  C9. Everything is asked before anything is created, and what is created is the captured vector. For any
  builder: a construction that succeeds was asked for a request that describes a destination, has asked
  exactly the questions of every repository, all answered well, and then made exactly the calls of every
  repository, root first, each at its frozen commit; its report lists every repository in that order,
  attached or detached at that commit, with its branches and its kept or dropped origin, and is complete.
  One that fails made no call because the request describes no destination; or stopped at a question that
  got no answer, and names that repository, its error and no repository as built; or asked everything and
  lists every conflict, or else every missing commit, that the answers show; or asked everything with good
  answers, built some repositories whole and stopped at the first call that failed, and names that
  repository, its error and exactly the repositories built.
\<close>

theorem construct_asks_then_builds:
  assumes "construct (recording port) request (w, []) = (r, w', evs)"
    "order = root_first (factory_vector request)" "mode = factory_mode request"
  shows "case r of
      Inr report \<Rightarrow>
        describes_destination request \<and>
        evs = concat (map (questions mode) order) @ concat (map (build_calls mode) order) \<and>
        captured_key (hd order) = KeyRoot \<and> factory_built report = map captured_key order \<and>
        list_all2 (reported mode) order (factory_repositories report) \<and>
        factory_follow_ups report = follow_ups mode \<and> factory_is_complete report request
    | Inl e \<Rightarrow>
        \<not> describes_destination request \<and> evs = [] \<and> (\<exists>detail. e = FactoryInvalid detail) \<or>
        describes_destination request \<and>
          (asking_stopped mode order e evs \<or> answers_refuse mode order e evs \<or> build_stopped mode order e evs)"
proof (cases "validate_factory request")
  case (Inl e)
  then have "\<not> describes_destination request"
    using validate_factory_Inr [of request "root_first (factory_vector request)"] by auto
  with Inl show ?thesis
    using assms(1) validate_factory_err [OF Inl] by (auto simp: construct_def)
next
  case (Inr order')
  have valid: "describes_destination request" and order: "order' = order"
    using Inr assms(2) by (simp_all add: validate_factory_Inr)
  obtain r1 w1 tr1 where asked: "preflight (recording port) request order (w, []) = (r1, w1, tr1)"
    by (cases "preflight (recording port) request order (w, [])") auto
  note asked_evs = preflight_recorded [OF asked assms(3)]
  show ?thesis
  proof (cases r1)
    case (Inl e)
    then have "r = Inl e" "evs = tr1"
      using assms(1) Inr order asked by (simp_all add: construct_def op_bind_def)
    with asked_evs Inl valid show ?thesis
      by auto
  next
    case (Inr u)
    let ?empty = "\<lparr>factory_built = [], factory_repositories = [], factory_follow_ups = []\<rparr>"
    obtain r2 w2 tr2 where built: "build_repos (recording port) mode ?empty order (w1, tr1) = (r2, w2, tr2)"
      by (cases "build_repos (recording port) mode ?empty order (w1, tr1)") auto
    obtain bevs where bevs: "tr2 = tr1 @ bevs" "build_outcome mode ?empty order r2 bevs"
      using build_repos_recorded [OF built] by blast
    have tr1: "tr1 = concat (map (questions mode) order)"
      using asked_evs Inr by simp
    have run: "evs = tr2 \<and> r = (case r2 of Inl e \<Rightarrow> Inl e | Inr report \<Rightarrow> Inr (report\<lparr>factory_follow_ups := follow_ups mode\<rparr>))"
      using assms(1,3) \<open>validate_factory request = Inr order'\<close> order asked Inr built
      by (cases r2) (auto simp: construct_def build_def op_bind_def)
    show ?thesis
    proof (cases r2)
      case (Inl e)
      with bevs tr1 have "build_stopped mode order e tr2"
        by (simp add: build_outcome_def build_stopped_def)
      with Inl run valid show ?thesis
        by simp
    next
      case (Inr report)
      with bevs run tr1 valid root_first_hd [OF valid] assms(2) show ?thesis
        by (auto simp: build_outcome_def list_all2_map2 built_as_reported list.rel_refl describes_destination_def
            intro: complete_report)
    qed
  qed
qed

text \<open>A root and a member, both detached, and a builder that fails to transfer the member's objects.\<close>

definition sample_captured :: "RepoKey \<Rightarrow> hpath \<Rightarrow> CapturedRepo" where
  "sample_captured key path =
     \<lparr>captured_key = key, captured_source = [RootDir], captured_destination = path,
      captured_format = Sha1, captured_head = ObjectId Sha1 [], captured_branch = None, captured_origin = None\<rparr>"

definition sample_request :: FactoryRequest where
  "sample_request =
     \<lparr>factory_mode = FactoryBare,
      factory_vector = [sample_captured (KeyMember (lit ''m'')) [RootDir, Normal (Utf8 (lit ''d'')), Normal (Utf8 (lit ''m''))],
        sample_captured KeyRoot [RootDir, Normal (Utf8 (lit ''d''))]]\<rparr>"

definition sample_builder :: "nat RepoBuildPort" where
  "sample_builder =
     \<lparr>build_ref_exists = \<lambda>_ _ n. (Inr False, n), build_object_exists = \<lambda>_ _ n. (Inr True, n),
      build_init = \<lambda>_ _ _ n. (Inr (), n),
      build_transfer = \<lambda>_ _ _ n. (if n = 0 then Inr () else Inl (BuildFailed (lit ''no space'')), Suc n),
      build_set_head = \<lambda>_ _ _ _ n. (Inr (), n), build_set_detached = \<lambda>_ _ _ n. (Inr (), n),
      build_set_origin = \<lambda>_ _ n. (Inr (), n)\<rparr>"

theorem construct_asks_then_builds_witness:
  "build_stopped FactoryBare (root_first (factory_vector sample_request))
     (FactoryBuild (KeyMember (lit ''m'')) (BuildFailed (lit ''no space'')) [KeyRoot])
     (snd (snd (construct (recording sample_builder) sample_request (0, []))))"
proof -
  let ?e = "FactoryBuild (KeyMember (lit ''m'')) (BuildFailed (lit ''no space'')) [KeyRoot]"
  obtain r w' evs where run: "construct (recording sample_builder) sample_request (0, []) = (r, w', evs)"
    by (cases "construct (recording sample_builder) sample_request (0, [])") auto
  have "r = Inl ?e"
    using run
    by (auto simp: construct_def sample_request_def sample_captured_def sample_builder_def validate_factory_def
        preflight_def op_bind_def op_map_err_def recorded_def recording_def build_def build_repo_def Let_def
        attach_branch_def)
  moreover have "FactoryBare = factory_mode sample_request"
    by (simp add: sample_request_def)
  ultimately show ?thesis
    using construct_asks_then_builds [OF run refl, of FactoryBare] unfolding run snd_conv
    by (auto simp: asking_stopped_def answers_refuse_def Let_def split: if_splits)
qed

end
