(* ===== verification/Local_Import.thy ===== *)
theory Local_Import
  imports Repo_Contract BTree_Map
begin

text \<open>
  Exchange between members of a local family, \<open>crates/local-import/src/lib.rs\<close>: pairing the
  repositories of two workspaces by identity, importing the paired sources into one fresh ref of every
  receiver, verified before it is used, and publishing refspecs into a member. The transport between
  local repositories and the cancellation flag are arguments, as in the code.
\<close>

subsection \<open>Order of repository keys\<close>

text \<open>The derived order: the root first, then the members by their ids.\<close>

instantiation RepoKey :: linorder
begin

fun less_eq_RepoKey :: "RepoKey \<Rightarrow> RepoKey \<Rightarrow> bool" where
  "less_eq_RepoKey KeyRoot _ = True"
| "less_eq_RepoKey (KeyMember _) KeyRoot = False"
| "less_eq_RepoKey (KeyMember i) (KeyMember j) = (i \<le> j)"

definition less_RepoKey :: "RepoKey \<Rightarrow> RepoKey \<Rightarrow> bool" where
  "less_RepoKey a b = (a \<le> b \<and> \<not> b \<le> a)"

instance
proof
  fix a b c :: RepoKey
  show "a < b \<longleftrightarrow> a \<le> b \<and> \<not> b \<le> a"
    by (simp add: less_RepoKey_def)
  show "a \<le> a"
    by (cases a) simp_all
  show "a \<le> b \<Longrightarrow> b \<le> c \<Longrightarrow> a \<le> c"
    by (cases a; cases b; cases c) auto
  show "a \<le> b \<Longrightarrow> b \<le> a \<Longrightarrow> a = b"
    by (cases a; cases b) simp_all
  show "a \<le> b \<or> b \<le> a"
    by (cases a; cases b) auto
qed

end

subsection \<open>Values\<close>

definition IMPORT_REF_NAMESPACE :: ustr where
  "IMPORT_REF_NAMESPACE = lit ''refs/gwz/local-imports/''"

datatype TransferId = TransferId (transfer_str: ustr)

definition import_ref_of :: "TransferId \<Rightarrow> ustr" where
  "import_ref_of transfer = IMPORT_REF_NAMESPACE @ transfer_str transfer"

datatype SourceSelector = SelectHead | SelectRef ustr

fun refspec_source :: "SourceSelector \<Rightarrow> ustr" where
  "refspec_source SelectHead = lit ''HEAD''"
| "refspec_source (SelectRef name) = name"

record Participant =
  part_key :: RepoKey
  part_relative_path :: ustr
  part_path :: hpath

definition participant_root :: "hpath \<Rightarrow> Participant" where
  "participant_root path = \<lparr>part_key = KeyRoot, part_relative_path = lit ''.'', part_path = path\<rparr>"

record Pairing =
  pairing_key :: RepoKey
  pairing_receiver :: hpath
  pairing_source :: hpath

record MovedMember =
  moved_key :: RepoKey
  moved_receiver_path :: ustr
  moved_source_path :: ustr

record SourceProblem =
  problem_key :: RepoKey
  problem_detail :: ustr

record ImportRequest =
  import_transfer :: TransferId
  import_receivers :: "Participant list"
  import_sources :: "Participant list"
  import_selected :: "RepoKey list"
  import_selector :: SourceSelector

record ImportedCommit =
  commit_key :: RepoKey
  commit_oid :: ObjectId

record ImportedSource =
  imported_ref :: ustr
  imported_vector :: "ImportedCommit list"

definition oid_for :: "ImportedSource \<Rightarrow> RepoKey \<Rightarrow> ObjectId option" where
  "oid_for imported key = map_option commit_oid (find (\<lambda>commit. commit_key commit = key) (imported_vector imported))"

datatype ImportEffect = RefCreated (effect_key: RepoKey) (effect_ref: ustr) (effect_oid: ObjectId)

datatype ImportError =
    ImportInvalid ustr
  | PairingIncomplete "RepoKey list" "MovedMember list"
  | SourceMissing "SourceProblem list"
  | RefCollision RepoKey ustr
  | TransferFailed RepoKey ustr "ImportEffect list"
  | VectorMismatch RepoKey ObjectId "ObjectId option" "ImportEffect list"
  | ImportCancelled "ImportEffect list"

fun import_effects :: "ImportError \<Rightarrow> ImportEffect list" where
  "import_effects (TransferFailed _ _ effects) = effects"
| "import_effects (VectorMismatch _ _ _ effects) = effects"
| "import_effects (ImportCancelled effects) = effects"
| "import_effects _ = []"

definition join_keys :: "RepoKey list \<Rightarrow> ustr" where
  "join_keys keys = str_join (lit '', '') (map show_repo_key keys)"

fun show_import_error :: "ImportError \<Rightarrow> ustr" where
  "show_import_error (ImportInvalid detail) = lit ''invalid import request: '' @ detail"
| "show_import_error (PairingIncomplete missing moved) =
     lit ''import pairing is incomplete'' @
     (if missing = [] then [] else lit ''; unpaired: '' @ join_keys missing) @
     concat (map (\<lambda>entry. lit ''; '' @ show_repo_key (moved_key entry) @ lit '' is at '' @ moved_receiver_path entry @
       lit '' here and '' @ moved_source_path entry @ lit '' there'') moved)"
| "show_import_error (SourceMissing missing) =
     lit ''source missing'' @
     concat (map (\<lambda>problem. lit ''; '' @ show_repo_key (problem_key problem) @ lit '': '' @ problem_detail problem) missing)"
| "show_import_error (RefCollision key ref) = show_repo_key key @ lit '': import ref '' @ ref @ lit '' already exists''"
| "show_import_error (TransferFailed key detail _) = show_repo_key key @ lit '': transfer failed: '' @ detail"
| "show_import_error (VectorMismatch key expected received _) =
     show_repo_key key @ lit '': received '' @ (case received of None \<Rightarrow> lit ''nothing'' | Some oid \<Rightarrow> show_oid oid) @
     lit '' but captured '' @ show_oid expected"
| "show_import_error (ImportCancelled _) = lit ''import cancelled''"

definition transfer_new :: "ustr \<Rightarrow> ImportError + TransferId" where
  "transfer_new i =
     (if i = [] \<or> 47 \<in> set i \<or> list_ex is_whitespace i
      then Inl (ImportInvalid (lit ''invalid transfer id `'' @ i @ lit ''`''))
      else Inr (TransferId i))"

datatype TransportError =
    NotLocal ustr
  | TransportRepository hpath ustr
  | TransportRejected ustr ustr
  | TransportFailed ustr

fun show_transport_error :: "TransportError \<Rightarrow> ustr" where
  "show_transport_error (NotLocal detail) = lit ''not a local repository: '' @ detail"
| "show_transport_error (TransportRepository path detail) = path_display path @ lit '': '' @ detail"
| "show_transport_error (TransportRejected refspec detail) = refspec @ lit '' rejected: '' @ detail"
| "show_transport_error (TransportFailed detail) = detail"

record 'w LocalTransport =
  resolve_source :: "hpath \<Rightarrow> SourceSelector \<Rightarrow> ('w, TransportError, ObjectId) op"
  ref_exists :: "hpath \<Rightarrow> ustr \<Rightarrow> ('w, TransportError, bool) op"
  fetch_anonymous :: "hpath \<Rightarrow> hpath \<Rightarrow> ustr list \<Rightarrow> ('w, TransportError, unit) op"
  push_anonymous :: "hpath \<Rightarrow> hpath \<Rightarrow> ustr \<Rightarrow> ('w, TransportError, unit) op"
  read_ref :: "hpath \<Rightarrow> ustr \<Rightarrow> ('w, TransportError, ObjectId option) op"

subsection \<open>Pairing\<close>

text \<open>Both separators count, empty and \<open>.\<close> components do not.\<close>

definition lock_path_key :: "ustr \<Rightarrow> ustr" where
  "lock_path_key path =
     str_join [47] (filter (\<lambda>component. component \<noteq> [] \<and> component \<noteq> lit ''.'')
       (str_split 47 (map (\<lambda>c. if c = 92 then 47 else c) path)))"

fun index_by_key_from ::
    "(RepoKey, Participant) btree \<Rightarrow> Participant list \<Rightarrow> RepoKey + (RepoKey, Participant) btree" where
  "index_by_key_from index [] = Inr index"
| "index_by_key_from index (participant # participants) =
     (if bt_get index (part_key participant) \<noteq> None then Inl (part_key participant)
      else index_by_key_from (bt_insert (part_key participant) participant index) participants)"

definition index_by_key :: "Participant list \<Rightarrow> RepoKey + (RepoKey, Participant) btree" where
  "index_by_key participants = index_by_key_from bt_empty participants"

fun check_selected :: "(RepoKey, Participant) btree \<Rightarrow> RepoKey list \<Rightarrow> RepoKey list \<Rightarrow> ImportError + unit" where
  "check_selected receivers seen [] = Inr ()"
| "check_selected receivers seen (key # keys) =
     (if key \<in> set seen then Inl (ImportInvalid (show_repo_key key @ lit '' is selected twice''))
      else if bt_get receivers key = None
      then Inl (ImportInvalid (show_repo_key key @ lit '' is selected but is not a repository of this workspace''))
      else check_selected receivers (seen @ [key]) keys)"

definition receiver_missing :: "RepoKey list \<Rightarrow> (RepoKey, Participant) btree \<Rightarrow> RepoKey \<times> Participant \<Rightarrow> RepoKey list" where
  "receiver_missing selected sources entry =
     (let key = fst entry in
      if key = KeyRoot then []
      else case bt_get sources key of None \<Rightarrow> if key \<in> set selected then [key] else [] | Some _ \<Rightarrow> [])"

definition receiver_moved :: "(RepoKey, Participant) btree \<Rightarrow> RepoKey \<times> Participant \<Rightarrow> MovedMember list" where
  "receiver_moved sources entry =
     (let key = fst entry; receiver = snd entry in
      if key = KeyRoot then []
      else case bt_get sources key of
          None \<Rightarrow> []
        | Some source \<Rightarrow>
            if lock_path_key (part_relative_path receiver) \<noteq> lock_path_key (part_relative_path source)
            then [\<lparr>moved_key = key, moved_receiver_path = part_relative_path receiver,
                   moved_source_path = part_relative_path source\<rparr>]
            else [])"

definition unpaired ::
    "RepoKey list \<Rightarrow> (RepoKey, Participant) btree \<Rightarrow> (RepoKey, Participant) btree \<Rightarrow> RepoKey list" where
  "unpaired selected receivers sources =
     concat (map (receiver_missing selected sources) receivers) @
     filter (\<lambda>key. key \<noteq> KeyRoot \<and> bt_get receivers key = None) (map fst sources) @
     (if KeyRoot \<in> set selected \<and> bt_get sources KeyRoot = None then [KeyRoot] else [])"

definition pair_participants :: "ImportRequest \<Rightarrow> ImportError + Pairing list" where
  "pair_participants request =
     (if import_selected request = []
      then Inl (ImportInvalid (lit ''an import needs at least one selected participant''))
      else
        and_then (map_err (\<lambda>key. ImportInvalid (lit ''the receiving workspace lists '' @ show_repo_key key @ lit '' twice''))
            (index_by_key (import_receivers request))) (\<lambda>receivers.
        and_then (map_err (\<lambda>key. ImportInvalid (lit ''the source workspace lists '' @ show_repo_key key @ lit '' twice''))
            (index_by_key (import_sources request))) (\<lambda>sources.
        and_then (check_selected receivers [] (import_selected request)) (\<lambda>_.
          let missing = unpaired (import_selected request) receivers sources;
              moved = concat (map (receiver_moved sources) receivers) in
          if missing \<noteq> [] \<or> moved \<noteq> []
          then Inl (PairingIncomplete (remdups_adj (sort missing)) (sort_key moved_key moved))
          else Inr (map (\<lambda>participant.
                 \<lparr>pairing_key = part_key participant, pairing_receiver = part_path participant,
                  pairing_source = part_path (the (bt_get sources (part_key participant)))\<rparr>)
               (filter (\<lambda>participant. part_key participant \<in> set (import_selected request))
                 (import_receivers request)))))))"

subsection \<open>Import\<close>

text \<open>The flag is polled: a function of the world.\<close>

definition cancelled :: "('w \<Rightarrow> bool \<times> 'w) \<Rightarrow> ImportEffect list \<Rightarrow> ('w, ImportError, unit) op" where
  "cancelled is_cancelled effects w =
     (case is_cancelled w of (stop, w) \<Rightarrow> (if stop then Inl (ImportCancelled effects) else Inr (), w))"

fun capture_sources ::
    "'w LocalTransport \<Rightarrow> SourceSelector \<Rightarrow> ImportedCommit list \<Rightarrow> SourceProblem list \<Rightarrow> Pairing list \<Rightarrow>
     ('w, ImportError, ImportedCommit list \<times> SourceProblem list) op" where
  "capture_sources transport selector captured unresolved [] = op_return (captured, unresolved)"
| "capture_sources transport selector captured unresolved (pairing # pairings) =
     op_match (resolve_source transport (pairing_source pairing) selector) (\<lambda>r.
       case r of
         Inr oid \<Rightarrow>
           capture_sources transport selector
             (captured @ [\<lparr>commit_key = pairing_key pairing, commit_oid = oid\<rparr>]) unresolved pairings
       | Inl error \<Rightarrow>
           capture_sources transport selector captured
             (unresolved @ [\<lparr>problem_key = pairing_key pairing, problem_detail = show_transport_error error\<rparr>]) pairings)"

fun check_collisions :: "'w LocalTransport \<Rightarrow> ustr \<Rightarrow> Pairing list \<Rightarrow> ('w, ImportError, unit) op" where
  "check_collisions transport import_ref [] = op_return ()"
| "check_collisions transport import_ref (pairing # pairings) =
     op_match (ref_exists transport (pairing_receiver pairing) import_ref) (\<lambda>r.
       case r of
         Inr False \<Rightarrow> check_collisions transport import_ref pairings
       | Inr True \<Rightarrow> op_fail (RefCollision (pairing_key pairing) import_ref)
       | Inl error \<Rightarrow> op_fail (TransferFailed (pairing_key pairing)
           (lit ''import ref collision check failed: '' @ show_transport_error error) []))"

fun fetch_sources ::
    "'w LocalTransport \<Rightarrow> ('w \<Rightarrow> bool \<times> 'w) \<Rightarrow> ustr \<Rightarrow> ustr \<Rightarrow> ImportEffect list \<Rightarrow> (Pairing \<times> ImportedCommit) list \<Rightarrow>
     ('w, ImportError, ImportEffect list) op" where
  "fetch_sources transport is_cancelled refspec import_ref effects [] = op_return effects"
| "fetch_sources transport is_cancelled refspec import_ref effects ((pairing, commit) # rest) =
     op_bind (cancelled is_cancelled effects) (\<lambda>_.
     op_match (fetch_anonymous transport (pairing_receiver pairing) (pairing_source pairing) [refspec]) (\<lambda>r.
       case r of
         Inr _ \<Rightarrow>
           fetch_sources transport is_cancelled refspec import_ref
             (effects @ [RefCreated (pairing_key pairing) import_ref (commit_oid commit)]) rest
       | Inl error \<Rightarrow>
           op_match (read_ref transport (pairing_receiver pairing) import_ref) (\<lambda>found.
             op_fail (TransferFailed (pairing_key pairing) (show_transport_error error)
               (case found of
                  Inr (Some oid) \<Rightarrow> effects @ [RefCreated (pairing_key pairing) import_ref oid]
                | _ \<Rightarrow> effects)))))"

fun correct_effect :: "ImportEffect list \<Rightarrow> RepoKey \<Rightarrow> ObjectId option \<Rightarrow> ImportEffect list" where
  "correct_effect [] key received = []"
| "correct_effect (RefCreated existing ref oid # effects) key received =
     (if existing = key then (case received of Some oid \<Rightarrow> RefCreated existing ref oid # effects | None \<Rightarrow> effects)
      else RefCreated existing ref oid # correct_effect effects key received)"

fun verify_sources ::
    "'w LocalTransport \<Rightarrow> ustr \<Rightarrow> ImportEffect list \<Rightarrow> (Pairing \<times> ImportedCommit) list \<Rightarrow> ('w, ImportError, unit) op" where
  "verify_sources transport import_ref effects [] = op_return ()"
| "verify_sources transport import_ref effects ((pairing, commit) # rest) =
     op_match (read_ref transport (pairing_receiver pairing) import_ref) (\<lambda>r.
       case r of
         Inl error \<Rightarrow> op_fail (TransferFailed (pairing_key pairing)
           (lit ''import ref verification failed: '' @ show_transport_error error) effects)
       | Inr received \<Rightarrow>
           if received \<noteq> Some (commit_oid commit)
           then op_fail (VectorMismatch (pairing_key pairing) (commit_oid commit) received
             (correct_effect effects (pairing_key pairing) received))
           else verify_sources transport import_ref effects rest)"

definition import_refspec :: "SourceSelector \<Rightarrow> ustr \<Rightarrow> ustr" where
  "import_refspec selector import_ref = lit ''+'' @ refspec_source selector @ lit '':'' @ import_ref"

definition prepare_import ::
    "ImportRequest \<Rightarrow> 'w LocalTransport \<Rightarrow> ('w \<Rightarrow> bool \<times> 'w) \<Rightarrow> ('w, ImportError, ImportedSource) op" where
  "prepare_import request transport is_cancelled =
     op_bind (op_result (pair_participants request)) (\<lambda>pairings.
     let import_ref = import_ref_of (import_transfer request) in
     op_bind (cancelled is_cancelled []) (\<lambda>_.
     op_bind (capture_sources transport (import_selector request) [] [] pairings) (\<lambda>(captured, unresolved).
     if unresolved \<noteq> [] then op_fail (SourceMissing unresolved)
     else
       op_bind (check_collisions transport import_ref pairings) (\<lambda>_.
       op_bind (fetch_sources transport is_cancelled (import_refspec (import_selector request) import_ref) import_ref []
           (zip pairings captured)) (\<lambda>effects.
       op_bind (verify_sources transport import_ref effects (zip pairings captured)) (\<lambda>_.
         op_return \<lparr>imported_ref = import_ref, imported_vector = captured\<rparr>))))))"

subsection \<open>Push\<close>

datatype PushHead = PushAttached ustr | PushDetached

datatype ReceiverState = ReceiverBare | ReceiverCheckout "ustr option"

datatype PushRefusal =
    DetachedHead
  | CheckedOutBranch ustr
  | NonBareReceiver ustr
  | MissingSourceRef ustr
  | InvalidRefspec ustr ustr

fun show_push_refusal :: "PushRefusal \<Rightarrow> ustr" where
  "show_push_refusal DetachedHead = lit ''HEAD is detached; name a refspec to publish from here''"
| "show_push_refusal (CheckedOutBranch branch) = branch @ lit '' is checked out at the receiver''"
| "show_push_refusal (NonBareReceiver target) =
     lit ''the receiver is not a bare repository, so the local transport cannot publish '' @ target @ lit '' into it''"
| "show_push_refusal (MissingSourceRef name) = lit ''this repository has no '' @ name"
| "show_push_refusal (InvalidRefspec refspec detail) =
     lit ''refspec `'' @ refspec @ lit ''` is not usable: '' @ detail"

record PushItem =
  push_key :: RepoKey
  push_source :: hpath
  push_destination :: hpath
  push_head :: PushHead
  push_receiver :: ReceiverState
  push_refspec :: "ustr option"

datatype PushOutcome =
    Pushed ustr
  | PushRefused PushRefusal
  | PushFailed ustr

record PushResult =
  push_result_key :: RepoKey
  push_outcome :: PushOutcome

definition all_pushed :: "PushResult list \<Rightarrow> bool" where
  "all_pushed results = list_all (\<lambda>result. case push_outcome result of Pushed _ \<Rightarrow> True | _ \<Rightarrow> False) results"

definition outcome_for :: "PushResult list \<Rightarrow> RepoKey \<Rightarrow> PushOutcome option" where
  "outcome_for results key = map_option push_outcome (find (\<lambda>result. push_result_key result = key) results)"

definition split_refspec :: "ustr \<Rightarrow> PushRefusal + ustr \<times> ustr" where
  "split_refspec refspec =
     (case str_split_once (lit '':'') refspec of
        None \<Rightarrow> Inl (InvalidRefspec refspec (lit ''no `:`''))
      | Some (source, destination) \<Rightarrow>
          let source = dropWhile (\<lambda>c. c = 43) source in
          if source = [] \<or> destination = [] then Inl (InvalidRefspec refspec (lit ''both sides must name a ref''))
          else Inr (source, destination))"

definition destination_branch :: "ustr \<Rightarrow> ustr option" where
  "destination_branch destination =
     (if prefix (lit ''refs/heads/'') destination then Some (drop (length (lit ''refs/heads/'')) destination) else None)"

definition plan_refspec :: "PushItem \<Rightarrow> PushRefusal + ustr" where
  "plan_refspec item =
     (case (push_refspec item, push_head item) of
        (Some refspec, _) \<Rightarrow> and_then (split_refspec refspec) (\<lambda>_. Inr refspec)
      | (None, PushAttached branch) \<Rightarrow> Inr (lit ''refs/heads/'' @ branch @ lit '':refs/heads/'' @ branch)
      | (None, PushDetached) \<Rightarrow> Inl DetachedHead)"

fun receiver_refusal :: "ReceiverState \<Rightarrow> ustr \<Rightarrow> PushRefusal option" where
  "receiver_refusal ReceiverBare destination = None"
| "receiver_refusal (ReceiverCheckout checked_out) destination =
     Some (case (checked_out, destination_branch destination) of
         (Some branch, Some target) \<Rightarrow> if branch = target then CheckedOutBranch target else NonBareReceiver destination
       | _ \<Rightarrow> NonBareReceiver destination)"

text \<open>What can be decided without the transport: the refspec and its two sides.\<close>

definition push_plan :: "PushItem \<Rightarrow> PushRefusal + ustr \<times> ustr \<times> ustr" where
  "push_plan item =
     and_then (plan_refspec item) (\<lambda>refspec.
     and_then (split_refspec refspec) (\<lambda>(source, destination).
     case receiver_refusal (push_receiver item) destination of
       Some refusal \<Rightarrow> Inl refusal
     | None \<Rightarrow> Inr (refspec, source, destination)))"

definition push_one :: "'w LocalTransport \<Rightarrow> PushItem \<Rightarrow> 'w \<Rightarrow> PushOutcome \<times> 'w" where
  "push_one transport item w =
     (case push_plan item of
        Inl refusal \<Rightarrow> (PushRefused refusal, w)
      | Inr (refspec, source, destination) \<Rightarrow>
          (case ref_exists transport (push_source item) source w of
             (Inr True, w) \<Rightarrow>
               (case push_anonymous transport (push_source item) (push_destination item) refspec w of
                  (Inr _, w) \<Rightarrow> (Pushed refspec, w)
                | (Inl error, w) \<Rightarrow> (PushFailed (show_transport_error error), w))
           | (Inr False, w) \<Rightarrow> (PushRefused (MissingSourceRef source), w)
           | (Inl error, w) \<Rightarrow> (PushFailed (show_transport_error error), w)))"

fun push_local :: "'w LocalTransport \<Rightarrow> PushItem list \<Rightarrow> 'w \<Rightarrow> PushResult list \<times> 'w" where
  "push_local transport [] w = ([], w)"
| "push_local transport (item # items) w =
     (case push_one transport item w of
        (outcome, w) \<Rightarrow>
          case push_local transport items w of
            (results, w) \<Rightarrow> (\<lparr>push_result_key = push_key item, push_outcome = outcome\<rparr> # results, w))"

end
