(* ===== verification/Import_Proofs.thy ===== *)
theory Import_Proofs
  imports Local_Import
begin

text \<open>
  What pairing, import and push guarantee: pairing accepts exactly the corresponding member sets and
  reports every difference; an import touches no ref that was there and hands out only verified ids; a
  push transfers only what its plan admits.
\<close>

subsection \<open>Pairing\<close>

definition keys_of :: "Participant list \<Rightarrow> RepoKey list" where
  "keys_of participants = map part_key participants"

definition find_key :: "Participant list \<Rightarrow> RepoKey \<Rightarrow> Participant option" where
  "find_key participants key = find (\<lambda>participant. part_key participant = key) participants"

lemma find_key_simps [simp]:
  "find_key [] key = None"
  "find_key (p # ps) key = (if part_key p = key then Some p else find_key ps key)"
  by (simp_all add: find_key_def)

lemma find_key_None: "find_key ps key = None \<longleftrightarrow> key \<notin> set (keys_of ps)"
  by (induction ps) (auto simp: keys_of_def)

lemma find_key_Some:
  "find_key ps key = Some p \<Longrightarrow> p \<in> set ps \<and> part_key p = key"
  "distinct (keys_of ps) \<Longrightarrow> p \<in> set ps \<Longrightarrow> find_key ps (part_key p) = Some p"
  by (induction ps) (auto simp: keys_of_def split: if_splits)

lemma index_by_key_from_Inr:
  assumes "index_by_key_from index ps = Inr index'" "bt_wf index"
  shows "bt_wf index' \<and> distinct (keys_of ps) \<and> (\<forall>k \<in> set (keys_of ps). bt_get index k = None) \<and>
    (\<forall>k. bt_get index' k = (case find_key ps k of Some p \<Rightarrow> Some p | None \<Rightarrow> bt_get index k))"
  using assms
proof (induction ps arbitrary: index)
  case (Cons p ps)
  then have new: "bt_get index (part_key p) = None"
    and rest: "index_by_key_from (bt_insert (part_key p) p index) ps = Inr index'"
    by (auto split: if_splits)
  note IH = Cons.IH [OF rest bt.wf_insert [OF Cons.prems(2)]]
  have fresh: "part_key p \<notin> set (keys_of ps)"
    using IH by (auto simp: bt.get_insert)
  have "bt_get index' k = (case find_key (p # ps) k of Some p \<Rightarrow> Some p | None \<Rightarrow> bt_get index k)" for k
    using IH fresh [folded find_key_None] by (cases "k = part_key p") (auto simp: bt.get_insert split: option.split)
  moreover have "bt_get index k = None" if "k \<in> set (keys_of (p # ps))" for k
    using that new IH by (auto simp: keys_of_def bt.get_insert split: if_splits)
  ultimately show ?case
    using IH fresh by (simp add: keys_of_def)
qed (simp add: keys_of_def)

lemma index_by_key_from_total:
  "distinct (keys_of ps) \<Longrightarrow> (\<And>k. k \<in> set (keys_of ps) \<Longrightarrow> bt_get index k = None) \<Longrightarrow>
   \<exists>index'. index_by_key_from index ps = Inr index'"
proof (induction ps arbitrary: index)
  case (Cons p ps)
  have fresh: "part_key p \<notin> set (keys_of ps)" "distinct (keys_of ps)"
    using Cons.prems(1) by (simp_all add: keys_of_def)
  have "bt_get (bt_insert (part_key p) p index) k = None" if "k \<in> set (keys_of ps)" for k
    using Cons.prems(2) [of k] fresh(1) that by (cases "k = part_key p") (simp_all add: keys_of_def bt.get_insert)
  then have "\<exists>index'. index_by_key_from (bt_insert (part_key p) p index) ps = Inr index'"
    by (rule Cons.IH [OF fresh(2)])
  moreover have "bt_get index (part_key p) = None"
    by (rule Cons.prems(2)) (simp add: keys_of_def)
  ultimately show ?case
    by simp
qed simp

lemma index_by_key_Inr:
  assumes "index_by_key ps = Inr index"
  shows "bt_wf index" "\<And>k. bt_get index k = find_key ps k" "distinct (keys_of ps)"
proof -
  note facts = index_by_key_from_Inr [OF assms [unfolded index_by_key_def] bt.wf_empty]
  show "bt_wf index" "distinct (keys_of ps)"
    using facts by simp_all
  show "bt_get index k = find_key ps k" for k
    using facts by (cases "find_key ps k") (simp_all add: bt.get_empty)
qed

lemma index_by_key_total: "(\<exists>index. index_by_key ps = Inr index) \<longleftrightarrow> distinct (keys_of ps)"
proof
  show "\<exists>index. index_by_key ps = Inr index \<Longrightarrow> distinct (keys_of ps)"
    using index_by_key_Inr(3) by blast
  show "distinct (keys_of ps) \<Longrightarrow> \<exists>index. index_by_key ps = Inr index"
    unfolding index_by_key_def by (rule index_by_key_from_total) (simp_all add: bt.get_empty)
qed

lemma check_selected_Inr:
  "check_selected receivers seen keys = Inr () \<longleftrightarrow>
     distinct keys \<and> set seen \<inter> set keys = {} \<and> (\<forall>k \<in> set keys. bt_get receivers k \<noteq> None)"
  by (induction keys arbitrary: seen) auto

lemma check_selected_Inl: "check_selected receivers seen keys = Inl e \<Longrightarrow> \<exists>detail. e = ImportInvalid detail"
  by (induction keys arbitrary: seen) (auto split: if_splits)

text \<open>The two ways in which the workspaces may not correspond.\<close>

definition unpaired_key :: "ImportRequest \<Rightarrow> RepoKey \<Rightarrow> bool" where
  "unpaired_key request key \<longleftrightarrow>
     (key \<in> set (import_selected request) \<and> find_key (import_sources request) key = None) \<or>
     (key \<noteq> KeyRoot \<and> find_key (import_sources request) key \<noteq> None \<and> find_key (import_receivers request) key = None)"

definition moved_member :: "ImportRequest \<Rightarrow> RepoKey \<Rightarrow> Participant \<Rightarrow> Participant \<Rightarrow> bool" where
  "moved_member request key receiver source \<longleftrightarrow>
     key \<noteq> KeyRoot \<and> find_key (import_receivers request) key = Some receiver \<and>
     find_key (import_sources request) key = Some source \<and>
     lock_path_key (part_relative_path receiver) \<noteq> lock_path_key (part_relative_path source)"

definition request_names :: "ImportRequest \<Rightarrow> bool" where
  "request_names request \<longleftrightarrow>
     import_selected request \<noteq> [] \<and> distinct (keys_of (import_receivers request)) \<and>
     distinct (keys_of (import_sources request)) \<and> distinct (import_selected request) \<and>
     set (import_selected request) \<subseteq> set (keys_of (import_receivers request))"

lemma receiver_missing_iff:
  "key \<in> set (receiver_missing selected sources (k, p)) \<longleftrightarrow>
     key = k \<and> k \<noteq> KeyRoot \<and> k \<in> set selected \<and> bt_get sources k = None"
  by (auto simp: receiver_missing_def Let_def split: option.split)

lemma unpaired_set:
  assumes "bt_wf receivers" "bt_wf sources" "\<And>k. bt_get receivers k = find_key (import_receivers request) k"
    "\<And>k. bt_get sources k = find_key (import_sources request) k"
    "set (import_selected request) \<subseteq> set (keys_of (import_receivers request))"
  shows "set (unpaired (import_selected request) receivers sources) = {k. unpaired_key request k}"
proof -
  have mem: "(k, p) \<in> set receivers \<longleftrightarrow> find_key (import_receivers request) k = Some p"
    "(k, p) \<in> set sources \<longleftrightarrow> find_key (import_sources request) k = Some p" for k p
    using bt.get_mem [OF assms(1), of k p] bt.get_mem [OF assms(2), of k p] assms(3,4) by simp_all
  have here: "\<exists>p. find_key (import_receivers request) k = Some p" if "k \<in> set (import_selected request)" for k
    using that assms(5) find_key_None [of "import_receivers request" k] by auto
  have "k \<in> set (unpaired (import_selected request) receivers sources) \<longleftrightarrow> unpaired_key request k" for k
  proof -
    have "k \<in> set (concat (map (receiver_missing (import_selected request) sources) receivers)) \<longleftrightarrow>
        (\<exists>k' p. (k', p) \<in> set receivers \<and> k \<in> set (receiver_missing (import_selected request) sources (k', p)))"
      by auto
    also have "\<dots> \<longleftrightarrow> k \<noteq> KeyRoot \<and> k \<in> set (import_selected request) \<and> find_key (import_sources request) k = None"
      unfolding receiver_missing_iff mem(1) assms(4) using here [of k] by blast
    finally have missing: "k \<in> set (concat (map (receiver_missing (import_selected request) sources) receivers)) \<longleftrightarrow>
        k \<noteq> KeyRoot \<and> k \<in> set (import_selected request) \<and> find_key (import_sources request) k = None" .
    have source: "k \<in> set (map fst sources) \<longleftrightarrow> find_key (import_sources request) k \<noteq> None"
      using mem(2) [of k] by force
    show ?thesis
      unfolding unpaired_def unpaired_key_def set_append Un_iff missing set_filter mem_Collect_eq source assms(3,4)
      by auto
  qed
  then show ?thesis
    by blast
qed

lemma moved_iff:
  assumes "bt_wf receivers" "\<And>k. bt_get receivers k = find_key (import_receivers request) k"
    "\<And>k. bt_get sources k = find_key (import_sources request) k"
  shows "m \<in> set (concat (map (receiver_moved sources) receivers)) \<longleftrightarrow>
    (\<exists>receiver source. moved_member request (moved_key m) receiver source \<and>
       moved_receiver_path m = part_relative_path receiver \<and> moved_source_path m = part_relative_path source)"
proof -
  have mem: "(k, p) \<in> set receivers \<longleftrightarrow> find_key (import_receivers request) k = Some p" for k p
    using bt.get_mem [OF assms(1), of k p] assms(2) by simp
  have one: "m \<in> set (receiver_moved sources (k, receiver)) \<longleftrightarrow>
      moved_key m = k \<and> moved_receiver_path m = part_relative_path receiver \<and> k \<noteq> KeyRoot \<and>
      (\<exists>source. find_key (import_sources request) k = Some source \<and> moved_source_path m = part_relative_path source \<and>
        lock_path_key (part_relative_path receiver) \<noteq> lock_path_key (part_relative_path source))" for k receiver
    by (cases "find_key (import_sources request) k"; cases m) (auto simp: receiver_moved_def Let_def assms(3))
  have "m \<in> set (concat (map (receiver_moved sources) receivers)) \<longleftrightarrow>
      (\<exists>k receiver. (k, receiver) \<in> set receivers \<and> m \<in> set (receiver_moved sources (k, receiver)))"
    by auto
  then show ?thesis
    unfolding one mem moved_member_def by blast
qed

text \<open>What a pairing is.\<close>

definition paired :: "ImportRequest \<Rightarrow> Pairing \<Rightarrow> bool" where
  "paired request pairing \<longleftrightarrow>
     (\<exists>receiver source. find_key (import_receivers request) (pairing_key pairing) = Some receiver \<and>
        find_key (import_sources request) (pairing_key pairing) = Some source \<and>
        pairing_receiver pairing = part_path receiver \<and> pairing_source pairing = part_path source \<and>
        (pairing_key pairing = KeyRoot \<or>
         lock_path_key (part_relative_path receiver) = lock_path_key (part_relative_path source)))"

definition pairing_outcome :: "ImportRequest \<Rightarrow> ImportError + Pairing list \<Rightarrow> bool" where
  "pairing_outcome request r \<longleftrightarrow>
     (case r of
        Inr pairings \<Rightarrow>
          request_names request \<and> (\<forall>key. \<not> unpaired_key request key) \<and>
          (\<forall>key receiver source. \<not> moved_member request key receiver source) \<and>
          map pairing_key pairings =
            filter (\<lambda>key. key \<in> set (import_selected request)) (keys_of (import_receivers request)) \<and>
          list_all (paired request) pairings
      | Inl (PairingIncomplete missing moved) \<Rightarrow>
          request_names request \<and> (missing \<noteq> [] \<or> moved \<noteq> []) \<and>
          sorted missing \<and> distinct missing \<and> set missing = {key. unpaired_key request key} \<and>
          (\<forall>m. m \<in> set moved \<longleftrightarrow> (\<exists>receiver source. moved_member request (moved_key m) receiver source \<and>
             moved_receiver_path m = part_relative_path receiver \<and> moved_source_path m = part_relative_path source))
      | Inl (ImportInvalid _) \<Rightarrow> \<not> request_names request
      | Inl _ \<Rightarrow> False)"

lemma paired_all:
  assumes "\<And>key. \<not> unpaired_key request key" "\<And>key receiver source. \<not> moved_member request key receiver source"
    "distinct (keys_of (import_receivers request))" "\<And>k. bt_get sources k = find_key (import_sources request) k"
    "p \<in> set (import_receivers request)" "part_key p \<in> set (import_selected request)"
  shows "paired request \<lparr>pairing_key = part_key p, pairing_receiver = part_path p,
      pairing_source = part_path (the (bt_get sources (part_key p)))\<rparr>"
proof -
  have receiver: "find_key (import_receivers request) (part_key p) = Some p"
    by (rule find_key_Some(2) [OF assms(3,5)])
  obtain source where source: "find_key (import_sources request) (part_key p) = Some source"
    using assms(1) [of "part_key p"] assms(6) by (auto simp: unpaired_key_def)
  have "part_key p = KeyRoot \<or> lock_path_key (part_relative_path p) = lock_path_key (part_relative_path source)"
    using assms(2) [of "part_key p" p source] receiver source by (auto simp: moved_member_def)
  with receiver source show ?thesis
    by (simp add: paired_def assms(4))
qed

lemma sort_key_eq_Nil [simp]: "sort_key f xs = [] \<longleftrightarrow> xs = []"
  by (metis length_0_conv length_sort)

lemma sorted_dedup: "sorted xs \<Longrightarrow> distinct (remdups_adj xs)"
proof (induction xs rule: remdups_adj.induct)
  case (3 x y xs)
  then show ?case
    by (cases "x = y") auto
qed simp_all

lemma pair_indexed:
  assumes index: "index_by_key (import_receivers request) = Inr receivers" "index_by_key (import_sources request) = Inr sources"
    and ok: "request_names request" and checked: "check_selected receivers [] (import_selected request) = Inr ()"
  shows "pairing_outcome request (pair_participants request)"
proof -
  note r = index_by_key_Inr [OF index(1)] and s = index_by_key_Inr [OF index(2)]
  let ?missing = "unpaired (import_selected request) receivers sources"
  let ?moved = "concat (map (receiver_moved sources) receivers)"
  have sub: "set (import_selected request) \<subseteq> set (keys_of (import_receivers request))"
    using ok by (simp add: request_names_def)
  note missing = unpaired_set [OF r(1) s(1) r(2) s(2) sub] and moved = moved_iff [OF r(1) r(2) s(2)]
  have run: "pair_participants request =
      (if ?missing \<noteq> [] \<or> ?moved \<noteq> []
       then Inl (PairingIncomplete (remdups_adj (sort ?missing)) (sort_key moved_key ?moved))
       else Inr (map (\<lambda>p. \<lparr>pairing_key = part_key p, pairing_receiver = part_path p,
              pairing_source = part_path (the (bt_get sources (part_key p)))\<rparr>)
           (filter (\<lambda>p. part_key p \<in> set (import_selected request)) (import_receivers request))))"
    using ok index checked by (simp add: pair_participants_def Let_def request_names_def)
  show ?thesis
  proof (cases "?missing \<noteq> [] \<or> ?moved \<noteq> []")
    case True
    have "sorted (remdups_adj (sort ?missing)) \<and> distinct (remdups_adj (sort ?missing))"
      by (simp add: sorted_dedup)
    with True ok missing moved show ?thesis
      unfolding run by (auto simp: pairing_outcome_def)
  next
    case False
    then have none: "\<not> unpaired_key request key" "\<not> moved_member request key receiver source" for key receiver source
      using missing moved [of "\<lparr>moved_key = key, moved_receiver_path = part_relative_path receiver,
        moved_source_path = part_relative_path source\<rparr>"] by auto
    show ?thesis
      unfolding run using False ok none paired_all [OF none r(3) s(2)]
      by (auto simp: pairing_outcome_def list_all_iff keys_of_def filter_map o_def)
  qed
qed

lemma pair_participants_outcome: "pairing_outcome request (pair_participants request)"
proof (cases "import_selected request = []")
  case True
  then show ?thesis
    by (simp add: pair_participants_def pairing_outcome_def request_names_def)
next
  case selected: False
  show ?thesis
  proof (cases "distinct (keys_of (import_receivers request)) \<and> distinct (keys_of (import_sources request))")
    case False
    then show ?thesis
      using selected index_by_key_total [of "import_receivers request"] index_by_key_total [of "import_sources request"]
      by (cases "index_by_key (import_receivers request)"; cases "index_by_key (import_sources request)")
        (auto simp: pair_participants_def pairing_outcome_def request_names_def)
  next
    case True
    then obtain receivers sources where
      index: "index_by_key (import_receivers request) = Inr receivers" "index_by_key (import_sources request) = Inr sources"
      using index_by_key_total by metis
    have names: "check_selected receivers [] (import_selected request) = Inr () \<longleftrightarrow> request_names request"
      using selected True find_key_None [of "import_receivers request"]
      by (auto simp: check_selected_Inr index_by_key_Inr(2) [OF index(1)] request_names_def)
    show ?thesis
    proof (cases "check_selected receivers [] (import_selected request)")
      case (Inl e)
      with check_selected_Inl [OF Inl] names selected index show ?thesis
        by (auto simp: pair_participants_def pairing_outcome_def)
    next
      case (Inr u)
      with names pair_indexed [OF index] show ?thesis
        by simp
    qed
  qed
qed

subsection \<open>What a transport keeps\<close>

text \<open>
  The documented behaviour of a transport, over the refs of the repositories: questions and reads change
  no ref and answer truly, and a fetch with one explicit refspec changes at most the ref its right side
  names in the receiver. Repositories are told apart by their paths: two paths of one repository are
  outside these laws.
\<close>

definition transport_laws :: "'w LocalTransport \<Rightarrow> ('w \<Rightarrow> hpath \<Rightarrow> ustr \<Rightarrow> ObjectId option) \<Rightarrow> bool" where
  "transport_laws transport refs \<longleftrightarrow>
     (\<forall>source selector w. refs (snd (resolve_source transport source selector w)) = refs w) \<and>
     (\<forall>path name w. refs (snd (ref_exists transport path name w)) = refs w) \<and>
     (\<forall>path name w b. fst (ref_exists transport path name w) = Inr b \<longrightarrow> (b \<longleftrightarrow> refs w path name \<noteq> None)) \<and>
     (\<forall>path name w. refs (snd (read_ref transport path name w)) = refs w) \<and>
     (\<forall>path name w found. fst (read_ref transport path name w) = Inr found \<longrightarrow> found = refs w path name) \<and>
     (\<forall>receiver source left right w path name. (path, name) \<noteq> (receiver, right) \<longrightarrow>
        refs (snd (fetch_anonymous transport receiver source [lit ''+'' @ left @ lit '':'' @ right] w)) path name =
        refs w path name)"

lemma transport_lawsD:
  assumes "transport_laws transport refs"
  shows "refs (snd (resolve_source transport source selector w)) = refs w"
    "refs (snd (ref_exists transport path name w)) = refs w"
    "fst (ref_exists transport path name w) = Inr b \<Longrightarrow> b \<longleftrightarrow> refs w path name \<noteq> None"
    "refs (snd (read_ref transport path name w)) = refs w"
    "fst (read_ref transport path name w) = Inr found \<Longrightarrow> found = refs w path name"
    "(path, name) \<noteq> (receiver, right) \<Longrightarrow>
       refs (snd (fetch_anonymous transport receiver source' [import_refspec sel right] w)) path name = refs w path name"
proof -
  note laws = assms [unfolded transport_laws_def]
  show "refs (snd (resolve_source transport source selector w)) = refs w"
    "refs (snd (ref_exists transport path name w)) = refs w"
    "refs (snd (read_ref transport path name w)) = refs w"
    using laws by simp_all
  show "fst (ref_exists transport path name w) = Inr b \<Longrightarrow> b \<longleftrightarrow> refs w path name \<noteq> None"
    "fst (read_ref transport path name w) = Inr found \<Longrightarrow> found = refs w path name"
    using laws by simp_all
  show "(path, name) \<noteq> (receiver, right) \<Longrightarrow>
       refs (snd (fetch_anonymous transport receiver source' [import_refspec sel right] w)) path name = refs w path name"
    using laws unfolding import_refspec_def by blast
qed

lemma cancelled_refs:
  assumes "\<And>w. refs (snd (is_cancelled w)) = refs w" "cancelled is_cancelled effects w = (r, w')"
  shows "refs w' = refs w" "r = Inl e \<Longrightarrow> e = ImportCancelled effects"
  using assms(1) [of w] assms(2) by (auto simp: cancelled_def split: prod.splits if_splits)

lemma capture_refs:
  assumes "transport_laws transport refs"
    "capture_sources transport selector captured unresolved pairings w = (r, w')"
  shows "refs w' = refs w \<and> (\<exists>captured' unresolved'. r = Inr (captured', unresolved') \<and>
      (unresolved' = [] \<longrightarrow> unresolved = [] \<and> map commit_key captured' = map commit_key captured @ map pairing_key pairings))"
  using assms(2)
proof (induction pairings arbitrary: captured unresolved w)
  case (Cons pairing pairings)
  obtain r1 w1 where one: "resolve_source transport (pairing_source pairing) selector w = (r1, w1)"
    by fastforce
  have "refs w1 = refs w"
    using transport_lawsD(1) [OF assms(1), of "pairing_source pairing" selector w] one by simp
  with one Cons.IH Cons.prems show ?case
    by (cases r1) (fastforce simp: op_match_def)+
qed auto

lemma collisions_refs:
  assumes "transport_laws transport refs" "check_collisions transport import_ref pairings w = (r, w')"
  shows "refs w' = refs w" "r = Inr () \<Longrightarrow> \<forall>pairing \<in> set pairings. refs w (pairing_receiver pairing) import_ref = None"
    "r = Inl e \<Longrightarrow> import_effects e = []"
proof -
  have "refs w' = refs w \<and> (r = Inr () \<longrightarrow> (\<forall>pairing \<in> set pairings. refs w (pairing_receiver pairing) import_ref = None)) \<and>
      (\<forall>e. r = Inl e \<longrightarrow> import_effects e = [])"
    using assms(2)
  proof (induction pairings arbitrary: w)
    case (Cons pairing pairings)
    obtain r1 w1 where one: "ref_exists transport (pairing_receiver pairing) import_ref w = (r1, w1)"
      by fastforce
    have w1: "refs w1 = refs w" "r1 = Inr b \<Longrightarrow> b \<longleftrightarrow> refs w (pairing_receiver pairing) import_ref \<noteq> None" for b
      using transport_lawsD(2,3) [OF assms(1), of "pairing_receiver pairing" import_ref w] one by simp_all
    show ?case
    proof (cases "r1 = Inr False")
      case True
      with one Cons.prems have "check_collisions transport import_ref pairings w1 = (r, w')"
        by (simp add: op_match_def)
      from Cons.IH [OF this] w1(1) w1(2) [OF True] show ?thesis
        by simp
    next
      case False
      then show ?thesis
        using one Cons.prems w1(1) by (cases r1) (auto simp: op_match_def split: bool.splits)
    qed
  qed auto
  then show "refs w' = refs w" "r = Inr () \<Longrightarrow> \<forall>pairing \<in> set pairings. refs w (pairing_receiver pairing) import_ref = None"
    "r = Inl e \<Longrightarrow> import_effects e = []"
    by simp_all
qed

subsection \<open>Fetching and verifying\<close>

text \<open>What an error says was created, or may have been: the receiver whose transfer failed.\<close>

definition reported :: "ImportError \<Rightarrow> RepoKey \<Rightarrow> bool" where
  "reported e key \<longleftrightarrow> key \<in> effect_key ` set (import_effects e) \<or> (\<exists>detail effects. e = TransferFailed key detail effects)"

definition fetched :: "ustr \<Rightarrow> (Pairing \<times> ImportedCommit) list \<Rightarrow> ImportEffect list" where
  "fetched import_ref work = map (\<lambda>(pairing, commit). RefCreated (pairing_key pairing) import_ref (commit_oid commit)) work"

text \<open>Where two states of the repositories differ: at the import ref of some of the receivers.\<close>

definition differ_at :: "('w \<Rightarrow> hpath \<Rightarrow> ustr \<Rightarrow> ObjectId option) \<Rightarrow> ustr \<Rightarrow> hpath set \<Rightarrow> 'w \<Rightarrow> 'w \<Rightarrow> bool" where
  "differ_at refs import_ref receivers w w' \<longleftrightarrow>
     (\<forall>path name. refs w' path name \<noteq> refs w path name \<longrightarrow> name = import_ref \<and> path \<in> receivers)"

lemma differ_at_refl: "refs w' = refs w \<Longrightarrow> differ_at refs import_ref receivers w w'"
  by (simp add: differ_at_def)

lemma differ_at_mono: "differ_at refs import_ref A w w' \<Longrightarrow> A \<subseteq> B \<Longrightarrow> differ_at refs import_ref B w w'"
  unfolding differ_at_def by blast

lemma differ_at_trans:
  assumes "differ_at refs import_ref A w w1" "differ_at refs import_ref B w1 w'" "A \<subseteq> C" "B \<subseteq> C"
  shows "differ_at refs import_ref C w w'"
  unfolding differ_at_def
proof (intro allI impI)
  fix path name
  assume "refs w' path name \<noteq> refs w path name"
  then have "refs w' path name \<noteq> refs w1 path name \<or> refs w1 path name \<noteq> refs w path name"
    by auto
  with assms show "name = import_ref \<and> path \<in> C"
    unfolding differ_at_def by blast
qed

definition receivers_of :: "(Pairing \<Rightarrow> bool) \<Rightarrow> Pairing list \<Rightarrow> hpath set" where
  "receivers_of P pairings = pairing_receiver ` {pairing \<in> set pairings. P pairing}"

lemma fetch_differs:
  assumes "transport_laws transport refs"
    "fetch_anonymous transport receiver source [import_refspec sel import_ref] w = (r, w')"
  shows "differ_at refs import_ref {receiver} w w'"
  unfolding differ_at_def
proof (intro allI impI)
  fix path name
  assume "refs w' path name \<noteq> refs w path name"
  then show "name = import_ref \<and> path \<in> {receiver}"
    using transport_lawsD(6) [OF assms(1), of path name receiver import_ref source sel w] assms(2) by fastforce
qed

lemma fetch_refs:
  assumes laws: "transport_laws transport refs" and keeps: "\<And>w. refs (snd (is_cancelled w)) = refs w"
    and run: "fetch_sources transport is_cancelled (import_refspec sel import_ref) import_ref effects work w = (r, w')"
  shows "case r of
      Inr effects' \<Rightarrow> effects' = effects @ fetched import_ref work \<and>
        differ_at refs import_ref (receivers_of (\<lambda>_. True) (map fst work)) w w'
    | Inl e \<Rightarrow> set effects \<subseteq> set (import_effects e) \<and>
        differ_at refs import_ref (receivers_of (\<lambda>pairing. reported e (pairing_key pairing)) (map fst work)) w w'"
  using run
proof (induction work arbitrary: effects w)
  case Nil
  then show ?case
    by (auto simp: fetched_def differ_at_refl)
next
  case (Cons entry work)
  obtain pairing commit where entry: "entry = (pairing, commit)"
    by fastforce
  let ?receiver = "pairing_receiver pairing" and ?key = "pairing_key pairing"
  obtain r0 w0 where poll: "cancelled is_cancelled effects w = (r0, w0)"
    by fastforce
  note w0 = cancelled_refs [where refs = refs and is_cancelled = is_cancelled, OF keeps poll]
  obtain r1 w1 where fetch: "fetch_anonymous transport ?receiver (pairing_source pairing) [import_refspec sel import_ref] w0 = (r1, w1)"
    by fastforce
  have w1: "differ_at refs import_ref {?receiver} w w1"
    using fetch_differs [OF laws fetch] w0(1) by (simp add: differ_at_def)
  consider (stop) e where "r0 = Inl e" | (failed) error where "r0 = Inr ()" "r1 = Inl error" | (ok) "r0 = Inr ()" "r1 = Inr ()"
    by (cases r0; cases r1) auto
  then show ?case
  proof cases
    case stop
    with Cons.prems poll w0 show ?thesis
      by (auto simp: entry op_bind_def differ_at_refl)
  next
    case failed
    obtain found w2 where look: "read_ref transport ?receiver import_ref w1 = (found, w2)"
      by fastforce
    have w2: "refs w2 = refs w1"
      using transport_lawsD(4) [OF laws, of ?receiver import_ref w1] look by simp
    let ?e = "TransferFailed ?key (show_transport_error error) (case found of
        Inr (Some oid) \<Rightarrow> effects @ [RefCreated ?key import_ref oid] | _ \<Rightarrow> effects)"
    have r: "r = Inl ?e" "w' = w2"
      using Cons.prems poll fetch look failed by (simp_all add: entry op_bind_def op_match_def)
    have "set effects \<subseteq> set (import_effects ?e)"
      by (auto split: sum.split option.split)
    moreover have "?receiver \<in> receivers_of (\<lambda>p. reported ?e (pairing_key p)) (map fst (entry # work))"
      by (auto simp: receivers_of_def reported_def entry)
    moreover have "differ_at refs import_ref {?receiver} w w2"
      using w1 w2 by (simp add: differ_at_def)
    ultimately show ?thesis
      unfolding r sum.case by (blast intro: differ_at_mono)
  next
    case ok
    let ?effects = "effects @ [RefCreated ?key import_ref (commit_oid commit)]"
    have rest: "fetch_sources transport is_cancelled (import_refspec sel import_ref) import_ref ?effects work w1 = (r, w')"
      using Cons.prems poll fetch ok by (simp add: entry op_bind_def op_match_def)
    show ?thesis
    proof (cases r)
      case (Inr effects')
      with Cons.IH [OF rest] have IH: "effects' = ?effects @ fetched import_ref work"
        "differ_at refs import_ref (receivers_of (\<lambda>_. True) (map fst work)) w1 w'"
        by simp_all
      from differ_at_trans [OF w1 IH(2), of "receivers_of (\<lambda>_. True) (map fst (entry # work))"] IH(1) Inr show ?thesis
        by (auto simp: entry receivers_of_def fetched_def)
    next
      case (Inl e)
      with Cons.IH [OF rest] have IH: "set ?effects \<subseteq> set (import_effects e)"
        "differ_at refs import_ref (receivers_of (\<lambda>p. reported e (pairing_key p)) (map fst work)) w1 w'"
        by simp_all
      then have "reported e ?key"
        unfolding reported_def by force
      with differ_at_trans [OF w1 IH(2), of "receivers_of (\<lambda>p. reported e (pairing_key p)) (map fst (entry # work))"] IH(1) Inl
      show ?thesis
        by (auto simp: entry receivers_of_def)
    qed
  qed
qed

lemma verify_refs:
  assumes laws: "transport_laws transport refs" and run: "verify_sources transport import_ref effects work w = (r, w')"
  shows "refs w' = refs w \<and>
    (case r of
       Inr _ \<Rightarrow> \<forall>(pairing, commit) \<in> set work. refs w (pairing_receiver pairing) import_ref = Some (commit_oid commit)
     | Inl e \<Rightarrow> (\<exists>key detail. e = TransferFailed key detail effects) \<or>
         (\<exists>(pairing, commit) \<in> set work. let received = refs w (pairing_receiver pairing) import_ref in
            e = VectorMismatch (pairing_key pairing) (commit_oid commit) received
                  (correct_effect effects (pairing_key pairing) received)))"
  using run
proof (induction work arbitrary: w)
  case Nil
  then show ?case
    by auto
next
  case (Cons entry work)
  obtain pairing commit where entry: "entry = (pairing, commit)"
    by fastforce
  obtain r1 w1 where look: "read_ref transport (pairing_receiver pairing) import_ref w = (r1, w1)"
    by fastforce
  have w1: "refs w1 = refs w" "r1 = Inr found \<Longrightarrow> found = refs w (pairing_receiver pairing) import_ref" for found
    using transport_lawsD(4,5) [OF laws, of "pairing_receiver pairing" import_ref w] look by simp_all
  show ?case
  proof (cases "r1 = Inr (Some (commit_oid commit))")
    case True
    with Cons.prems look have "verify_sources transport import_ref effects work w1 = (r, w')"
      by (simp add: entry op_match_def)
    from Cons.IH [OF this] w1(1) w1(2) [OF True] show ?thesis
      by (cases r) (auto simp: entry)
  next
    case False
    with Cons.prems look w1 show ?thesis
      by (cases r1) (auto simp: entry op_match_def Let_def split: if_splits)
  qed
qed

lemma correct_effect_keys:
  "k \<in> effect_key ` set effects \<Longrightarrow> k \<noteq> key \<or> received \<noteq> None \<Longrightarrow> k \<in> effect_key ` set (correct_effect effects key received)"
  by (induction effects key received rule: correct_effect.induct) (auto split: option.splits if_splits)

lemma differ_spares:
  assumes "differ_at refs import_ref A w w'" "\<And>path. path \<in> A \<Longrightarrow> refs w path import_ref = None" "refs w path name = Some oid"
  shows "refs w' path name = Some oid"
proof (rule ccontr)
  assume "refs w' path name \<noteq> Some oid"
  with assms(3) have "refs w' path name \<noteq> refs w path name"
    by simp
  with assms(1) have "name = import_ref" "path \<in> A"
    unfolding differ_at_def by blast+
  with assms(2,3) show False
    by auto
qed

text \<open>What an import promises of the refs, for the pairings it works on.\<close>

definition import_outcome ::
    "('w \<Rightarrow> hpath \<Rightarrow> ustr \<Rightarrow> ObjectId option) \<Rightarrow> ustr \<Rightarrow> Pairing list \<Rightarrow> 'w \<Rightarrow> ImportError + ImportedSource \<Rightarrow> 'w \<Rightarrow> bool" where
  "import_outcome refs import_ref pairings w r w' \<longleftrightarrow>
     (\<forall>path name oid. refs w path name = Some oid \<longrightarrow> refs w' path name = Some oid) \<and>
     (case r of
        Inr imported \<Rightarrow>
          imported_ref imported = import_ref \<and>
          differ_at refs import_ref (receivers_of (\<lambda>_. True) pairings) w w' \<and>
          list_all2 (\<lambda>pairing commit. commit_key commit = pairing_key pairing \<and>
            refs w' (pairing_receiver pairing) import_ref = Some (commit_oid commit)) pairings (imported_vector imported)
      | Inl e \<Rightarrow> differ_at refs import_ref (receivers_of (\<lambda>pairing. reported e (pairing_key pairing)) pairings) w w')"

lemma import_outcome_unchanged: "refs w' = refs w \<Longrightarrow> import_outcome refs import_ref pairings w (Inl e) w'"
  by (simp add: import_outcome_def differ_at_refl)

text \<open>After every fetch succeeded, a failing verification still reports every ref that is there.\<close>

lemma mismatch_reported:
  assumes fetched: "differ_at refs import_ref (receivers_of (\<lambda>_. True) pairings) w w'"
    and free: "\<And>pairing. pairing \<in> set pairings \<Longrightarrow> refs w (pairing_receiver pairing) import_ref = None"
    and work: "map commit_key captured = map pairing_key pairings" "distinct (map pairing_key pairings)"
    and at: "(pairing, commit) \<in> set (zip pairings captured)"
    and received: "received = refs w' (pairing_receiver pairing) import_ref"
    and e: "e = VectorMismatch (pairing_key pairing) (commit_oid commit) received
       (correct_effect (fetched import_ref (zip pairings captured)) (pairing_key pairing) received)"
  shows "differ_at refs import_ref (receivers_of (\<lambda>p. reported e (pairing_key p)) pairings) w w'"
  unfolding differ_at_def
proof (intro allI impI)
  fix path name
  assume changed: "refs w' path name \<noteq> refs w path name"
  with fetched obtain p where p: "name = import_ref" "p \<in> set pairings" "path = pairing_receiver p"
    unfolding differ_at_def receivers_of_def by auto
  have pairing: "pairing \<in> set pairings"
    using at by (meson set_zip_leftD)
  have "length captured = length pairings"
    using work(1) by (metis length_map)
  then have "fst ` set (zip pairings captured) = set pairings"
    by (metis list.set_map map_fst_zip)
  with p(2) have key: "pairing_key p \<in> effect_key ` set (fetched import_ref (zip pairings captured))"
    unfolding fetched_def by force
  have "pairing_key p \<noteq> pairing_key pairing \<or> received \<noteq> None"
  proof (rule ccontr)
    assume "\<not> (pairing_key p \<noteq> pairing_key pairing \<or> received \<noteq> None)"
    then have "p = pairing" "received = None"
      using work(2) p(2) pairing by (auto simp: distinct_map inj_on_def)
    with changed p received free [OF p(2)] show False
      by simp
  qed
  with correct_effect_keys [OF key] have "reported e (pairing_key p)"
    unfolding reported_def e by simp
  with p show "name = import_ref \<and> path \<in> receivers_of (\<lambda>p. reported e (pairing_key p)) pairings"
    unfolding receivers_of_def by blast
qed

lemma failed_verification_reported:
  assumes laws: "transport_laws transport refs"
    and fetched: "differ_at refs import_ref (receivers_of (\<lambda>_. True) pairings) w w1"
    and free: "\<And>pairing. pairing \<in> set pairings \<Longrightarrow> refs w (pairing_receiver pairing) import_ref = None"
    and work: "map commit_key captured = map pairing_key pairings" "distinct (map pairing_key pairings)"
    and verify: "verify_sources transport import_ref (Import_Proofs.fetched import_ref (zip pairings captured))
        (zip pairings captured) w1 = (Inl e, w2)"
  shows "differ_at refs import_ref (receivers_of (\<lambda>p. reported e (pairing_key p)) pairings) w w2"
proof -
  let ?effects = "Import_Proofs.fetched import_ref (zip pairings captured)"
  note verified = verify_refs [OF laws verify, unfolded sum.case]
  have w2: "differ_at refs import_ref (receivers_of (\<lambda>_. True) pairings) w w2"
    using verified fetched by (simp add: differ_at_def)
  have "map fst (zip pairings captured) = pairings"
    using work(1) by (metis length_map map_fst_zip)
  then have all: "fst ` set (zip pairings captured) = set pairings"
    by (metis list.set_map)
  consider key detail where "e = TransferFailed key detail ?effects"
    | pairing commit where "(pairing, commit) \<in> set (zip pairings captured)"
      "e = VectorMismatch (pairing_key pairing) (commit_oid commit) (refs w2 (pairing_receiver pairing) import_ref)
        (correct_effect ?effects (pairing_key pairing) (refs w2 (pairing_receiver pairing) import_ref))"
    using verified by (auto simp: Let_def)
  then show ?thesis
  proof cases
    case (1 key detail)
    have "reported e (pairing_key p)" if "p \<in> set pairings" for p
      using that all unfolding reported_def 1 Import_Proofs.fetched_def by force
    then show ?thesis
      by (intro differ_at_mono [OF w2]) (auto simp: receivers_of_def)
  next
    case (2 pairing commit)
    then show ?thesis
      by (intro mismatch_reported [OF w2 free work 2(1) refl])
  qed
qed

lemma import_transfers:
  assumes laws: "transport_laws transport refs" and keeps: "\<And>w. refs (snd (is_cancelled w)) = refs w"
    and work: "map commit_key captured = map pairing_key pairings" "distinct (map pairing_key pairings)"
    and free: "\<And>pairing. pairing \<in> set pairings \<Longrightarrow> refs w (pairing_receiver pairing) import_ref = None"
    and run: "op_bind (fetch_sources transport is_cancelled (import_refspec sel import_ref) import_ref [] (zip pairings captured))
        (\<lambda>effects. op_bind (verify_sources transport import_ref effects (zip pairings captured))
          (\<lambda>_. op_return \<lparr>imported_ref = import_ref, imported_vector = captured\<rparr>)) w = (r, w')"
  shows "import_outcome refs import_ref pairings w r w'"
proof -
  have len: "length captured = length pairings" "map fst (zip pairings captured) = pairings"
    using work(1) by (metis length_map, metis length_map map_fst_zip)
  have spares: "\<forall>path name oid. refs w path name = Some oid \<longrightarrow> refs w' path name = Some oid"
    if "differ_at refs import_ref (receivers_of P pairings) w w'" for P w'
    by (intro allI impI, rule differ_spares [OF that]) (auto simp: receivers_of_def free)
  obtain r1 w1 where fetch: "fetch_sources transport is_cancelled (import_refspec sel import_ref) import_ref []
      (zip pairings captured) w = (r1, w1)"
    by fastforce
  note fetched = fetch_refs [where refs = refs and is_cancelled = is_cancelled, OF laws keeps fetch, unfolded len(2)]
  show ?thesis
  proof (cases r1)
    case (Inl e)
    with run fetch have "r = Inl e" "w' = w1"
      by (simp_all add: op_bind_def)
    with fetched Inl spares show ?thesis
      by (simp add: import_outcome_def)
  next
    case (Inr effects)
    with fetched have effects: "effects = Import_Proofs.fetched import_ref (zip pairings captured)"
      "differ_at refs import_ref (receivers_of (\<lambda>_. True) pairings) w w1"
      by simp_all
    obtain r2 w2 where verify: "verify_sources transport import_ref effects (zip pairings captured) w1 = (r2, w2)"
      by fastforce
    note verified = verify_refs [OF laws verify]
    have w2: "refs w2 = refs w1" "w' = w2" "differ_at refs import_ref (receivers_of (\<lambda>_. True) pairings) w w2"
      using verified effects(2) run fetch Inr verify by (auto simp: op_bind_def differ_at_def split: sum.splits)
    show ?thesis
    proof (cases r2)
      case (Inr u)
      then have "r = Inr \<lparr>imported_ref = import_ref, imported_vector = captured\<rparr>"
        using run fetch \<open>r1 = Inr effects\<close> verify by (simp add: op_bind_def)
      moreover have "list_all2 (\<lambda>pairing commit. commit_key commit = pairing_key pairing \<and>
          refs w' (pairing_receiver pairing) import_ref = Some (commit_oid commit)) pairings captured"
        using verified Inr w2 len(1) work(1) by (auto simp: list_all2_iff in_set_zip list_eq_iff_nth_eq)
      ultimately show ?thesis
        using spares [OF w2(3)] w2(2,3) by (simp add: import_outcome_def)
    next
      case (Inl e)
      then have r: "r = Inl e"
        using run fetch \<open>r1 = Inr effects\<close> verify by (simp add: op_bind_def)
      have "differ_at refs import_ref (receivers_of (\<lambda>p. reported e (pairing_key p)) pairings) w w2"
        by (rule failed_verification_reported [OF laws effects(2) free work verify [unfolded effects(1) Inl]])
      with r w2(2) spares show ?thesis
        by (simp add: import_outcome_def)
    qed
  qed
qed

lemma pairings_distinct:
  assumes "pair_participants request = Inr pairings"
  shows "distinct (map pairing_key pairings)"
  using pair_participants_outcome [of request] by (simp add: assms pairing_outcome_def request_names_def)

lemma prepare_import_outcome:
  assumes laws: "transport_laws transport refs" and keeps: "\<And>w. refs (snd (is_cancelled w)) = refs w"
    and pairs: "pair_participants request = Inr pairings"
    and run: "prepare_import request transport is_cancelled w = (r, w')"
  shows "import_outcome refs (import_ref_of (import_transfer request)) pairings w r w'"
proof -
  let ?ref = "import_ref_of (import_transfer request)" and ?sel = "import_selector request"
  obtain r0 w0 where poll: "cancelled is_cancelled [] w = (r0, w0)"
    by fastforce
  note w0 = cancelled_refs [where refs = refs and is_cancelled = is_cancelled, OF keeps poll]
  obtain r1 w1 where capture: "capture_sources transport ?sel [] [] pairings w0 = (r1, w1)"
    by fastforce
  obtain captured unresolved where r1: "refs w1 = refs w0" "r1 = Inr (captured, unresolved)"
    "unresolved = [] \<Longrightarrow> map commit_key captured = map pairing_key pairings"
    using capture_refs [OF laws capture] by auto
  obtain r2 w2 where check: "check_collisions transport ?ref pairings w1 = (r2, w2)"
    by fastforce
  note r2 = collisions_refs [OF laws check]
  have refs: "refs w2 = refs w" "refs w1 = refs w" "refs w0 = refs w"
    using r2(1) r1(1) w0(1) by simp_all
  consider e where "r = Inl e" "refs w' = refs w" | "r0 = Inr ()" "unresolved = []" "r2 = Inr ()"
    using run poll capture r1(2) check refs unfolding prepare_import_def
    by (cases r0; cases r2) (auto simp: pairs op_bind_def Let_def split: if_splits)
  then show ?thesis
  proof cases
    case 1
    then show ?thesis
      by (simp add: import_outcome_unchanged)
  next
    case 2
    have free: "refs w2 (pairing_receiver pairing) ?ref = None" if "pairing \<in> set pairings" for pairing
      using r2(2) 2(3) that refs(1,2) by simp
    have transfers: "op_bind (fetch_sources transport is_cancelled (import_refspec ?sel ?ref) ?ref [] (zip pairings captured))
        (\<lambda>effects. op_bind (verify_sources transport ?ref effects (zip pairings captured))
          (\<lambda>_. op_return \<lparr>imported_ref = ?ref, imported_vector = captured\<rparr>)) w2 = (r, w')"
      using run poll capture r1(2) check 2 unfolding prepare_import_def by (simp add: pairs op_bind_def Let_def)
    have "import_outcome refs ?ref pairings w2 r w'"
      by (rule import_transfers [where is_cancelled = is_cancelled, OF laws keeps r1(3) [OF 2(2)] pairings_distinct [OF pairs] free transfers])
    then show ?thesis
      using refs(1) by (cases r) (simp_all add: import_outcome_def differ_at_def)
  qed
qed

subsection \<open>Properties\<close>

text \<open>
  C18. Pairing is by identity and complete. It succeeds exactly when the request names its repositories
  well, every member the source records has its receiver, every selected repository its source and no
  member was moved; then it pairs the selected receivers in lock order, each with the source of the same
  key. Otherwise the refusal lists every repository that cannot be paired, in order and once, and every
  moved member with both its paths.
\<close>

theorem pairing_is_by_identity:
  "(\<forall>pairings. pair_participants request = Inr pairings \<longrightarrow>
      request_names request \<and> (\<forall>key. \<not> unpaired_key request key) \<and>
      (\<forall>key receiver source. \<not> moved_member request key receiver source) \<and>
      map pairing_key pairings =
        filter (\<lambda>key. key \<in> set (import_selected request)) (keys_of (import_receivers request)) \<and>
      list_all (paired request) pairings) \<and>
   (\<forall>missing moved. pair_participants request = Inl (PairingIncomplete missing moved) \<longrightarrow>
      request_names request \<and> (missing \<noteq> [] \<or> moved \<noteq> []) \<and>
      sorted missing \<and> distinct missing \<and> set missing = {key. unpaired_key request key} \<and>
      (\<forall>m. m \<in> set moved \<longleftrightarrow> (\<exists>receiver source. moved_member request (moved_key m) receiver source \<and>
         moved_receiver_path m = part_relative_path receiver \<and> moved_source_path m = part_relative_path source))) \<and>
   ((\<exists>detail. pair_participants request = Inl (ImportInvalid detail)) \<longleftrightarrow> \<not> request_names request)"
proof -
  have "pairing_outcome request (pair_participants request)"
    by (rule pair_participants_outcome)
  then show ?thesis
    by (cases "pair_participants request") (auto simp: pairing_outcome_def split: ImportError.splits)
qed

definition sample_import :: ImportRequest where
  "sample_import =
     \<lparr>import_transfer = TransferId (lit ''t1''),
      import_receivers = [participant_root [RootDir], \<lparr>part_key = KeyMember (lit ''a''), part_relative_path = lit ''a'', part_path = []\<rparr>],
      import_sources = [participant_root [CurDir]], import_selected = [KeyRoot], import_selector = SelectHead\<rparr>"

lemma sample_import_pairs:
  "pair_participants sample_import =
     Inr [\<lparr>pairing_key = KeyRoot, pairing_receiver = [RootDir], pairing_source = [CurDir]\<rparr>]"
  by (simp add: pair_participants_def sample_import_def participant_root_def index_by_key_def bt_empty_def bt_get_def
      unpaired_def receiver_missing_def receiver_moved_def Let_def less_RepoKey_def)

theorem pairing_is_by_identity_witness: "request_names sample_import \<and> \<not> unpaired_key sample_import (KeyMember (lit ''a''))"
  using pairing_is_by_identity [of sample_import] sample_import_pairs by simp

text \<open>
  C8. An import touches nothing that was there and hands out only what it verified. Over a transport that
  behaves as documented, whatever fails and whenever it is cancelled: a refused pairing changes no ref;
  every ref there was before keeps its value; only the import ref of paired receivers changes; a
  successful import names, in order, for every pairing a commit its receiver now has under the import
  ref; and a failed one reports every import ref it left behind, except possibly in the receiver whose
  transfer failed, which it names.
\<close>

theorem import_spares_and_verifies:
  assumes "transport_laws transport refs" "\<And>w. refs (snd (is_cancelled w)) = refs w"
    "prepare_import request transport is_cancelled w = (r, w')"
  shows "(\<forall>e. pair_participants request = Inl e \<longrightarrow> r = Inl e \<and> w' = w) \<and>
      (\<forall>pairings. pair_participants request = Inr pairings \<longrightarrow>
        import_outcome refs (import_ref_of (import_transfer request)) pairings w r w')"
  using prepare_import_outcome [where refs = refs and is_cancelled = is_cancelled, OF assms(1,2) _ assms(3)] assms(3)
  by (auto simp: prepare_import_def)

text \<open>Repositories that are nothing but their refs, and a transport that fetches one commit.\<close>

definition sample_oid :: ObjectId where
  "sample_oid = ObjectId Sha1 []"

definition sample_ref :: ustr where
  "sample_ref = import_ref_of (TransferId (lit ''t1''))"

definition sample_transport :: "(hpath \<Rightarrow> ustr \<Rightarrow> ObjectId option) LocalTransport" where
  "sample_transport =
     \<lparr>resolve_source = \<lambda>_ _ w. (Inr sample_oid, w),
      ref_exists = \<lambda>path name w. (Inr (w path name \<noteq> None), w),
      fetch_anonymous = \<lambda>receiver _ refspecs w.
        (Inr (), if refspecs = [import_refspec SelectHead sample_ref]
           then w(receiver := (w receiver)(sample_ref \<mapsto> sample_oid)) else w),
      push_anonymous = \<lambda>_ _ _ w. (Inr (), w),
      read_ref = \<lambda>path name w. (Inr (w path name), w)\<rparr>"

lemma split_at_only:
  assumes "xs @ c # ys = as @ c # bs" "c \<notin> set as" "c \<notin> set bs"
  shows "ys = bs"
  using assms(1) unfolding append_eq_append_conv2
proof (elim exE disjE conjE)
  fix us
  assume "xs = as @ us" "us @ c # ys = c # bs"
  with assms(3) show ?thesis
    by (cases us) auto
next
  fix us
  assume "xs @ us = as" "c # ys = us @ c # bs"
  with assms(2) show ?thesis
    by (cases us) auto
qed

lemma sample_transport_laws: "transport_laws sample_transport id"
proof -
  have "right = sample_ref" if "[lit ''+'' @ left @ lit '':'' @ right] = [import_refspec SelectHead sample_ref]" for left right
  proof -
    have eq: "left @ 58 # right = lit ''HEAD'' @ 58 # sample_ref"
      using that by (simp add: import_refspec_def lit_def)
    have "58 \<notin> set (lit ''HEAD'')" "58 \<notin> set sample_ref"
      by (simp_all add: lit_def sample_ref_def import_ref_of_def IMPORT_REF_NAMESPACE_def)
    with split_at_only [OF eq] show ?thesis
      by simp
  qed
  then show ?thesis
    unfolding transport_laws_def by (auto simp: sample_transport_def fun_upd_def)
qed

theorem import_spares_and_verifies_witness:
  "\<exists>w'. prepare_import sample_import sample_transport (\<lambda>w. (False, w)) (\<lambda>_ _. None) =
      (Inr \<lparr>imported_ref = sample_ref, imported_vector = [\<lparr>commit_key = KeyRoot, commit_oid = sample_oid\<rparr>]\<rparr>, w') \<and>
    import_outcome id sample_ref [\<lparr>pairing_key = KeyRoot, pairing_receiver = [RootDir], pairing_source = [CurDir]\<rparr>]
      (\<lambda>_ _. None) (Inr \<lparr>imported_ref = sample_ref, imported_vector = [\<lparr>commit_key = KeyRoot, commit_oid = sample_oid\<rparr>]\<rparr>) w'"
proof -
  have ref: "import_ref_of (import_transfer sample_import) = sample_ref" "import_selector sample_import = SelectHead"
    by (simp_all add: sample_import_def sample_ref_def)
  obtain r w' where run: "prepare_import sample_import sample_transport (\<lambda>w. (False, w)) (\<lambda>_ _. None) = (r, w')"
    by fastforce
  then have "r = Inr \<lparr>imported_ref = sample_ref, imported_vector = [\<lparr>commit_key = KeyRoot, commit_oid = sample_oid\<rparr>]\<rparr>"
    by (auto simp: prepare_import_def sample_import_pairs ref sample_transport_def op_bind_def op_match_def cancelled_def
        Let_def)
  with run import_spares_and_verifies [OF sample_transport_laws _ run] sample_import_pairs ref(1) show ?thesis
    by simp
qed

subsection \<open>Push\<close>

text \<open>The transport with a record of the pushes it was asked for.\<close>

type_synonym push_call = "hpath \<times> hpath \<times> ustr"

definition on_world :: "('w, 'e, 'a) op \<Rightarrow> ('w \<times> 'l, 'e, 'a) op" where
  "on_world m s = (case m (fst s) of (r, w) \<Rightarrow> (r, (w, snd s)))"

definition logging_pushes :: "'w LocalTransport \<Rightarrow> ('w \<times> push_call list) LocalTransport" where
  "logging_pushes transport =
     \<lparr>resolve_source = \<lambda>source selector. on_world (resolve_source transport source selector),
      ref_exists = \<lambda>path name. on_world (ref_exists transport path name),
      fetch_anonymous = \<lambda>receiver source refspecs. on_world (fetch_anonymous transport receiver source refspecs),
      push_anonymous = \<lambda>source destination refspec s.
        on_world (push_anonymous transport source destination refspec) (fst s, snd s @ [(source, destination, refspec)]),
      read_ref = \<lambda>path name. on_world (read_ref transport path name)\<rparr>"

text \<open>
  What one item may be asked of the transport, given its outcome: at most one push, of the planned refspec
  into a bare receiver; none when it was refused.
\<close>

definition item_pushes :: "PushItem \<Rightarrow> PushOutcome \<Rightarrow> push_call list \<Rightarrow> bool" where
  "item_pushes item outcome calls \<longleftrightarrow>
     (calls = [] \<or> (\<exists>refspec source destination. push_plan item = Inr (refspec, source, destination) \<and>
        push_receiver item = ReceiverBare \<and> calls = [(push_source item, push_destination item, refspec)])) \<and>
     (\<forall>refspec. outcome = Pushed refspec \<longrightarrow> calls = [(push_source item, push_destination item, refspec)]) \<and>
     (\<forall>refusal. outcome = PushRefused refusal \<longrightarrow> calls = [])"

lemma push_plan_bare: "push_plan item = Inr (refspec, source, destination) \<Longrightarrow> push_receiver item = ReceiverBare"
  by (cases "push_receiver item") (auto simp: push_plan_def and_then_eq_Inr split: option.splits)

lemma push_one_logged:
  assumes "push_one (logging_pushes transport) item (w, log) = (outcome, w', log')"
  shows "\<exists>calls. log' = log @ calls \<and> item_pushes item outcome calls"
proof (cases "push_plan item")
  case (Inl refusal)
  with assms show ?thesis
    by (auto simp: push_one_def item_pushes_def)
next
  case (Inr plan)
  then obtain refspec source destination where plan: "push_plan item = Inr (refspec, source, destination)"
    by (cases plan) auto
  obtain r1 w1 where exist: "ref_exists transport (push_source item) source w = (r1, w1)"
    by fastforce
  obtain r2 w2 where push: "push_anonymous transport (push_source item) (push_destination item) refspec w1 = (r2, w2)"
    by fastforce
  show ?thesis
  proof (cases "r1 = Inr True")
    case True
    have "item_pushes item outcome [(push_source item, push_destination item, refspec)] \<and>
        log' = log @ [(push_source item, push_destination item, refspec)]"
      using assms plan push_plan_bare [OF plan] exist push True
      by (cases r2) (auto simp: push_one_def logging_pushes_def on_world_def item_pushes_def)
    then show ?thesis
      by blast
  next
    case False
    then show ?thesis
      using assms plan exist
      by (cases r1) (auto simp: push_one_def logging_pushes_def on_world_def item_pushes_def split: bool.splits)
  qed
qed

lemma push_local_logged:
  assumes "push_local (logging_pushes transport) items (w, log) = (results, w', log')"
  shows "\<exists>calls. log' = log @ concat calls \<and> length calls = length items \<and> map push_result_key results = map push_key items \<and>
    (\<forall>i < length items. item_pushes (items ! i) (push_outcome (results ! i)) (calls ! i))"
  using assms
proof (induction items arbitrary: w log results w' log')
  case (Cons item items)
  obtain outcome w1 log1 where one: "push_one (logging_pushes transport) item (w, log) = (outcome, w1, log1)"
    by (cases "push_one (logging_pushes transport) item (w, log)") auto
  obtain results' w2 log2 where rest: "push_local (logging_pushes transport) items (w1, log1) = (results', w2, log2)"
    by (cases "push_local (logging_pushes transport) items (w1, log1)") auto
  from push_one_logged [OF one] obtain call where call: "log1 = log @ call" "item_pushes item outcome call"
    by blast
  from Cons.IH [OF rest] obtain calls where calls: "log2 = log1 @ concat calls" "length calls = length items"
    "map push_result_key results' = map push_key items"
    "\<And>i. i < length items \<Longrightarrow> item_pushes (items ! i) (push_outcome (results' ! i)) (calls ! i)"
    by blast
  have results: "results = \<lparr>push_result_key = push_key item, push_outcome = outcome\<rparr> # results'" "log' = log2"
    using Cons.prems one rest by simp_all
  show ?case
  proof (intro exI [of _ "call # calls"] conjI allI impI)
    fix i
    assume "i < length (item # items)"
    with call(2) calls(4) show "item_pushes ((item # items) ! i) (push_outcome (results ! i)) ((call # calls) ! i)"
      by (cases i) (simp_all add: results)
  qed (use call(1) calls(1-3) results in simp_all)
qed simp

text \<open>
  C19. A push transfers only what its plan admits, repository by repository. For any transport: the results
  are the items' in order; for each item at most one push is asked for, of exactly its planned refspec,
  and only into a bare receiver; an item reported pushed was pushed with the reported refspec, and a
  refused one made no transfer, whatever the other items did.
\<close>

theorem push_follows_its_plan:
  assumes "push_local (logging_pushes transport) items (w, []) = (results, w', log)"
  shows "map push_result_key results = map push_key items \<and>
    (\<exists>calls. log = concat calls \<and> length calls = length items \<and>
      (\<forall>i < length items. item_pushes (items ! i) (push_outcome (results ! i)) (calls ! i)))"
  using push_local_logged [OF assms] by auto

definition sample_push :: "ReceiverState \<Rightarrow> PushItem" where
  "sample_push receiver =
     \<lparr>push_key = KeyRoot, push_source = [RootDir], push_destination = [CurDir], push_head = PushAttached (lit ''main''),
      push_receiver = receiver, push_refspec = None\<rparr>"

theorem push_follows_its_plan_witness:
  "\<exists>calls outcome. item_pushes (sample_push (ReceiverCheckout None)) outcome calls \<and> calls = [] \<and>
     outcome = push_outcome (hd (fst (push_local (logging_pushes sample_transport)
       [sample_push (ReceiverCheckout None)] (\<lambda>_ _. None, []))))"
proof -
  let ?items = "[sample_push (ReceiverCheckout None)]"
  obtain results w' log where run: "push_local (logging_pushes sample_transport) ?items (\<lambda>_ _. None, []) = (results, w', log)"
    by (cases "push_local (logging_pushes sample_transport) ?items (\<lambda>_ _. None, [])") auto
  from push_follows_its_plan [OF run] obtain calls where calls: "length calls = 1"
    "item_pushes (sample_push (ReceiverCheckout None)) (push_outcome (results ! 0)) (calls ! 0)" "length results = 1"
    by (metis One_nat_def length_Cons length_map less_Suc0 list.size(3) nth_Cons_0)
  have "push_plan (sample_push (ReceiverCheckout None)) \<noteq> Inr plan" for plan
    using push_plan_bare [of "sample_push (ReceiverCheckout None)"] by (cases plan) (auto simp: sample_push_def)
  with calls(2) have "calls ! 0 = []"
    unfolding item_pushes_def by blast
  moreover have "hd results = results ! 0"
    using calls(3) by (cases results) simp_all
  ultimately show ?thesis
    using calls(2) run by (intro exI [of _ "calls ! 0"] exI [of _ "push_outcome (results ! 0)"]) simp
qed

end
