(* ===== verification/Session_Frames.thy ===== *)
theory Session_Frames
  imports Unique_Ids
begin

text \<open>
  The session channel's contract, \<open>crates/session-contract/src\<close>: frames, the tag registry and the
  frame checks (\<open>frame.rs\<close>), the channel's limits (\<open>limits.rs\<close>), lanes, ordering keys and endings
  (\<open>channel.rs\<close>). Bytes are 8-bit words and the limits, of type \<open>usize\<close>, 64-bit words; the size of a
  frame is a number, since a vector's length is far below the bound of its type.
\<close>

type_synonym u8 = "8 word"

subsection \<open>Frames\<close>

definition MAX_FRAME_BYTES :: nat where
  "MAX_FRAME_BYTES = 64 * 1024 * 1024"

record SessionFrame =
  frame_tag :: u8
  frame_body :: "u8 list"

datatype SessionTag =
    SessionCall
  | SessionReply
  | SessionError
  | SessionOpen
  | SessionOpened
  | SessionHello
  | ServerControl
  | ServerState
  | TransportData
  | TransportControl

definition session_tags_all :: "SessionTag list" where
  "session_tags_all =
     [SessionCall, SessionReply, SessionError, SessionOpen, SessionOpened, SessionHello, ServerControl,
      ServerState, TransportData, TransportControl]"

fun tag_byte :: "SessionTag \<Rightarrow> u8" where
  "tag_byte SessionCall = 1"
| "tag_byte SessionReply = 2"
| "tag_byte SessionError = 3"
| "tag_byte SessionOpen = 4"
| "tag_byte SessionOpened = 5"
| "tag_byte SessionHello = 6"
| "tag_byte ServerControl = 7"
| "tag_byte ServerState = 8"
| "tag_byte TransportData = 16"
| "tag_byte TransportControl = 17"

datatype FrameError =
    UnknownTag u8
  | ReservedTag u8
  | ByteStreamOnly u8
  | FrameTooLarge nat
  | FrameEmpty

definition reserved_tag :: "u8 \<Rightarrow> bool" where
  "reserved_tag byte \<longleftrightarrow> 18 \<le> byte \<and> byte \<le> 31"

definition tag_from_byte :: "u8 \<Rightarrow> FrameError + SessionTag" where
  "tag_from_byte byte =
     (if byte = 1 then Inr SessionCall
      else if byte = 2 then Inr SessionReply
      else if byte = 3 then Inr SessionError
      else if byte = 4 then Inr SessionOpen
      else if byte = 5 then Inr SessionOpened
      else if byte = 6 then Inr SessionHello
      else if byte = 7 then Inr ServerControl
      else if byte = 8 then Inr ServerState
      else if byte = 16 then Inr TransportData
      else if byte = 17 then Inr TransportControl
      else if reserved_tag byte then Inl (ReservedTag byte)
      else Inl (UnknownTag byte))"

fun byte_stream_only :: "SessionTag \<Rightarrow> bool" where
  "byte_stream_only SessionOpen = True"
| "byte_stream_only SessionOpened = True"
| "byte_stream_only SessionHello = True"
| "byte_stream_only ServerControl = True"
| "byte_stream_only ServerState = True"
| "byte_stream_only _ = False"

datatype Carrier = InProcessCarrier | ByteStreamCarrier

definition carrier_tag :: "Carrier \<Rightarrow> u8 \<Rightarrow> FrameError + SessionTag" where
  "carrier_tag carrier byte =
     (case tag_from_byte byte of
        Inr tag \<Rightarrow>
          (if byte_stream_only tag \<and> carrier = InProcessCarrier then Inl (ByteStreamOnly byte) else Inr tag)
      | Inl e \<Rightarrow> Inl e)"

definition frame_new :: "SessionTag \<Rightarrow> u8 list \<Rightarrow> SessionFrame" where
  "frame_new tag body = \<lparr>frame_tag = tag_byte tag, frame_body = body\<rparr>"

definition frame_size :: "SessionFrame \<Rightarrow> nat" where
  "frame_size frame = min (length (frame_body frame) + 1) (2 ^ 64 - 1)"

definition check_size :: "nat \<Rightarrow> FrameError + unit" where
  "check_size n =
     (if n = 0 then Inl FrameEmpty
      else if n > MAX_FRAME_BYTES then Inl (FrameTooLarge n)
      else Inr ())"

definition frame_check :: "SessionFrame \<Rightarrow> Carrier \<Rightarrow> FrameError + SessionTag" where
  "frame_check frame carrier =
     and_then (check_size (frame_size frame)) (\<lambda>_. carrier_tag carrier (frame_tag frame))"

fun show_frame_error :: "FrameError \<Rightarrow> ustr" where
  "show_frame_error (UnknownTag tag) =
     lit ''frame tag '' @ show_nat (unat tag) @ lit '' is not in the session'' @ [39] @ lit ''s tag registry''"
| "show_frame_error (ReservedTag tag) = lit ''frame tag '' @ show_nat (unat tag) @ lit '' is reserved''"
| "show_frame_error (ByteStreamOnly tag) =
     lit ''frame tag '' @ show_nat (unat tag) @ lit '' is carried only by byte streams''"
| "show_frame_error (FrameTooLarge n) =
     lit ''a frame of '' @ show_nat n @ lit '' bytes exceeds the 64 MiB frame limit''"
| "show_frame_error FrameEmpty = lit ''a frame length of zero leaves no room for the tag byte''"

subsection \<open>Lanes, keys and endings\<close>

datatype Lane = CallLane | ControlLane

datatype Class = ControlClass | OrdinaryClass

datatype FrameTarget = FrameTarget (target_value: u64)

record FrameKey =
  key_class :: Class
  key_target :: FrameTarget

definition control_key :: "FrameTarget \<Rightarrow> FrameKey" where
  "control_key target = \<lparr>key_class = ControlClass, key_target = target\<rparr>"

definition ordinary_key :: "FrameTarget \<Rightarrow> FrameKey" where
  "ordinary_key target = \<lparr>key_class = OrdinaryClass, key_target = target\<rparr>"

definition IN_PROCESS_KEY :: FrameKey where
  "IN_PROCESS_KEY = ordinary_key (FrameTarget 0)"

text \<open>
  The kinds of I/O failure the channel tells apart; any other kind is known by the description that
  its \<open>Display\<close> prints.
\<close>

datatype ErrorKind =
    BrokenPipe
  | ConnectionReset
  | ConnectionAborted
  | NotConnected
  | UnexpectedEof
  | InvalidInput
  | OtherError
  | AnotherKind ustr

fun show_error_kind :: "ErrorKind \<Rightarrow> ustr" where
  "show_error_kind BrokenPipe = lit ''broken pipe''"
| "show_error_kind ConnectionReset = lit ''connection reset''"
| "show_error_kind ConnectionAborted = lit ''connection aborted''"
| "show_error_kind NotConnected = lit ''not connected''"
| "show_error_kind UnexpectedEof = lit ''unexpected end of file''"
| "show_error_kind InvalidInput = lit ''invalid input parameter''"
| "show_error_kind OtherError = lit ''other error''"
| "show_error_kind (AnotherKind description) = description"

datatype Closed =
    ClosedLocal
  | ClosedPeer
  | ClosedProtocol FrameError
  | ClosedStream ErrorKind

fun show_closed :: "Closed \<Rightarrow> ustr" where
  "show_closed ClosedLocal = lit ''this end closed the channel''"
| "show_closed ClosedPeer = lit ''the peer closed the channel''"
| "show_closed (ClosedProtocol error) =
     lit ''a protocol error ended the session: '' @ show_frame_error error"
| "show_closed (ClosedStream kind) = lit ''the byte stream failed: '' @ show_error_kind kind"

datatype SendError = SendFull SessionFrame | SendClosed SessionFrame Closed

fun send_error_frame :: "SendError \<Rightarrow> SessionFrame" where
  "send_error_frame (SendFull frame) = frame"
| "send_error_frame (SendClosed frame _) = frame"

fun send_error_closed :: "SendError \<Rightarrow> Closed option" where
  "send_error_closed (SendFull _) = None"
| "send_error_closed (SendClosed _ closed) = Some closed"

fun show_send_error :: "SendError \<Rightarrow> ustr" where
  "show_send_error (SendFull _) = lit ''the frame'' @ [39] @ lit ''s lane is full''"
| "show_send_error (SendClosed _ closed) = lit ''the channel has ended: '' @ show_closed closed"

subsection \<open>Limits\<close>

record ChannelLimits =
  outstanding_calls :: u64
  control_reserve :: u64

datatype LimitsError = NoOutstandingCalls | NoControlReserve | LimitsOverflow

definition channel_limits_new :: "u64 \<Rightarrow> u64 \<Rightarrow> LimitsError + ChannelLimits" where
  "channel_limits_new calls reserve' =
     (if calls = 0 then Inl NoOutstandingCalls
      else if reserve' = 0 then Inl NoControlReserve
      else if checked_add_u64 calls reserve' = None then Inl LimitsOverflow
      else Inr \<lparr>outstanding_calls = calls, control_reserve = reserve'\<rparr>)"

definition lane_capacity :: "ChannelLimits \<Rightarrow> Lane \<Rightarrow> u64" where
  "lane_capacity limits lane =
     (case lane of CallLane \<Rightarrow> outstanding_calls limits | ControlLane \<Rightarrow> control_reserve limits)"

definition queue_capacity :: "ChannelLimits \<Rightarrow> u64" where
  "queue_capacity limits = outstanding_calls limits + control_reserve limits"

definition default_channel_limits :: ChannelLimits where
  "default_channel_limits = \<lparr>outstanding_calls = 1024, control_reserve = 64\<rparr>"

fun show_limits_error :: "LimitsError \<Rightarrow> ustr" where
  "show_limits_error NoOutstandingCalls = lit ''session limit outstanding_calls must be at least 1''"
| "show_limits_error NoControlReserve = lit ''session limit control_reserve must be at least 1''"
| "show_limits_error LimitsOverflow =
     lit ''session limits outstanding_calls plus control_reserve overflow a channel queue''"

text \<open>A value of the type is valid: it was made by \<open>new\<close> or is the default.\<close>

definition limits_valid :: "ChannelLimits \<Rightarrow> bool" where
  "limits_valid limits \<longleftrightarrow>
     0 < outstanding_calls limits \<and> 0 < control_reserve limits \<and>
     unat (outstanding_calls limits) + unat (control_reserve limits) < 2 ^ 64"

lemma channel_limits_new_Inr:
  "channel_limits_new c r = Inr l \<longleftrightarrow> l = \<lparr>outstanding_calls = c, control_reserve = r\<rparr> \<and> limits_valid l"
  by (auto simp: channel_limits_new_def limits_valid_def checked_add_u64_def word_neq_0_conv)

lemma default_limits_valid: "limits_valid default_channel_limits"
  by (simp add: limits_valid_def default_channel_limits_def)

lemma queue_capacity_unat:
  "limits_valid l \<Longrightarrow>
   unat (queue_capacity l) = unat (lane_capacity l CallLane) + unat (lane_capacity l ControlLane)"
  by (simp add: limits_valid_def queue_capacity_def lane_capacity_def unat_word_ariths(1))

subsection \<open>The registry\<close>

lemma tag_from_byte_Inr: "tag_from_byte b = Inr t \<longleftrightarrow> b = tag_byte t"
  by (cases t) (auto simp: tag_from_byte_def)

lemma tag_from_tag_byte [simp]: "tag_from_byte (tag_byte t) = Inr t"
  by (simp add: tag_from_byte_Inr)

lemma tag_byte_inject [simp]: "tag_byte s = tag_byte t \<longleftrightarrow> s = t"
  by (metis tag_from_tag_byte sum.inject(2))

lemma carrier_tag_Inr:
  "carrier_tag carrier b = Inr t \<longleftrightarrow> b = tag_byte t \<and> (byte_stream_only t \<longrightarrow> carrier = ByteStreamCarrier)"
  by (cases carrier) (auto simp: carrier_tag_def tag_from_byte_Inr split: sum.splits)

lemma check_size_Inr: "check_size n = Inr u \<longleftrightarrow> 0 < n \<and> n \<le> MAX_FRAME_BYTES"
  by (auto simp: check_size_def)

lemma frame_size_small: "frame_size f \<le> MAX_FRAME_BYTES \<Longrightarrow> frame_size f = Suc (length (frame_body f))"
  by (auto simp: frame_size_def MAX_FRAME_BYTES_def min_def split: if_splits)

lemma frame_check_Inr:
  "frame_check f carrier = Inr t \<longleftrightarrow>
     Suc (length (frame_body f)) \<le> MAX_FRAME_BYTES \<and> carrier_tag carrier (frame_tag f) = Inr t"
  by (auto simp: frame_check_def and_then_def check_size_Inr split: sum.splits)
     (auto simp: check_size_def frame_size_def MAX_FRAME_BYTES_def min_def split: if_splits)

end
