(* ===== verification/In_Process.thy ===== *)
theory In_Process
  imports Session_Frames
begin

text \<open>
  The in-process channel, \<open>crates/session-channel/src/in_process.rs\<close>: two bounded queues under one
  mutex. Every critical section is a function of the guarded state; a round of the receiver's loop
  that finds nothing yields \<open>None\<close>, which is where the code waits. The counters are 64-bit words.
\<close>

subsection \<open>The channel\<close>

datatype Side = ClientSide | HostSide

fun side_peer :: "Side \<Rightarrow> Side" where
  "side_peer ClientSide = HostSide"
| "side_peer HostSide = ClientSide"

lemma side_peer_peer [simp]: "side_peer (side_peer s) = s"
  by (cases s) simp_all

lemma side_peer_neq [simp]: "side_peer s \<noteq> s" "s \<noteq> side_peer s"
  by (cases s; simp)+

record Inbox =
  inbox_frames :: "(SessionFrame \<times> Lane) list"
  inbox_calls :: u64
  inbox_controls :: u64

definition default_inbox :: Inbox where
  "default_inbox = \<lparr>inbox_frames = [], inbox_calls = 0, inbox_controls = 0\<rparr>"

definition inbox_count :: "Lane \<Rightarrow> Inbox \<Rightarrow> u64" where
  "inbox_count lane inbox = (case lane of CallLane \<Rightarrow> inbox_calls inbox | ControlLane \<Rightarrow> inbox_controls inbox)"

text \<open>Assignment through the reference that \<open>count\<close> returns.\<close>

definition inbox_update_count :: "Lane \<Rightarrow> (u64 \<Rightarrow> u64) \<Rightarrow> Inbox \<Rightarrow> Inbox" where
  "inbox_update_count lane f inbox =
     (case lane of
        CallLane \<Rightarrow> inbox\<lparr>inbox_calls := f (inbox_calls inbox)\<rparr>
      | ControlLane \<Rightarrow> inbox\<lparr>inbox_controls := f (inbox_controls inbox)\<rparr>)"

record Ending =
  ending_by :: Side
  ending_protocol :: "FrameError option"

definition seen_by :: "Ending \<Rightarrow> Side \<Rightarrow> Closed" where
  "seen_by ending side =
     (case ending_protocol ending of
        Some error \<Rightarrow> ClosedProtocol error
      | None \<Rightarrow> if ending_by ending = side then ClosedLocal else ClosedPeer)"

record ChannelState =
  chan_inboxes :: "Side \<Rightarrow> Inbox"
  chan_ended :: "Ending option"
  chan_stopped :: "Side \<Rightarrow> bool"

definition default_channel :: ChannelState where
  "default_channel =
     \<lparr>chan_inboxes = (\<lambda>_. default_inbox), chan_ended = None, chan_stopped = (\<lambda>_. False)\<rparr>"

definition chan_stop :: "Side \<Rightarrow> FrameError option \<Rightarrow> ChannelState \<Rightarrow> Closed \<times> ChannelState" where
  "chan_stop side protocol st =
     (let ending = (case chan_ended st of
            Some ending \<Rightarrow> ending | None \<Rightarrow> \<lparr>ending_by = side, ending_protocol = protocol\<rparr>)
      in (seen_by ending side,
          st\<lparr>chan_ended := Some ending, chan_stopped := (chan_stopped st)(side := True),
             chan_inboxes := (chan_inboxes st)(side := default_inbox)\<rparr>))"

definition chan_send ::
    "ChannelLimits \<Rightarrow> Side \<Rightarrow> SessionFrame \<Rightarrow> Lane \<Rightarrow> FrameKey \<Rightarrow> ChannelState \<Rightarrow>
     (SendError + unit) \<times> ChannelState" where
  "chan_send capacity side frame lane key st =
     (case chan_ended st of
        Some ending \<Rightarrow> (Inl (SendClosed frame (seen_by ending side)), st)
      | None \<Rightarrow>
          (case frame_check frame InProcessCarrier of
             Inl error \<Rightarrow>
               (case chan_stop side (Some error) st of (closed, st) \<Rightarrow> (Inl (SendClosed frame closed), st))
           | Inr _ \<Rightarrow>
               (let peer = side_peer side; inbox = chan_inboxes st peer in
                if lane_capacity capacity lane \<le> inbox_count lane inbox then (Inl (SendFull frame), st)
                else
                  (Inr (), st\<lparr>chan_inboxes := (chan_inboxes st)(peer :=
                     (inbox_update_count lane (\<lambda>n. n + 1) inbox)
                       \<lparr>inbox_frames := inbox_frames inbox @ [(frame, lane)]\<rparr>)\<rparr>))))"

definition chan_close :: "Side \<Rightarrow> ChannelState \<Rightarrow> ChannelState" where
  "chan_close side st = snd (chan_stop side None st)"

text \<open>One round of \<open>recv\<close>'s loop.\<close>

definition chan_recv :: "Side \<Rightarrow> ChannelState \<Rightarrow> (Closed + SessionFrame) option \<times> ChannelState" where
  "chan_recv side st =
     (case (chan_stopped st side, inbox_frames (chan_inboxes st side)) of
        (False, (frame, lane) # frames) \<Rightarrow>
          (Some (Inr frame), st\<lparr>chan_inboxes := (chan_inboxes st)(side :=
             (inbox_update_count lane (\<lambda>n. n - 1) (chan_inboxes st side))\<lparr>inbox_frames := frames\<rparr>)\<rparr>)
      | _ \<Rightarrow> (map_option (\<lambda>ending. Inl (seen_by ending side)) (chan_ended st), st))"

subsection \<open>Well-formedness\<close>

text \<open>
  The counters count the frames of their lanes and stay within the limits; an ending is known exactly
  when a side has stopped, and a side that stopped receives nothing more.
\<close>

definition on_lane :: "Lane \<Rightarrow> Inbox \<Rightarrow> nat" where
  "on_lane lane inbox = length (filter (\<lambda>f. snd f = lane) (inbox_frames inbox))"

definition inbox_ok :: "ChannelLimits \<Rightarrow> Inbox \<Rightarrow> bool" where
  "inbox_ok capacity inbox \<longleftrightarrow>
     (\<forall>lane \<in> {CallLane, ControlLane}. unat (inbox_count lane inbox) = on_lane lane inbox \<and>
        inbox_count lane inbox \<le> lane_capacity capacity lane) \<and>
     (\<forall>f \<in> set (inbox_frames inbox). is_ok (frame_check (fst f) InProcessCarrier))"

definition channel_ok :: "ChannelLimits \<Rightarrow> ChannelState \<Rightarrow> bool" where
  "channel_ok capacity st \<longleftrightarrow>
     (\<forall>side \<in> {ClientSide, HostSide}. inbox_ok capacity (chan_inboxes st side) \<and>
        (chan_stopped st side \<longrightarrow> chan_inboxes st side = default_inbox \<and> chan_ended st \<noteq> None)) \<and>
     (\<forall>ending. chan_ended st = Some ending \<longrightarrow> chan_stopped st (ending_by ending))"

lemma lane_all: "(\<forall>lane \<in> {CallLane, ControlLane}. P lane) \<longleftrightarrow> (\<forall>lane. P lane)"
  by (metis (full_types) Lane.exhaust insertCI)

lemma side_all: "(\<forall>side \<in> {ClientSide, HostSide}. P side) \<longleftrightarrow> (\<forall>side. P side)"
  by (metis (full_types) Side.exhaust insertCI)

lemma count_update [simp]:
  "inbox_count l (inbox_update_count lane f inbox) = (if l = lane then f (inbox_count l inbox) else inbox_count l inbox)"
  "inbox_count l (inbox\<lparr>inbox_frames := fs\<rparr>) = inbox_count l inbox"
  "inbox_frames (inbox_update_count lane f inbox) = inbox_frames inbox"
  by (cases l; cases lane; simp add: inbox_count_def inbox_update_count_def)+

lemma default_inbox_ok: "inbox_ok capacity default_inbox"
  by (simp add: inbox_ok_def default_inbox_def inbox_count_def on_lane_def)

lemma default_channel_ok: "channel_ok capacity default_channel"
  by (simp add: channel_ok_def default_channel_def default_inbox_ok)

lemma inbox_ok_push:
  assumes "inbox_ok capacity inbox" "\<not> lane_capacity capacity lane \<le> inbox_count lane inbox"
    "frame_check frame InProcessCarrier = Inr t"
  shows "inbox_ok capacity ((inbox_update_count lane (\<lambda>n. n + 1) inbox)
    \<lparr>inbox_frames := inbox_frames inbox @ [(frame, lane)]\<rparr>)"
proof -
  have less: "unat (inbox_count lane inbox) < unat (lane_capacity capacity lane)"
    using assms(2) by (simp add: word_le_nat_alt)
  moreover have "unat (lane_capacity capacity lane) < 2 ^ 64"
    by (rule order.strict_trans2 [OF unsigned_less]) simp
  ultimately have up: "unat (inbox_count lane inbox + 1) = Suc (unat (inbox_count lane inbox))"
    by (simp add: unat_word_ariths(1))
  then have "inbox_count lane inbox + 1 \<le> lane_capacity capacity lane"
    using less by (simp add: word_le_nat_alt)
  with up assms show ?thesis
    unfolding inbox_ok_def lane_all by (auto simp: on_lane_def is_ok_def)
qed

lemma inbox_ok_pop:
  assumes ok: "inbox_ok capacity inbox" and frames: "inbox_frames inbox = (frame, lane) # frames"
  shows "inbox_ok capacity ((inbox_update_count lane (\<lambda>n. n - 1) inbox)\<lparr>inbox_frames := frames\<rparr>)"
proof -
  have count: "unat (inbox_count lane inbox) = Suc (length (filter (\<lambda>f. snd f = lane) frames))"
    using ok frames unfolding inbox_ok_def lane_all by (simp add: on_lane_def)
  then have "1 \<le> inbox_count lane inbox"
    by (simp add: word_le_nat_alt)
  then have down: "unat (inbox_count lane inbox - 1) = length (filter (\<lambda>f. snd f = lane) frames)"
    using count by (simp add: unat_sub)
  then have "inbox_count lane inbox - 1 \<le> lane_capacity capacity lane"
    using ok count unfolding inbox_ok_def lane_all by (auto simp: word_le_nat_alt dest: spec [of _ lane])
  with down ok frames show ?thesis
    unfolding inbox_ok_def lane_all by (auto simp: on_lane_def)
qed

lemma channel_okD:
  assumes "channel_ok capacity st"
  shows "inbox_ok capacity (chan_inboxes st side)"
    "chan_stopped st side \<Longrightarrow> chan_inboxes st side = default_inbox"
    "chan_stopped st side \<Longrightarrow> \<exists>ending. chan_ended st = Some ending"
    "chan_ended st = Some ending \<Longrightarrow> chan_stopped st (ending_by ending)"
  using assms unfolding channel_ok_def side_all by blast+

lemma channel_okI:
  assumes "\<And>side. inbox_ok capacity (chan_inboxes st side)"
    "\<And>side. chan_stopped st side \<Longrightarrow> chan_inboxes st side = default_inbox"
    "\<And>side. chan_stopped st side \<Longrightarrow> \<exists>ending. chan_ended st = Some ending"
    "\<And>ending. chan_ended st = Some ending \<Longrightarrow> chan_stopped st (ending_by ending)"
  shows "channel_ok capacity st"
  using assms unfolding channel_ok_def side_all by blast

lemma chan_stop_ok:
  assumes "channel_ok capacity st"
  shows "channel_ok capacity (snd (chan_stop side protocol st))"
  by (rule channel_okI)
     (use channel_okD [OF assms] default_inbox_ok in
       \<open>auto simp: chan_stop_def Let_def split: option.splits if_splits\<close>)

text \<open>A send that succeeds adds the frame behind the peer's; any other leaves the queues, or ends the channel.\<close>

lemma chan_send_cases:
  obtains (ended) ending where "chan_ended st = Some ending"
    "chan_send capacity side frame lane key st = (Inl (SendClosed frame (seen_by ending side)), st)"
  | (refused) error where "chan_ended st = None" "frame_check frame InProcessCarrier = Inl error"
    "chan_send capacity side frame lane key st =
       (Inl (SendClosed frame (ClosedProtocol error)), snd (chan_stop side (Some error) st))"
  | (full) tag where "chan_ended st = None" "frame_check frame InProcessCarrier = Inr tag"
    "lane_capacity capacity lane \<le> inbox_count lane (chan_inboxes st (side_peer side))"
    "chan_send capacity side frame lane key st = (Inl (SendFull frame), st)"
  | (sent) tag where "chan_ended st = None" "frame_check frame InProcessCarrier = Inr tag"
    "\<not> lane_capacity capacity lane \<le> inbox_count lane (chan_inboxes st (side_peer side))"
    "chan_send capacity side frame lane key st =
       (Inr (), st\<lparr>chan_inboxes := (chan_inboxes st)(side_peer side :=
          (inbox_update_count lane (\<lambda>n. n + 1) (chan_inboxes st (side_peer side)))
            \<lparr>inbox_frames := inbox_frames (chan_inboxes st (side_peer side)) @ [(frame, lane)]\<rparr>)\<rparr>)"
proof (cases "chan_ended st")
  case None
  show ?thesis
  proof (cases "frame_check frame InProcessCarrier")
    case (Inl error)
    with None refused show ?thesis
      by (simp add: chan_send_def chan_stop_def seen_by_def)
  next
    case (Inr tag)
    with None full sent show ?thesis
      by (cases "lane_capacity capacity lane \<le> inbox_count lane (chan_inboxes st (side_peer side))")
         (simp_all add: chan_send_def Let_def)
  qed
next
  case (Some ending)
  with ended show ?thesis
    by (simp add: chan_send_def)
qed

lemma chan_send_ok:
  assumes ok: "channel_ok capacity st"
  shows "channel_ok capacity (snd (chan_send capacity side frame lane key st))"
proof (cases rule: chan_send_cases [of st capacity side frame lane key])
  case (sent tag)
  show ?thesis
  proof (rule channel_okI)
    show "inbox_ok capacity (chan_inboxes (snd (chan_send capacity side frame lane key st)) other)" for other
      using channel_okD(1) [OF ok] inbox_ok_push [OF channel_okD(1) [OF ok] sent(3,2)] sent(4) by simp
  qed (use channel_okD(3) [OF ok] sent in auto)
qed (use ok chan_stop_ok in simp_all)

lemma chan_recv_cases:
  obtains (taken) frame lane frames where "\<not> chan_stopped st side"
    "inbox_frames (chan_inboxes st side) = (frame, lane) # frames"
    "chan_recv side st = (Some (Inr frame), st\<lparr>chan_inboxes := (chan_inboxes st)(side :=
       (inbox_update_count lane (\<lambda>n. n - 1) (chan_inboxes st side))\<lparr>inbox_frames := frames\<rparr>)\<rparr>)"
  | (idle) "chan_stopped st side \<or> inbox_frames (chan_inboxes st side) = []"
    "chan_recv side st = (map_option (\<lambda>ending. Inl (seen_by ending side)) (chan_ended st), st)"
proof (cases "inbox_frames (chan_inboxes st side)")
  case Nil
  then have "chan_recv side st = (map_option (\<lambda>ending. Inl (seen_by ending side)) (chan_ended st), st)"
    by (simp add: chan_recv_def split: bool.split)
  with Nil idle show ?thesis
    by blast
next
  case (Cons f frames)
  obtain frame lane where f: "f = (frame, lane)"
    by (cases f)
  show ?thesis
    using taken [of frame lane frames] idle Cons f
    by (cases "chan_stopped st side") (simp_all add: chan_recv_def)
qed

lemma chan_recv_ok:
  assumes ok: "channel_ok capacity st"
  shows "channel_ok capacity (snd (chan_recv side st))"
proof (cases rule: chan_recv_cases [of st side])
  case (taken frame lane frames)
  show ?thesis
  proof (rule channel_okI)
    show "inbox_ok capacity (chan_inboxes (snd (chan_recv side st)) other)" for other
      using channel_okD(1) [OF ok] inbox_ok_pop [OF channel_okD(1) [OF ok] taken(2)] taken(3) by simp
  qed (use channel_okD [OF ok] taken in auto)
qed (use ok in simp)

subsection \<open>Histories\<close>

text \<open>
  A history of one channel: the critical sections of its threads in the order the mutex was taken.
  Dropping an end closes it. The frames each side sent with success, those it received, and the
  endings it was told are recorded beside the state.
\<close>

datatype ChannelOp =
    OpSend Side SessionFrame Lane FrameKey
  | OpClose Side
  | OpRecv Side

record ChannelRun =
  run_channel :: ChannelState
  run_sent :: "Side \<Rightarrow> SessionFrame list"
  run_received :: "Side \<Rightarrow> SessionFrame list"
  run_told :: "Side \<Rightarrow> Closed list"

definition log_at :: "Side \<Rightarrow> 'a \<Rightarrow> (Side \<Rightarrow> 'a list) \<Rightarrow> Side \<Rightarrow> 'a list" where
  "log_at side x log = log(side := log side @ [x])"

fun channel_op :: "ChannelLimits \<Rightarrow> ChannelOp \<Rightarrow> ChannelRun \<Rightarrow> ChannelRun" where
  "channel_op capacity (OpSend side frame lane key) r =
     (case chan_send capacity side frame lane key (run_channel r) of
        (Inr _, st) \<Rightarrow> r\<lparr>run_channel := st, run_sent := log_at side frame (run_sent r)\<rparr>
      | (Inl (SendClosed _ closed), st) \<Rightarrow> r\<lparr>run_channel := st, run_told := log_at side closed (run_told r)\<rparr>
      | (Inl (SendFull _), st) \<Rightarrow> r\<lparr>run_channel := st\<rparr>)"
| "channel_op capacity (OpClose side) r = r\<lparr>run_channel := chan_close side (run_channel r)\<rparr>"
| "channel_op capacity (OpRecv side) r =
     (case chan_recv side (run_channel r) of
        (Some (Inr frame), st) \<Rightarrow> r\<lparr>run_channel := st, run_received := log_at side frame (run_received r)\<rparr>
      | (Some (Inl closed), st) \<Rightarrow> r\<lparr>run_channel := st, run_told := log_at side closed (run_told r)\<rparr>
      | (None, st) \<Rightarrow> r\<lparr>run_channel := st\<rparr>)"

definition run_start :: ChannelRun where
  "run_start = \<lparr>run_channel = default_channel, run_sent = (\<lambda>_. []), run_received = (\<lambda>_. []), run_told = (\<lambda>_. [])\<rparr>"

definition channel_run :: "ChannelLimits \<Rightarrow> ChannelOp list \<Rightarrow> ChannelRun" where
  "channel_run capacity ops = fold (channel_op capacity) ops run_start"

lemma channel_run_snoc: "channel_run capacity (ops @ [op]) = channel_op capacity op (channel_run capacity ops)"
  by (simp add: channel_run_def)

lemma run_channel_op:
  "run_channel (channel_op capacity op r) =
     (case op of
        OpSend side frame lane key \<Rightarrow> snd (chan_send capacity side frame lane key (run_channel r))
      | OpClose side \<Rightarrow> chan_close side (run_channel r)
      | OpRecv side \<Rightarrow> snd (chan_recv side (run_channel r)))"
  by (cases op) (auto split: prod.split sum.split SendError.split option.split)

lemma channel_run_ok: "channel_ok capacity (run_channel (channel_run capacity ops))"
proof (induction ops rule: rev_induct)
  case Nil
  show ?case
    by (simp add: channel_run_def run_start_def default_channel_ok)
next
  case (snoc op ops)
  then show ?case
    unfolding channel_run_snoc run_channel_op
    by (cases op) (simp_all add: chan_send_ok chan_recv_ok chan_close_def chan_stop_ok)
qed

subsection \<open>Delivery\<close>

definition delivered :: "ChannelRun \<Rightarrow> Side \<Rightarrow> bool" where
  "delivered r side \<longleftrightarrow>
     (let st = run_channel r in
      (\<not> chan_stopped st side \<longrightarrow>
         run_received r side @ map fst (inbox_frames (chan_inboxes st side)) = run_sent r (side_peer side)) \<and>
      prefix (run_received r side) (run_sent r (side_peer side)) \<and>
      (\<forall>closed \<in> set (run_told r side). map_option (\<lambda>ending. seen_by ending side) (chan_ended st) = Some closed))"

lemma deliveredI:
  assumes "\<not> chan_stopped (run_channel r) side \<Longrightarrow>
      run_received r side @ map fst (inbox_frames (chan_inboxes (run_channel r) side)) = run_sent r (side_peer side)"
    "prefix (run_received r side) (run_sent r (side_peer side))"
    "\<And>closed. closed \<in> set (run_told r side) \<Longrightarrow>
      map_option (\<lambda>ending. seen_by ending side) (chan_ended (run_channel r)) = Some closed"
  shows "delivered r side"
  using assms by (simp add: delivered_def)

lemma deliveredD:
  assumes "delivered r side"
  shows "\<not> chan_stopped (run_channel r) side \<Longrightarrow>
      run_received r side @ map fst (inbox_frames (chan_inboxes (run_channel r) side)) = run_sent r (side_peer side)"
    "prefix (run_received r side) (run_sent r (side_peer side))"
    "closed \<in> set (run_told r side) \<Longrightarrow>
      map_option (\<lambda>ending. seen_by ending side) (chan_ended (run_channel r)) = Some closed"
  using assms by (simp_all add: delivered_def Let_def)

text \<open>Ending the channel keeps what was delivered, and an earlier ending stands.\<close>

lemma delivered_stop:
  assumes "delivered r other"
  shows "delivered (r\<lparr>run_channel := snd (chan_stop side protocol (run_channel r))\<rparr>) other"
proof (rule deliveredI)
  note old = deliveredD [OF assms]
  show "map_option (\<lambda>ending. seen_by ending other)
      (chan_ended (run_channel (r\<lparr>run_channel := snd (chan_stop side protocol (run_channel r))\<rparr>))) = Some closed"
    if "closed \<in> set (run_told (r\<lparr>run_channel := snd (chan_stop side protocol (run_channel r))\<rparr>) other)" for closed
    using old(3) [of closed] that by (auto simp: chan_stop_def Let_def)
qed (use deliveredD(1,2) [OF assms] in \<open>auto simp: chan_stop_def Let_def split: if_splits\<close>)

lemma delivered_told:
  assumes "delivered r other"
    and "map_option (\<lambda>ending. seen_by ending side) (chan_ended (run_channel r)) = Some closed"
  shows "delivered (r\<lparr>run_told := log_at side closed (run_told r)\<rparr>) other"
  using assms by (auto simp: delivered_def Let_def log_at_def)

lemma delivered_send:
  assumes ok: "channel_ok capacity (run_channel r)" and old: "\<And>side. delivered r side"
  shows "delivered (channel_op capacity (OpSend side frame lane key) r) other"
proof (cases rule: chan_send_cases [of "run_channel r" capacity side frame lane key])
  case (ended ending)
  then have "channel_op capacity (OpSend side frame lane key) r =
      r\<lparr>run_told := log_at side (seen_by ending side) (run_told r)\<rparr>"
    by simp
  with delivered_told [OF old] ended show ?thesis
    by simp
next
  case (refused error)
  let ?r = "r\<lparr>run_channel := snd (chan_stop side (Some error) (run_channel r))\<rparr>"
  have "channel_op capacity (OpSend side frame lane key) r =
      ?r\<lparr>run_told := log_at side (ClosedProtocol error) (run_told ?r)\<rparr>"
    using refused by simp
  moreover have "map_option (\<lambda>ending. seen_by ending side) (chan_ended (run_channel ?r)) = Some (ClosedProtocol error)"
    using refused(1) by (simp add: chan_stop_def Let_def seen_by_def)
  ultimately show ?thesis
    using delivered_told [OF delivered_stop [OF old]] by metis
next
  case (full tag)
  with old show ?thesis
    by simp
next
  case (sent tag)
  have open': "\<not> chan_stopped (run_channel r) s" for s
    using channel_okD(3) [OF ok] sent(1) by fastforce
  let ?new = "channel_op capacity (OpSend side frame lane key) r"
  show ?thesis
  proof (rule deliveredI)
    show "run_received ?new other @ map fst (inbox_frames (chan_inboxes (run_channel ?new) other)) =
        run_sent ?new (side_peer other)"
      using deliveredD(1) [OF old open', of other] sent(4) by (cases side; cases other) (auto simp: log_at_def)
    show "prefix (run_received ?new other) (run_sent ?new (side_peer other))"
      using deliveredD(2) [OF old, of other] sent(4) by (cases side; cases other) (auto simp: log_at_def)
  qed (use deliveredD(3) [OF old] sent in auto)
qed

lemma delivered_recv:
  assumes old: "\<And>side. delivered r side"
  shows "delivered (channel_op capacity (OpRecv side) r) other"
proof (cases rule: chan_recv_cases [of "run_channel r" side])
  case (taken frame lane frames)
  let ?new = "channel_op capacity (OpRecv side) r"
  have all: "run_received r side @ frame # map fst frames = run_sent r (side_peer side)"
    using deliveredD(1) [OF old taken(1)] taken(2) by simp
  show ?thesis
  proof (rule deliveredI)
    show "run_received ?new other @ map fst (inbox_frames (chan_inboxes (run_channel ?new) other)) =
        run_sent ?new (side_peer other)" if "\<not> chan_stopped (run_channel ?new) other"
      using that deliveredD(1) [OF old, of other] taken(3) all by (auto simp: log_at_def)
    show "prefix (run_received ?new other) (run_sent ?new (side_peer other))"
      using deliveredD(2) [OF old, of other] taken(3) all [symmetric] by (auto simp: log_at_def)
  qed (use deliveredD(3) [OF old] taken in auto)
next
  case idle
  show ?thesis
  proof (cases "chan_ended (run_channel r)")
    case None
    with idle old show ?thesis
      by simp
  next
    case (Some ending)
    with idle delivered_told [OF old, of side "seen_by ending side"] show ?thesis
      by simp
  qed
qed

lemma channel_run_delivered: "delivered (channel_run capacity ops) side"
proof (induction ops arbitrary: side rule: rev_induct)
  case Nil
  show ?case
    by (simp add: channel_run_def run_start_def delivered_def default_channel_def default_inbox_def)
next
  case (snoc op ops)
  show ?case
  proof (cases op)
    case (OpClose s)
    with snoc show ?thesis
      by (simp add: channel_run_snoc chan_close_def delivered_stop)
  qed (use snoc in \<open>simp_all only: channel_run_snoc delivered_send [OF channel_run_ok] delivered_recv\<close>)
qed

subsection \<open>Properties\<close>

text \<open>
  C25. The state of the in-process channel stays well formed under every history of sends, receives and
  closes: each lane's counter is the number of frames of that lane in transit, so incrementing it
  never wraps and decrementing it never goes below zero; no lane holds more than its limit and no queue
  more than its capacity; only frames the carrier carries are in transit; and a side that stopped
  receiving has nothing left to receive.
\<close>

theorem in_process_channel_is_well_formed:
  assumes "limits_valid capacity" and "st = run_channel (channel_run capacity ops)"
  shows "channel_ok capacity st \<and>
    (\<forall>side. length (inbox_frames (chan_inboxes st side)) \<le> unat (queue_capacity capacity))"
proof -
  have ok: "channel_ok capacity st"
    by (simp add: assms(2) channel_run_ok)
  have "length (inbox_frames (chan_inboxes st side)) \<le> unat (queue_capacity capacity)" for side
  proof -
    let ?inbox = "chan_inboxes st side"
    have split: "length fs = length (filter (\<lambda>f. snd f = CallLane) fs) + length (filter (\<lambda>f. snd f = ControlLane) fs)"
      for fs :: "(SessionFrame \<times> Lane) list"
      by (induction fs) (auto intro: Lane.exhaust)
    have "on_lane lane ?inbox \<le> unat (lane_capacity capacity lane)" for lane
      using channel_okD(1) [OF ok, of side] unfolding inbox_ok_def lane_all by (metis word_le_nat_alt)
    from this [of CallLane] this [of ControlLane] show ?thesis
      using split [of "inbox_frames ?inbox"] queue_capacity_unat [OF assms(1)] by (simp add: on_lane_def)
  qed
  with ok show ?thesis
    by blast
qed

definition sample_frame :: SessionFrame where
  "sample_frame = frame_new SessionReply []"

theorem in_process_channel_is_well_formed_witness:
  "limits_valid default_channel_limits \<and>
   channel_ok default_channel_limits (run_channel (channel_run default_channel_limits
     [OpSend ClientSide sample_frame CallLane IN_PROCESS_KEY, OpRecv HostSide]))"
  using in_process_channel_is_well_formed [OF default_limits_valid refl] default_limits_valid by blast

text \<open>
  C11. What one side receives is what the other sent with success, in order, each frame once: always a
  prefix, and while the side has not stopped, the received frames followed by those in transit. When
  the receiver of such a side is told that the channel ended, it has received everything. Every ending
  a side is told is the same one.
\<close>

theorem in_process_delivers_in_order:
  assumes "r = channel_run capacity ops"
  shows "prefix (run_received r side) (run_sent r (side_peer side)) \<and>
    (chan_stopped (run_channel r) side \<or>
     run_received r side @ map fst (inbox_frames (chan_inboxes (run_channel r) side)) = run_sent r (side_peer side)) \<and>
    (\<forall>closed. fst (chan_recv side (run_channel r)) = Some (Inl closed) \<longrightarrow>
       \<not> chan_stopped (run_channel r) side \<longrightarrow> run_received r side = run_sent r (side_peer side)) \<and>
    (\<exists>reason. set (run_told r side) \<subseteq> {reason})"
proof -
  note d = deliveredD [OF channel_run_delivered [of capacity ops side], folded assms]
  have "run_received r side = run_sent r (side_peer side)"
    if "fst (chan_recv side (run_channel r)) = Some (Inl closed)" "\<not> chan_stopped (run_channel r) side" for closed
    using chan_recv_cases [of "run_channel r" side] that d(1) by (metis append_Nil2 fst_conv list.simps(8) option.inject sum.distinct(1))
  moreover have "set (run_told r side) \<subseteq> {the (map_option (\<lambda>ending. seen_by ending side) (chan_ended (run_channel r)))}"
    using d(3) by (metis option.sel singletonI subsetI)
  ultimately show ?thesis
    using d(1,2) by blast
qed

theorem in_process_delivers_in_order_witness:
  "run_received (channel_run default_channel_limits
     [OpSend ClientSide sample_frame CallLane IN_PROCESS_KEY, OpRecv HostSide, OpClose ClientSide]) HostSide = [sample_frame] \<and>
   run_sent (channel_run default_channel_limits
     [OpSend ClientSide sample_frame CallLane IN_PROCESS_KEY, OpRecv HostSide, OpClose ClientSide]) ClientSide = [sample_frame]"
proof -
  let ?r = "channel_run default_channel_limits
     [OpSend ClientSide sample_frame CallLane IN_PROCESS_KEY, OpRecv HostSide, OpClose ClientSide]"
  note eval = channel_run_def run_start_def default_channel_def default_inbox_def chan_send_def chan_recv_def
    chan_close_def chan_stop_def frame_check_def check_size_def frame_size_def sample_frame_def frame_new_def
    carrier_tag_def tag_from_byte_def MAX_FRAME_BYTES_def and_then_def lane_capacity_def default_channel_limits_def
    inbox_count_def inbox_update_count_def log_at_def seen_by_def Let_def
  have "fst (chan_recv HostSide (run_channel ?r)) = Some (Inl ClosedPeer) \<and> \<not> chan_stopped (run_channel ?r) HostSide"
    by (simp add: eval)
  with in_process_delivers_in_order [OF refl, of default_channel_limits
      "[OpSend ClientSide sample_frame CallLane IN_PROCESS_KEY, OpRecv HostSide, OpClose ClientSide]" HostSide]
  have "run_received ?r HostSide = run_sent ?r ClientSide"
    by simp
  moreover have "run_sent ?r ClientSide = [sample_frame]"
    by (simp add: eval)
  ultimately show ?thesis
    by simp
qed

end
