(* ===== verification/Channel_Threads.thy ===== *)
theory Channel_Threads
  imports In_Process
begin

text \<open>
  The threads around the in-process channel's mutex: receivers wait in a condition variable per side.
  A successful send notifies one receiver of the peer after it has released the lock, so the
  notification is a step of its own; ending the channel notifies all receivers of both sides while it
  still holds the lock. Receivers are counted: those awake, about to take the lock and look, and those
  asleep.
\<close>

record ChannelThreads =
  thr_channel :: ChannelState
  thr_awake :: "Side \<Rightarrow> nat"
  thr_asleep :: "Side \<Rightarrow> nat"
  thr_notifies :: "Side \<Rightarrow> nat"

definition threads_start :: ChannelThreads where
  "threads_start =
     \<lparr>thr_channel = default_channel, thr_awake = (\<lambda>_. 0), thr_asleep = (\<lambda>_. 0), thr_notifies = (\<lambda>_. 0)\<rparr>"

definition wake_all :: "ChannelThreads \<Rightarrow> ChannelThreads" where
  "wake_all t = t\<lparr>thr_awake := (\<lambda>side. thr_awake t side + thr_asleep t side), thr_asleep := (\<lambda>_. 0)\<rparr>"

inductive thread_step :: "ChannelLimits \<Rightarrow> ChannelThreads \<Rightarrow> ChannelThreads \<Rightarrow> bool"
  for capacity :: ChannelLimits where
  send_ok:
    "chan_send capacity side frame lane key (thr_channel t) = (Inr u, st) \<Longrightarrow>
     thread_step capacity t (t\<lparr>thr_channel := st,
       thr_notifies := (thr_notifies t)(side_peer side := Suc (thr_notifies t (side_peer side)))\<rparr>)"
| send_ends:
    "chan_send capacity side frame lane key (thr_channel t) = (Inl e, st) \<Longrightarrow> chan_ended (thr_channel t) = None \<Longrightarrow>
     chan_ended st \<noteq> None \<Longrightarrow> thread_step capacity t (wake_all (t\<lparr>thr_channel := st\<rparr>))"
| send_refused:
    "chan_send capacity side frame lane key (thr_channel t) = (Inl e, st) \<Longrightarrow>
     chan_ended (thr_channel t) \<noteq> None \<or> chan_ended st = None \<Longrightarrow> thread_step capacity t (t\<lparr>thr_channel := st\<rparr>)"
| close:
    "thread_step capacity t (wake_all (t\<lparr>thr_channel := chan_close side (thr_channel t)\<rparr>))"
| notify_one:
    "thr_notifies t side = Suc n \<Longrightarrow> thr_asleep t side = Suc m \<Longrightarrow>
     thread_step capacity t (t\<lparr>thr_notifies := (thr_notifies t)(side := n), thr_asleep := (thr_asleep t)(side := m),
       thr_awake := (thr_awake t)(side := Suc (thr_awake t side))\<rparr>)"
| notify_none:
    "thr_notifies t side = Suc n \<Longrightarrow> thr_asleep t side = 0 \<Longrightarrow>
     thread_step capacity t (t\<lparr>thr_notifies := (thr_notifies t)(side := n)\<rparr>)"
| recv_enter:
    "thread_step capacity t (t\<lparr>thr_awake := (thr_awake t)(side := Suc (thr_awake t side))\<rparr>)"
| recv_return:
    "thr_awake t side = Suc n \<Longrightarrow> chan_recv side (thr_channel t) = (Some answer, st) \<Longrightarrow>
     thread_step capacity t (t\<lparr>thr_channel := st, thr_awake := (thr_awake t)(side := n)\<rparr>)"
| recv_wait:
    "thr_awake t side = Suc n \<Longrightarrow> chan_recv side (thr_channel t) = (None, st) \<Longrightarrow>
     thread_step capacity t (t\<lparr>thr_channel := st, thr_awake := (thr_awake t)(side := n),
       thr_asleep := (thr_asleep t)(side := Suc (thr_asleep t side))\<rparr>)"
| spurious:
    "thr_asleep t side = Suc m \<Longrightarrow>
     thread_step capacity t (t\<lparr>thr_asleep := (thr_asleep t)(side := m),
       thr_awake := (thr_awake t)(side := Suc (thr_awake t side))\<rparr>)"

definition threads_reachable :: "ChannelLimits \<Rightarrow> ChannelThreads \<Rightarrow> bool" where
  "threads_reachable capacity t \<longleftrightarrow> (thread_step capacity)\<^sup>*\<^sup>* threads_start t"

text \<open>
  While a receiver sleeps the channel is open, and every frame waiting for its side is matched by a
  notification still to be made or by a receiver that is awake.
\<close>

definition waits_well :: "ChannelState \<Rightarrow> (Side \<Rightarrow> nat) \<Rightarrow> (Side \<Rightarrow> nat) \<Rightarrow> (Side \<Rightarrow> nat) \<Rightarrow> bool" where
  "waits_well st awake asleep notifies \<longleftrightarrow>
     (\<forall>side. 0 < asleep side \<longrightarrow>
        chan_ended st = None \<and> length (inbox_frames (chan_inboxes st side)) \<le> notifies side + awake side)"

definition threads_ok :: "ChannelLimits \<Rightarrow> ChannelThreads \<Rightarrow> bool" where
  "threads_ok capacity t \<longleftrightarrow>
     channel_ok capacity (thr_channel t) \<and>
     waits_well (thr_channel t) (thr_awake t) (thr_asleep t) (thr_notifies t)"

lemma threads_start_ok: "threads_ok capacity threads_start"
  by (simp add: threads_ok_def threads_start_def waits_well_def default_channel_ok)

lemma waits_wellD:
  "waits_well st awake asleep notifies \<Longrightarrow> 0 < asleep side \<Longrightarrow>
     chan_ended st = None \<and> length (inbox_frames (chan_inboxes st side)) \<le> notifies side + awake side"
  by (simp add: waits_well_def)

lemma waits_well_mono:
  assumes "waits_well st awake asleep notifies"
    and "\<And>side. 0 < asleep' side \<Longrightarrow> 0 < asleep side \<and> notifies side + awake side \<le> notifies' side + awake' side"
  shows "waits_well st awake' asleep' notifies'"
  using assms by (meson le_trans waits_well_def)

text \<open>A receiver sleeps only when it found nothing and no ending.\<close>

lemma chan_recv_None:
  assumes "channel_ok capacity st" "chan_recv side st = (None, st')"
  shows "chan_ended st = None \<and> inbox_frames (chan_inboxes st side) = [] \<and> st' = st"
proof (cases rule: chan_recv_cases [of st side])
  case idle
  with assms(2) have "chan_ended st = None" "st' = st"
    by (auto simp: map_option_case split: option.splits)
  with idle(1) channel_okD(3) [OF assms(1)] show ?thesis
    by fastforce
qed (use assms(2) in simp)

text \<open>A receiver that returns takes at most one frame.\<close>

lemma chan_recv_Some:
  assumes "chan_recv side st = (Some answer, st')" "chan_ended st = None"
  shows "chan_ended st' = None \<and>
    length (inbox_frames (chan_inboxes st side)) = Suc (length (inbox_frames (chan_inboxes st' side))) \<and>
    (\<forall>other. other \<noteq> side \<longrightarrow> chan_inboxes st' other = chan_inboxes st other)"
  by (cases rule: chan_recv_cases [of st side]) (use assms in auto)

lemma chan_send_Inr:
  assumes "chan_send capacity side frame lane key st = (Inr u, st')"
  shows "chan_ended st' = chan_ended st \<and>
    (\<forall>other. length (inbox_frames (chan_inboxes st' other)) =
       (if other = side_peer side then Suc (length (inbox_frames (chan_inboxes st other)))
        else length (inbox_frames (chan_inboxes st other))))"
  by (cases rule: chan_send_cases [of st capacity side frame lane key]) (use assms in auto)

lemma chan_send_Inl:
  assumes "chan_send capacity side frame lane key st = (Inl e, st')" "chan_ended st \<noteq> None \<or> chan_ended st' = None"
  shows "st' = st"
  by (cases rule: chan_send_cases [of st capacity side frame lane key])
     (use assms in \<open>auto simp: chan_stop_def Let_def\<close>)

lemma thread_step_ok:
  assumes "thread_step capacity t t'" "threads_ok capacity t"
  shows "threads_ok capacity t'"
  using assms(1)
proof cases
  case (send_ok side frame lane key u st)
  have "channel_ok capacity st"
    using chan_send_ok [of capacity "thr_channel t" side frame lane key] assms(2) send_ok(2)
    by (simp add: threads_ok_def)
  moreover have "waits_well st (thr_awake t) (thr_asleep t)
      ((thr_notifies t)(side_peer side := Suc (thr_notifies t (side_peer side))))"
    using chan_send_Inr [OF send_ok(2)] assms(2) unfolding threads_ok_def waits_well_def by fastforce
  ultimately show ?thesis
    by (simp add: threads_ok_def send_ok(1))
next
  case (send_ends side frame lane key e st)
  have "channel_ok capacity st"
    using chan_send_ok [of capacity "thr_channel t" side frame lane key] assms(2) send_ends(2)
    by (simp add: threads_ok_def)
  then show ?thesis
    by (simp add: threads_ok_def send_ends(1) wake_all_def waits_well_def)
next
  case (send_refused side frame lane key e st)
  with chan_send_Inl [OF send_refused(2,3)] assms(2) show ?thesis
    by (simp add: threads_ok_def)
next
  case (close side)
  with assms(2) show ?thesis
    by (simp add: threads_ok_def wake_all_def waits_well_def chan_close_def chan_stop_ok)
next
  case (recv_return side n answer st)
  have "channel_ok capacity st"
    using chan_recv_ok [of capacity "thr_channel t" side] assms(2) recv_return(3) by (simp add: threads_ok_def)
  moreover have "waits_well st ((thr_awake t)(side := n)) (thr_asleep t) (thr_notifies t)"
    unfolding waits_well_def
  proof (intro allI impI)
    fix other assume "0 < thr_asleep t other"
    then have old: "chan_ended (thr_channel t) = None"
      "length (inbox_frames (chan_inboxes (thr_channel t) other)) \<le> thr_notifies t other + thr_awake t other"
      using assms(2) waits_wellD unfolding threads_ok_def by blast+
    from chan_recv_Some [OF recv_return(3) old(1)] old(2) recv_return(2) show "chan_ended st = None \<and>
        length (inbox_frames (chan_inboxes st other)) \<le> thr_notifies t other + ((thr_awake t)(side := n)) other"
      by (cases "other = side") auto
  qed
  ultimately show ?thesis
    by (simp add: threads_ok_def recv_return(1))
next
  case (recv_wait side n st)
  with chan_recv_None [OF _ recv_wait(3)] assms(2) show ?thesis
    by (auto simp: threads_ok_def waits_well_def)
qed (use assms(2) in \<open>auto simp: threads_ok_def elim!: waits_well_mono split: if_splits\<close>)

lemma threads_reachable_ok: "threads_reachable capacity t \<Longrightarrow> threads_ok capacity t"
  unfolding threads_reachable_def by (induction rule: rtranclp_induct) (rule threads_start_ok, rule thread_step_ok)

subsection \<open>Properties\<close>

text \<open>
  C21. No wake-up is lost. In every reachable state in which a receiver sleeps, the channel has not
  ended, and if frames wait for its side then for each of them a notification is still to be made or a
  receiver of that side is awake; an awake receiver that looks while a frame waits, or once the
  channel has ended, returns instead of sleeping.
\<close>

theorem no_wakeup_is_lost:
  assumes "threads_reachable capacity t"
  shows "(0 < thr_asleep t side \<longrightarrow> chan_ended (thr_channel t) = None \<and>
      length (inbox_frames (chan_inboxes (thr_channel t) side)) \<le> thr_notifies t side + thr_awake t side) \<and>
    (inbox_frames (chan_inboxes (thr_channel t) side) \<noteq> [] \<or> chan_ended (thr_channel t) \<noteq> None \<longrightarrow>
      (\<exists>answer st. chan_recv side (thr_channel t) = (Some answer, st)))"
proof -
  have ok: "threads_ok capacity t"
    by (rule threads_reachable_ok [OF assms])
  have "\<exists>answer st. chan_recv side (thr_channel t) = (Some answer, st)"
    if "inbox_frames (chan_inboxes (thr_channel t) side) \<noteq> [] \<or> chan_ended (thr_channel t) \<noteq> None"
  proof -
    obtain r st where r: "chan_recv side (thr_channel t) = (r, st)"
      by (cases "chan_recv side (thr_channel t)")
    have "channel_ok capacity (thr_channel t)"
      using ok by (simp add: threads_ok_def)
    with chan_recv_None [of capacity "thr_channel t" side st] r that show ?thesis
      by (cases r) auto
  qed
  with ok waits_wellD show ?thesis
    unfolding threads_ok_def by blast
qed

text \<open>A host receiver that went to sleep before the client's frame arrived.\<close>

theorem no_wakeup_is_lost_witness:
  "\<exists>t. threads_reachable default_channel_limits t \<and> thr_asleep t HostSide = 1 \<and>
     length (inbox_frames (chan_inboxes (thr_channel t) HostSide)) = 1 \<and>
     1 \<le> thr_notifies t HostSide + thr_awake t HostSide"
proof -
  define t1 where "t1 = threads_start\<lparr>thr_awake := (thr_awake threads_start)(HostSide := 1)\<rparr>"
  define t2 where "t2 = t1\<lparr>thr_awake := (thr_awake t1)(HostSide := 0), thr_asleep := (thr_asleep t1)(HostSide := 1)\<rparr>"
  define st where "st = snd (chan_send default_channel_limits ClientSide sample_frame CallLane IN_PROCESS_KEY default_channel)"
  define t3 where "t3 = t2\<lparr>thr_channel := st, thr_notifies := (thr_notifies t2)(HostSide := 1)\<rparr>"
  note eval = default_channel_def default_inbox_def chan_send_def frame_check_def check_size_def frame_size_def
    sample_frame_def frame_new_def carrier_tag_def tag_from_byte_def MAX_FRAME_BYTES_def and_then_def
    lane_capacity_def default_channel_limits_def inbox_count_def inbox_update_count_def Let_def
  have sent: "chan_send default_channel_limits ClientSide sample_frame CallLane IN_PROCESS_KEY default_channel = (Inr (), st)"
    "length (inbox_frames (chan_inboxes st HostSide)) = 1"
    by (simp_all add: st_def eval)
  have 1: "thread_step default_channel_limits threads_start t1"
    using thread_step.recv_enter [of default_channel_limits threads_start HostSide] by (simp add: t1_def threads_start_def)
  have 2: "thread_step default_channel_limits t1 t2"
    using thread_step.recv_wait [of t1 HostSide 0 "thr_channel t1"]
    by (simp add: t1_def t2_def threads_start_def chan_recv_def default_channel_def default_inbox_def)
  have 3: "thread_step default_channel_limits t2 t3"
    using thread_step.send_ok [of default_channel_limits ClientSide sample_frame CallLane IN_PROCESS_KEY t2 "()" st] sent(1)
    by (simp add: t1_def t2_def t3_def threads_start_def)
  have reach: "threads_reachable default_channel_limits t3"
    unfolding threads_reachable_def using 1 2 3 by (meson rtranclp.rtrancl_into_rtrancl rtranclp.rtrancl_refl)
  have "thr_asleep t3 HostSide = 1" "length (inbox_frames (chan_inboxes (thr_channel t3) HostSide)) = 1"
    using sent(2) by (simp_all add: t3_def t2_def)
  with no_wakeup_is_lost [OF reach, of HostSide] reach show ?thesis
    by (intro exI [of _ t3]) simp
qed

end
