(* ===== verification/Byte_Stream.thy ===== *)
theory Byte_Stream
  imports Session_Frames
begin

text \<open>
  Framing on a byte stream, \<open>crates/session-channel/src/byte_stream.rs\<close>: reading a frame from a reader
  that may return short, be interrupted, fail or panic, and writing one. A reader is the list of what
  its calls yield: a chunk, cut when the caller's buffer is smaller, where an empty chunk is the end of
  the stream; an interruption; a failure; a panic. The writer is a record of operations on a world.
\<close>

subsection \<open>Reading\<close>

datatype ReadOutcome =
    Chunk "u8 list"
  | Interrupted
  | ReadFails ErrorKind
  | ReadPanics

type_synonym byte_source = "ReadOutcome list"

fun stream_read :: "byte_source \<Rightarrow> nat \<Rightarrow> ReadOutcome \<times> byte_source" where
  "stream_read [] n = (Chunk [], [])"
| "stream_read (Chunk bs # s) n =
     (if length bs \<le> n then (Chunk bs, s) else (Chunk (take n bs), Chunk (drop n bs) # s))"
| "stream_read (x # s) n = (x, s)"

datatype ReadAbort = AbortClosed Closed | AbortPanic

text \<open>Reads until the buffer of \<open>n\<close> more bytes is full or the stream ends, retrying interruptions.\<close>

function fill :: "byte_source \<Rightarrow> nat \<Rightarrow> u8 list \<Rightarrow> (ReadAbort + u8 list) \<times> byte_source" where
  "fill s n filled =
     (if n = 0 then (Inr filled, s)
      else case stream_read s n of
        (Chunk bs, s') \<Rightarrow>
          (if bs = [] then (Inr filled, s') else fill s' (n - length bs) (filled @ bs))
      | (Interrupted, s') \<Rightarrow> fill s' n filled
      | (ReadFails kind, s') \<Rightarrow> (Inl (AbortClosed (ClosedStream kind)), s')
      | (ReadPanics, s') \<Rightarrow> (Inl AbortPanic, s'))"
  by pat_completeness auto

lemma stream_read_smaller:
  assumes "stream_read s n = (x, s')" "0 < n" "x \<noteq> Chunk []"
  shows "length s' < length s \<or> (length s' = length s \<and> (\<exists>bs. x = Chunk bs \<and> length bs = n))"
  using assms by (cases "(s, n)" rule: stream_read.cases) (auto split: if_splits)

termination fill
proof (relation "measure (\<lambda>(s, n, filled). length s + n)")
  fix s n filled x s' bs
  assume "n \<noteq> 0" "(x, s') = stream_read s n" "x = Chunk bs" "bs \<noteq> []"
  then show "((s', n - length bs, filled @ bs), (s, n, filled)) \<in> measure (\<lambda>(s, n, filled). length s + n)"
    using stream_read_smaller [of s n x s'] by auto
next
  fix s n filled x s'
  assume "n \<noteq> 0" "(x, s') = stream_read s n" "x = Interrupted"
  then show "((s', n, filled), (s, n, filled)) \<in> measure (\<lambda>(s, n, filled). length s + n)"
    using stream_read_smaller [of s n x s'] by auto
qed simp

declare fill.simps [simp del]

definition truncated :: Closed where
  "truncated = ClosedStream UnexpectedEof"

definition u32_from_le :: "u8 list \<Rightarrow> nat" where
  "u32_from_le bs = foldr (\<lambda>b n. unat b + 256 * n) bs 0"

text \<open>The frame and what the stream still holds, or why there is none.\<close>

definition read_frame :: "byte_source \<Rightarrow> (ReadAbort + SessionFrame) \<times> byte_source" where
  "read_frame s =
     (case fill s 4 [] of
        (Inl e, s) \<Rightarrow> (Inl e, s)
      | (Inr prefix', s) \<Rightarrow>
          if length prefix' = 0 then (Inl (AbortClosed ClosedPeer), s)
          else if length prefix' \<noteq> 4 then (Inl (AbortClosed truncated), s)
          else
            (let n = u32_from_le prefix' in
             case check_size n of
               Inl error \<Rightarrow> (Inl (AbortClosed (ClosedProtocol error)), s)
             | Inr _ \<Rightarrow>
                 (case fill s 1 [] of
                    (Inl e, s) \<Rightarrow> (Inl e, s)
                  | (Inr tag, s) \<Rightarrow>
                      if length tag \<noteq> 1 then (Inl (AbortClosed truncated), s)
                      else (case carrier_tag ByteStreamCarrier (hd tag) of
                          Inl error \<Rightarrow> (Inl (AbortClosed (ClosedProtocol error)), s)
                        | Inr _ \<Rightarrow>
                            (case fill s (n - 1) [] of
                               (Inl e, s) \<Rightarrow> (Inl e, s)
                             | (Inr body, s) \<Rightarrow>
                                 if length body \<noteq> n - 1 then (Inl (AbortClosed truncated), s)
                                 else (Inr \<lparr>frame_tag = hd tag, frame_body = body\<rparr>, s))))))"

text \<open>A stream that panicked in the middle of a frame has lost its framing.\<close>

fun abort_reason :: "ReadAbort \<Rightarrow> Closed" where
  "abort_reason (AbortClosed closed) = closed"
| "abort_reason AbortPanic = ClosedStream OtherError"

subsection \<open>Writing\<close>

record 'w ByteWriter =
  write_all :: "u8 list \<Rightarrow> ('w, ErrorKind, unit) op"
  write_flush :: "('w, ErrorKind, unit) op"

definition u32_to_le :: "nat \<Rightarrow> u8 list" where
  "u32_to_le n =
     [word_of_nat n, word_of_nat (n div 256), word_of_nat (n div 256 ^ 2), word_of_nat (n div 256 ^ 3)]"

definition write_frame :: "'w ByteWriter \<Rightarrow> SessionFrame \<Rightarrow> ('w, ErrorKind, unit) op" where
  "write_frame stream frame =
     op_bind (op_result (map_err (\<lambda>_. InvalidInput) (check_size (frame_size frame)))) (\<lambda>_.
     op_bind (op_result (if frame_size frame < 2 ^ 32 then Inr () else Inl InvalidInput)) (\<lambda>_.
     op_bind (write_all stream (u32_to_le (frame_size frame) @ [frame_tag frame])) (\<lambda>_.
     op_bind (write_all stream (frame_body frame)) (\<lambda>_.
       write_flush stream))))"

definition peer_side_failure :: "ErrorKind \<Rightarrow> bool" where
  "peer_side_failure kind \<longleftrightarrow>
     kind \<in> {BrokenPipe, ConnectionReset, ConnectionAborted, NotConnected, UnexpectedEof}"

subsection \<open>Round trip\<close>

fun outcome_bytes :: "ReadOutcome \<Rightarrow> u8 list" where
  "outcome_bytes (Chunk bs) = bs"
| "outcome_bytes _ = []"

definition source_bytes :: "byte_source \<Rightarrow> u8 list" where
  "source_bytes s = concat (map outcome_bytes s)"

text \<open>A stream that neither fails nor ends early: chunks of any sizes, and interruptions.\<close>

definition quiet_source :: "byte_source \<Rightarrow> bool" where
  "quiet_source s \<longleftrightarrow> list_all (\<lambda>x. case x of Chunk bs \<Rightarrow> bs \<noteq> [] | Interrupted \<Rightarrow> True | _ \<Rightarrow> False) s"

lemma fill_eqs:
  "fill s 0 filled = (Inr filled, s)"
  "fill [] n filled = (Inr filled, [])"
  "bs \<noteq> [] \<Longrightarrow> 0 < n \<Longrightarrow> length bs \<le> n \<Longrightarrow> fill (Chunk bs # r) n filled = fill r (n - length bs) (filled @ bs)"
  "0 < n \<Longrightarrow> n < length bs \<Longrightarrow> fill (Chunk bs # r) n filled = (Inr (filled @ take n bs), Chunk (drop n bs) # r)"
  "0 < n \<Longrightarrow> fill (Interrupted # r) n filled = fill r n filled"
proof -
  show zero: "fill s 0 filled = (Inr filled, s)" for s filled
    by (simp add: fill.simps)
  show "0 < n \<Longrightarrow> n < length bs \<Longrightarrow> fill (Chunk bs # r) n filled = (Inr (filled @ take n bs), Chunk (drop n bs) # r)"
    by (subst fill.simps) (auto simp: zero)
qed (subst fill.simps; simp)+

lemma fill_quiet:
  assumes "quiet_source s"
  shows "\<exists>s'. fill s n filled = (Inr (filled @ take n (source_bytes s)), s') \<and>
      source_bytes s' = drop n (source_bytes s) \<and> quiet_source s'"
  using assms
proof (induction s arbitrary: n filled)
  case Nil
  then show ?case
    by (simp add: fill_eqs source_bytes_def)
next
  case (Cons x r)
  have r: "quiet_source r"
    using Cons.prems by (simp add: quiet_source_def)
  show ?case
  proof (cases "n = 0")
    case True
    with Cons.prems show ?thesis
      by (simp add: fill_eqs)
  next
    case n: False
    show ?thesis
    proof (cases x)
      case (Chunk bs)
      have bs: "bs \<noteq> []"
        using Cons.prems Chunk by (simp add: quiet_source_def)
      show ?thesis
      proof (cases "length bs \<le> n")
        case True
        with Cons.IH [OF r, of "n - length bs" "filled @ bs"] n bs Chunk show ?thesis
          by (simp add: fill_eqs source_bytes_def)
      next
        case False
        with r n Chunk show ?thesis
          by (simp add: fill_eqs source_bytes_def quiet_source_def)
      qed
    next
      case Interrupted
      with Cons.IH [OF r, of n filled] n show ?thesis
        by (simp add: fill_eqs source_bytes_def)
    qed (use Cons.prems in \<open>simp_all add: quiet_source_def\<close>)
  qed
qed

lemma fill_quiet_cases:
  assumes "quiet_source s"
  obtains s' where "fill s n [] = (Inr (take n (source_bytes s)), s')"
    "source_bytes s' = drop n (source_bytes s)" "quiet_source s'"
  using fill_quiet [OF assms, of n "[]"] by auto

lemma u32_round_trip:
  assumes "n < 2 ^ 32"
  shows "u32_from_le (u32_to_le n) = n"
proof -
  let ?a = "n div 256" and ?b = "n div 256 div 256" and ?c = "n div 256 div 256 div 256"
  have divs: "n div 256 ^ 2 = ?b" "n div 256 ^ 3 = ?c"
    by (simp_all add: power2_eq_square power3_eq_cube div_mult2_eq)
  have "?c < 256"
    using assms by (simp add: less_mult_imp_div_less)
  then have "u32_from_le (u32_to_le n) = n mod 256 + 256 * (?a mod 256 + 256 * (?b mod 256 + 256 * ?c))"
    unfolding u32_from_le_def u32_to_le_def divs by (simp add: unat_of_nat take_bit_eq_mod)
  also have "\<dots> = n"
    by simp
  finally show ?thesis .
qed

definition frame_bytes :: "SessionFrame \<Rightarrow> u8 list" where
  "frame_bytes f = u32_to_le (frame_size f) @ frame_tag f # frame_body f"

definition carried :: "SessionFrame \<Rightarrow> bool" where
  "carried f \<longleftrightarrow> is_ok (frame_check f ByteStreamCarrier)"

lemma carriedD:
  assumes "carried f"
  shows "frame_size f = Suc (length (frame_body f))" "check_size (frame_size f) = Inr ()"
    "\<exists>t. carrier_tag ByteStreamCarrier (frame_tag f) = Inr t" "frame_size f < 2 ^ 32"
proof -
  obtain t where t: "frame_check f ByteStreamCarrier = Inr t"
    using assms by (auto simp: carried_def is_ok_def split: sum.splits)
  then have small: "Suc (length (frame_body f)) \<le> MAX_FRAME_BYTES" "carrier_tag ByteStreamCarrier (frame_tag f) = Inr t"
    by (simp_all add: frame_check_Inr)
  then show n: "frame_size f = Suc (length (frame_body f))"
    by (auto simp: frame_size_def MAX_FRAME_BYTES_def min_def)
  with small show "check_size (frame_size f) = Inr ()" "\<exists>t. carrier_tag ByteStreamCarrier (frame_tag f) = Inr t"
    "frame_size f < 2 ^ 32"
    by (auto simp: check_size_Inr MAX_FRAME_BYTES_def)
qed

lemma u32_to_le_length [simp]: "length (u32_to_le n) = 4"
  by (simp add: u32_to_le_def)

lemma frame_bytes_length: "carried f \<Longrightarrow> length (frame_bytes f) = 5 + length (frame_body f)"
  by (simp add: frame_bytes_def)

text \<open>
  A stream that starts with a strict part of a frame: nothing at all is the peer's end, anything else a
  truncated stream. A stream that starts with a whole frame yields it and goes on behind it.
\<close>

lemma read_frame_whole:
  assumes s: "quiet_source s" and bytes: "source_bytes s = frame_bytes f @ rest" and f: "carried f"
  obtains s' where "read_frame s = (Inr f, s')" "source_bytes s' = rest" "quiet_source s'"
proof -
  obtain s1 where s1: "fill s 4 [] = (Inr (u32_to_le (frame_size f)), s1)"
    "source_bytes s1 = frame_tag f # frame_body f @ rest" "quiet_source s1"
    by (rule fill_quiet_cases [OF s, of 4]) (simp add: bytes frame_bytes_def)
  obtain s2 where s2: "fill s1 1 [] = (Inr [frame_tag f], s2)"
    "source_bytes s2 = frame_body f @ rest" "quiet_source s2"
    by (rule fill_quiet_cases [OF s1(3), of 1]) (simp add: s1(2))
  obtain s3 where s3: "fill s2 (frame_size f - 1) [] = (Inr (frame_body f), s3)"
    "source_bytes s3 = rest" "quiet_source s3"
    by (rule fill_quiet_cases [OF s2(3), of "frame_size f - 1"]) (simp add: s2(2) carriedD(1) [OF f])
  have "read_frame s = (Inr f, s3)"
    using carriedD [OF f] s1(1) s2(1) s3(1) by (auto simp: read_frame_def Let_def u32_round_trip)
  with s3 that show ?thesis
    by blast
qed

lemma read_frame_part:
  assumes s: "quiet_source s" and part: "frame_bytes f = source_bytes s @ missing" "missing \<noteq> []" and f: "carried f"
  shows "\<exists>s'. read_frame s = (Inl (AbortClosed (if source_bytes s = [] then ClosedPeer else truncated)), s')"
proof -
  let ?b = "source_bytes s"
  obtain s1 where s1: "fill s 4 [] = (Inr (take 4 ?b), s1)" "source_bytes s1 = drop 4 ?b" "quiet_source s1"
    by (rule fill_quiet_cases [OF s])
  have len: "length ?b < 5 + length (frame_body f)"
    using arg_cong [OF part(1), of length] part(2) frame_bytes_length [OF f] by (cases missing) simp_all
  show ?thesis
  proof (cases "length ?b < 4")
    case True
    with s1(1) show ?thesis
      by (cases "?b = []") (simp_all add: read_frame_def)
  next
    case False
    then have head: "take 4 ?b = u32_to_le (frame_size f)"
      using arg_cong [OF part(1), of "take 4"] by (simp add: frame_bytes_def)
    have tail: "frame_tag f # frame_body f = drop 4 ?b @ missing"
      using arg_cong [OF part(1), of "drop 4"] False by (simp add: frame_bytes_def)
    obtain s2 where s2: "fill s1 1 [] = (Inr (take 1 (drop 4 ?b)), s2)" "source_bytes s2 = drop 5 ?b" "quiet_source s2"
      by (rule fill_quiet_cases [OF s1(3), of 1]) (simp add: s1(2))
    obtain s3 where s3: "fill s2 (frame_size f - 1) [] = (Inr (take (frame_size f - 1) (drop 5 ?b)), s3)"
      by (rule fill_quiet_cases [OF s2(3), of "frame_size f - 1"]) (simp add: s2(2))
    have full: "?b \<noteq> []"
      using False by auto
    show ?thesis
    proof (cases "length ?b = 4")
      case True
      with s1(1) s2(1) head full carriedD(2,4) [OF f] show ?thesis
        by (auto simp: read_frame_def Let_def u32_round_trip)
    next
      case tagged: False
      then have "take 1 (drop 4 ?b) = [frame_tag f]"
        using tail False by (cases "drop 4 ?b") auto
      moreover have "length (take (frame_size f - 1) (drop 5 ?b)) \<noteq> frame_size f - 1"
        using len tagged False carriedD(1) [OF f] by simp
      ultimately show ?thesis
        using s1(1) s2(1) s3(1) head full carriedD [OF f] by (auto simp: read_frame_def Let_def u32_round_trip)
    qed
  qed
qed

text \<open>The frames of a stream, in turn, and why it ended.\<close>

fun read_frames :: "nat \<Rightarrow> byte_source \<Rightarrow> SessionFrame list \<times> byte_source" where
  "read_frames 0 s = ([], s)"
| "read_frames (Suc n) s =
     (case read_frame s of
        (Inl _, s) \<Rightarrow> ([], s)
      | (Inr f, s) \<Rightarrow> (case read_frames n s of (fs, s) \<Rightarrow> (f # fs, s)))"

lemma read_frames_whole:
  assumes "quiet_source s" "source_bytes s = concat (map frame_bytes fs) @ rest" "\<forall>f \<in> set fs. carried f"
  shows "\<exists>s'. read_frames (length fs) s = (fs, s') \<and> source_bytes s' = rest \<and> quiet_source s'"
  using assms
proof (induction fs arbitrary: s)
  case (Cons f fs)
  obtain s1 where s1: "read_frame s = (Inr f, s1)" "source_bytes s1 = concat (map frame_bytes fs) @ rest" "quiet_source s1"
    using read_frame_whole [OF Cons.prems(1), of f "concat (map frame_bytes fs) @ rest"] Cons.prems by auto
  from Cons.IH [OF s1(3,2)] Cons.prems(3) s1(1) show ?case
    by auto
qed simp

text \<open>A writer that keeps what it is given.\<close>

definition appends :: "'w ByteWriter \<Rightarrow> ('w \<Rightarrow> u8 list) \<Rightarrow> bool" where
  "appends stream written \<longleftrightarrow>
     (\<forall>bs w. \<exists>w'. write_all stream bs w = (Inr (), w') \<and> written w' = written w @ bs) \<and>
     (\<forall>w. \<exists>w'. write_flush stream w = (Inr (), w') \<and> written w' = written w)"

fun write_frames :: "'w ByteWriter \<Rightarrow> SessionFrame list \<Rightarrow> ('w, ErrorKind, unit) op" where
  "write_frames stream [] = op_return ()"
| "write_frames stream (f # fs) = op_bind (write_frame stream f) (\<lambda>_. write_frames stream fs)"

lemma write_frame_appends:
  assumes "appends stream written" "carried f"
  shows "\<exists>w'. write_frame stream f w = (Inr (), w') \<and> written w' = written w @ frame_bytes f"
proof -
  obtain w1 where w1: "write_all stream (u32_to_le (frame_size f) @ [frame_tag f]) w = (Inr (), w1)"
    "written w1 = written w @ u32_to_le (frame_size f) @ [frame_tag f]"
    using assms(1) unfolding appends_def by blast
  obtain w2 where w2: "write_all stream (frame_body f) w1 = (Inr (), w2)" "written w2 = written w1 @ frame_body f"
    using assms(1) unfolding appends_def by blast
  obtain w3 where w3: "write_flush stream w2 = (Inr (), w3)" "written w3 = written w2"
    using assms(1) unfolding appends_def by blast
  show ?thesis
    using w1 w2 w3 carriedD(2,4) [OF assms(2)] by (simp add: write_frame_def op_bind_eq map_err_def frame_bytes_def)
qed

lemma write_frames_append:
  assumes "appends stream written" "\<forall>f \<in> set fs. carried f"
  shows "\<exists>w'. write_frames stream fs w = (Inr (), w') \<and> written w' = written w @ concat (map frame_bytes fs)"
  using assms(2)
proof (induction fs arbitrary: w)
  case (Cons f fs)
  obtain w1 where w1: "write_frame stream f w = (Inr (), w1)" "written w1 = written w @ frame_bytes f"
    using write_frame_appends [OF assms(1)] Cons.prems by fastforce
  from Cons.IH [of w1] Cons.prems w1 show ?case
    by (auto simp: op_bind_eq)
qed simp

text \<open>
  C12. Frames written to a byte stream are read back whole, each once and in order, however the reader cuts
  the bytes into chunks and however often it is interrupted; a stream that then stops between two frames
  is the peer's end, and one that stops anywhere inside the next frame is reported as truncated.
\<close>

theorem frames_cross_the_stream:
  assumes "appends stream written" "written w = []" "\<forall>f \<in> set fs. carried f"
    "write_frames stream fs w = (sent, w')"
    "quiet_source s" "source_bytes s = written w' @ part"
    "carried g" "frame_bytes g = part @ missing" "missing \<noteq> []"
  shows "sent = Inr () \<and>
      (\<exists>s' s''. read_frames (length fs) s = (fs, s') \<and>
        read_frame s' = (Inl (AbortClosed (if part = [] then ClosedPeer else ClosedStream UnexpectedEof)), s''))"
proof -
  have w': "sent = Inr ()" "written w' = concat (map frame_bytes fs)"
    using write_frames_append [OF assms(1,3), of w] assms(2,4) by auto
  obtain s' where s': "read_frames (length fs) s = (fs, s')" "source_bytes s' = part" "quiet_source s'"
    using read_frames_whole [OF assms(5) _ assms(3), of part] assms(6) w'(2) by auto
  with w'(1) read_frame_part [OF s'(3), of g missing] assms(7-9) show ?thesis
    by (auto simp: truncated_def)
qed

text \<open>A writer that collects, with one byte of the next frame's prefix behind a whole frame.\<close>

definition collecting :: "u8 list ByteWriter" where
  "collecting = \<lparr>write_all = \<lambda>bs w. (Inr (), w @ bs), write_flush = \<lambda>w. (Inr (), w)\<rparr>"

theorem frames_cross_the_stream_witness:
  "\<exists>s' s''. read_frames 1 [Chunk [3, 0], Interrupted, Chunk [0, 0, 1, 7], Chunk [8, 2]] =
       ([\<lparr>frame_tag = 1, frame_body = [7, 8]\<rparr>], s') \<and>
     read_frame s' = (Inl (AbortClosed (ClosedStream UnexpectedEof)), s'')"
proof -
  let ?f = "\<lparr>frame_tag = 1, frame_body = [7, 8]\<rparr>" and ?g = "\<lparr>frame_tag = 4, frame_body = [9]\<rparr>"
  have carried: "carried ?f" "carried ?g"
    by (simp_all add: carried_def is_ok_def frame_check_def check_size_def frame_size_def MAX_FRAME_BYTES_def
        carrier_tag_def tag_from_byte_def session_tags_all_def reserved_tag_def)
  have appends: "appends collecting id"
    by (simp add: appends_def collecting_def)
  have sent: "write_frames collecting [?f] [] = (Inr (), [3, 0, 0, 0, 1, 7, 8])"
    by (simp add: write_frame_def collecting_def op_bind_eq op_result_def map_err_def check_size_def frame_size_def
        MAX_FRAME_BYTES_def u32_to_le_def op_return_def)
  show ?thesis
    using frames_cross_the_stream [OF appends, where w = "[]" and fs = "[?f]" and g = "?g" and part = "[2]" and
        missing = "[0, 0, 0, 4, 9]" and s = "[Chunk [3, 0], Interrupted, Chunk [0, 0, 1, 7], Chunk [8, 2]]",
        OF _ _ sent] carried
    by (simp add: quiet_source_def source_bytes_def frame_bytes_def u32_to_le_def frame_size_def)
qed

end
