(* ===== verification/Write_Queue.thy ===== *)
theory Write_Queue
  imports Session_Frames "HOL-Library.Multiset"
begin

text \<open>
  The byte-stream writer's order, \<open>crates/session-channel/src/write_queue.rs\<close>: frames wait in arrival
  order and the writer takes the oldest control frame that nothing before it must stay ahead of, else
  the oldest frame. The lemmas show which frames are never overtaken, that nothing is lost or
  duplicated, and how long a frame can be overtaken.
\<close>

subsection \<open>The queue\<close>

definition SESSION_CALL_TAG :: u8 where
  "SESSION_CALL_TAG = 1"

record 'a QueueEntry =
  entry_item :: 'a
  entry_tag :: u8
  entry_key :: FrameKey

definition entry_control :: "'a QueueEntry \<Rightarrow> bool" where
  "entry_control e \<longleftrightarrow> key_class (entry_key e) = ControlClass"

type_synonym 'a WriteQueue = "'a QueueEntry list"

definition wq_new :: "'a WriteQueue" where
  "wq_new = []"

definition wq_push :: "'a \<Rightarrow> u8 \<Rightarrow> FrameKey \<Rightarrow> 'a WriteQueue \<Rightarrow> 'a WriteQueue" where
  "wq_push item tag key q = q @ [\<lparr>entry_item = item, entry_tag = tag, entry_key = key\<rparr>]"

definition wq_len :: "'a WriteQueue \<Rightarrow> nat" where
  "wq_len q = length q"

definition wq_is_empty :: "'a WriteQueue \<Rightarrow> bool" where
  "wq_is_empty q \<longleftrightarrow> q = []"

text \<open>An earlier frame holds a control frame back if it is a call or of the same target.\<close>

definition stays_ahead :: "'a QueueEntry \<Rightarrow> 'a QueueEntry \<Rightarrow> bool" where
  "stays_ahead before e \<longleftrightarrow>
     entry_tag before = SESSION_CALL_TAG \<or> key_target (entry_key before) = key_target (entry_key e)"

definition unblocked :: "'a WriteQueue \<Rightarrow> nat \<Rightarrow> bool" where
  "unblocked q i \<longleftrightarrow> entry_control (q ! i) \<and> \<not> list_ex (\<lambda>before. stays_ahead before (q ! i)) (take i q)"

definition next_index :: "'a WriteQueue \<Rightarrow> nat option" where
  "next_index q =
     (if q = [] then None
      else Some (case find (unblocked q) [0..<length q] of None \<Rightarrow> 0 | Some i \<Rightarrow> i))"

definition wq_peek :: "'a WriteQueue \<Rightarrow> 'a option" where
  "wq_peek q = map_option (\<lambda>i. entry_item (q ! i)) (next_index q)"

definition wq_pop :: "'a WriteQueue \<Rightarrow> 'a option \<times> 'a WriteQueue" where
  "wq_pop q =
     (case next_index q of
        None \<Rightarrow> (None, q)
      | Some i \<Rightarrow> (Some (entry_item (q ! i)), take i q @ drop (Suc i) q))"

definition wq_clear :: "'a WriteQueue \<Rightarrow> 'a WriteQueue" where
  "wq_clear q = []"

subsection \<open>What the next frame is\<close>

text \<open>No frame is written ahead of one it must stay behind; ordinary frames stay behind everything.\<close>

definition must_precede :: "'a QueueEntry \<Rightarrow> 'a QueueEntry \<Rightarrow> bool" where
  "must_precede before e \<longleftrightarrow> \<not> entry_control e \<or> stays_ahead before e"

lemma find_snoc:
  "find P (xs @ [x]) = (case find P xs of None \<Rightarrow> if P x then Some x else None | Some y \<Rightarrow> Some y)"
  by (induction xs) simp_all

lemma find_upt: "find P [0..<n] = Some i \<longleftrightarrow> i < n \<and> P i \<and> (\<forall>j < i. \<not> P j)"
proof (induction n)
  case (Suc n)
  show ?case
  proof (cases "find P [0..<n]")
    case None
    then have "\<not> P j" if "j < n" for j
      using that by (simp add: find_None_iff)
    with None show ?thesis
      by (cases "i = n") (auto simp: find_snoc less_Suc_eq)
  next
    case (Some k)
    then have k: "k < n" "P k" "\<And>j. j < k \<Longrightarrow> \<not> P j"
      unfolding find_Some_iff by auto
    have "find P [0..<Suc n] = Some k"
      by (simp add: find_snoc Some)
    moreover have "k = i" if "i < Suc n" "P i" "\<forall>j < i. \<not> P j"
      using that k by (metis linorder_cases)
    ultimately show ?thesis
      using k by auto
  qed
qed simp

lemma find_upt_None: "find P [0..<n] = None \<longleftrightarrow> (\<forall>i < n. \<not> P i)"
  by (simp add: find_None_iff)

lemma first_unblocked: "entry_control (q ! 0) \<Longrightarrow> unblocked q 0"
  by (simp add: unblocked_def)

lemma next_index_cases:
  assumes "next_index q = Some i"
  obtains "i < length q" "unblocked q i" "\<And>j. j < i \<Longrightarrow> \<not> unblocked q j"
  | "i = 0" "q \<noteq> []" "\<And>j. j < length q \<Longrightarrow> \<not> unblocked q j" "\<not> entry_control (q ! 0)"
proof (cases "find (unblocked q) [0..<length q]")
  case None
  then have "i = 0" "q \<noteq> []" "\<forall>j < length q. \<not> unblocked q j"
    using assms None by (simp_all add: next_index_def find_upt_None [symmetric] split: if_splits)
  then show ?thesis
    using that(2) first_unblocked by blast
next
  case (Some k)
  then have "k = i"
    using assms by (simp add: next_index_def split: if_splits)
  with Some [unfolded find_upt] show ?thesis
    using that(1) by blast
qed

lemma next_index_bound: "next_index q = Some i \<Longrightarrow> i < length q"
  by (erule next_index_cases) simp_all

lemma next_index_None [simp]: "next_index q = None \<longleftrightarrow> q = []"
  by (simp add: next_index_def)

lemma wq_pop_split:
  assumes "next_index q = Some i"
  obtains as e bs where "q = as @ e # bs" "length as = i" "wq_pop q = (Some (entry_item e), as @ bs)" "e = q ! i"
proof -
  have "q = take i q @ q ! i # drop (Suc i) q"
    using next_index_bound [OF assms] by (rule id_take_nth_drop)
  with that [of "take i q" "q ! i" "drop (Suc i) q"] show ?thesis
    using next_index_bound [OF assms] by (simp add: wq_pop_def assms)
qed

text \<open>The frame that is taken overtakes no frame that must precede it.\<close>

lemma next_overtakes:
  assumes "next_index q = Some i" "x \<in> set (take i q)"
  shows "\<not> must_precede x (q ! i)"
  using assms(1)
proof (cases rule: next_index_cases)
  case 1
  with assms(2) show ?thesis
    by (auto simp: unblocked_def must_precede_def list_ex_iff)
qed (use assms(2) in simp)

text \<open>A frame is added behind: the next frame stays the same, or is the added one.\<close>

lemma unblocked_append: "i < length q \<Longrightarrow> unblocked (q @ r) i \<longleftrightarrow> unblocked q i"
  by (simp add: unblocked_def nth_append)

lemma next_index_append:
  assumes "next_index q = Some i"
  shows "next_index (q @ [e]) = Some i \<or> next_index (q @ [e]) = Some (length q)"
proof (cases "find (unblocked q) [0..<length q]")
  case None
  then have "\<forall>j < length q. \<not> unblocked (q @ [e]) j"
    by (simp add: find_upt_None unblocked_append)
  moreover have "i = 0"
    using assms None by (auto simp: next_index_def split: if_splits)
  ultimately show ?thesis
    using find_upt [of "unblocked (q @ [e])" "Suc (length q)"]
      find_upt_None [of "unblocked (q @ [e])" "Suc (length q)"]
    by (cases "find (unblocked (q @ [e])) [0..<Suc (length q)]") (auto simp: next_index_def less_Suc_eq)
next
  case (Some k)
  then have "find (unblocked (q @ [e])) [0..<Suc (length q)] = Some k"
    unfolding find_upt by (auto simp: unblocked_append)
  with Some assms show ?thesis
    by (auto simp: next_index_def split: if_splits)
qed

subsection \<open>Runs\<close>

text \<open>
  A history of the queue: frames are pushed and popped in any order. A run keeps the queue, the
  frames written so far, and those that arrived.
\<close>

datatype 'a QueueOp = Push "'a QueueEntry" | Pop

fun run_op :: "'a QueueOp \<Rightarrow> 'a WriteQueue \<times> 'a list \<Rightarrow> 'a WriteQueue \<times> 'a list" where
  "run_op (Push e) (q, out) = (wq_push (entry_item e) (entry_tag e) (entry_key e) q, out)"
| "run_op Pop (q, out) =
     (case wq_pop q of (None, q') \<Rightarrow> (q', out) | (Some x, q') \<Rightarrow> (q', out @ [x]))"

definition run_ops :: "'a QueueOp list \<Rightarrow> 'a WriteQueue \<times> 'a list" where
  "run_ops ops = fold run_op ops (wq_new, [])"

fun arrivals :: "'a QueueOp list \<Rightarrow> 'a QueueEntry list" where
  "arrivals [] = []"
| "arrivals (Push e # ops) = e # arrivals ops"
| "arrivals (Pop # ops) = arrivals ops"

lemma arrivals_append [simp]: "arrivals (xs @ ys) = arrivals xs @ arrivals ys"
  by (induction xs rule: arrivals.induct) simp_all

lemma run_ops_snoc: "run_ops (ops @ [op]) = run_op op (run_ops ops)"
  by (simp add: run_ops_def)

lemma wq_push_entry [simp]: "wq_push (entry_item e) (entry_tag e) (entry_key e) q = q @ [e]"
  by (simp add: wq_push_def)

text \<open>
  What a run keeps: the queue is the arrivals that were not written, in their order, and a written
  frame left behind no frame that must precede it.
\<close>

definition run_ok :: "'a QueueEntry list \<Rightarrow> 'a WriteQueue \<times> 'a list \<Rightarrow> bool" where
  "run_ok arrived qo \<longleftrightarrow> (case qo of (q, out) \<Rightarrow>
     q = filter (\<lambda>e. entry_item e \<notin> set out) arrived \<and>
     set out \<subseteq> entry_item ` set arrived \<and> distinct out \<and>
     (\<forall>i < length arrived. \<forall>j < length arrived. i < j \<longrightarrow> must_precede (arrived ! i) (arrived ! j) \<longrightarrow>
        (\<forall>k < length out. out ! k = entry_item (arrived ! j) \<longrightarrow>
           (\<exists>l < k. out ! l = entry_item (arrived ! i)))))"

lemma filter_split:
  "filter P xs = as @ e # bs \<Longrightarrow> \<exists>us vs. xs = us @ e # vs \<and> filter P us = as \<and> filter P vs = bs"
proof (induction xs arbitrary: as)
  case (Cons x xs)
  show ?case
  proof (cases "P x \<and> as = []")
    case True
    with Cons.prems show ?thesis
      by (intro exI [of _ "[]"] exI [of _ xs]) auto
  next
    case False
    then obtain as' where "filter P xs = as' @ e # bs" "as = (if P x then x # as' else as')"
      using Cons.prems by (auto simp: Cons_eq_append_conv split: if_splits)
    with Cons.IH obtain us vs where "xs = us @ e # vs" "filter P us = as'" "filter P vs = bs"
      by blast
    with \<open>as = _\<close> show ?thesis
      by (intro exI [of _ "x # us"] exI [of _ vs]) auto
  qed
qed simp

lemma filter_split_before:
  assumes "filter P xs = as @ e # bs" "j < length xs" "xs ! j = e" "i < j" "P (xs ! i)" "distinct xs"
  shows "xs ! i \<in> set as"
proof -
  obtain us vs where xs: "xs = us @ e # vs" "filter P us = as"
    using filter_split [OF assms(1)] by blast
  have "length us = j"
    using assms(2,3) nth_eq_iff_index_eq [OF assms(6), of "length us" j] by (simp add: xs(1))
  then have "xs ! i \<in> set us"
    using assms(4) xs(1) by (simp add: nth_append)
  then show ?thesis
    using xs(2) assms(5) by auto
qed

lemma run_ok_order:
  assumes "run_ok arrived (q, out)" "i < j" "j < length arrived" "must_precede (arrived ! i) (arrived ! j)"
    "k < length out" "out ! k = entry_item (arrived ! j)"
  shows "\<exists>l < k. out ! l = entry_item (arrived ! i)"
proof -
  have "i < length arrived"
    using assms(2,3) by simp
  with assms show ?thesis
    by (simp add: run_ok_def)
qed

lemma run_ok_push:
  assumes "run_ok arrived (q, out)" "distinct (map entry_item (arrived @ [e]))"
  shows "run_ok (arrived @ [e]) (q @ [e], out)"
proof -
  have new: "entry_item e \<notin> set out"
    using assms by (auto simp: run_ok_def)
  have "\<exists>l < k. out ! l = entry_item ((arrived @ [e]) ! i)"
    if "i < j" "j < Suc (length arrived)" "must_precede ((arrived @ [e]) ! i) ((arrived @ [e]) ! j)"
      "k < length out" "out ! k = entry_item ((arrived @ [e]) ! j)" for i j k
  proof -
    have j: "j < length arrived"
      using that new nth_mem [of k out] by (auto simp: less_Suc_eq)
    with that have "must_precede (arrived ! i) (arrived ! j)" "out ! k = entry_item (arrived ! j)"
      by (simp_all add: nth_append)
    with run_ok_order [OF assms(1) that(1) j] j that(1,4) show ?thesis
      by (simp add: nth_append)
  qed
  with assms(1) new show ?thesis
    by (auto simp: run_ok_def)
qed

lemma run_ok_pop:
  assumes ok: "run_ok arrived (q, out)" and d: "distinct (map entry_item arrived)"
    and i: "next_index q = Some i"
  shows "run_ok arrived (snd (wq_pop q), out @ [entry_item (q ! i)])"
proof -
  obtain as e bs where q: "q = as @ e # bs" "length as = i" "wq_pop q = (Some (entry_item e), as @ bs)" "e = q ! i"
    using wq_pop_split [OF i] .
  have dq: "q = filter (\<lambda>e. entry_item e \<notin> set out) arrived"
    and sub: "set out \<subseteq> entry_item ` set arrived" "distinct out"
    using ok by (auto simp: run_ok_def)
  have e: "e \<in> set arrived" "entry_item e \<notin> set out"
    using arg_cong [OF dq, of set] q(1) by auto
  have inj: "inj_on entry_item (set arrived)" and da: "distinct arrived"
    using d by (simp_all add: distinct_map)
  have dist: "distinct q"
    unfolding dq using da by simp
  have rest: "as @ bs = filter (\<lambda>x. entry_item x \<notin> set (out @ [entry_item e])) arrived"
  proof -
    have "filter (\<lambda>x. entry_item x \<notin> set (out @ [entry_item e])) arrived = filter (\<lambda>x. x \<noteq> e) q"
      unfolding dq filter_filter using inj e by (auto intro!: filter_cong dest: inj_onD)
    also have "\<dots> = filter (\<lambda>x. x \<noteq> e) as @ filter (\<lambda>x. x \<noteq> e) bs"
      unfolding q(1) by simp
    also have "\<dots> = as @ bs"
      using dist unfolding q(1) by (metis (mono_tags, lifting) distinct.simps(2) distinct_append filter_True
          disjoint_iff list.set_intros(1))
    finally show ?thesis ..
  qed
  have order: "\<exists>l < k. (out @ [entry_item e]) ! l = entry_item (arrived ! a)"
    if "a < b" "b < length arrived" "must_precede (arrived ! a) (arrived ! b)" "k < Suc (length out)"
      "(out @ [entry_item e]) ! k = entry_item (arrived ! b)" for a b k
  proof (cases "k < length out")
    case True
    with that(5) have "out ! k = entry_item (arrived ! b)"
      by (simp add: nth_append)
    from run_ok_order [OF ok that(1-3) True this] obtain l where "l < k" "out ! l = entry_item (arrived ! a)"
      by blast
    with True show ?thesis
      by (intro exI [of _ l]) (simp add: nth_append)
  next
    case False
    then have k: "k = length out" "arrived ! b = e"
      using that inj_onD [OF inj, of e "arrived ! b"] e by (auto simp: nth_append)
    have "entry_item (arrived ! a) \<in> set out"
    proof (rule ccontr)
      assume "entry_item (arrived ! a) \<notin> set out"
      with filter_split_before [OF dq [unfolded q(1), symmetric] that(2) k(2) that(1) _ da]
      have "arrived ! a \<in> set (take i q)"
        using q(1,2) by simp
      from next_overtakes [OF i this] that(3) k(2) q(4) show False
        by simp
    qed
    then show ?thesis
      using k(1) by (auto simp: in_set_conv_nth nth_append)
  qed
  have "run_ok arrived (as @ bs, out @ [entry_item e])"
    unfolding run_ok_def prod.case
  proof (intro conjI allI impI)
    show "as @ bs = filter (\<lambda>x. entry_item x \<notin> set (out @ [entry_item e])) arrived"
      by (rule rest)
    show "set (out @ [entry_item e]) \<subseteq> entry_item ` set arrived" "distinct (out @ [entry_item e])"
      using sub e by simp_all
  qed (use order in simp)
  then show ?thesis
    using q(3,4) by simp
qed

lemma run_ok_ops: "distinct (map entry_item (arrivals ops)) \<Longrightarrow> run_ok (arrivals ops) (run_ops ops)"
proof (induction ops rule: rev_induct)
  case Nil
  then show ?case
    by (simp add: run_ok_def run_ops_def wq_new_def)
next
  case (snoc op ops)
  obtain q out where qo: "run_ops ops = (q, out)"
    by (cases "run_ops ops")
  have ok: "run_ok (arrivals ops) (q, out)"
    using snoc qo by simp
  show ?case
  proof (cases op)
    case (Push e)
    with snoc.prems ok qo run_ok_push [OF ok, of e] show ?thesis
      by (simp add: run_ops_snoc)
  next
    case Pop
    show ?thesis
    proof (cases "next_index q")
      case None
      then have "wq_pop q = (None, q)"
        by (simp only: wq_pop_def option.case)
      with Pop ok qo show ?thesis
        by (simp add: run_ops_snoc)
    next
      case (Some i)
      with run_ok_pop [OF ok _ Some] snoc.prems Pop qo show ?thesis
        by (simp add: run_ops_snoc wq_pop_def)
    qed
  qed
qed

subsection \<open>How long a frame waits\<close>

text \<open>A frame is overtaken at most by the frames before it and by the control frames behind it.\<close>

definition waits_behind :: "'a QueueEntry list \<Rightarrow> 'a QueueEntry list \<Rightarrow> nat" where
  "waits_behind as bs = length as + length (filter entry_control bs)"

fun pops :: "'a QueueOp list \<Rightarrow> nat" where
  "pops [] = 0"
| "pops (Push e # ops) = pops ops"
| "pops (Pop # ops) = Suc (pops ops)"

definition control_pushes :: "'a QueueOp list \<Rightarrow> nat" where
  "control_pushes ops = length (filter entry_control (arrivals ops))"

lemma pop_advances:
  fixes x :: "'a QueueEntry"
  shows "(\<exists>q'. wq_pop (as @ x # bs) = (Some (entry_item x), q')) \<or>
    (\<exists>y as' bs'. wq_pop (as @ x # bs) = (Some y, as' @ x # bs') \<and> Suc (waits_behind as' bs') = waits_behind as bs)"
proof -
  let ?q = "as @ x # bs"
  obtain i where i: "next_index ?q = Some i"
    by (cases "next_index ?q") simp_all
  have pop: "wq_pop ?q = (Some (entry_item (?q ! i)), take i ?q @ drop (Suc i) ?q)"
    by (simp add: wq_pop_def i)
  consider "i < length as" | "i = length as" | "length as < i"
    by linarith
  then show ?thesis
  proof cases
    case 1
    then have "take i ?q @ drop (Suc i) ?q = (take i as @ drop (Suc i) as) @ x # bs"
      by simp
    moreover have "Suc (waits_behind (take i as @ drop (Suc i) as) bs) = waits_behind as bs"
      using 1 by (simp add: waits_behind_def)
    ultimately show ?thesis
      using pop by metis
  next
    case 2
    with pop show ?thesis
      by simp
  next
    case 3
    define k where "k = i - Suc (length as)"
    have k: "i = length as + Suc k" "k < length bs"
      using 3 next_index_bound [OF i] by (simp_all add: k_def)
    have "entry_control (bs ! k)"
      using i by (rule next_index_cases) (use k in \<open>auto simp: unblocked_def nth_append\<close>)
    then have "length (filter entry_control bs) = Suc (length (filter entry_control (take k bs @ drop (Suc k) bs)))"
      using arg_cong [OF id_take_nth_drop [OF k(2)], of "\<lambda>l. length (filter entry_control l)"] by simp
    then have "Suc (waits_behind as (take k bs @ drop (Suc k) bs)) = waits_behind as bs"
      by (simp add: waits_behind_def)
    moreover have "take i ?q @ drop (Suc i) ?q = as @ x # (take k bs @ drop (Suc k) bs)"
      by (simp add: k(1))
    ultimately show ?thesis
      using pop by metis
  qed
qed

lemma written_stays: "y \<in> set out \<Longrightarrow> y \<in> set (snd (fold run_op ops (q, out)))"
proof (induction ops arbitrary: q out)
  case (Cons op ops)
  obtain q' out' where step: "run_op op (q, out) = (q', out')"
    by (cases "run_op op (q, out)")
  have "y \<in> set out'"
    using step Cons.prems by (cases op) (auto split: option.splits prod.splits)
  with Cons.IH step show ?case
    by simp
qed simp

lemma written_within:
  "waits_behind as bs + control_pushes ops < pops ops \<Longrightarrow>
   entry_item x \<in> set (snd (fold run_op ops (as @ x # bs, out)))"
proof (induction ops arbitrary: as bs out)
  case (Cons op ops)
  show ?case
  proof (cases op)
    case (Push e)
    have "waits_behind as (bs @ [e]) + control_pushes ops < pops ops"
      using Cons.prems by (simp add: Push waits_behind_def control_pushes_def split: if_splits)
    from Cons.IH [OF this] show ?thesis
      by (simp add: Push)
  next
    case Pop
    consider q' where "wq_pop (as @ x # bs) = (Some (entry_item x), q')"
      | y as' bs' where "wq_pop (as @ x # bs) = (Some y, as' @ x # bs')"
          "Suc (waits_behind as' bs') = waits_behind as bs"
      using pop_advances [of as x bs] by blast
    then show ?thesis
    proof cases
      case (1 q')
      then have "run_op op (as @ x # bs, out) = (q', out @ [entry_item x])"
        by (simp add: Pop)
      then show ?thesis
        using written_stays [of "entry_item x" "out @ [entry_item x]"] by simp
    next
      case (2 y as' bs')
      then have "run_op op (as @ x # bs, out) = (as' @ x # bs', out @ [y])"
        by (simp add: Pop)
      moreover have "waits_behind as' bs' + control_pushes ops < pops ops"
        using Cons.prems 2(2) by (simp add: Pop control_pushes_def)
      ultimately show ?thesis
        using Cons.IH by simp
    qed
  qed
qed simp

subsection \<open>Properties\<close>

text \<open>
  C22. Through any history of pushes and pops the writer loses and duplicates no frame, and it keeps
  the order the protocol depends on: a frame is written only after every frame that arrived before it
  and is of its own target, or is a session call; an ordinary frame only after every frame that
  arrived before it.
\<close>

theorem write_queue_keeps_the_order:
  assumes "distinct (map entry_item (arrivals ops))" and "run_ops ops = (q, out)"
  shows "distinct (out @ map entry_item q) \<and>
    set (out @ map entry_item q) = set (map entry_item (arrivals ops)) \<and>
    (\<forall>i j k. i < j \<longrightarrow> j < length (arrivals ops) \<longrightarrow> k < length out \<longrightarrow>
       out ! k = entry_item (arrivals ops ! j) \<longrightarrow>
       entry_tag (arrivals ops ! i) = SESSION_CALL_TAG \<or>
       key_target (entry_key (arrivals ops ! i)) = key_target (entry_key (arrivals ops ! j)) \<or>
       \<not> entry_control (arrivals ops ! j) \<longrightarrow>
       (\<exists>l < k. out ! l = entry_item (arrivals ops ! i)))"
proof -
  have ok: "run_ok (arrivals ops) (q, out)"
    using run_ok_ops [OF assms(1)] assms(2) by simp
  then have q: "q = filter (\<lambda>e. entry_item e \<notin> set out) (arrivals ops)"
    "set out \<subseteq> entry_item ` set (arrivals ops)" "distinct out"
    by (simp_all add: run_ok_def)
  have "distinct (map entry_item q)"
    unfolding q(1) using assms(1) by (rule distinct_map_filter)
  with q have "distinct (out @ map entry_item q)"
    by auto
  moreover have "set (out @ map entry_item q) = set (map entry_item (arrivals ops))"
    using q(2) by (auto simp: q(1))
  ultimately show ?thesis
    using run_ok_order [OF ok] unfolding must_precede_def stays_ahead_def by blast
qed

definition sample_entry :: "nat \<Rightarrow> u8 \<Rightarrow> FrameKey \<Rightarrow> nat QueueEntry" where
  "sample_entry n tag key = \<lparr>entry_item = n, entry_tag = tag, entry_key = key\<rparr>"

definition sample_ops :: "nat QueueOp list" where
  "sample_ops =
     [Push (sample_entry 0 16 (ordinary_key (FrameTarget 1))), Push (sample_entry 1 17 (control_key (FrameTarget 1))),
      Push (sample_entry 2 17 (control_key (FrameTarget 2))), Pop, Pop]"

lemmas sample_ops_eval = sample_ops_def sample_entry_def run_ops_def wq_new_def wq_push_def wq_pop_def
  next_index_def unblocked_def stays_ahead_def entry_control_def ordinary_key_def control_key_def
  SESSION_CALL_TAG_def upt_rec

theorem write_queue_keeps_the_order_witness:
  "snd (run_ops sample_ops) = [2, 0] \<and> distinct (snd (run_ops sample_ops) @ map entry_item (fst (run_ops sample_ops)))"
proof -
  have "distinct (map entry_item (arrivals sample_ops))"
    by (simp add: sample_ops_def sample_entry_def)
  from write_queue_keeps_the_order [OF this, of "fst (run_ops sample_ops)" "snd (run_ops sample_ops)"]
  have "distinct (snd (run_ops sample_ops) @ map entry_item (fst (run_ops sample_ops)))"
    by simp
  moreover have "snd (run_ops sample_ops) = [2, 0]"
    by (simp add: sample_ops_eval)
  ultimately show ?thesis
    by blast
qed

text \<open>
  C24. No frame waits forever: a queued frame is written once the writer has taken one frame more than
  the frames before it, the control frames behind it, and the control frames that arrive meanwhile,
  whatever ordinary frames arrive.
\<close>

theorem write_queue_does_not_starve:
  assumes "run_ops ops = (as @ x # bs, out)"
    and "length as + length (filter entry_control bs) + control_pushes later < pops later"
  shows "entry_item x \<in> set (snd (run_ops (ops @ later)))"
  using written_within [of as bs later x out] assms by (simp add: run_ops_def waits_behind_def)

theorem write_queue_does_not_starve_witness:
  "0 \<in> set (snd (run_ops (take 3 sample_ops @ [Push (sample_entry 3 17 (control_key (FrameTarget 3))), Pop, Pop, Pop, Pop])))"
proof -
  let ?later = "[Push (sample_entry 3 17 (control_key (FrameTarget 3))), Pop, Pop, Pop, Pop]"
  let ?x = "sample_entry 0 16 (ordinary_key (FrameTarget 1))"
  let ?bs = "[sample_entry 1 17 (control_key (FrameTarget 1)), sample_entry 2 17 (control_key (FrameTarget 2))]"
  have run: "run_ops (take 3 sample_ops) = ([] @ ?x # ?bs, [])"
    by (simp add: sample_ops_eval)
  have "length [] + length (filter entry_control ?bs) + control_pushes ?later < pops ?later"
    by (simp add: sample_entry_def control_key_def entry_control_def control_pushes_def)
  from write_queue_does_not_starve [OF run this] show ?thesis
    by (simp add: sample_entry_def)
qed

end
