(* ===== verification/Writer_Turns.thy ===== *)
theory Writer_Turns
  imports Write_Queue
begin

text \<open>
  The turns of the senders that wait for a byte stream's writer, \<open>Turns\<close> of
  \<open>crates/session-channel/src/byte_stream.rs\<close>: a mutex over the queue of waiting tickets and the busy
  flag, and a condition variable. The critical sections are functions of the guarded state; the
  threads around them are a step relation, in which a notification is a step of its own, because the
  code notifies after it has released the lock, and a thread may wake up spuriously.
\<close>

record TurnState =
  turn_queue :: "u64 WriteQueue"
  turn_next :: u64
  turn_busy :: bool

definition turns_default :: TurnState where
  "turns_default = \<lparr>turn_queue = wq_new, turn_next = 0, turn_busy = False\<rparr>"

definition turn_enter :: "u8 \<Rightarrow> FrameKey \<Rightarrow> TurnState \<Rightarrow> u64 \<times> TurnState" where
  "turn_enter tag key st =
     (turn_next st,
      st\<lparr>turn_next := turn_next st + 1, turn_queue := wq_push (turn_next st) tag key (turn_queue st)\<rparr>)"

text \<open>One round of the loop: the ticket takes its turn, or the thread waits.\<close>

definition turn_try :: "u64 \<Rightarrow> TurnState \<Rightarrow> TurnState option" where
  "turn_try ticket st =
     (if \<not> turn_busy st \<and> wq_peek (turn_queue st) = Some ticket
      then Some (st\<lparr>turn_queue := snd (wq_pop (turn_queue st)), turn_busy := True\<rparr>)
      else None)"

definition turn_release :: "TurnState \<Rightarrow> TurnState" where
  "turn_release st = st\<lparr>turn_busy := False\<rparr>"

definition waiting_senders :: "TurnState \<Rightarrow> nat" where
  "waiting_senders st = length (turn_queue st) + (if turn_busy st then 1 else 0)"

subsection \<open>The threads\<close>

text \<open>
  Threads are named by their tickets: those asleep in the condition variable, those awake and about to
  check again, those that hold the writer's turn. The notifications still to be made are counted. The history of the
  queue and the tickets granted so far are not part of the code.
\<close>

record TurnSystem =
  sys_turn :: TurnState
  sys_asleep :: "u64 set"
  sys_awake :: "u64 set"
  sys_holders :: "u64 set"
  sys_notifies :: nat
  sys_history :: "u64 QueueOp list"
  sys_granted :: "u64 list"

definition turns_start :: TurnSystem where
  "turns_start =
     \<lparr>sys_turn = turns_default, sys_asleep = {}, sys_awake = {}, sys_holders = {}, sys_notifies = 0,
      sys_history = [], sys_granted = []\<rparr>"

text \<open>The ticket counter does not overflow: it would take more than \<open>2 ^ 64\<close> frames.\<close>

inductive turn_step :: "TurnSystem \<Rightarrow> TurnSystem \<Rightarrow> bool" where
  enter_take:
    "unat (turn_next (sys_turn s)) + 1 < 2 ^ 64 \<Longrightarrow> turn_enter tag key (sys_turn s) = (t, st) \<Longrightarrow>
     turn_try t st = Some st' \<Longrightarrow>
     turn_step s (s\<lparr>sys_turn := st', sys_holders := insert t (sys_holders s), sys_granted := sys_granted s @ [t],
       sys_history := sys_history s @
         [Push \<lparr>entry_item = t, entry_tag = tag, entry_key = key\<rparr>, Pop]\<rparr>)"
| enter_wait:
    "unat (turn_next (sys_turn s)) + 1 < 2 ^ 64 \<Longrightarrow> turn_enter tag key (sys_turn s) = (t, st) \<Longrightarrow>
     turn_try t st = None \<Longrightarrow>
     turn_step s (s\<lparr>sys_turn := st, sys_asleep := insert t (sys_asleep s),
       sys_history := sys_history s @ [Push \<lparr>entry_item = t, entry_tag = tag, entry_key = key\<rparr>]\<rparr>)"
| check_take:
    "t \<in> sys_awake s \<Longrightarrow> turn_try t (sys_turn s) = Some st' \<Longrightarrow>
     turn_step s (s\<lparr>sys_turn := st', sys_awake := sys_awake s - {t}, sys_holders := insert t (sys_holders s),
       sys_granted := sys_granted s @ [t], sys_history := sys_history s @ [Pop]\<rparr>)"
| check_wait:
    "t \<in> sys_awake s \<Longrightarrow> turn_try t (sys_turn s) = None \<Longrightarrow>
     turn_step s (s\<lparr>sys_awake := sys_awake s - {t}, sys_asleep := insert t (sys_asleep s)\<rparr>)"
| release:
    "t \<in> sys_holders s \<Longrightarrow>
     turn_step s (s\<lparr>sys_turn := turn_release (sys_turn s), sys_holders := sys_holders s - {t},
       sys_notifies := Suc (sys_notifies s)\<rparr>)"
| notify_all:
    "sys_notifies s = Suc n \<Longrightarrow>
     turn_step s (s\<lparr>sys_awake := sys_awake s \<union> sys_asleep s, sys_asleep := {}, sys_notifies := n\<rparr>)"
| spurious:
    "t \<in> sys_asleep s \<Longrightarrow>
     turn_step s (s\<lparr>sys_asleep := sys_asleep s - {t}, sys_awake := insert t (sys_awake s)\<rparr>)"

definition turns_reachable :: "TurnSystem \<Rightarrow> bool" where
  "turns_reachable s \<longleftrightarrow> turn_step\<^sup>*\<^sup>* turns_start s"

subsection \<open>The invariant\<close>

definition turns_inv ::
    "u64 QueueOp list \<Rightarrow> u64 list \<Rightarrow> TurnState \<Rightarrow> u64 set \<Rightarrow> u64 set \<Rightarrow> u64 set \<Rightarrow> nat \<Rightarrow> bool" where
  "turns_inv history granted st asleep awake holders notifies \<longleftrightarrow>
     run_ops history = (turn_queue st, granted) \<and>
     distinct (map entry_item (arrivals history)) \<and>
     (\<forall>e \<in> set (arrivals history). entry_item e < turn_next st) \<and>
     (if turn_busy st then \<exists>t. holders = {t} else holders = {}) \<and>
     entry_item ` set (turn_queue st) = asleep \<union> awake \<and> asleep \<inter> awake = {} \<and>
     (\<not> turn_busy st \<longrightarrow> turn_queue st \<noteq> [] \<longrightarrow> notifies = 0 \<longrightarrow> the (wq_peek (turn_queue st)) \<in> awake)"

definition turns_ok :: "TurnSystem \<Rightarrow> bool" where
  "turns_ok s \<longleftrightarrow> turns_inv (sys_history s) (sys_granted s) (sys_turn s) (sys_asleep s) (sys_awake s)
     (sys_holders s) (sys_notifies s)"

lemma turns_invD:
  assumes "turns_inv history granted st asleep awake holders notifies"
  shows "run_ops history = (turn_queue st, granted)" "distinct (map entry_item (arrivals history))"
    "\<And>e. e \<in> set (arrivals history) \<Longrightarrow> entry_item e < turn_next st" "if turn_busy st then \<exists>t. holders = {t} else holders = {}"
    "entry_item ` set (turn_queue st) = asleep \<union> awake" "asleep \<inter> awake = {}"
    "\<not> turn_busy st \<Longrightarrow> turn_queue st \<noteq> [] \<Longrightarrow> notifies = 0 \<Longrightarrow> the (wq_peek (turn_queue st)) \<in> awake"
  using assms unfolding turns_inv_def by blast+

lemma turns_invI:
  assumes "run_ops history = (turn_queue st, granted)" "distinct (map entry_item (arrivals history))"
    "\<And>e. e \<in> set (arrivals history) \<Longrightarrow> entry_item e < turn_next st" "if turn_busy st then \<exists>t. holders = {t} else holders = {}"
    "entry_item ` set (turn_queue st) = asleep \<union> awake" "asleep \<inter> awake = {}"
    "\<not> turn_busy st \<Longrightarrow> turn_queue st \<noteq> [] \<Longrightarrow> notifies = 0 \<Longrightarrow> the (wq_peek (turn_queue st)) \<in> awake"
  shows "turns_inv history granted st asleep awake holders notifies"
  using assms unfolding turns_inv_def by blast

lemma peek_item: "q \<noteq> [] \<Longrightarrow> \<exists>t. wq_peek q = Some t \<and> t \<in> entry_item ` set q"
  using next_index_bound [of q] by (cases "next_index q") (auto simp: wq_peek_def)

lemma next_index_Nil [simp]: "next_index [] = None"
  by simp

lemma pop_peek:
  assumes "wq_peek q = Some t"
  obtains q' where "wq_pop q = (Some t, q')"
  using assms by (cases "next_index q") (auto simp: wq_peek_def wq_pop_def)

lemma pop_items:
  assumes "wq_peek q = Some t" "distinct (map entry_item q)"
  shows "entry_item ` set (snd (wq_pop q)) = entry_item ` set q - {t}"
proof -
  obtain i where i: "next_index q = Some i"
    using assms(1) by (cases "next_index q") (simp_all add: wq_peek_def)
  obtain as e bs where q: "q = as @ e # bs" "length as = i" "wq_pop q = (Some (entry_item e), as @ bs)" "e = q ! i"
    using wq_pop_split [OF i] .
  have "t = entry_item e"
    by (rule pop_peek [OF assms(1)]) (use q(3) in simp)
  moreover have "distinct (map entry_item (as @ e # bs))"
    using assms(2) q(1) by simp
  ultimately have "entry_item ` set (as @ bs) = entry_item ` set (as @ e # bs) - {t}"
    by (simp add: insert_Diff_if Un_Diff) blast
  then show ?thesis
    unfolding q(3) by (simp add: q(1))
qed

text \<open>A new ticket becomes the next one, or leaves the next one as it was.\<close>

lemma peek_push:
  assumes "q \<noteq> []" "wq_peek (q @ [e]) \<noteq> Some (entry_item e)"
  shows "wq_peek (q @ [e]) = wq_peek q"
proof -
  obtain i where i: "next_index q = Some i"
    using assms(1) by (cases "next_index q") simp_all
  from next_index_append [OF i, of e] show ?thesis
    using assms(2) i next_index_bound [OF i] by (auto simp: wq_peek_def nth_append)
qed

lemma peek_single: "wq_peek [e] = Some (entry_item e)"
proof -
  have "next_index [e] = Some 0"
    using next_index_bound [of "[e]"] by (cases "next_index [e]") auto
  then show ?thesis
    by (simp add: wq_peek_def)
qed

lemma next_fresh:
  fixes n :: u64
  assumes "unat n + 1 < 2 ^ 64"
  shows "n < n + 1" "t < n \<Longrightarrow> t < n + 1"
proof -
  have "unat (n + 1) = unat n + 1"
    using assms by (simp add: unat_word_ariths(1))
  then show "n < n + 1" "t < n \<Longrightarrow> t < n + 1"
    by (simp_all add: word_less_nat_alt)
qed

text \<open>The history of the queue and the granted tickets, over one critical section.\<close>

lemma run_push:
  assumes "run_ops h = (q, out)"
  shows "run_ops (h @ [Push \<lparr>entry_item = t, entry_tag = tag, entry_key = key\<rparr>]) = (wq_push t tag key q, out)"
  using assms by (simp add: run_ops_snoc)

lemma run_take:
  assumes "run_ops h = (turn_queue st, out)" "turn_try t st = Some st'"
  shows "run_ops (h @ [Pop]) = (turn_queue st', out @ [t])"
proof -
  have t: "wq_peek (turn_queue st) = Some t" "turn_queue st' = snd (wq_pop (turn_queue st))"
    using assms(2) by (auto simp: turn_try_def split: if_splits)
  obtain q' where "wq_pop (turn_queue st) = (Some t, q')"
    using t(1) by (rule pop_peek)
  then show ?thesis
    by (simp add: run_ops_snoc assms(1) t(2))
qed

lemma run_ops_append: "run_ops (h @ [a, b]) = run_op b (run_ops (h @ [a]))"
  by (simp add: run_ops_def)

lemma queue_distinct:
  assumes "distinct (map entry_item (arrivals h))" "run_ops h = (q, out)"
  shows "distinct (map entry_item q)"
  using run_ok_ops [OF assms(1)] assms distinct_map_filter by (auto simp: run_ok_def)

lemma turn_enter_ok:
  assumes ok: "turns_inv history granted st asleep awake holders notifies" and n: "unat (turn_next st) + 1 < 2 ^ 64"
    and enter: "turn_enter tag key st = (t, st1)"
  defines "e \<equiv> \<lparr>entry_item = t, entry_tag = tag, entry_key = key\<rparr>"
  shows "run_ops (history @ [Push e]) = (turn_queue st1, granted)"
    "distinct (map entry_item (arrivals (history @ [Push e])))"
    "\<And>x. x \<in> set (arrivals (history @ [Push e])) \<Longrightarrow> entry_item x < turn_next st1"
    "turn_queue st1 = turn_queue st @ [e]" "turn_busy st1 = turn_busy st" "t \<notin> asleep \<union> awake"
proof -
  have st1: "t = turn_next st" "turn_next st1 = turn_next st + 1"
    "turn_queue st1 = turn_queue st @ [e]" "turn_busy st1 = turn_busy st"
    using enter by (auto simp: turn_enter_def e_def wq_push_def)
  note old = turns_invD [OF ok]
  show run: "run_ops (history @ [Push e]) = (turn_queue st1, granted)"
    using run_push [OF old(1), of t tag key] by (simp add: e_def st1(3) wq_push_def)
  have "t \<notin> entry_item ` set (arrivals history)"
    using old(3) st1(1) by (metis imageE order_less_irrefl)
  with old(2) show dist: "distinct (map entry_item (arrivals (history @ [Push e])))"
    by (simp add: e_def)
  show "entry_item x < turn_next st1" if "x \<in> set (arrivals (history @ [Push e]))" for x
    using that old(3) next_fresh [OF n] st1(1,2) by (auto simp: e_def)
  show "turn_queue st1 = turn_queue st @ [e]" "turn_busy st1 = turn_busy st"
    by (fact st1)+
  show "t \<notin> asleep \<union> awake"
    using queue_distinct [OF dist run] old(5) st1(3) by (simp add: e_def)
qed

lemma turn_try_ok:
  assumes "turn_try t st = Some st'" "distinct (map entry_item (turn_queue st))"
  shows "turn_busy st'" "\<not> turn_busy st" "turn_next st' = turn_next st"
    "entry_item ` set (turn_queue st') = entry_item ` set (turn_queue st) - {t}"
    "t \<in> entry_item ` set (turn_queue st)"
proof -
  have t: "\<not> turn_busy st" "wq_peek (turn_queue st) = Some t"
    "st' = st\<lparr>turn_queue := snd (wq_pop (turn_queue st)), turn_busy := True\<rparr>"
    using assms(1) by (auto simp: turn_try_def split: if_splits)
  then show "turn_busy st'" "\<not> turn_busy st" "turn_next st' = turn_next st"
    by simp_all
  show "entry_item ` set (turn_queue st') = entry_item ` set (turn_queue st) - {t}"
    using pop_items [OF t(2) assms(2)] t(3) by simp
  have "turn_queue st \<noteq> []"
    using t(2) by (auto simp: wq_peek_def)
  from peek_item [OF this] t(2) show "t \<in> entry_item ` set (turn_queue st)"
    by simp
qed

lemma enter_take_ok:
  assumes ok: "turns_inv history granted st asleep awake holders notifies" and n: "unat (turn_next st) + 1 < 2 ^ 64"
    and enter: "turn_enter tag key st = (t, st1)" and take: "turn_try t st1 = Some st'"
  shows "turns_inv (history @ [Push \<lparr>entry_item = t, entry_tag = tag, entry_key = key\<rparr>, Pop]) (granted @ [t]) st'
    asleep awake {t} notifies"
proof -
  let ?e = "\<lparr>entry_item = t, entry_tag = tag, entry_key = key\<rparr>"
  note new = turn_enter_ok [OF ok n enter]
  note try' = turn_try_ok [OF take queue_distinct [OF new(2,1)]]
  show ?thesis
  proof (rule turns_invI)
    show "run_ops (history @ [Push ?e, Pop]) = (turn_queue st', granted @ [t])"
      using run_take [OF new(1) take] by simp
    show "distinct (map entry_item (arrivals (history @ [Push ?e, Pop])))"
      using new(2) by simp
    show "entry_item x < turn_next st'" if "x \<in> set (arrivals (history @ [Push ?e, Pop]))" for x
      using new(3) [of x] that try'(3) by simp
    show "entry_item ` set (turn_queue st') = asleep \<union> awake"
      using try'(4) new(4,6) turns_invD(5) [OF ok] by simp
  qed (use try'(1) turns_invD(6) [OF ok] in simp_all)
qed

lemma enter_wait_ok:
  assumes ok: "turns_inv history granted st asleep awake holders notifies" and n: "unat (turn_next st) + 1 < 2 ^ 64"
    and enter: "turn_enter tag key st = (t, st1)" and wait: "turn_try t st1 = None"
  shows "turns_inv (history @ [Push \<lparr>entry_item = t, entry_tag = tag, entry_key = key\<rparr>]) granted st1
    (insert t asleep) awake holders notifies"
proof -
  let ?e = "\<lparr>entry_item = t, entry_tag = tag, entry_key = key\<rparr>"
  note new = turn_enter_ok [OF ok n enter] and old = turns_invD [OF ok]
  have peek: "the (wq_peek (turn_queue st1)) \<in> awake" if "\<not> turn_busy st1" "notifies = 0"
  proof -
    have other: "wq_peek (turn_queue st @ [?e]) \<noteq> Some (entry_item ?e)"
      using wait that(1) new(4) by (simp add: turn_try_def split: if_splits)
    then have "turn_queue st \<noteq> []"
      using peek_single [of ?e] by auto
    with old(7) that new(4,5) peek_push [OF _ other] show ?thesis
      by simp
  qed
  show ?thesis
  proof (rule turns_invI)
    show "entry_item ` set (turn_queue st1) = insert t asleep \<union> awake"
      using new(4) old(5) by simp
    show "insert t asleep \<inter> awake = {}"
      using new(6) old(6) by blast
  qed (use new peek old(4) in simp_all)
qed

lemma check_take_ok:
  assumes ok: "turns_inv history granted st asleep awake holders notifies" and t: "t \<in> awake"
    and take: "turn_try t st = Some st'"
  shows "turns_inv (history @ [Pop]) (granted @ [t]) st' asleep (awake - {t}) {t} notifies"
proof -
  note old = turns_invD [OF ok]
  note try' = turn_try_ok [OF take queue_distinct [OF old(2,1)]]
  have "t \<notin> asleep"
    using old(6) t by blast
  show ?thesis
  proof (rule turns_invI)
    show "run_ops (history @ [Pop]) = (turn_queue st', granted @ [t])"
      by (rule run_take [OF old(1) take])
    show "entry_item ` set (turn_queue st') = asleep \<union> (awake - {t})"
      using try'(4) old(5) \<open>t \<notin> asleep\<close> by auto
    show "asleep \<inter> (awake - {t}) = {}"
      using old(6) by blast
    show "entry_item e < turn_next st'" if "e \<in> set (arrivals (history @ [Pop]))" for e
      using old(3) [of e] that try'(3) by simp
  qed (use try'(1) old(2) in simp_all)
qed

lemma release_ok:
  assumes "turns_inv history granted st asleep awake {t} notifies"
  shows "turns_inv history granted (turn_release st) asleep awake {} (Suc notifies)"
  using assms by (simp add: turns_inv_def turn_release_def)

lemma notify_ok:
  assumes ok: "turns_inv history granted st asleep awake holders notifies"
  shows "turns_inv history granted st {} (awake \<union> asleep) holders n"
proof (rule turns_invI)
  note old = turns_invD [OF ok]
  show "the (wq_peek (turn_queue st)) \<in> awake \<union> asleep" if "turn_queue st \<noteq> []"
    using peek_item [OF that] old(5) by auto
  show "entry_item ` set (turn_queue st) = {} \<union> (awake \<union> asleep)"
    using old(5) by blast
qed (use turns_invD(1-4) [OF ok] in simp_all)

lemma check_wait_ok:
  assumes ok: "turns_inv history granted st asleep awake holders notifies" and t: "t \<in> awake"
    and wait: "turn_try t st = None"
  shows "turns_inv history granted st (insert t asleep) (awake - {t}) holders notifies"
proof (rule turns_invI)
  note old = turns_invD [OF ok]
  show "the (wq_peek (turn_queue st)) \<in> awake - {t}"
    if free: "\<not> turn_busy st" "turn_queue st \<noteq> []" "notifies = 0"
  proof -
    obtain u where "wq_peek (turn_queue st) = Some u"
      using peek_item [OF free(2)] by blast
    with wait free(1) old(7) [OF free] show ?thesis
      by (auto simp: turn_try_def split: if_splits)
  qed
  show "entry_item ` set (turn_queue st) = insert t asleep \<union> (awake - {t})"
    using old(5) t by auto
  show "insert t asleep \<inter> (awake - {t}) = {}"
    using old(6) by blast
qed (use turns_invD(1-4) [OF ok] in simp_all)

lemma spurious_ok:
  assumes ok: "turns_inv history granted st asleep awake holders notifies" and t: "t \<in> asleep"
  shows "turns_inv history granted st (asleep - {t}) (insert t awake) holders notifies"
proof (rule turns_invI)
  note old = turns_invD [OF ok]
  show "entry_item ` set (turn_queue st) = asleep - {t} \<union> insert t awake"
    using old(5) t by auto
  show "(asleep - {t}) \<inter> insert t awake = {}"
    using old(6) by blast
  show "the (wq_peek (turn_queue st)) \<in> insert t awake"
    if "\<not> turn_busy st" "turn_queue st \<noteq> []" "notifies = 0"
    using old(7) [OF that] by simp
qed (use turns_invD(1-4) [OF ok] in simp_all)

text \<open>Nobody holds a free writer, and one sender a busy one.\<close>

lemma turns_ok_holders:
  assumes "turns_ok s"
  shows "\<not> turn_busy (sys_turn s) \<Longrightarrow> sys_holders s = {}" "t \<in> sys_holders s \<Longrightarrow> sys_holders s = {t}"
    "turn_busy (sys_turn s) \<longleftrightarrow> sys_holders s \<noteq> {}"
  using turns_invD(4) [OF assms [unfolded turns_ok_def]] by (auto split: if_splits)

lemma turn_step_ok:
  assumes "turn_step s s'" "turns_ok s"
  shows "turns_ok s'"
  using assms
proof (cases rule: turn_step.cases)
  case (enter_take tag key t st st')
  have "\<not> turn_busy (sys_turn s)"
    using enter_take(3,4) by (auto simp: turn_enter_def turn_try_def split: if_splits)
  then have "sys_holders s = {}"
    by (rule turns_ok_holders(1) [OF assms(2)])
  with enter_take assms(2) enter_take_ok [of "sys_history s"] show ?thesis
    by (simp add: turns_ok_def)
next
  case (enter_wait tag key t st)
  with assms(2) enter_wait_ok [of "sys_history s"] show ?thesis
    by (simp add: turns_ok_def)
next
  case (check_take t st')
  have "sys_holders s = {}"
    using check_take(3) by (intro turns_ok_holders(1) [OF assms(2)]) (auto simp: turn_try_def split: if_splits)
  with check_take assms(2) check_take_ok [of "sys_history s"] show ?thesis
    by (simp add: turns_ok_def)
next
  case (check_wait t)
  with assms(2) check_wait_ok [of "sys_history s"] show ?thesis
    by (simp add: turns_ok_def)
next
  case (release t)
  then have "sys_holders s = {t}"
    using turns_ok_holders(2) [OF assms(2)] by blast
  with release assms(2) release_ok [of "sys_history s"] show ?thesis
    by (simp add: turns_ok_def)
next
  case (notify_all n)
  with assms(2) notify_ok [of "sys_history s"] show ?thesis
    by (simp add: turns_ok_def)
next
  case (spurious t)
  with assms(2) spurious_ok [of "sys_history s"] show ?thesis
    by (simp add: turns_ok_def)
qed

lemma turns_start_ok: "turns_ok turns_start"
  by (simp add: turns_ok_def turns_inv_def turns_start_def turns_default_def run_ops_def wq_new_def)

lemma reachable_ok: "turns_reachable s \<Longrightarrow> turns_ok s"
  unfolding turns_reachable_def by (induction rule: rtranclp_induct) (rule turns_start_ok, rule turn_step_ok)

subsection \<open>Properties\<close>

text \<open>
  C23. Waiting senders are served, one at a time. In every reachable state the turns granted so far are
  the frames the queue gave out in its order, no two senders hold the writer, and one does exactly while
  it is marked busy. If any sender waits then progress is not lost: a sender holds the writer, or a
  notification is still to be made, or the very sender the rule picks is awake and takes its turn at its
  next check.
\<close>

theorem waiting_senders_are_served:
  assumes "turns_reachable s"
  shows "run_ops (sys_history s) = (turn_queue (sys_turn s), sys_granted s) \<and>
    distinct (map entry_item (arrivals (sys_history s))) \<and>
    (\<forall>t u. t \<in> sys_holders s \<longrightarrow> u \<in> sys_holders s \<longrightarrow> t = u) \<and>
    (turn_busy (sys_turn s) \<longleftrightarrow> sys_holders s \<noteq> {}) \<and>
    (turn_queue (sys_turn s) \<noteq> [] \<longrightarrow>
     sys_holders s \<noteq> {} \<or> 0 < sys_notifies s \<or>
     (\<exists>t st. wq_peek (turn_queue (sys_turn s)) = Some t \<and> t \<in> sys_awake s \<and>
        turn_try t (sys_turn s) = Some st))"
proof -
  have turns_ok: "turns_ok s"
    using assms by (rule reachable_ok)
  note ok = turns_invD [OF turns_ok [unfolded turns_ok_def]] and holders = turns_ok_holders [OF turns_ok]
  have "\<exists>t st. wq_peek (turn_queue (sys_turn s)) = Some t \<and> t \<in> sys_awake s \<and> turn_try t (sys_turn s) = Some st"
    if waiting: "turn_queue (sys_turn s) \<noteq> []" and free: "sys_holders s = {}" "sys_notifies s = 0"
  proof -
    obtain t where t: "wq_peek (turn_queue (sys_turn s)) = Some t"
      using peek_item [OF waiting] by blast
    moreover have "\<not> turn_busy (sys_turn s)"
      using holders(3) free(1) by simp
    moreover from this have "t \<in> sys_awake s"
      using ok(7) waiting free(2) t by simp
    ultimately show ?thesis
      by (simp add: turn_try_def)
  qed
  moreover have "t = u" if "t \<in> sys_holders s" "u \<in> sys_holders s" for t u
    using holders(2) [OF that(1)] that(2) by simp
  ultimately show ?thesis
    using ok(1,2) holders(3) by blast
qed

text \<open>One sender writes while another arrives and waits.\<close>

theorem waiting_senders_are_served_witness:
  "\<exists>s. turns_reachable s \<and> turn_queue (sys_turn s) \<noteq> [] \<and> sys_holders s = {0} \<and> sys_granted s = [0]"
proof -
  let ?k = "ordinary_key (FrameTarget 1)"
  define s1 where "s1 = turns_start\<lparr>sys_turn := \<lparr>turn_queue = [], turn_next = 1, turn_busy = True\<rparr>,
    sys_holders := {0}, sys_granted := [0],
    sys_history := [Push \<lparr>entry_item = 0, entry_tag = 2, entry_key = ?k\<rparr>, Pop]\<rparr>"
  define s2 where "s2 = s1\<lparr>sys_turn :=
    \<lparr>turn_queue = [\<lparr>entry_item = 1, entry_tag = 2, entry_key = ?k\<rparr>], turn_next = 2, turn_busy = True\<rparr>,
    sys_asleep := {1}, sys_history := sys_history s1 @ [Push \<lparr>entry_item = 1, entry_tag = 2, entry_key = ?k\<rparr>]\<rparr>"
  have "turn_step turns_start s1"
    using turn_step.enter_take [of turns_start 2 ?k 0 "\<lparr>turn_queue = [\<lparr>entry_item = 0, entry_tag = 2, entry_key = ?k\<rparr>],
        turn_next = 1, turn_busy = False\<rparr>" "\<lparr>turn_queue = [], turn_next = 1, turn_busy = True\<rparr>"]
    by (simp add: s1_def turns_start_def turns_default_def turn_enter_def turn_try_def wq_push_def wq_new_def
        wq_peek_def wq_pop_def next_index_def)
  moreover have "turn_step s1 s2"
    using turn_step.enter_wait [of s1 2 ?k 1 "\<lparr>turn_queue = [\<lparr>entry_item = 1, entry_tag = 2, entry_key = ?k\<rparr>],
        turn_next = 2, turn_busy = True\<rparr>"]
    by (simp add: s2_def s1_def turns_start_def turn_enter_def turn_try_def wq_push_def)
  ultimately have "turns_reachable s2"
    unfolding turns_reachable_def by (meson r_into_rtranclp rtranclp.rtrancl_into_rtrancl)
  moreover have "turn_queue (sys_turn s2) \<noteq> []"
    by (simp add: s2_def)
  ultimately show ?thesis
    using waiting_senders_are_served [of s2] by (intro exI [of _ s2]) (simp add: s2_def s1_def)
qed

end
