(* ===== verification/Byte_End.thy ===== *)
theory Byte_End
  imports Byte_Stream Writer_Turns
begin

text \<open>
  One end of a byte-stream channel, \<open>crates/session-channel/src/byte_stream.rs\<close>: the reader thread that
  hands frames to the router, and any number of threads that send on the end, close it or drop it. The
  steps are what each thread does between two points where another can interfere: taking or leaving a
  lock, setting the ending, calling the stream or the router. The stream's answers and the router's are
  arbitrary, panics included. Which waiting sender gets the turn is \<open>Writer_Turns\<close>; here any may.
\<close>

subsection \<open>Where a thread is\<close>

text \<open>Where a call of \<open>Shared::end\<close> returns to.\<close>

datatype EndFrom =
    FromLock SessionFrame
  | FromSend SessionFrame
  | FromClose

datatype CallerPc =
    Outside
  | HasTurn SessionFrame
  | Deciding SessionFrame
  | Writing SessionFrame
  | Wrapping SessionFrame "Closed + unit"
  | Releasing
  | InEnd Closed EndFrom
  | Telling Closed EndFrom

datatype ReaderPc =
    Reading
  | Holding SessionFrame
  | Routing SessionFrame
  | ReaderInEnd Closed
  | ReaderTelling Closed
  | ReaderReleasing
  | ReaderDone

text \<open>What the router was told, and who has yet to tell it of the end.\<close>

datatype RouterCall = CallRoute SessionFrame | CallEnded Closed

datatype Teller = TellReader | TellCaller nat

text \<open>
  \<open>Shared\<close>: the writer until it is dropped, its lock and whether it is poisoned, the far side's failure,
  the reason the session ended; the turn; the threads; and, for the statements, the frames read, the
  frames written, the router's calls and the thread that owes it the end.
\<close>

record EndState =
  es_source :: byte_source
  es_writer :: bool
  es_writer_held :: "nat option"
  es_poisoned :: bool
  es_write_failed :: "ErrorKind option"
  es_ended :: "Closed option"
  es_turn :: "nat option"
  es_reader :: ReaderPc
  es_caller :: "nat \<Rightarrow> CallerPc"
  es_read :: "SessionFrame list"
  es_written :: "SessionFrame list"
  es_calls :: "RouterCall list"
  es_teller :: "Teller option"

definition byte_stream :: "byte_source \<Rightarrow> EndState" where
  "byte_stream s =
     \<lparr>es_source = s, es_writer = True, es_writer_held = None, es_poisoned = False, es_write_failed = None,
      es_ended = None, es_turn = None, es_reader = Reading, es_caller = (\<lambda>_. Outside),
      es_read = [], es_written = [], es_calls = [], es_teller = None\<rparr>"

subsection \<open>The operations\<close>

text \<open>The first reason stands, and whoever set it tells the router.\<close>

fun end_stands :: "Closed option \<Rightarrow> Closed \<Rightarrow> Closed \<times> bool" where
  "end_stands (Some stands) reason = (stands, False)"
| "end_stands None reason = (reason, True)"

text \<open>Once the session has ended, drops the writer if no call is using it.\<close>

definition release_if_ended :: "EndState \<Rightarrow> EndState" where
  "release_if_ended st =
     (if es_ended st = None then st
      else if es_writer_held st = None then st\<lparr>es_writer := False\<rparr> else st)"

fun after_end :: "EndFrom \<Rightarrow> Closed \<Rightarrow> CallerPc" where
  "after_end (FromLock frame) stands = Deciding frame"
| "after_end (FromSend frame) stands = Wrapping frame (Inl stands)"
| "after_end FromClose stands = Releasing"

text \<open>A call that panicked with the writer may have left half a frame: the session ends.\<close>

definition lock_writer :: "bool \<Rightarrow> SessionFrame \<Rightarrow> CallerPc" where
  "lock_writer poisoned frame =
     (if poisoned then InEnd (ClosedStream OtherError) (FromLock frame) else Deciding frame)"

fun send_decide :: "Closed option \<Rightarrow> bool \<Rightarrow> ErrorKind option \<Rightarrow> SessionFrame \<Rightarrow> CallerPc" where
  "send_decide (Some closed) writer failed frame = Wrapping frame (Inl closed)"
| "send_decide None writer (Some kind) frame = Wrapping frame (Inl (ClosedStream kind))"
| "send_decide None False None frame = InEnd ClosedLocal (FromSend frame)"
| "send_decide None True None frame =
     (case frame_check frame ByteStreamCarrier of
        Inl error \<Rightarrow> InEnd (ClosedProtocol error) (FromSend frame)
      | Inr _ \<Rightarrow> Writing frame)"

text \<open>The far side stopping to listen is no end of the session; any other failure is.\<close>

fun send_wrote :: "SessionFrame \<Rightarrow> ErrorKind + unit \<Rightarrow> CallerPc" where
  "send_wrote frame (Inr _) = Wrapping frame (Inr ())"
| "send_wrote frame (Inl kind) =
     (if peer_side_failure kind then Wrapping frame (Inl (ClosedStream kind))
      else InEnd (ClosedStream kind) (FromSend frame))"

fun write_failed_after :: "ErrorKind option \<Rightarrow> ErrorKind + unit \<Rightarrow> ErrorKind option" where
  "write_failed_after failed (Inr _) = failed"
| "write_failed_after failed (Inl kind) = (if peer_side_failure kind then Some kind else failed)"

fun reader_next :: "ReadAbort + SessionFrame \<Rightarrow> ReaderPc" where
  "reader_next (Inr frame) = Holding frame"
| "reader_next (Inl abort) = ReaderInEnd (abort_reason abort)"

text \<open>A frame read while the session was ending here is not delivered.\<close>

definition reader_check :: "Closed option \<Rightarrow> SessionFrame \<Rightarrow> ReaderPc" where
  "reader_check ended frame = (if ended \<noteq> None then ReaderReleasing else Routing frame)"

datatype RouteAnswer = Routed | RouteRefused Closed | RoutePanicked

fun reader_routed :: "RouteAnswer \<Rightarrow> ReaderPc" where
  "reader_routed Routed = Reading"
| "reader_routed (RouteRefused reason) = ReaderInEnd reason"
| "reader_routed RoutePanicked = ReaderInEnd (ClosedStream OtherError)"

text \<open>The delivery lock is the reader's while it routes; telling the end takes it for one step.\<close>

fun delivery_free :: "ReaderPc \<Rightarrow> bool" where
  "delivery_free (Routing _) = False"
| "delivery_free _ = True"

definition caller_at :: "nat \<Rightarrow> CallerPc \<Rightarrow> EndState \<Rightarrow> EndState" where
  "caller_at i pc st = st\<lparr>es_caller := (es_caller st)(i := pc)\<rparr>"

inductive end_step :: "EndState \<Rightarrow> EndState \<Rightarrow> bool" where
  step_read: "es_reader st = Reading \<Longrightarrow> read_frame (es_source st) = (r, s) \<Longrightarrow>
    end_step st (st\<lparr>es_source := s, es_reader := reader_next r,
      es_read := es_read st @ (case r of Inr frame \<Rightarrow> [frame] | Inl _ \<Rightarrow> [])\<rparr>)"
| step_check: "es_reader st = Holding frame \<Longrightarrow>
    end_step st (st\<lparr>es_reader := reader_check (es_ended st) frame\<rparr>)"
| step_route: "es_reader st = Routing frame \<Longrightarrow>
    end_step st (st\<lparr>es_reader := reader_routed answer, es_calls := es_calls st @ [CallRoute frame]\<rparr>)"
| step_reader_end: "es_reader st = ReaderInEnd reason \<Longrightarrow> end_stands (es_ended st) reason = (stands, first) \<Longrightarrow>
    end_step st (st\<lparr>es_ended := Some stands,
      es_reader := (if first then ReaderTelling stands else ReaderReleasing),
      es_teller := (if first then Some TellReader else es_teller st)\<rparr>)"
| step_reader_tell: "es_reader st = ReaderTelling stands \<Longrightarrow>
    end_step st (st\<lparr>es_reader := ReaderReleasing, es_calls := es_calls st @ [CallEnded stands], es_teller := None\<rparr>)"
| step_reader_release: "es_reader st = ReaderReleasing \<Longrightarrow>
    end_step st ((release_if_ended st)\<lparr>es_reader := ReaderDone\<rparr>)"
| step_turn: "es_caller st i = Outside \<Longrightarrow> es_turn st = None \<Longrightarrow>
    end_step st (caller_at i (HasTurn frame) (st\<lparr>es_turn := Some i\<rparr>))"
| step_lock: "es_caller st i = HasTurn frame \<Longrightarrow> es_writer_held st = None \<Longrightarrow>
    end_step st (caller_at i (lock_writer (es_poisoned st) frame) (st\<lparr>es_writer_held := Some i\<rparr>))"
| step_decide: "es_caller st i = Deciding frame \<Longrightarrow>
    end_step st (caller_at i (send_decide (es_ended st) (es_writer st) (es_write_failed st) frame) st)"
| step_wrote: "es_caller st i = Writing frame \<Longrightarrow>
    end_step st (caller_at i (send_wrote frame outcome)
      (st\<lparr>es_write_failed := write_failed_after (es_write_failed st) outcome,
        es_written := es_written st @ (if is_ok outcome then [frame] else [])\<rparr>))"
| step_write_panics: "es_caller st i = Writing frame \<Longrightarrow>
    end_step st (caller_at i Outside (st\<lparr>es_writer_held := None, es_poisoned := True, es_turn := None\<rparr>))"
| step_wrap: "es_caller st i = Wrapping frame result \<Longrightarrow>
    end_step st (caller_at i Releasing
      (st\<lparr>es_writer := es_writer st \<and> es_ended st = None, es_writer_held := None\<rparr>))"
| step_release: "es_caller st i = Releasing \<Longrightarrow>
    end_step st (caller_at i Outside
      ((release_if_ended st)\<lparr>es_turn := (if es_turn st = Some i then None else es_turn st)\<rparr>))"
| step_close: "es_caller st i = Outside \<Longrightarrow> end_step st (caller_at i (InEnd ClosedLocal FromClose) st)"
| step_end: "es_caller st i = InEnd reason k \<Longrightarrow> end_stands (es_ended st) reason = (stands, first) \<Longrightarrow>
    end_step st (caller_at i (if first then Telling stands k else after_end k stands)
      (st\<lparr>es_ended := Some stands, es_teller := (if first then Some (TellCaller i) else es_teller st)\<rparr>))"
| step_tell: "es_caller st i = Telling stands k \<Longrightarrow> delivery_free (es_reader st) \<Longrightarrow>
    end_step st (caller_at i (after_end k stands)
      (st\<lparr>es_calls := es_calls st @ [CallEnded stands], es_teller := None\<rparr>))"

definition end_reachable :: "byte_source \<Rightarrow> EndState \<Rightarrow> bool" where
  "end_reachable s st \<longleftrightarrow> end_step\<^sup>*\<^sup>* (byte_stream s) st"

lemma end_reachable_induct [consumes 1, case_names start step]:
  assumes "end_reachable s st" "P (byte_stream s)"
    "\<And>st st'. end_reachable s st \<Longrightarrow> P st \<Longrightarrow> end_step st st' \<Longrightarrow> P st'"
  shows "P st"
  using assms(1) unfolding end_reachable_def
  by (induction rule: rtranclp_induct) (use assms(2,3) in \<open>auto simp: end_reachable_def\<close>)

lemma release_if_ended_simps [simp]:
  "es_source (release_if_ended st) = es_source st" "es_writer_held (release_if_ended st) = es_writer_held st"
  "es_poisoned (release_if_ended st) = es_poisoned st" "es_ended (release_if_ended st) = es_ended st"
  "es_reader (release_if_ended st) = es_reader st" "es_caller (release_if_ended st) = es_caller st"
  "es_read (release_if_ended st) = es_read st" "es_calls (release_if_ended st) = es_calls st"
  "es_teller (release_if_ended st) = es_teller st" "es_turn (release_if_ended st) = es_turn st"
  by (simp_all add: release_if_ended_def)

lemma end_stands_eq: "end_stands ended reason = (stands, first) \<longleftrightarrow>
    stands = (case ended of Some stands \<Rightarrow> stands | None \<Rightarrow> reason) \<and> first = (ended = None)"
  by (cases ended) auto

subsection \<open>What was read\<close>

lemma read_frames_snoc:
  "read_frames n s = (fs, s') \<Longrightarrow> length fs = n \<Longrightarrow> read_frame s' = (Inr f, s'') \<Longrightarrow>
    read_frames (Suc n) s = (fs @ [f], s'')"
proof (induction n arbitrary: s fs)
  case (Suc n)
  then obtain g t where g: "read_frame s = (Inr g, t)"
    by (auto split: prod.splits sum.splits)
  obtain gs t' where gs: "read_frames n t = (gs, t')"
    by fastforce
  from Suc.prems g gs have fs: "fs = g # gs" "t' = s'" "length gs = n"
    by auto
  from Suc.IH [OF gs [unfolded fs(2)] fs(3) Suc.prems(3)] g fs(1) show ?case
    by simp
qed simp

fun reader_live :: "ReaderPc \<Rightarrow> bool" where
  "reader_live Reading = True"
| "reader_live (Holding _) = True"
| "reader_live (Routing _) = True"
| "reader_live _ = False"

lemma end_read:
  assumes "end_reachable s st"
  shows "fst (read_frames (length (es_read st)) s) = es_read st \<and>
     (reader_live (es_reader st) \<longrightarrow> read_frames (length (es_read st)) s = (es_read st, es_source st))"
  using assms
proof (induction rule: end_reachable_induct)
  case start
  then show ?case
    by (simp add: byte_stream_def)
next
  case (step st st')
  note IH = step.IH
  from step.hyps(2) show ?case
  proof (cases rule: end_step.cases)
    case (step_read r s')
    show ?thesis
    proof (cases r)
      case (Inr frame)
      have "read_frames (Suc (length (es_read st))) s = (es_read st @ [frame], s')"
        using read_frames_snoc [of "length (es_read st)" s "es_read st" "es_source st" frame s'] IH step_read Inr
        by simp
      with step_read Inr show ?thesis
        by (simp del: read_frames.simps)
    qed (use step_read IH in simp)
  next
    case (step_route frame answer)
    with IH show ?thesis
      by (cases answer) simp_all
  qed (use IH in \<open>simp_all add: caller_at_def reader_check_def\<close>)
qed

subsection \<open>What the router was told\<close>

definition routed :: "RouterCall list \<Rightarrow> SessionFrame list" where
  "routed calls = concat (map (\<lambda>call. case call of CallRoute frame \<Rightarrow> [frame] | CallEnded _ \<Rightarrow> []) calls)"

lemma routed_simps [simp]:
  "routed [] = []" "routed (calls @ [CallRoute frame]) = routed calls @ [frame]"
  "routed (calls @ [CallEnded reason]) = routed calls" "routed (map CallRoute frames) = frames"
proof -
  show "routed (map CallRoute frames) = frames"
    by (induction frames) (simp_all add: routed_def)
qed (simp_all add: routed_def)

text \<open>The frame the reader holds is the one behind those it has routed.\<close>

fun reader_frames :: "ReaderPc \<Rightarrow> SessionFrame list" where
  "reader_frames (Holding frame) = [frame]"
| "reader_frames (Routing frame) = [frame]"
| "reader_frames _ = []"

lemma end_routed:
  assumes "end_reachable s st"
  shows "(\<exists>dropped. es_read st = routed (es_calls st) @ dropped \<and> length dropped \<le> 1) \<and>
     (reader_live (es_reader st) \<longrightarrow> es_read st = routed (es_calls st) @ reader_frames (es_reader st))"
  using assms
proof (induction rule: end_reachable_induct)
  case start
  then show ?case
    by (simp add: byte_stream_def)
next
  case (step st st')
  note IH = step.IH
  from step.hyps(2) show ?case
  proof (cases rule: end_step.cases)
    case (step_read r s')
    with IH show ?thesis
      by (cases r) simp_all
  next
    case (step_route frame answer)
    with IH show ?thesis
      by (cases answer) simp_all
  qed (use IH in \<open>simp_all add: caller_at_def reader_check_def\<close>)
qed

text \<open>
  Whoever set the reason owes the router the end, alone, until the router has it; from then on the reader
  does not route.
\<close>

fun reader_telling :: "ReaderPc \<Rightarrow> Closed option" where
  "reader_telling (ReaderTelling stands) = Some stands"
| "reader_telling _ = None"

fun caller_telling :: "CallerPc \<Rightarrow> Closed option" where
  "caller_telling (Telling stands _) = Some stands"
| "caller_telling _ = None"

lemma telling_simps [simp]:
  "reader_telling (reader_next r) = None" "reader_telling (reader_check ended frame) = None"
  "reader_telling (reader_routed answer) = None" "caller_telling (after_end k stands) = None"
  "caller_telling (lock_writer poisoned frame) = None" "caller_telling (send_wrote frame outcome) = None"
  "caller_telling (send_decide ended writer failed frame) = None"
proof -
  show "caller_telling (send_decide ended writer failed frame) = None"
    by (cases "(ended, writer, failed, frame)" rule: send_decide.cases) (auto split: sum.splits)
  show "caller_telling (send_wrote frame outcome) = None"
    by (cases outcome) auto
  show "reader_telling (reader_next r) = None"
    by (cases r) auto
  show "reader_telling (reader_routed answer) = None"
    by (cases answer) auto
  show "caller_telling (after_end k stands) = None"
    by (cases k) auto
qed (simp_all add: reader_check_def lock_writer_def)

definition only_routed :: "RouterCall list \<Rightarrow> bool" where
  "only_routed calls \<longleftrightarrow> calls = map CallRoute (routed calls)"

definition routed_then_ended :: "RouterCall list \<Rightarrow> Closed \<Rightarrow> bool" where
  "routed_then_ended calls stands \<longleftrightarrow> calls = map CallRoute (routed calls) @ [CallEnded stands]"

lemma only_routed_append [simp]:
  "only_routed []" "only_routed calls \<Longrightarrow> only_routed (calls @ [CallRoute frame])"
  "only_routed calls \<Longrightarrow> routed_then_ended (calls @ [CallEnded stands]) stands"
  by (simp_all add: only_routed_def routed_then_ended_def)

definition end_told :: "EndState \<Rightarrow> bool" where
  "end_told st \<longleftrightarrow>
     (if es_ended st = None \<or> es_teller st \<noteq> None then only_routed (es_calls st)
      else routed_then_ended (es_calls st) (the (es_ended st)) \<and> delivery_free (es_reader st)) \<and>
     (es_ended st = None \<longrightarrow> es_teller st = None)"

definition tellers_owe :: "EndState \<Rightarrow> bool" where
  "tellers_owe st \<longleftrightarrow>
     reader_telling (es_reader st) = (if es_teller st = Some TellReader then es_ended st else None) \<and>
     (\<forall>i. caller_telling (es_caller st i) = (if es_teller st = Some (TellCaller i) then es_ended st else None)) \<and>
     (es_teller st \<noteq> None \<longrightarrow> es_ended st \<noteq> None)"

lemma tellers_oweD:
  assumes "tellers_owe st"
  shows "es_caller st i = Telling stands k \<Longrightarrow> es_teller st = Some (TellCaller i) \<and> es_ended st = Some stands"
    "es_reader st = ReaderTelling stands \<Longrightarrow> es_teller st = Some TellReader \<and> es_ended st = Some stands"
    "es_teller st \<noteq> None \<Longrightarrow> es_ended st \<noteq> None"
proof -
  have "caller_telling (es_caller st i) = (if es_teller st = Some (TellCaller i) then es_ended st else None)"
    using assms by (auto simp: tellers_owe_def)
  then show "es_caller st i = Telling stands k \<Longrightarrow> es_teller st = Some (TellCaller i) \<and> es_ended st = Some stands"
    by (auto split: if_splits)
qed (use assms in \<open>auto simp: tellers_owe_def split: if_splits\<close>)

lemma end_tellers_owe:
  assumes "end_reachable s st"
  shows "tellers_owe st"
  using assms
proof (induction rule: end_reachable_induct)
  case start
  then show ?case
    by (simp add: byte_stream_def tellers_owe_def)
next
  case (step st st')
  note IH = step.IH [unfolded tellers_owe_def]
  have other: "es_teller st \<noteq> Some (TellCaller i)" if "caller_telling (es_caller st i) = None" for i
    using spec [OF conjunct1 [OF conjunct2 [OF IH]], of i] IH that by auto
  have owing: "\<exists>stands k. es_caller st i = Telling stands k" if "es_teller st = Some (TellCaller i)" for i
    using other [of i] that by (cases "es_caller st i") auto
  have reader: "es_teller st \<noteq> Some TellReader" if "reader_telling (es_reader st) = None"
    using IH that by auto
  from step.hyps(2) show ?case
  proof (cases rule: end_step.cases)
    case (step_reader_end reason stands first)
    with IH reader show ?thesis
      by (cases "es_ended st") (auto simp: tellers_owe_def split: if_splits)
  next
    case (step_end i reason k stands first)
    with IH other [of i] show ?thesis
      by (cases "es_ended st") (auto simp: tellers_owe_def caller_at_def split: if_splits)
  next
    case (step_tell i stands k)
    with IH tellers_oweD(1) [OF step.IH, of i stands k] show ?thesis
      by (auto simp: tellers_owe_def caller_at_def split: if_splits)
  qed (use IH in \<open>auto simp: tellers_owe_def caller_at_def dest!: owing split: if_splits\<close>)
qed

lemma end_end_told:
  assumes "end_reachable s st"
  shows "end_told st"
  using assms
proof (induction rule: end_reachable_induct)
  case start
  then show ?case
    by (simp add: byte_stream_def end_told_def)
next
  case (step st st')
  note owe = tellers_oweD [OF end_tellers_owe [OF step.hyps(1)]]
  note IH = step.IH [unfolded end_told_def]
  from step.hyps(2) show ?case
  proof (cases rule: end_step.cases)
    case (step_read r s')
    with IH show ?thesis
      by (cases r) (auto simp: end_told_def split: if_splits)
  next
    case (step_reader_end reason stands first)
    with IH show ?thesis
      by (cases "es_ended st") (auto simp: end_told_def split: if_splits)
  next
    case (step_reader_tell stands)
    with IH owe(2) [of stands] show ?thesis
      by (auto simp: end_told_def)
  next
    case (step_end i reason k stands first)
    with IH show ?thesis
      by (cases "es_ended st") (auto simp: end_told_def caller_at_def split: if_splits)
  next
    case (step_tell i stands k)
    with IH owe(1) [of i stands k] show ?thesis
      by (auto simp: end_told_def caller_at_def)
  qed (use IH in \<open>auto simp: end_told_def caller_at_def reader_check_def split: if_splits\<close>)
qed

lemma end_stands_kept: "end_step st st' \<Longrightarrow> es_ended st = Some stands \<Longrightarrow> es_ended st' = Some stands"
  by (induction rule: end_step.induct) (auto simp: caller_at_def)

text \<open>
  C10. Whatever the stream, the router and the other threads do, the router is handed the frames of the
  stream in order, each once and none skipped, and then at most once the end, with the reason that
  stands, after the last frame; and the first reason stands from then on.
\<close>

theorem router_hears_frames_then_the_end:
  assumes "end_reachable s st"
  shows "(\<exists>n frames. prefix frames (fst (read_frames n s)) \<and>
        (es_calls st = map CallRoute frames \<or>
         (\<exists>stands. es_ended st = Some stands \<and> es_calls st = map CallRoute frames @ [CallEnded stands]))) \<and>
      (\<forall>stands st'. es_ended st = Some stands \<and> end_step\<^sup>*\<^sup>* st st' \<longrightarrow> es_ended st' = Some stands)"
proof (intro conjI allI impI)
  obtain dropped where dropped: "es_read st = routed (es_calls st) @ dropped"
    using end_routed [OF assms] by blast
  have shape: "es_calls st = map CallRoute (routed (es_calls st)) \<or>
      (\<exists>stands. es_ended st = Some stands \<and> es_calls st = map CallRoute (routed (es_calls st)) @ [CallEnded stands])"
    using end_end_told [OF assms]
    by (cases "es_ended st") (auto simp: end_told_def only_routed_def routed_then_ended_def split: if_splits)
  have "prefix (routed (es_calls st)) (fst (read_frames (length (es_read st)) s))"
    using end_read [OF assms] dropped by (simp add: prefix_def)
  with shape show "\<exists>n frames. prefix frames (fst (read_frames n s)) \<and>
        (es_calls st = map CallRoute frames \<or>
         (\<exists>stands. es_ended st = Some stands \<and> es_calls st = map CallRoute frames @ [CallEnded stands]))"
    by blast
next
  fix stands st'
  assume "es_ended st = Some stands \<and> end_step\<^sup>*\<^sup>* st st'"
  then have "end_step\<^sup>*\<^sup>* st st'" "es_ended st = Some stands"
    by simp_all
  then show "es_ended st' = Some stands"
    by (induction rule: rtranclp_induct) (auto dest: end_stands_kept)
qed

text \<open>A session closed before anything was read or sent, up to where the caller drops the writer.\<close>

definition closing :: EndState where
  "closing = caller_at 0 Releasing
     ((byte_stream [])\<lparr>es_ended := Some ClosedLocal, es_calls := [CallEnded ClosedLocal]\<rparr>)"

lemma closing_reachable: "end_reachable [] closing"
proof -
  let ?s0 = "byte_stream []"
  let ?s1 = "caller_at 0 (InEnd ClosedLocal FromClose) ?s0"
  let ?s2 = "caller_at 0 (Telling ClosedLocal FromClose) (?s1\<lparr>es_ended := Some ClosedLocal, es_teller := Some (TellCaller 0)\<rparr>)"
  have "end_step ?s0 ?s1"
    by (rule step_close) (simp add: byte_stream_def)
  moreover have "end_step ?s1 ?s2"
    using step_end [of ?s1 0 ClosedLocal FromClose ClosedLocal True] by (simp add: caller_at_def byte_stream_def)
  moreover have "end_step ?s2 closing"
    using step_tell [of ?s2 0 ClosedLocal FromClose] by (simp add: caller_at_def byte_stream_def closing_def)
  ultimately show ?thesis
    unfolding end_reachable_def by (meson rtranclp.rtrancl_into_rtrancl rtranclp.rtrancl_refl)
qed

lemma closing_simps: "es_ended closing = Some ClosedLocal" "es_calls closing = [CallEnded ClosedLocal]"
  "es_caller closing i = (if i = 0 then Releasing else Outside)" "es_reader closing = Reading"
  "es_writer_held closing = None" "es_turn closing = None" "\<not> es_poisoned closing"
  by (simp_all add: closing_def caller_at_def byte_stream_def)

text \<open>The same session with the writer dropped and the call returned.\<close>

definition closed_end :: EndState where
  "closed_end = caller_at 0 Outside ((release_if_ended closing)\<lparr>es_turn := None\<rparr>)"

lemma closing_step: "end_step\<^sup>*\<^sup>* closing closed_end"
  using step_release [of closing 0] by (intro r_into_rtranclp) (simp add: closing_simps closed_end_def)

theorem router_hears_frames_then_the_end_witness:
  "es_calls closing = [CallEnded ClosedLocal] \<and> es_ended closed_end = Some ClosedLocal"
  using conjunct2 [OF router_hears_frames_then_the_end [OF closing_reachable]] closing_step by (simp add: closing_simps)

subsection \<open>Letting go of the writer\<close>

fun holds_from :: "EndFrom \<Rightarrow> bool" where
  "holds_from FromClose = False"
| "holds_from _ = True"

fun holds_writer :: "CallerPc \<Rightarrow> bool" where
  "holds_writer Outside = False"
| "holds_writer (HasTurn _) = False"
| "holds_writer Releasing = False"
| "holds_writer (InEnd _ k) = holds_from k"
| "holds_writer (Telling _ k) = holds_from k"
| "holds_writer _ = True"

lemma holds_writer_simps [simp]:
  "holds_writer (after_end k stands) = holds_from k" "holds_writer (lock_writer poisoned frame)"
  "holds_writer (send_wrote frame outcome)" "holds_writer (send_decide ended writer failed frame)"
proof -
  show "holds_writer (send_decide ended writer failed frame)"
    by (cases "(ended, writer, failed, frame)" rule: send_decide.cases) (auto split: sum.splits)
  show "holds_writer (send_wrote frame outcome)"
    by (cases outcome) auto
  show "holds_writer (after_end k stands) = holds_from k"
    by (cases k) auto
qed (simp add: lock_writer_def)

lemma end_holder:
  assumes "end_reachable s st"
  shows "\<forall>i. holds_writer (es_caller st i) \<longleftrightarrow> es_writer_held st = Some i"
  using assms
proof (induction rule: end_reachable_induct)
  case start
  then show ?case
    by (simp add: byte_stream_def)
next
  case (step st st')
  have IH: "es_writer_held st = Some i \<longleftrightarrow> holds_writer (es_caller st i)" for i
    using step.IH by simp
  have alone: "\<not> holds_writer (es_caller st j)" if "holds_writer (es_caller st i)" "j \<noteq> i" for i j
    using IH [of i] IH [of j] that by auto
  from step.hyps(2) show ?case
  proof (cases rule: end_step.cases)
    case (step_lock i frame)
    then show ?thesis
      using IH by (auto simp: caller_at_def simp flip: IH)
  next
    case (step_write_panics i frame)
    then show ?thesis
      using alone [of i] by (auto simp: caller_at_def)
  next
    case (step_wrap i frame result)
    then show ?thesis
      using alone [of i] by (auto simp: caller_at_def)
  qed (auto simp: caller_at_def IH)
qed

fun reader_ending :: "ReaderPc \<Rightarrow> bool" where
  "reader_ending (ReaderInEnd _) = True"
| "reader_ending (ReaderTelling _) = True"
| "reader_ending ReaderReleasing = True"
| "reader_ending _ = False"

text \<open>No call is in progress, and the reader is not ending the session.\<close>

definition end_at_rest :: "EndState \<Rightarrow> bool" where
  "end_at_rest st \<longleftrightarrow> (\<forall>i. es_caller st i = Outside) \<and> \<not> reader_ending (es_reader st)"

lemma end_at_rest_called: "pc \<noteq> Outside \<Longrightarrow> \<not> end_at_rest (caller_at i pc st)"
  by (auto simp: end_at_rest_def caller_at_def)

lemma pc_inside [simp]:
  "after_end k stands \<noteq> Outside" "lock_writer poisoned frame \<noteq> Outside" "send_wrote frame outcome \<noteq> Outside"
  "send_decide ended writer failed frame \<noteq> Outside"
proof -
  show "after_end k stands \<noteq> Outside"
    by (cases k) simp_all
  show "lock_writer poisoned frame \<noteq> Outside" "send_wrote frame outcome \<noteq> Outside"
    "send_decide ended writer failed frame \<noteq> Outside"
    using holds_writer_simps(2-4) holds_writer.simps(1) by metis+
qed

lemma end_releases:
  assumes "end_reachable s st"
  shows "end_at_rest st \<longrightarrow> es_ended st \<noteq> None \<longrightarrow> \<not> es_poisoned st \<longrightarrow> \<not> es_writer st"
  using assms
proof (induction rule: end_reachable_induct)
  case start
  then show ?case
    by (simp add: byte_stream_def)
next
  case (step st st')
  note held = end_holder [OF step.hyps(1)]
  have free: "es_writer_held st = None" if "\<forall>j. j \<noteq> i \<longrightarrow> es_caller st j = Outside" "\<not> holds_writer (es_caller st i)" for i
  proof (rule ccontr)
    assume "es_writer_held st \<noteq> None"
    then obtain j where "holds_writer (es_caller st j)"
      using held by blast
    with that show False
      by (cases "j = i") auto
  qed
  from step.hyps(2) show ?case
  proof (cases rule: end_step.cases)
    case step_reader_release
    then show ?thesis
      using free [of 0] by (auto simp: end_at_rest_def release_if_ended_def)
  next
    case (step_release i)
    then show ?thesis
      using free [of i] by (auto simp: end_at_rest_def release_if_ended_def caller_at_def split: if_splits)
  next
    case (step_route frame answer)
    with step.IH show ?thesis
      by (simp add: end_at_rest_def)
  next
    case (step_read r s')
    with step.IH show ?thesis
      by (simp add: end_at_rest_def)
  next
    case (step_check frame)
    with step.IH show ?thesis
      by (simp add: end_at_rest_def)
  next
    case (step_reader_end reason stands first)
    then show ?thesis
      by (simp add: end_at_rest_def)
  next
    case (step_reader_tell stands)
    then show ?thesis
      by (simp add: end_at_rest_def)
  next
    case (step_write_panics i frame)
    then show ?thesis
      by (simp add: caller_at_def)
  qed (simp_all add: end_at_rest_called)
qed

lemma ended_at_rest:
  assumes "end_reachable s st" "es_ended st = Some stands" "end_at_rest st"
  shows "(\<exists>frames. es_calls st = map CallRoute frames @ [CallEnded stands]) \<and> (es_writer st \<longrightarrow> es_poisoned st)"
proof -
  note owe = end_tellers_owe [OF assms(1), unfolded tellers_owe_def]
  have "es_teller st = None"
  proof (rule ccontr)
    assume "es_teller st \<noteq> None"
    then obtain t where t: "es_teller st = Some t"
      by auto
    show False
    proof (cases t)
      case TellReader
      with t owe assms(2) have "reader_telling (es_reader st) = Some stands"
        by simp
      with assms(3) show False
        by (cases "es_reader st") (simp_all add: end_at_rest_def)
    next
      case (TellCaller i)
      with t owe assms(2) have "caller_telling (es_caller st i) = Some stands"
        by simp
      with assms(3) show False
        by (simp add: end_at_rest_def)
    qed
  qed
  with end_end_told [OF assms(1)] assms(2) end_releases [OF assms(1)] assms(3) show ?thesis
    by (auto simp: end_told_def routed_then_ended_def)
qed

subsection \<open>Winding down\<close>

fun caller_work :: "CallerPc \<Rightarrow> nat" where
  "caller_work Outside = 0"
| "caller_work (HasTurn _) = 10"
| "caller_work (InEnd _ (FromLock _)) = 9"
| "caller_work (Telling _ (FromLock _)) = 8"
| "caller_work (Deciding _) = 7"
| "caller_work (Writing _) = 6"
| "caller_work (InEnd _ (FromSend _)) = 5"
| "caller_work (Telling _ (FromSend _)) = 4"
| "caller_work (Wrapping _ _) = 3"
| "caller_work (InEnd _ FromClose) = 3"
| "caller_work (Telling _ FromClose) = 2"
| "caller_work Releasing = 1"

fun reader_work :: "ReaderPc \<Rightarrow> nat" where
  "reader_work (ReaderInEnd _) = 3"
| "reader_work (ReaderTelling _) = 2"
| "reader_work ReaderReleasing = 1"
| "reader_work (Routing _) = 1"
| "reader_work _ = 0"

definition callers_inside :: "EndState \<Rightarrow> nat set" where
  "callers_inside st = {i. es_caller st i \<noteq> Outside}"

definition end_work :: "EndState \<Rightarrow> nat" where
  "end_work st = (\<Sum>i \<in> callers_inside st. caller_work (es_caller st i)) + reader_work (es_reader st)"

lemma end_callers_finite:
  assumes "end_reachable s st"
  shows "finite (callers_inside st)"
  using assms
proof (induction rule: end_reachable_induct)
  case start
  then show ?case
    by (simp add: byte_stream_def callers_inside_def)
next
  case (step st st')
  have update: "finite (callers_inside (caller_at i pc st''))" if "es_caller st'' = es_caller st" for i pc st''
    by (rule finite_subset [OF _ finite_insert [THEN iffD2, OF step.IH, of i]])
      (auto simp: callers_inside_def caller_at_def that)
  from step.hyps(2) show ?case
    by (cases rule: end_step.cases) (use step.IH in \<open>simp_all add: update, simp_all add: callers_inside_def\<close>)
qed

lemma end_work_less:
  assumes "finite (callers_inside st)" "es_caller st'' = es_caller st" "es_reader st'' = es_reader st"
    and "caller_work pc < caller_work (es_caller st i)"
  shows "end_work (caller_at i pc st'') < end_work st"
proof -
  have i: "i \<in> callers_inside st"
    using assms(4) by (auto simp: callers_inside_def intro: ccontr)
  have eq: "es_caller (caller_at i pc st'') = (es_caller st)(i := pc)"
    using assms(2) by (simp add: caller_at_def)
  have "(\<Sum>j \<in> callers_inside (caller_at i pc st''). caller_work (es_caller (caller_at i pc st'') j)) =
      (\<Sum>j \<in> callers_inside st. caller_work (((es_caller st)(i := pc)) j))"
    unfolding eq by (rule sum.mono_neutral_left [OF assms(1)])
      (use i assms(2) in \<open>auto simp: callers_inside_def caller_at_def split: if_splits\<close>)
  also have "\<dots> < (\<Sum>j \<in> callers_inside st. caller_work (es_caller st j))"
    by (rule sum_strict_mono_ex1 [OF assms(1)]) (use i assms(4) in auto)
  finally show ?thesis
    using assms(3) by (simp add: end_work_def caller_at_def)
qed

lemma caller_work_less:
  "caller_work (after_end k stands) < caller_work (Telling stands k)"
  "caller_work (if first then Telling stands k else after_end k stands) < caller_work (InEnd reason k)"
  "caller_work (lock_writer poisoned frame) < caller_work (HasTurn frame)"
  "caller_work (send_decide ended writer failed frame) < caller_work (Deciding frame)"
  "caller_work (send_wrote frame outcome) < caller_work (Writing frame)"
proof -
  show "caller_work (send_decide ended writer failed frame) < caller_work (Deciding frame)"
    by (cases "(ended, writer, failed, frame)" rule: send_decide.cases) (auto split: sum.splits)
  show "caller_work (send_wrote frame outcome) < caller_work (Writing frame)"
    by (cases outcome) auto
qed (cases k; simp add: lock_writer_def)+

lemma progressI: "end_step st st' \<Longrightarrow> end_work st' < end_work st \<Longrightarrow> \<exists>st'. end_step st st' \<and> end_work st' < end_work st"
  by blast

text \<open>A thread that no lock keeps waiting can go on, and has less to do then.\<close>

lemma caller_progress:
  assumes fin: "finite (callers_inside st)" and inside: "es_caller st i \<noteq> Outside"
    and free: "es_writer_held st = None \<or> holds_writer (es_caller st i)" "delivery_free (es_reader st)"
  shows "\<exists>st'. end_step st st' \<and> end_work st' < end_work st"
proof (cases "es_caller st i")
  case (HasTurn frame)
  with free(1) have "es_writer_held st = None"
    by simp
  from step_lock [OF HasTurn this] show ?thesis
    by (rule progressI) (rule end_work_less [OF fin], simp_all add: HasTurn caller_work_less [simplified])
next
  case (Deciding frame)
  from step_decide [OF Deciding] show ?thesis
    by (rule progressI) (rule end_work_less [OF fin], simp_all add: Deciding caller_work_less [simplified])
next
  case (Writing frame)
  from step_wrote [OF Writing, of "Inr ()"] show ?thesis
    by (rule progressI) (rule end_work_less [OF fin], simp_all add: Writing)
next
  case (Wrapping frame result)
  from step_wrap [OF Wrapping] show ?thesis
    by (rule progressI) (rule end_work_less [OF fin], simp_all add: Wrapping)
next
  case Releasing
  from step_release [OF Releasing] show ?thesis
    by (rule progressI) (rule end_work_less [OF fin], simp_all add: Releasing)
next
  case (InEnd reason k)
  obtain stands first where "end_stands (es_ended st) reason = (stands, first)"
    by fastforce
  from step_end [OF InEnd this] show ?thesis
    by (rule progressI) (rule end_work_less [OF fin], simp_all only: InEnd caller_work_less, simp_all)
next
  case (Telling stands k)
  from step_tell [OF Telling free(2)] show ?thesis
    by (rule progressI) (rule end_work_less [OF fin], simp_all only: Telling caller_work_less, simp_all)
qed (use inside in simp)

lemma reader_progress:
  assumes "reader_ending (es_reader st) \<or> \<not> delivery_free (es_reader st)"
  shows "\<exists>st'. end_step st st' \<and> end_work st' < end_work st"
proof (cases "es_reader st")
  case (Routing frame)
  from step_route [OF Routing, of Routed] show ?thesis
    by (rule progressI) (simp add: end_work_def callers_inside_def Routing)
next
  case (ReaderInEnd reason)
  obtain stands first where "end_stands (es_ended st) reason = (stands, first)"
    by fastforce
  from step_reader_end [OF ReaderInEnd this] show ?thesis
    by (rule progressI) (simp add: end_work_def callers_inside_def ReaderInEnd)
next
  case (ReaderTelling stands)
  from step_reader_tell [OF ReaderTelling] show ?thesis
    by (rule progressI) (simp add: end_work_def callers_inside_def ReaderTelling)
next
  case ReaderReleasing
  from step_reader_release [OF ReaderReleasing] show ?thesis
    by (rule progressI) (simp add: end_work_def callers_inside_def ReaderReleasing)
qed (use assms in simp_all)

lemma end_progress:
  assumes reach: "end_reachable s st" and busy: "\<not> end_at_rest st"
  shows "\<exists>st'. end_step st st' \<and> end_work st' < end_work st"
proof (cases "reader_ending (es_reader st) \<or> \<not> delivery_free (es_reader st)")
  case True
  then show ?thesis
    by (rule reader_progress)
next
  case False
  show ?thesis
  proof (cases "es_writer_held st")
    case None
    from False busy obtain i where "es_caller st i \<noteq> Outside"
      by (auto simp: end_at_rest_def)
    with caller_progress [OF end_callers_finite [OF reach]] None False show ?thesis
      by blast
  next
    case (Some i)
    then have "holds_writer (es_caller st i)"
      using end_holder [OF reach] by blast
    moreover from this have "es_caller st i \<noteq> Outside"
      by auto
    ultimately show ?thesis
      using caller_progress [OF end_callers_finite [OF reach]] False by blast
  qed
qed

lemma end_winds_down:
  assumes "end_reachable s st"
  shows "\<exists>st'. end_step\<^sup>*\<^sup>* st st' \<and> end_at_rest st'"
  using assms
proof (induction "end_work st" arbitrary: st rule: less_induct)
  case less
  show ?case
  proof (cases "end_at_rest st")
    case False
    then obtain st' where st': "end_step st st'" "end_work st' < end_work st"
      using end_progress [OF less.prems] by blast
    moreover have "end_reachable s st'"
      using less.prems st'(1) by (auto simp: end_reachable_def)
    ultimately show ?thesis
      using less.hyps by (meson converse_rtranclp_into_rtranclp)
  qed blast
qed

lemma closed_end_at_rest: "end_at_rest closed_end" "\<not> es_poisoned closed_end"
  by (simp_all add: end_at_rest_def closed_end_def caller_at_def closing_simps)

text \<open>
  C20. No thread of an ended session is stuck on a lock: from every state the session can be in once it has
  ended, the calls in progress and the reader can go on until all have returned. And whichever way they
  go on, once none is in progress nothing is left over: the router has been told the reason that stands,
  behind every frame it was handed, and the writer has been dropped, so that the peer reads the end of
  the stream, unless a call panicked inside the stream while it held the writer.
\<close>

theorem ended_session_winds_down:
  assumes "end_reachable s st" "es_ended st = Some stands"
  shows "(\<exists>st'. end_step\<^sup>*\<^sup>* st st' \<and> end_at_rest st') \<and>
      (\<forall>st'. end_step\<^sup>*\<^sup>* st st' \<and> end_at_rest st' \<longrightarrow>
        (\<exists>frames. es_calls st' = map CallRoute frames @ [CallEnded stands]) \<and> (es_writer st' \<longrightarrow> es_poisoned st'))"
proof (intro conjI [OF end_winds_down [OF assms(1)]] allI impI, elim conjE)
  fix st'
  assume st': "end_step\<^sup>*\<^sup>* st st'" "end_at_rest st'"
  have "end_reachable s st'"
    using assms(1) st'(1) unfolding end_reachable_def by (rule rtranclp_trans)
  moreover have "es_ended st' = Some stands"
    using st'(1) assms(2) by (induction rule: rtranclp_induct) (auto dest: end_stands_kept)
  ultimately show "(\<exists>frames. es_calls st' = map CallRoute frames @ [CallEnded stands]) \<and> (es_writer st' \<longrightarrow> es_poisoned st')"
    using st'(2) by (rule ended_at_rest)
qed

theorem ended_session_winds_down_witness: "es_calls closed_end \<noteq> [] \<and> \<not> es_writer closed_end"
  using conjunct2 [OF ended_session_winds_down [OF closing_reachable closing_simps(1)]] closing_step closed_end_at_rest
  by fastforce

end
