(* ===== verification/Session_Gate.thy ===== *)
theory Session_Gate
  imports Session_Frames "HOL-Library.Multiset"
begin

text \<open>
  The operation gate and its cancellation token, \<open>crates/session-host/src/gate.rs\<close> and \<open>token.rs\<close>, and
  the session limits, \<open>limits.rs\<close>. A call's record may cancel the token and revoke the gate, from any
  thread; the call's worker, alone, crosses the gate. What each thread does between two points where
  another can interfere is a step: an atomic read or swap, taking or leaving a lock, running a callback
  or a crossing's closure.
\<close>

subsection \<open>Session limits\<close>

text \<open>Durations are in nanoseconds.\<close>

record HostLimits =
  running_operations :: u64
  queued_operations :: u64
  operation_table :: u64
  direct_workers :: u64
  event_log :: u64
  open_logs :: u64
  host_outstanding_calls :: u64
  host_control_reserve :: u64
  read_bytes :: u64
  close_wait :: nat

definition MAX_CLOSE_WAIT :: nat where
  "MAX_CLOSE_WAIT = 60 * 60 * 10 ^ 9"

definition default_host_limits :: HostLimits where
  "default_host_limits =
     \<lparr>running_operations = 8, queued_operations = 64, operation_table = 128, direct_workers = 8, event_log = 4096,
      open_logs = 64, host_outstanding_calls = 1024, host_control_reserve = 64, read_bytes = 1024 * 1024, close_wait = 60 * 10 ^ 9\<rparr>"

datatype InvalidLimits =
    LimitTooSmall ustr u64
  | TableTooSmall
  | ReadTooLarge
  | QueueOverflow
  | CloseWaitTooLong

fun show_invalid_limits :: "InvalidLimits \<Rightarrow> ustr" where
  "show_invalid_limits (LimitTooSmall limit minimum) =
     lit ''session limit '' @ limit @ lit '' must be at least '' @ show_nat (unat minimum)"
| "show_invalid_limits TableTooSmall =
     lit ''session limit operation_table must hold at least running_operations plus queued_operations''"
| "show_invalid_limits ReadTooLarge = lit ''session limit read_bytes must be at most half the 64 MiB frame size''"
| "show_invalid_limits QueueOverflow =
     lit ''session limits outstanding_calls plus control_reserve overflow a channel queue''"
| "show_invalid_limits CloseWaitTooLong = lit ''session limit close_wait must be at most one hour''"

definition limit_minimums :: "HostLimits \<Rightarrow> (ustr \<times> u64 \<times> u64) list" where
  "limit_minimums limits =
     [(lit ''running_operations'', running_operations limits, 1),
      (lit ''queued_operations'', queued_operations limits, 1),
      (lit ''direct_workers'', direct_workers limits, 1),
      (lit ''event_log'', event_log limits, 2),
      (lit ''open_logs'', open_logs limits, 1),
      (lit ''outstanding_calls'', host_outstanding_calls limits, 1),
      (lit ''control_reserve'', host_control_reserve limits, 1),
      (lit ''read_bytes'', read_bytes limits, 1)]"

fun channel_limits_error :: "LimitsError \<Rightarrow> InvalidLimits" where
  "channel_limits_error NoOutstandingCalls = LimitTooSmall (lit ''outstanding_calls'') 1"
| "channel_limits_error NoControlReserve = LimitTooSmall (lit ''control_reserve'') 1"
| "channel_limits_error LimitsOverflow = QueueOverflow"

definition validate_limits :: "HostLimits \<Rightarrow> InvalidLimits + ChannelLimits" where
  "validate_limits limits =
     and_then (for_each (\<lambda>(limit, value, minimum). if value < minimum then Inl (LimitTooSmall limit minimum) else Inr ())
         (limit_minimums limits)) (\<lambda>_.
     if (case checked_add_u64 (running_operations limits) (queued_operations limits) of
           None \<Rightarrow> True | Some live \<Rightarrow> operation_table limits < live)
     then Inl TableTooSmall
     else if MAX_FRAME_BYTES div 2 < unat (read_bytes limits) then Inl ReadTooLarge
     else
       and_then (map_err channel_limits_error
           (channel_limits_new (host_outstanding_calls limits) (host_control_reserve limits))) (\<lambda>channel.
         if MAX_CLOSE_WAIT < close_wait limits then Inl CloseWaitTooLong else Inr channel))"

text \<open>What a validated session may rely on.\<close>

lemma validated_limits:
  assumes "validate_limits limits = Inr channel"
  shows "limits_valid channel" "2 \<le> event_log limits" "close_wait limits \<le> MAX_CLOSE_WAIT"
    "unat (running_operations limits) + unat (queued_operations limits) \<le> unat (operation_table limits)"
    "unat (read_bytes limits) * 2 \<le> MAX_FRAME_BYTES"
proof -
  have minimums: "for_each (\<lambda>(limit, value, minimum). if value < minimum then Inl (LimitTooSmall limit minimum) else Inr ())
         (limit_minimums limits) = Inr ()"
    and table: "\<exists>live. checked_add_u64 (running_operations limits) (queued_operations limits) = Some live \<and> live \<le> operation_table limits"
    and read: "unat (read_bytes limits) \<le> MAX_FRAME_BYTES div 2"
    and channel: "channel_limits_new (host_outstanding_calls limits) (host_control_reserve limits) = Inr channel"
    and close: "close_wait limits \<le> MAX_CLOSE_WAIT"
    using assms by (auto simp: validate_limits_def and_then_eq_Inr not_less split: if_splits option.splits)
  show "limits_valid channel"
    using channel unfolding channel_limits_new_Inr by (rule conjunct2)
  show "2 \<le> event_log limits"
    using minimums by (auto simp: for_each_ok limit_minimums_def not_less split: if_splits)
  show "close_wait limits \<le> MAX_CLOSE_WAIT"
    by (rule close)
  show "unat (running_operations limits) + unat (queued_operations limits) \<le> unat (operation_table limits)"
    using table by (auto simp: checked_add_u64_def word_le_nat_alt unat_word_ariths split: if_splits)
  show "unat (read_bytes limits) * 2 \<le> MAX_FRAME_BYTES"
    using read by (simp add: MAX_FRAME_BYTES_def)
qed

subsection \<open>The token\<close>

datatype Refused = RefusedCancelled | RefusedRevoked

fun show_refused :: "Refused \<Rightarrow> ustr" where
  "show_refused RefusedCancelled = lit ''the operation'' @ [39] @ lit ''s token is cancelled''"
| "show_refused RefusedRevoked = lit ''the operation'' @ [39] @ lit ''s gate is revoked''"

text \<open>A callback is known by a number; the token keeps it under the id of its registration.\<close>

record TokenState =
  token_cancelled :: bool
  token_next :: u64
  token_pending :: "(u64 \<times> nat) list"

definition token_new :: TokenState where
  "token_new = \<lparr>token_cancelled = False, token_next = 0, token_pending = []\<rparr>"

text \<open>The pieces of \<open>TokenInner::cancel\<close>: the swap, then taking the callbacks under their lock.\<close>

definition token_swap :: "TokenState \<Rightarrow> bool \<times> TokenState" where
  "token_swap token = (token_cancelled token, token\<lparr>token_cancelled := True\<rparr>)"

definition token_take :: "TokenState \<Rightarrow> nat list \<times> TokenState" where
  "token_take token = (map snd (token_pending token), token\<lparr>token_pending := []\<rparr>)"

text \<open>The pieces of \<open>on_cancel\<close>, under the callbacks' lock: the check, then the registration.\<close>

definition token_check :: "TokenState \<Rightarrow> Refused + unit" where
  "token_check token = (if token_cancelled token then Inl RefusedCancelled else Inr ())"

definition token_push :: "nat \<Rightarrow> TokenState \<Rightarrow> u64 \<times> TokenState" where
  "token_push callback token =
     (token_next token,
      token\<lparr>token_next := token_next token + 1, token_pending := token_pending token @ [(token_next token, callback)]\<rparr>)"

text \<open>\<open>Vec::swap_remove\<close>: the last element takes the place of the one removed.\<close>

definition swap_remove :: "nat \<Rightarrow> 'a list \<Rightarrow> 'a list" where
  "swap_remove i xs = butlast (xs[i := last xs])"

definition registration_index :: "u64 \<Rightarrow> TokenState \<Rightarrow> nat option" where
  "registration_index n token = find (\<lambda>i. fst (token_pending token ! i) = n) [0..<length (token_pending token)]"

definition token_detach :: "u64 \<Rightarrow> TokenState \<Rightarrow> nat option \<times> TokenState" where
  "token_detach n token =
     (case registration_index n token of
        None \<Rightarrow> (None, token)
      | Some i \<Rightarrow> (Some (snd (token_pending token ! i)), token\<lparr>token_pending := swap_remove i (token_pending token)\<rparr>))"

subsection \<open>The gate\<close>

datatype GateState = GateLive | GateCancelled | GateRevoked

text \<open>\<open>GateInner::state\<close>.\<close>

definition gate_state :: "bool \<Rightarrow> bool \<Rightarrow> bool \<Rightarrow> GateState" where
  "gate_state revoked session_alive cancelled =
     (if revoked \<or> \<not> session_alive then GateRevoked else if cancelled then GateCancelled else GateLive)"

text \<open>
  Where the worker is in \<open>cross\<close>. It holds the gate's lock from \<open>HoldsGate\<close> to the end of the closure; a
  crossing is an effect or an append, which cancellation refuses, or a report.
\<close>

datatype CrossKind = CrossEffect | CrossReport

datatype WorkerPc =
    WorkerIdle
  | WantsGate CrossKind
  | HoldsGate CrossKind
  | HoldsSession CrossKind
  | InClosure CrossKind

datatype Crossed = CrossedRan | CrossedRevoked | CrossedCancelled

fun refuse_if_cancelled :: "CrossKind \<Rightarrow> bool" where
  "refuse_if_cancelled CrossEffect = True"
| "refuse_if_cancelled CrossReport = False"

text \<open>The checks of \<open>cross\<close>: the revocation and the session first, then the token.\<close>

definition cross_enter :: "bool \<Rightarrow> bool \<Rightarrow> CrossKind \<Rightarrow> Crossed + WorkerPc" where
  "cross_enter revoked session_alive kind =
     (if revoked then Inl CrossedRevoked else if \<not> session_alive then Inl CrossedRevoked else Inr (HoldsSession kind))"

definition cross_check :: "bool \<Rightarrow> CrossKind \<Rightarrow> Crossed + WorkerPc" where
  "cross_check cancelled kind =
     (if refuse_if_cancelled kind \<and> cancelled then Inl CrossedCancelled else Inr (InClosure kind))"

fun refusable_result :: "Crossed \<Rightarrow> Refused + unit" where
  "refusable_result CrossedRan = Inr ()"
| "refusable_result CrossedRevoked = Inl RefusedRevoked"
| "refusable_result CrossedCancelled = Inl RefusedCancelled"

fun report_result :: "Crossed \<Rightarrow> unit option" where
  "report_result CrossedRan = Some ()"
| "report_result CrossedRevoked = None"
| "report_result CrossedCancelled = None"

fun gate_free :: "WorkerPc \<Rightarrow> bool" where
  "gate_free WorkerIdle = True"
| "gate_free (WantsGate _) = True"
| "gate_free _ = False"

text \<open>The worker holds a reference to the session, which therefore cannot end.\<close>

fun holds_session :: "WorkerPc \<Rightarrow> bool" where
  "holds_session (HoldsSession _) = True"
| "holds_session (InClosure _) = True"
| "holds_session _ = False"

text \<open>
  Where a call of \<open>cancel\<close>, or of \<open>revoke\<close>, which cancels first, is: about to swap the flag; having swapped
  it first, about to take the callbacks; running those it took; about to revoke; returned.
\<close>

datatype ControlPc =
    Swapping bool
  | Taking bool
  | Running bool "nat list"
  | WantsRevoke
  | ControlDone

fun after_cancel :: "bool \<Rightarrow> ControlPc" where
  "after_cancel True = WantsRevoke"
| "after_cancel False = ControlDone"

record GateSystem =
  gs_token :: TokenState
  gs_session_alive :: bool
  gs_revoked :: bool
  gs_worker :: WorkerPc
  gs_control :: "ControlPc list"
  gs_registering :: "nat option"
  gs_crossed :: "(CrossKind \<times> Crossed) list"
  gs_accepted :: "nat list"
  gs_refused :: "nat list"
  gs_ran :: "nat list"
  gs_detached :: "nat list"

text \<open>\<open>CallControls::new\<close>.\<close>

definition gate_new :: GateSystem where
  "gate_new =
     \<lparr>gs_token = token_new, gs_session_alive = True, gs_revoked = False, gs_worker = WorkerIdle,
      gs_control = [], gs_registering = None, gs_crossed = [], gs_accepted = [], gs_refused = [], gs_ran = [],
      gs_detached = []\<rparr>"

definition control_at :: "nat \<Rightarrow> ControlPc \<Rightarrow> GateSystem \<Rightarrow> GateSystem" where
  "control_at i pc s = s\<lparr>gs_control := (gs_control s)[i := pc]\<rparr>"

text \<open>The call \<open>i\<close> is at \<open>pc\<close>.\<close>

definition call_at :: "GateSystem \<Rightarrow> nat \<Rightarrow> ControlPc \<Rightarrow> bool" where
  "call_at s i pc \<longleftrightarrow> i < length (gs_control s) \<and> gs_control s ! i = pc"

text \<open>
  The calls of the record may be made from any thread, and any number of them may be under way. A
  registration of a new callback holds the callbacks' lock from the check to the push. A closure ends
  when it returns or panics; a crossing or a revoke from inside it is such a panic, at \<open>forbid_reentry\<close>,
  before anything else. \<open>gs_crossed\<close> lists what became of each crossing, in order, \<open>CrossedRan\<close> from the
  moment it passes the checks; it and the lists of callbacks after it are not part of the code.
\<close>

inductive gate_step :: "GateSystem \<Rightarrow> GateSystem \<Rightarrow> bool" where
  cross_begin: "gs_worker s = WorkerIdle \<Longrightarrow> gate_step s (s\<lparr>gs_worker := WantsGate kind\<rparr>)"
| cross_lock: "gs_worker s = WantsGate kind \<Longrightarrow> gate_step s (s\<lparr>gs_worker := HoldsGate kind\<rparr>)"
| cross_entered: "gs_worker s = HoldsGate kind \<Longrightarrow> cross_enter (gs_revoked s) (gs_session_alive s) kind = r \<Longrightarrow>
    gate_step s (s\<lparr>gs_worker := (case r of Inl _ \<Rightarrow> WorkerIdle | Inr pc \<Rightarrow> pc),
      gs_crossed := gs_crossed s @ (case r of Inl crossed \<Rightarrow> [(kind, crossed)] | Inr _ \<Rightarrow> [])\<rparr>)"
| cross_checked: "gs_worker s = HoldsSession kind \<Longrightarrow> cross_check (token_cancelled (gs_token s)) kind = r \<Longrightarrow>
    gate_step s (s\<lparr>gs_worker := (case r of Inl _ \<Rightarrow> WorkerIdle | Inr pc \<Rightarrow> pc),
      gs_crossed := gs_crossed s @ [(kind, case r of Inl crossed \<Rightarrow> crossed | Inr _ \<Rightarrow> CrossedRan)]\<rparr>)"
| cross_end: "gs_worker s = InClosure kind \<Longrightarrow> gate_step s (s\<lparr>gs_worker := WorkerIdle\<rparr>)"
| session_ends: "\<not> holds_session (gs_worker s) \<Longrightarrow> gate_step s (s\<lparr>gs_session_alive := False\<rparr>)"
| control_begin: "gate_step s (s\<lparr>gs_control := gs_control s @ [Swapping revoking]\<rparr>)"
| control_swap: "call_at s i (Swapping revoking) \<Longrightarrow> token_swap (gs_token s) = (already, token) \<Longrightarrow>
    gate_step s (control_at i (if already then after_cancel revoking else Taking revoking) (s\<lparr>gs_token := token\<rparr>))"
| control_take: "call_at s i (Taking revoking) \<Longrightarrow> gs_registering s = None \<Longrightarrow>
    token_take (gs_token s) = (callbacks, token) \<Longrightarrow>
    gate_step s (control_at i (Running revoking callbacks) (s\<lparr>gs_token := token\<rparr>))"
| control_run: "call_at s i (Running revoking (callback # callbacks)) \<Longrightarrow>
    gate_step s (control_at i (Running revoking callbacks) (s\<lparr>gs_ran := gs_ran s @ [callback]\<rparr>))"
| control_ran: "call_at s i (Running revoking []) \<Longrightarrow> gate_step s (control_at i (after_cancel revoking) s)"
| control_revoke: "call_at s i WantsRevoke \<Longrightarrow> gate_free (gs_worker s) \<Longrightarrow>
    gate_step s (control_at i ControlDone (s\<lparr>gs_revoked := True\<rparr>))"
| register_refused: "gs_registering s = None \<Longrightarrow> token_check (gs_token s) = Inl e \<Longrightarrow>
    callback \<notin> set (gs_accepted s @ gs_refused s) \<Longrightarrow> gate_step s (s\<lparr>gs_refused := gs_refused s @ [callback]\<rparr>)"
| register_check: "gs_registering s = None \<Longrightarrow> token_check (gs_token s) = Inr () \<Longrightarrow>
    callback \<notin> set (gs_accepted s @ gs_refused s) \<Longrightarrow> gate_step s (s\<lparr>gs_registering := Some callback\<rparr>)"
| register_push: "gs_registering s = Some callback \<Longrightarrow> token_push callback (gs_token s) = (n, token) \<Longrightarrow>
    gate_step s (s\<lparr>gs_token := token, gs_registering := None, gs_accepted := gs_accepted s @ [callback]\<rparr>)"
| detach: "gs_registering s = None \<Longrightarrow> token_detach n (gs_token s) = (found, token) \<Longrightarrow>
    gate_step s (s\<lparr>gs_token := token,
      gs_detached := gs_detached s @ (case found of None \<Rightarrow> [] | Some callback \<Rightarrow> [callback])\<rparr>)"

definition gate_reachable :: "GateSystem \<Rightarrow> bool" where
  "gate_reachable s \<longleftrightarrow> gate_step\<^sup>*\<^sup>* gate_new s"

lemma gate_reachable_induct [consumes 1, case_names start step]:
  assumes "gate_reachable s" "P gate_new" "\<And>s s'. gate_reachable s \<Longrightarrow> P s \<Longrightarrow> gate_step s s' \<Longrightarrow> P s'"
  shows "P s"
  using assms(1) unfolding gate_reachable_def
  by (induction rule: rtranclp_induct) (use assms(2,3) in \<open>auto simp: gate_reachable_def\<close>)

subsection \<open>Revocation and cancellation are final\<close>

lemmas cross_defs = cross_enter_def cross_check_def control_at_def

lemmas token_defs = token_swap_def token_take_def token_check_def token_push_def token_detach_def

text \<open>Once revoked, no crossing holds the session; a revoked gate's token is cancelled.\<close>

lemma revoked_excludes_crossing: "gate_reachable s \<Longrightarrow> gs_revoked s \<Longrightarrow> \<not> holds_session (gs_worker s)"
proof (induction rule: gate_reachable_induct)
  case (step s s')
  from step.hyps(2) step.IH step.prems show ?case
    by (cases rule: gate_step.cases) (auto simp: cross_defs split: if_splits elim: gate_free.elims)
qed (simp add: gate_new_def)

fun past_swap :: "ControlPc \<Rightarrow> bool" where
  "past_swap (Taking _) = True"
| "past_swap (Running _ _) = True"
| "past_swap WantsRevoke = True"
| "past_swap _ = False"

lemma token_keeps_cancelled:
  "token_push c token = (n, token') \<Longrightarrow> token_cancelled token' = token_cancelled token"
  "token_detach n token = (found, token') \<Longrightarrow> token_cancelled token' = token_cancelled token"
  "token_take token = (cs, token') \<Longrightarrow> token_cancelled token' = token_cancelled token"
  "token_swap token = (b, token') \<Longrightarrow> token_cancelled token' \<and> b = token_cancelled token"
  by (auto simp: token_defs split: option.splits)

lemma past_swap_cancelled:
  "gate_reachable s \<Longrightarrow> (list_ex past_swap (gs_control s) \<longrightarrow> token_cancelled (gs_token s)) \<and>
     (gs_revoked s \<longrightarrow> token_cancelled (gs_token s))"
proof (induction rule: gate_reachable_induct)
  case (step s s')
  have at: "past_swap pc \<Longrightarrow> list_ex past_swap (gs_control s)" if "call_at s i pc" for i pc
    using that by (auto simp: call_at_def list_ex_iff)
  have set: "list_ex past_swap ((gs_control s)[i := pc]) \<Longrightarrow> list_ex past_swap (gs_control s) \<or> past_swap pc" for i pc
    using set_update_subset_insert [of "gs_control s" i pc] by (auto simp: list_ex_iff)
  from step.hyps(2) step.IH show ?case
    by (cases rule: gate_step.cases)
      (auto simp: control_at_def token_keeps_cancelled dest!: set dest: token_keeps_cancelled(4) at split: if_splits)
qed (simp add: gate_new_def)

text \<open>What the gate says, and what later crossings get.\<close>

abbreviation gate_state_of :: "GateSystem \<Rightarrow> GateState" where
  "gate_state_of s \<equiv> gate_state (gs_revoked s) (gs_session_alive s) (token_cancelled (gs_token s))"

lemma gate_step_revoked:
  assumes "gate_reachable s" "gate_step s s'" "gs_revoked s"
  shows "gs_revoked s' \<and> (\<exists>later. gs_crossed s' = gs_crossed s @ later \<and> (\<forall>x\<in>set later. snd x = CrossedRevoked))"
  using assms(2,3) revoked_excludes_crossing [OF assms(1,3)]
  by (cases rule: gate_step.cases) (auto simp: cross_defs)

lemma gate_step_cancelled:
  assumes "gate_step s s'" "token_cancelled (gs_token s)"
  shows "token_cancelled (gs_token s')"
  using assms by (cases rule: gate_step.cases) (auto simp: control_at_def token_keeps_cancelled dest: token_keeps_cancelled(4))

lemma gate_step_shut:
  assumes "gate_step s s'"
  shows "gs_revoked s \<Longrightarrow> gs_revoked s'" "\<not> gs_session_alive s \<Longrightarrow> \<not> gs_session_alive s'"
  using assms by (cases rule: gate_step.cases; simp add: control_at_def)+

text \<open>The outcome of one crossing while the token is cancelled: an effect never runs, a report runs while the gate is open.\<close>

fun cancelled_outcome :: "bool \<Rightarrow> CrossKind \<times> Crossed \<Rightarrow> bool" where
  "cancelled_outcome open_gate (CrossEffect, crossed) = (if open_gate then crossed = CrossedCancelled else crossed \<noteq> CrossedRan)"
| "cancelled_outcome open_gate (CrossReport, crossed) = (if open_gate then crossed = CrossedRan else crossed \<noteq> CrossedCancelled)"

lemma cancelled_outcome_mono: "cancelled_outcome g x \<Longrightarrow> (g' \<Longrightarrow> g) \<Longrightarrow> cancelled_outcome g' x"
  by (cases x; cases "fst x"; cases g; cases g') auto

lemma cancelled_step_outcomes:
  assumes "gate_step s s'" "token_cancelled (gs_token s)"
  shows "\<exists>new. gs_crossed s' = gs_crossed s @ new \<and>
    (\<forall>x\<in>set new. cancelled_outcome (\<not> gs_revoked s' \<and> gs_session_alive s') x)"
  using assms(1)
proof (cases rule: gate_step.cases)
  case (cross_entered kind r)
  then show ?thesis by (cases kind) (auto simp: cross_defs split: if_splits)
next
  case (cross_checked kind r)
  then show ?thesis using assms(2) by (cases kind) (auto simp: cross_defs)
qed (auto simp: control_at_def)

lemma gate_reachable_steps: "gate_reachable s \<Longrightarrow> gate_step\<^sup>*\<^sup>* s s' \<Longrightarrow> gate_reachable s'"
  unfolding gate_reachable_def by (rule rtranclp_trans)

lemma later_revoked:
  assumes "gate_step\<^sup>*\<^sup>* s s'" "gate_reachable s" "gs_revoked s"
  shows "gs_revoked s' \<and> (\<exists>later. gs_crossed s' = gs_crossed s @ later \<and> (\<forall>x\<in>set later. snd x = CrossedRevoked))"
  using assms
proof (induction rule: rtranclp_induct)
  case (step s' s'')
  then have "gate_reachable s'" "gs_revoked s'"
    using gate_reachable_steps by blast+
  from gate_step_revoked [OF this(1) step.hyps(2) this(2)] step show ?case
    by fastforce
qed simp

lemma later_cancelled:
  assumes "gate_step\<^sup>*\<^sup>* s s'" "token_cancelled (gs_token s)"
  shows "token_cancelled (gs_token s') \<and>
    (\<exists>later. gs_crossed s' = gs_crossed s @ later \<and> (\<forall>x\<in>set later. cancelled_outcome (\<not> gs_revoked s' \<and> gs_session_alive s') x))"
  using assms
proof (induction rule: rtranclp_induct)
  case (step s' s'')
  then have cancelled: "token_cancelled (gs_token s')" by blast
  from step obtain later where later: "gs_crossed s' = gs_crossed s @ later"
    "\<forall>x\<in>set later. cancelled_outcome (\<not> gs_revoked s' \<and> gs_session_alive s') x" by blast
  obtain new where new: "gs_crossed s'' = gs_crossed s' @ new"
    "\<forall>x\<in>set new. cancelled_outcome (\<not> gs_revoked s'' \<and> gs_session_alive s'') x"
    using cancelled_step_outcomes [OF step.hyps(2) cancelled] by blast
  have "cancelled_outcome (\<not> gs_revoked s'' \<and> gs_session_alive s'') x" if "x \<in> set later" for x
    using bspec [OF later(2) that] by (rule cancelled_outcome_mono) (use gate_step_shut [OF step.hyps(2)] in blast)
  then have "\<forall>x\<in>set (later @ new). cancelled_outcome (\<not> gs_revoked s'' \<and> gs_session_alive s'') x"
    using new(2) unfolding set_append by blast
  moreover have "gs_crossed s'' = gs_crossed s @ later @ new"
    using later(1) new(1) by simp
  ultimately show ?case
    using gate_step_cancelled [OF step.hyps(2) cancelled] by blast
qed simp

subsection \<open>Callbacks\<close>

lemma mset_swap_remove:
  assumes "i < length xs"
  shows "mset xs = add_mset (xs ! i) (mset (swap_remove i xs))"
proof (cases xs rule: rev_cases)
  case (snoc ys z)
  show ?thesis
  proof (cases "i < length ys")
    case True
    then have "swap_remove i xs = ys[i := z]" "xs ! i = ys ! i"
      using snoc by (simp_all add: swap_remove_def list_update_append nth_append)
    then show ?thesis
      using True snoc by (simp add: mset_update)
  next
    case False
    then have "swap_remove i xs = ys" "xs ! i = z"
      using assms snoc by (simp_all add: swap_remove_def list_update_append nth_append)
    then show ?thesis
      using snoc by simp
  qed
qed (use assms in simp)

lemma token_detach_pending:
  assumes "token_detach n token = (found, token')"
  shows "mset (map snd (token_pending token)) =
    mset (case found of None \<Rightarrow> [] | Some c \<Rightarrow> [c]) + mset (map snd (token_pending token'))"
proof (cases "registration_index n token")
  case (Some i)
  then have "i < length (token_pending token)"
    by (auto simp: registration_index_def find_Some_iff)
  from mset_swap_remove [OF this] show ?thesis
    using assms Some by (auto simp: token_detach_def)
qed (use assms in \<open>auto simp: token_detach_def\<close>)

text \<open>The callbacks a call has taken and not yet run, and those of all calls.\<close>

fun taken_by :: "ControlPc \<Rightarrow> nat list" where
  "taken_by (Running _ callbacks) = callbacks"
| "taken_by _ = []"

definition still_to_run :: "GateSystem \<Rightarrow> nat list" where
  "still_to_run s = concat (map taken_by (gs_control s))"

lemma concat_map_update:
  assumes "i < length xs"
  shows "mset (concat (map f (xs[i := x]))) + mset (f (xs ! i)) = mset (concat (map f xs)) + mset (f x)"
  using assms
proof (induction xs arbitrary: i)
  case (Cons y ys)
  then show ?case
    by (cases i) (simp_all add: ac_simps)
qed simp

lemma still_to_run_at:
  assumes "call_at s i pc" "gs_control s' = gs_control s"
  shows "mset (still_to_run (control_at i pc' s')) + mset (taken_by pc) = mset (still_to_run s) + mset (taken_by pc')"
  using assms concat_map_update [of i "gs_control s" taken_by pc']
  by (simp add: still_to_run_def control_at_def call_at_def)

lemma callback_account:
  "gate_reachable s \<Longrightarrow> mset (gs_accepted s) =
     mset (map snd (token_pending (gs_token s))) + mset (still_to_run s) + mset (gs_ran s) + mset (gs_detached s)"
proof (induction rule: gate_reachable_induct)
  case (step s s')
  from step.hyps(2) step.IH show ?case
  proof (cases rule: gate_step.cases)
    case (detach n found token)
    with step.IH token_detach_pending [OF detach(3)] show ?thesis
      by (simp add: still_to_run_def ac_simps)
  next
    case (control_swap i revoking already token)
    with still_to_run_at [OF control_swap(2), where s' = "s\<lparr>gs_token := token\<rparr>"
          and pc' = "if already then after_cancel revoking else Taking revoking"] step.IH show ?thesis
      by (cases revoking) (auto simp: control_at_def token_swap_def split: if_splits)
  next
    case (control_take i revoking callbacks token)
    with still_to_run_at [OF control_take(2), where s' = "s\<lparr>gs_token := token\<rparr>" and pc' = "Running revoking callbacks"]
      step.IH show ?thesis
      by (auto simp: control_at_def token_take_def ac_simps)
  next
    case (control_run i revoking callback callbacks)
    with still_to_run_at [OF control_run(2), where s' = "s\<lparr>gs_ran := gs_ran s @ [callback]\<rparr>"
          and pc' = "Running revoking callbacks"] step.IH show ?thesis
      by (auto simp: control_at_def ac_simps)
  next
    case (control_ran i revoking)
    with still_to_run_at [OF control_ran(2), where s' = s and pc' = "after_cancel revoking"] step.IH show ?thesis
      by (cases revoking) (auto simp: control_at_def)
  next
    case (control_revoke i)
    with still_to_run_at [OF control_revoke(2), where s' = "s\<lparr>gs_revoked := True\<rparr>" and pc' = ControlDone] step.IH show ?thesis
      by (auto simp: control_at_def)
  qed (auto simp: still_to_run_def token_push_def)
qed (simp add: gate_new_def token_new_def still_to_run_def)

text \<open>Once the token is cancelled, a call is about to take the callbacks, or none is left or being registered.\<close>

fun is_taking :: "ControlPc \<Rightarrow> bool" where
  "is_taking (Taking _) = True"
| "is_taking _ = False"

lemma taking_update:
  assumes "call_at s i pc" "\<not> is_taking pc" "list_ex is_taking (gs_control s)"
  shows "list_ex is_taking ((gs_control s)[i := pc'])"
proof -
  obtain j where j: "j < length (gs_control s)" "is_taking (gs_control s ! j)"
    using assms(3) by (auto simp: list_ex_length)
  with assms(1,2) have "i \<noteq> j"
    by (auto simp: call_at_def)
  with j show ?thesis
    by (auto simp: list_ex_length)
qed

lemma taking_set: "call_at s i pc \<Longrightarrow> is_taking pc' \<Longrightarrow> list_ex is_taking ((gs_control s)[i := pc'])"
  by (auto simp: call_at_def list_ex_length)

lemma cancelled_leaves_nothing:
  "gate_reachable s \<Longrightarrow> token_cancelled (gs_token s) \<Longrightarrow> list_ex is_taking (gs_control s) \<or>
     token_pending (gs_token s) = [] \<and> gs_registering s = None"
proof (induction rule: gate_reachable_induct)
  case (step s s')
  from step.hyps(2) step.IH step.prems show ?case
  proof (cases rule: gate_step.cases)
    case (control_swap i revoking already token)
    with step.IH taking_update [OF control_swap(2)] taking_set [OF control_swap(2)] show ?thesis
      by (auto simp: control_at_def token_swap_def)
  next
    case (control_run i revoking callback callbacks)
    with step.IH step.prems taking_update [OF control_run(2)] show ?thesis
      by (auto simp: control_at_def)
  next
    case (control_ran i revoking)
    with step.IH step.prems taking_update [OF control_ran(2)] show ?thesis
      by (auto simp: control_at_def)
  next
    case (control_revoke i)
    with step.IH step.prems taking_update [OF control_revoke(2)] show ?thesis
      by (auto simp: control_at_def)
  qed (auto simp: control_at_def token_defs registration_index_def split: if_splits option.splits)
qed (simp add: gate_new_def token_new_def)

lemma callbacks_distinct:
  "gate_reachable s \<Longrightarrow> distinct (gs_accepted s) \<and> set (gs_accepted s) \<inter> set (gs_refused s) = {} \<and>
     (\<forall>c. gs_registering s = Some c \<longrightarrow> c \<notin> set (gs_accepted s @ gs_refused s))"
proof (induction rule: gate_reachable_induct)
  case (step s s')
  from step.hyps(2) step.IH show ?case
    by (cases rule: gate_step.cases) (auto simp: control_at_def)
qed (simp add: gate_new_def)

text \<open>
  A run: callback 7 is registered, a call of \<open>revoke\<close> cancels, runs the callback, and revokes; an effect that comes
  between the cancellation and the revocation is refused as cancelled, one that comes after it as revoked.
\<close>

definition registered_gate :: GateSystem where
  "registered_gate = gate_new\<lparr>gs_token := snd (token_push 7 token_new), gs_accepted := [7]\<rparr>"

definition cancelled_gate :: GateSystem where
  "cancelled_gate =
     gate_new\<lparr>gs_token := \<lparr>token_cancelled = True, token_next = 1, token_pending = []\<rparr>,
        gs_control := [WantsRevoke], gs_accepted := [7], gs_ran := [7]\<rparr>"

definition crossed_gate :: "Crossed \<Rightarrow> GateSystem \<Rightarrow> GateSystem" where
  "crossed_gate crossed s = s\<lparr>gs_crossed := gs_crossed s @ [(CrossEffect, crossed)]\<rparr>"

definition revoked_gate :: GateSystem where
  "revoked_gate = control_at 0 ControlDone (cancelled_gate\<lparr>gs_revoked := True\<rparr>)"

lemma registered_gate_reachable: "gate_reachable registered_gate"
proof -
  have "gate_step gate_new (gate_new\<lparr>gs_registering := Some 7\<rparr>)"
    by (rule register_check) (simp_all add: gate_new_def token_new_def token_check_def)
  moreover have "gate_step (gate_new\<lparr>gs_registering := Some 7\<rparr>) registered_gate"
    using register_push [of "gate_new\<lparr>gs_registering := Some 7\<rparr>" 7 0]
    by (simp add: gate_new_def token_new_def token_push_def registered_gate_def)
  ultimately show ?thesis
    unfolding gate_reachable_def by (meson rtranclp.rtrancl_into_rtrancl rtranclp.rtrancl_refl)
qed

lemma registered_gate_cancels: "gate_step\<^sup>*\<^sup>* registered_gate cancelled_gate"
proof -
  let ?s = "\<lambda>pc. registered_gate\<lparr>gs_control := [pc]\<rparr>"
  let ?empty = "\<lparr>token_cancelled = True, token_next = 1, token_pending = []\<rparr>"
  let ?s2 = "(?s (Taking True))\<lparr>gs_token := (gs_token registered_gate)\<lparr>token_cancelled := True\<rparr>\<rparr>"
  let ?s3 = "(?s (Running True [7]))\<lparr>gs_token := ?empty\<rparr>"
  let ?s4 = "(?s (Running True []))\<lparr>gs_token := ?empty, gs_ran := [7]\<rparr>"
  note defs = control_at_def call_at_def registered_gate_def gate_new_def token_new_def token_push_def
  have "gate_step registered_gate (?s (Swapping True))"
    using control_begin [of registered_gate True] by (simp add: defs)
  moreover have "gate_step (?s (Swapping True)) ?s2"
    using control_swap [of "?s (Swapping True)" 0 True False] by (simp add: defs token_swap_def)
  moreover have "gate_step ?s2 ?s3"
    using control_take [of ?s2 0 True "[7]"] by (simp add: defs token_take_def)
  moreover have "gate_step ?s3 ?s4"
    using control_run [of ?s3 0 True 7 "[]"] by (simp add: defs)
  moreover have "gate_step ?s4 cancelled_gate"
    using control_ran [of ?s4 0 True] by (simp add: defs cancelled_gate_def)
  ultimately show ?thesis
    by (meson rtranclp.rtrancl_into_rtrancl rtranclp.rtrancl_refl)
qed

lemma cancelled_gate_reachable: "gate_reachable cancelled_gate"
  using registered_gate_reachable registered_gate_cancels by (rule gate_reachable_steps)

lemma revoked_gate_reachable: "gate_reachable revoked_gate"
proof -
  have "gate_step cancelled_gate revoked_gate"
    using control_revoke [of cancelled_gate 0]
    by (simp add: cancelled_gate_def revoked_gate_def control_at_def call_at_def gate_new_def)
  then show ?thesis
    using cancelled_gate_reachable gate_reachable_steps by blast
qed

lemma cancelled_gate_refuses: "gate_step\<^sup>*\<^sup>* cancelled_gate (crossed_gate CrossedCancelled cancelled_gate)"
proof -
  let ?at = "\<lambda>pc. cancelled_gate\<lparr>gs_worker := pc\<rparr>"
  have "gate_step cancelled_gate (?at (WantsGate CrossEffect))"
    by (rule cross_begin) (simp add: cancelled_gate_def control_at_def gate_new_def)
  moreover have "gate_step (?at (WantsGate CrossEffect)) (?at (HoldsGate CrossEffect))"
    using cross_lock [of "?at (WantsGate CrossEffect)"] by simp
  moreover have "gate_step (?at (HoldsGate CrossEffect)) (?at (HoldsSession CrossEffect))"
    using cross_entered [of "?at (HoldsGate CrossEffect)" CrossEffect]
    by (simp add: cross_enter_def cancelled_gate_def control_at_def gate_new_def)
  moreover have "gate_step (?at (HoldsSession CrossEffect)) (crossed_gate CrossedCancelled cancelled_gate)"
    using cross_checked [of "?at (HoldsSession CrossEffect)" CrossEffect]
    by (simp add: cross_check_def crossed_gate_def cancelled_gate_def control_at_def gate_new_def)
  ultimately show ?thesis
    by (meson rtranclp.rtrancl_into_rtrancl rtranclp.rtrancl_refl)
qed

lemma revoked_gate_refuses: "gate_step\<^sup>*\<^sup>* revoked_gate (crossed_gate CrossedRevoked revoked_gate)"
proof -
  let ?at = "\<lambda>pc. revoked_gate\<lparr>gs_worker := pc\<rparr>"
  have "gate_step revoked_gate (?at (WantsGate CrossEffect))"
    by (rule cross_begin) (simp add: revoked_gate_def cancelled_gate_def control_at_def gate_new_def)
  moreover have "gate_step (?at (WantsGate CrossEffect)) (?at (HoldsGate CrossEffect))"
    using cross_lock [of "?at (WantsGate CrossEffect)"] by simp
  moreover have "gate_step (?at (HoldsGate CrossEffect)) (crossed_gate CrossedRevoked revoked_gate)"
    using cross_entered [of "?at (HoldsGate CrossEffect)" CrossEffect]
    by (simp add: cross_enter_def crossed_gate_def revoked_gate_def cancelled_gate_def control_at_def gate_new_def)
  ultimately show ?thesis
    by (meson rtranclp.rtrancl_into_rtrancl rtranclp.rtrancl_refl)
qed

text \<open>
  C26. A revoked gate stays shut. Once a revoke has returned, whatever the worker, the record's threads
  and the session do after it, the gate says so, the token is cancelled, no crossing's closure runs or
  holds the session, and every crossing that comes back is refused as revoked, an effect as
  \<open>Refused::Revoked\<close> and a report as ignored, without its closure having run.
\<close>

theorem revoked_gate_stays_shut:
  assumes "gate_reachable s" "gs_revoked s" "gate_step\<^sup>*\<^sup>* s s'"
  shows "gate_state (gs_revoked s') (gs_session_alive s') (token_cancelled (gs_token s')) = GateRevoked
    \<and> token_cancelled (gs_token s')
    \<and> \<not> holds_session (gs_worker s')
    \<and> (\<exists>later. gs_crossed s' = gs_crossed s @ later \<and>
         (\<forall>x\<in>set later. refusable_result (snd x) = Inl RefusedRevoked \<and> report_result (snd x) = None))"
proof -
  have reachable: "gate_reachable s'"
    using assms(1,3) by (rule gate_reachable_steps)
  have later: "gs_revoked s'" "\<exists>later. gs_crossed s' = gs_crossed s @ later \<and> (\<forall>x\<in>set later. snd x = CrossedRevoked)"
    using later_revoked [OF assms(3,1,2)] by blast+
  have "token_cancelled (gs_token s')"
    using past_swap_cancelled [OF reachable] later(1) by blast
  with later revoked_excludes_crossing [OF reachable later(1)] show ?thesis
    by (fastforce simp: gate_state_def)
qed

theorem revoked_gate_stays_shut_witness:
  "gate_state (gs_revoked (crossed_gate CrossedRevoked revoked_gate)) True True = GateRevoked \<and>
   gs_crossed (crossed_gate CrossedRevoked revoked_gate) = [(CrossEffect, CrossedRevoked)] \<and>
   \<not> holds_session (gs_worker (crossed_gate CrossedRevoked revoked_gate))"
  using revoked_gate_stays_shut [OF revoked_gate_reachable _ revoked_gate_refuses]
  by (simp add: gate_state_def crossed_gate_def revoked_gate_def cancelled_gate_def control_at_def gate_new_def)

text \<open>
  C27. Cancellation refuses effects and spares reports. From the moment the token is cancelled it stays
  cancelled, and no effect or append passes the gate again: each is refused, as cancelled while the gate
  is open. A report runs while the gate is open, and is never refused as cancelled.
\<close>

theorem cancelled_refuses_effects_only:
  assumes "token_cancelled (gs_token s)" "gate_step\<^sup>*\<^sup>* s s'"
  shows "\<exists>later. token_cancelled (gs_token s') \<and> gs_crossed s' = gs_crossed s @ later \<and>
    (\<forall>(kind, crossed)\<in>set later.
       (kind = CrossEffect \<longrightarrow> refusable_result crossed \<noteq> Inr ()) \<and>
       (kind = CrossReport \<longrightarrow> crossed \<noteq> CrossedCancelled) \<and>
       (\<not> gs_revoked s' \<and> gs_session_alive s' \<longrightarrow>
          (kind = CrossEffect \<longrightarrow> refusable_result crossed = Inl RefusedCancelled) \<and>
          (kind = CrossReport \<longrightarrow> report_result crossed = Some ())))"
proof -
  obtain later where later: "token_cancelled (gs_token s')" "gs_crossed s' = gs_crossed s @ later"
    "\<forall>x\<in>set later. cancelled_outcome (\<not> gs_revoked s' \<and> gs_session_alive s') x"
    using later_cancelled [OF assms(2,1)] by blast
  have "cancelled_outcome open_gate (kind, crossed) \<Longrightarrow>
      (kind = CrossEffect \<longrightarrow> refusable_result crossed \<noteq> Inr ()) \<and> (kind = CrossReport \<longrightarrow> crossed \<noteq> CrossedCancelled) \<and>
      (open_gate \<longrightarrow> (kind = CrossEffect \<longrightarrow> refusable_result crossed = Inl RefusedCancelled) \<and>
         (kind = CrossReport \<longrightarrow> report_result crossed = Some ()))" for open_gate kind crossed
    by (cases kind; cases crossed) (auto split: if_splits)
  with later show ?thesis by fast
qed

theorem cancelled_refuses_effects_only_witness:
  "gs_crossed (crossed_gate CrossedCancelled cancelled_gate) = [(CrossEffect, CrossedCancelled)] \<and>
   token_cancelled (gs_token (crossed_gate CrossedCancelled cancelled_gate))"
  using cancelled_refuses_effects_only [OF _ cancelled_gate_refuses]
  by (simp add: crossed_gate_def cancelled_gate_def control_at_def gate_new_def)

text \<open>
  C28. Each accepted callback runs at most once and none is lost. However registrations, detachments and
  cancellations interleave, a callback the token accepted is pending, taken by a call that cancels, run,
  or detached, and exactly one of them; a refused one is none of them. Once the token is cancelled and
  the calls that cancel have returned, every accepted callback has run exactly once or was detached
  before it was taken, and none is accepted any more.
\<close>

theorem callbacks_run_exactly_once:
  assumes "gate_reachable s"
  shows "distinct (map snd (token_pending (gs_token s)) @ still_to_run s @ gs_ran s @ gs_detached s)
    \<and> set (gs_accepted s) = set (map snd (token_pending (gs_token s)) @ still_to_run s @ gs_ran s @ gs_detached s)
    \<and> set (gs_accepted s) \<inter> set (gs_refused s) = {}
    \<and> (token_cancelled (gs_token s) \<and> list_all (\<lambda>pc. pc = WantsRevoke \<or> pc = ControlDone) (gs_control s) \<longrightarrow>
         set (gs_accepted s) = set (gs_ran s) \<union> set (gs_detached s) \<and>
         token_check (gs_token s) = Inl RefusedCancelled \<and> gs_registering s = None)"
proof -
  let ?parts = "map snd (token_pending (gs_token s)) @ still_to_run s @ gs_ran s @ gs_detached s"
  have account: "mset (gs_accepted s) = mset ?parts"
    using callback_account [OF assms] by (simp add: ac_simps)
  then have sets: "set (gs_accepted s) = set ?parts"
    by (rule mset_eq_setD)
  show ?thesis
  proof (intro conjI impI)
    show "distinct ?parts"
      using callbacks_distinct [OF assms] mset_eq_imp_distinct_iff [OF account] by blast
    show "set (gs_accepted s) \<inter> set (gs_refused s) = {}"
      using callbacks_distinct [OF assms] by blast
    assume returned: "token_cancelled (gs_token s) \<and> list_all (\<lambda>pc. pc = WantsRevoke \<or> pc = ControlDone) (gs_control s)"
    then have "\<not> list_ex is_taking (gs_control s)" "still_to_run s = []"
      by (auto simp: list_ex_iff list_all_iff still_to_run_def)
    with cancelled_leaves_nothing [OF assms] returned
    have "token_pending (gs_token s) = []" "gs_registering s = None" "still_to_run s = []"
      by auto
    then show "set (gs_accepted s) = set (gs_ran s) \<union> set (gs_detached s)" "gs_registering s = None"
      unfolding sets by simp_all
    show "token_check (gs_token s) = Inl RefusedCancelled"
      using returned by (simp add: token_check_def)
  qed (rule sets)
qed

theorem callbacks_run_exactly_once_witness:
  "token_cancelled (gs_token revoked_gate) \<and> {7} = set (gs_ran revoked_gate) \<union> set (gs_detached revoked_gate)"
  using callbacks_run_exactly_once [OF revoked_gate_reachable]
  by (simp add: revoked_gate_def cancelled_gate_def control_at_def gate_new_def)

end
