(* ===== verification/Spec2Isabelle.thy ===== *)
theory Spec2Isabelle
  imports Store_Session Work_Detector History_Proofs Disposal_Index Disposal_Requests Install_Index
    Repo_Factory Import_Proofs Channel_Threads Byte_End Session_Gate
begin

text \<open>
  A verification development of two parts of GWZ (\<open>gwz-core\<close>): the crates of the local clone family,
  which keep several working copies of one workspace side by side, and the session channel, which
  carries frames between a client and the host of a core session.

  \<^bold>\<open>The local clone family.\<close> A family is a root workspace and its members. The root holds an index of
  the members; every member holds a pointer to the root and an allocation marker. The index changes
  only under the family lock, by one of six transitions, and is published as a whole file. Installing a
  member reserves a row, builds the tree and its metadata and then marks the row ready; disposing of
  one inspects its work and history, marks the row, removes the tree and removes the row. Members
  exchange commits by imports and pushes.

  \<^item> \<open>Prelude\<close>, \<open>BTree_Map\<close>: text, results, state operations with their contracts (\<open>triple\<close>), and the
    ordered maps, behind the locale \<open>ordered_map\<close>.
  \<^item> \<open>Unique_Ids\<close> (\<open>crates/ids\<close>): the 64-bit id source; ids never repeat and an exhausted source refuses.
  \<^item> \<open>Family_Names\<close>, \<open>Family_Paths\<close>, \<open>Family_Index\<close>, \<open>Family_Transition\<close> (\<open>crates/family-model/src\<close>:
    \<open>name.rs\<close>, \<open>owner.rs\<close>, \<open>path.rs\<close>, \<open>lib.rs\<close>, \<open>resolve.rs\<close>, \<open>transition.rs\<close>): the values of the index,
    \<open>normalize\<close>, \<open>relate\<close>, the listing, the resolver, \<open>validate_transition\<close> and \<open>validate_view\<close>. The
    invariant \<open>family_ok\<close> is decided by the index check and kept by every accepted change, a change is
    accepted exactly when its guards hold, and what a row is never changes while it stays.
  \<^item> \<open>Host_Files\<close>, \<open>Store_Format\<close>, \<open>Store_Publish\<close>, \<open>Family_Store\<close>, \<open>Store_Proofs\<close>, \<open>Store_Session\<close>
    (\<open>crates/family-store/src\<close>, \<open>crates/family-store-contract/src/lib.rs\<close>): the store over a file system
    in which any system call may fail. Encoding round-trips, publication never tears, and applying a
    change either stores exactly what the transition allows or leaves the index as it was.
  \<^item> \<open>Session_Port\<close>, \<open>Session_Pointer\<close>: the session trait as an interface. The locales \<open>family_session\<close>
    and \<open>installing_session\<close> are the contract its clients rely on; both are interpreted on the store.
  \<^item> \<open>Repo_Contract\<close>, \<open>Work_Detector\<close> (\<open>crates/repo-contract\<close>, \<open>crates/work-detector\<close>): observations of
    repositories and the classifier of unsaved work; the verdict is the documented one, and what
    refuses is never lost.
  \<^item> \<open>History_Check\<close>, \<open>History_Walk\<close>, \<open>History_Proofs\<close> (\<open>crates/history-check/src/lib.rs\<close>): the walk over
    the object graph with its explicit stack and budget. It returns on every store and decides
    preservation and connectivity on acyclic ones.
  \<^item> \<open>Disposal\<close>, \<open>Disposal_Proofs\<close>, \<open>Disposal_Index\<close>, \<open>Disposal_Requests\<close> (\<open>crates/local-disposal/src\<close>):
    requests, validation, inspection and the ordered run. The removal is guarded by every check, but for a
    history that is unknown without a reason, which the code lets through; the reported effects are the
    completed calls, and over the store every outcome leaves an honest index.
  \<^item> \<open>Install\<close>, \<open>Install_Proofs\<close>, \<open>Install_Index\<close> (\<open>crates/copy-contract\<close>, \<open>crates/workspace-install/src\<close>):
    admission, the ordered run and its reports. The calls follow the script, the row is marked ready
    last, and over the store every outcome leaves an honest index.
  \<^item> \<open>Repo_Factory\<close> (\<open>crates/repo-factory/src/lib.rs\<close>): construction of the repositories of a clean or
    bare member; everything is asked before anything is created.
  \<^item> \<open>Local_Import\<close>, \<open>Import_Proofs\<close> (\<open>crates/local-import/src/lib.rs\<close>): pairing by identity, verified
    imports that spare every ref there was, and pushes that follow their plan.

  \<^bold>\<open>The session channel.\<close> Frames, a tag and a body, travel in process through two bounded queues, or over
  a byte stream with a reader thread and a writer that senders share.

  \<^item> \<open>Session_Frames\<close> (\<open>crates/session-contract/src\<close>): frames, tags, carriers, keys, endings and limits.
  \<^item> \<open>In_Process\<close>, \<open>Channel_Threads\<close> (\<open>crates/session-channel/src/in_process.rs\<close>): the channel's critical
    sections as functions of the guarded state, then the threads and condition variables around them as
    a step relation. The state stays well formed, frames arrive in order and once, no wake-up is lost.
  \<^item> \<open>Write_Queue\<close>, \<open>Writer_Turns\<close> (\<open>write_queue.rs\<close> and \<open>Turns\<close> of \<open>byte_stream.rs\<close>): the writer's order
    and the senders that wait for their turn. Order is kept where it must be, nothing is lost, no frame
    starves, one sender at most has the writer, and the sender whose turn it is can always go on.
  \<^item> \<open>Byte_Stream\<close>, \<open>Byte_End\<close> (\<open>byte_stream.rs\<close>): framing over a reader that may return short, be
    interrupted, fail or panic, and one end with its threads as a step relation. Written frames are read
    back; the router hears the frames in order and then the end, once; an ended session winds down.
  \<^item> \<open>Session_Gate\<close> (\<open>crates/session-host/src\<close>: \<open>limits.rs\<close>, \<open>token.rs\<close>, \<open>gate.rs\<close>): the limits of a session,
    and the gate through which a call's worker reaches it, with the token that cancels the call, as a step
    relation. A revoked gate stays shut, a cancelled one refuses effects and lets reports through, and
    cancel callbacks run exactly once.

  \<^bold>\<open>How the code is read.\<close> A struct is a record, an enum a datatype, a \<open>Result\<close> a sum with the error on
  the left; a method on mutable state is a function from state to result and state. Ports (traits the
  crates own or take as arguments) are records of operations on a world and arguments of the
  definitions. Traces and histories that some states carry (\<open>is_trace\<close>, \<open>es_calls\<close>, recording ports)
  are not part of the code: they record calls so that their order can be stated. A lock's critical
  section is one step; what happens outside it is a step of its own.

  \<^bold>\<open>Bounds.\<close> Counters the code keeps in \<open>u64\<close> or \<open>usize\<close> are 64-bit words or saturate at their limit; the
  reported lengths of lists and the read limits are natural numbers.
  Two loops need not end on every input. The walk of the history verifier is an \<open>option\<close>, and that it
  returns is proved under a bookkeeping limit below the largest 64-bit count. \<open>lookup_path\<close> follows at
  most forty links, as the kernel does. Reading from a stream recurses on the list of what the stream
  yields, which is finite: a reader that only ever interrupts is outside the model.

  \<^bold>\<open>What is assumed.\<close> The YAML codec is a parameter with the hypothesis \<open>codec_ok\<close>. The transport of an
  import is a parameter with the hypothesis \<open>transport_laws\<close>. Object readers are functions, acyclic
  where the decision theorems need it. No other process writes into the family's metadata between two
  calls of one operation. Each hypothesis has a witness.

  \<^bold>\<open>Not modelled.\<close> \<open>crates/repo-inspect\<close> and \<open>crates/refcopy\<close> are system calls and libgit2 behind the
  contracts above; \<open>crates/local-testrepo\<close> is test support. The service and the supervisor of
  \<open>crates/session-host\<close> run handler threads over core's ports. Of the core under \<open>src/\<close>, the merge lifecycle and workspace operations, the checked
  artifacts, the git backend, the transport host and its settings, diff, status and stash drive libgit2,
  processes, sockets and platform file systems; the protocol types are generated; and the adapters
  (\<open>local_clone\<close>, \<open>session_host\<close>, \<open>server\<close>) compose these with the crates. Debug texts, the display text
  of \<open>DisposeError\<close> and \<open>FactoryError\<close>, and the wiping of freed memory are left out too.
\<close>

end
